(* ===== verification/Prelude.thy ===== *)
theory Prelude
  imports Main "HOL-Library.Word" "HOL-Library.Multiset"
begin

text \<open>
  Shared vocabulary of the development: the machine types of the C sources, the error codes of
  \<^verbatim>\<open>src/src/utils/utils.h\<close>, exchange of two array slots and the lemma collections that the
  component theories add to.
  \<^item> Pointers are \<^typ>\<open>'a option\<close>: NULL is \<^const>\<open>None\<close>; the address of a heap object is a \<^typ>\<open>nat\<close>.
  \<^item> \<^verbatim>\<open>int32_t\<close>, \<^verbatim>\<open>uint64_t\<close> and so on are words of their width; \<^const>\<open>sint\<close> and
    \<^const>\<open>uint\<close> read them as signed and unsigned numbers.
  \<^item> A call of \<^verbatim>\<open>malloc\<close> whose result the code tests is a boolean or option parameter of the
    operation that makes it, so that both outcomes are covered by every theorem.
\<close>

named_theorems wf_intros \<open>introduction rules for the well-formedness invariants\<close>
named_theorems shape_simps \<open>what an operation leaves unchanged\<close>

type_synonym uint8 = "8 word"
type_synonym uint16 = "16 word"
type_synonym int32 = "32 word"
type_synonym uint32 = "32 word"
type_synonym int64 = "64 word"
type_synonym uint64 = "64 word"
type_synonym addr = nat
type_synonym ptr = "addr option"

subsection \<open>Result codes of SQLite\<close>

definition SQLITE_OK :: int where "SQLITE_OK = 0"
definition SQLITE_BUSY :: int where "SQLITE_BUSY = 5"
definition SQLITE_ROW :: int where "SQLITE_ROW = 100"
definition SQLITE_DONE :: int where "SQLITE_DONE = 101"

lemmas sqlite_codes [simp] = SQLITE_OK_def SQLITE_BUSY_def SQLITE_ROW_def SQLITE_DONE_def

subsection \<open>Exchanging two slots of an array\<close>

definition swap_at :: "nat \<Rightarrow> nat \<Rightarrow> 'a list \<Rightarrow> 'a list" where
  "swap_at i j xs = xs[i := xs ! j, j := xs ! i]"

lemma length_swap_at [simp]: "length (swap_at i j xs) = length xs"
  by (simp add: swap_at_def)

lemma nth_swap_at:
  "\<lbrakk>i < length xs; j < length xs; k < length xs\<rbrakk> \<Longrightarrow>
   swap_at i j xs ! k = (if k = i then xs ! j else if k = j then xs ! i else xs ! k)"
  by (auto simp: swap_at_def nth_list_update)

lemma mset_swap_at [simp]: "i < length xs \<Longrightarrow> j < length xs \<Longrightarrow> mset (swap_at i j xs) = mset xs"
  by (simp add: swap_at_def mset_swap)

lemma take_swap_at:
  "\<lbrakk>i < n; j < n; n \<le> length xs\<rbrakk> \<Longrightarrow> take n (swap_at i j xs) = swap_at i j (take n xs)"
  by (simp add: swap_at_def take_update_swap)

lemma mset_take_swap_at [simp]:
  "\<lbrakk>i < n; j < n; n \<le> length xs\<rbrakk> \<Longrightarrow> mset (take n (swap_at i j xs)) = mset (take n xs)"
  by (simp add: take_swap_at)

lemma drop_swap_at [simp]:
  "\<lbrakk>i < n; j < n\<rbrakk> \<Longrightarrow> drop n (swap_at i j xs) = drop n xs"
  by (simp add: swap_at_def)

lemma set_take_mono: "m \<le> n \<Longrightarrow> set (take m xs) \<subseteq> set (take n xs)"
  by (rule set_take_subset_set_take)

lemma nth_in_set_take: "i < n \<Longrightarrow> n \<le> length xs \<Longrightarrow> xs ! i \<in> set (take n xs)"
  by (metis length_take min.absorb2 nth_mem nth_take)

lemma sum_list_update:
  fixes f :: "'a \<Rightarrow> 'b::comm_monoid_add"
  shows "i < length xs \<Longrightarrow> sum_list (map f (xs[i := y])) + f (xs ! i) = sum_list (map f xs) + f y"
proof (induction xs arbitrary: i)
  case (Cons x xs)
  show ?case
  proof (cases i)
    case 0
    then show ?thesis by (simp add: ac_simps)
  next
    case (Suc j)
    then show ?thesis using Cons by (simp add: add.assoc)
  qed
qed simp

subsection \<open>Signed reading of machine subtraction\<close>

text \<open>
  A difference of two 32-bit numbers that both lie in the lower half of the range is exact:
  the machine subtraction does not wrap.
\<close>

definition small32 :: "32 word \<Rightarrow> bool" where
  "small32 x \<longleftrightarrow> - (2 ^ 30) \<le> sint x \<and> sint x < 2 ^ 30"

lemma sint_eq_of_int_32: "\<lbrakk>- (2 ^ 31) \<le> z; z < 2 ^ 31\<rbrakk> \<Longrightarrow> sint (word_of_int z :: 32 word) = z"
  by (simp add: sint_sbintrunc' signed_take_bit_int_eq_self)

lemma sint_sub_32:
  fixes x y :: "32 word"
  assumes "- (2 ^ 31) \<le> sint x - sint y" and "sint x - sint y < 2 ^ 31"
  shows "sint (x - y) = sint x - sint y"
proof -
  have "x - y = word_of_int (sint x - sint y)" by simp
  then show ?thesis using assms by (metis sint_eq_of_int_32)
qed

lemma small32_sub: "small32 x \<Longrightarrow> small32 y \<Longrightarrow> sint (x - y) = sint x - sint y"
  by (rule sint_sub_32) (auto simp: small32_def)

end
