(* ===== verification/Priority_Queue.thy ===== *)
theory Priority_Queue
  imports Prelude
begin

text \<open>
  The bounded binary heap of \<^verbatim>\<open>src/src/utils/priority_queue/priority_queue.c\<close>.
  A queue is the record \<open>pq_t\<close>: the element array (\<^const>\<open>None\<close> for a NULL pointer) of \<open>capacity\<close>
  slots, the number of slots in use, and the comparison function. A comparison may read the
  monotonic clock (\<^verbatim>\<open>aging_compare\<close> does), so the function takes the value of
  \<^verbatim>\<open>gettime_msec()\<close> at the moment of the call; an operation takes a clock
  \<open>now\<close>, where \<open>now n\<close> is the reading at its \<open>n\<close>-th comparison. The mutex makes every operation
  one atomic step; the condition variable is modelled in the last section, where pushing, popping
  and waiting are the steps of several threads.
\<close>

subsection \<open>Data\<close>

record 'v pv_t =
  pv_priority :: int32
  pv_value :: "'v option"
  pv_timestamp :: uint64

type_synonym 'v compare_fn = "uint64 \<Rightarrow> 'v pv_t \<Rightarrow> 'v pv_t \<Rightarrow> int32"

record 'v pq_t =
  pq_elements :: "'v pv_t list option"
  pq_capacity :: int
  pq_size :: nat
  pq_compare :: "'v compare_fn"

definition elems :: "'v pq_t \<Rightarrow> 'v pv_t list" where
  "elems q = (case pq_elements q of None \<Rightarrow> [] | Some xs \<Rightarrow> xs)"

definition empty_pv :: "'v pv_t" where
  "empty_pv = \<lparr>pv_priority = 0, pv_value = None, pv_timestamp = 0\<rparr>"

subsection \<open>Creation and the comparison functions\<close>

text \<open>
  \<open>obj_ok\<close> is the outcome of the first \<^verbatim>\<open>malloc\<close>; \<open>block\<close> is what the second one returned, an
  array of \<open>capacity\<close> uninitialised slots or NULL.
\<close>

definition pq_init :: "bool \<Rightarrow> 'v pv_t list option \<Rightarrow> int \<Rightarrow> 'v compare_fn option \<Rightarrow> 'v pq_t option" where
  "pq_init obj_ok block cap cmp =
     (case cmp of
        None \<Rightarrow> None
      | Some c \<Rightarrow>
          if \<not> obj_ok then None
          else if block = None then None
          else Some \<lparr>pq_elements = block, pq_capacity = cap, pq_size = 0, pq_compare = c\<rparr>)"

text \<open>
  \<^verbatim>\<open>pq_delete\<close> releases the array and then the queue object. Its result is the returned flag and
  the blocks it releases, in order; the queue must not be used afterwards.
\<close>

datatype pq_block = PqElements | PqObject

definition pq_delete :: "'v pq_t option \<Rightarrow> bool \<times> pq_block list" where
  "pq_delete pq =
     (case pq of
        None \<Rightarrow> (True, [])
      | Some q \<Rightarrow> (True, (if pq_elements q \<noteq> None then [PqElements] else []) @ [PqObject]))"

definition AGING_TIME :: uint64 where
  "AGING_TIME = 1000"

definition age :: "uint64 \<Rightarrow> 'v pv_t \<Rightarrow> int32" where
  "age now a = ucast ((now - pv_timestamp a) div AGING_TIME)"

definition aging_compare :: "'v compare_fn" where
  "aging_compare now a b =
     (let eff_a = pv_priority a + age now a; eff_b = pv_priority b + age now b in eff_b - eff_a)"

definition max_heap_compare :: "'v compare_fn" where
  "max_heap_compare now a b = pv_priority a - pv_priority b"

definition min_heap_compare :: "'v compare_fn" where
  "min_heap_compare now a b = pv_priority b - pv_priority a"

subsection \<open>Pushing\<close>

definition pq_full :: "'v pq_t option \<Rightarrow> bool" where
  "pq_full pq = (case pq of None \<Rightarrow> True | Some q \<Rightarrow> int (pq_size q) \<ge> pq_capacity q)"

definition pq_empty :: "'v pq_t option \<Rightarrow> bool" where
  "pq_empty pq = (case pq of None \<Rightarrow> True | Some q \<Rightarrow> pq_size q = 0)"

definition swap_elements :: "nat \<Rightarrow> nat \<Rightarrow> 'v pv_t list \<Rightarrow> 'v pv_t list" where
  "swap_elements father chil xs = (let tmp = xs ! father in xs[father := xs ! chil, chil := tmp])"

function sift_up :: "'v compare_fn \<Rightarrow> (nat \<Rightarrow> uint64) \<Rightarrow> nat \<Rightarrow> nat \<Rightarrow> 'v pv_t list \<Rightarrow> 'v pv_t list" where
  "sift_up cmp now n index xs =
     (if index > 0 then
        (let parent = (index - 1) div 2 in
         if sint (cmp (now n) (xs ! parent) (xs ! index)) \<ge> 0 then xs
         else sift_up cmp now (Suc n) parent (swap_elements parent index xs))
      else xs)"
  by pat_completeness auto
termination
  by (relation "measure (\<lambda>(cmp, now, n, index, xs). index)") auto

declare sift_up.simps [simp del]

definition priority_queue_push ::
  "(nat \<Rightarrow> uint64) \<Rightarrow> 'v pq_t option \<Rightarrow> 'v pv_t \<Rightarrow> bool \<times> 'v pq_t option" where
  "priority_queue_push now pq item =
     (case pq of
        None \<Rightarrow> (False, None)
      | Some q \<Rightarrow>
          (case pq_elements q of
             None \<Rightarrow> (False, Some q)
           | Some xs \<Rightarrow>
               if pq_full (Some q) then (False, Some q)
               else
                 (let index = pq_size q;
                      xs1 = xs[index := item];
                      q1 = q\<lparr>pq_size := pq_size q + 1\<rparr>
                  in (True, Some (q1\<lparr>pq_elements := Some (sift_up (pq_compare q) now 0 index xs1)\<rparr>)))))"

subsection \<open>Popping\<close>

definition pq_top :: "'v pq_t option \<Rightarrow> 'v pv_t" where
  "pq_top pq =
     (case pq of
        None \<Rightarrow> empty_pv
      | Some q \<Rightarrow> if pq_size q = 0 then empty_pv else elems q ! 0)"

text \<open>
  One round of the sift-down loop chooses the largest of a node and its children; the first
  component of the result counts the comparisons made so far.
\<close>

definition largest_index ::
  "'v compare_fn \<Rightarrow> (nat \<Rightarrow> uint64) \<Rightarrow> nat \<Rightarrow> nat \<Rightarrow> nat \<Rightarrow> 'v pv_t list \<Rightarrow> nat \<times> nat" where
  "largest_index cmp now n sz father xs =
     (let left_child = 2 * father + 1;
          right_child = 2 * father + 2;
          (n1, l1) =
            (if left_child < sz
             then (Suc n, if sint (cmp (now n) (xs ! left_child) (xs ! father)) > 0
                          then left_child else father)
             else (n, father))
      in if right_child < sz
         then (Suc n1, if sint (cmp (now n1) (xs ! right_child) (xs ! l1)) > 0
                       then right_child else l1)
         else (n1, l1))"

lemma largest_index_cases:
  assumes "largest_index cmp now n sz father xs = (n', l)"
  shows "l = father \<or> (l = 2 * father + 1 \<or> l = 2 * father + 2) \<and> l < sz"
  using assms by (auto simp: largest_index_def Let_def split: if_splits)

function sift_down ::
  "'v compare_fn \<Rightarrow> (nat \<Rightarrow> uint64) \<Rightarrow> nat \<Rightarrow> nat \<Rightarrow> nat \<Rightarrow> 'v pv_t list \<Rightarrow> 'v pv_t list" where
  "sift_down cmp now n sz father xs =
     (case largest_index cmp now n sz father xs of
        (n', l) \<Rightarrow>
          if l = father then xs
          else sift_down cmp now n' sz l (swap_elements father l xs))"
  by pat_completeness auto
termination
  by (relation "measure (\<lambda>(cmp, now, n, sz, father, xs). sz - father)")
    (auto dest!: largest_index_cases [OF sym])

declare sift_down.simps [simp del]

text \<open>The part of popping that both variants share, under the mutex, on a queue that is not empty.\<close>

definition pop_root :: "(nat \<Rightarrow> uint64) \<Rightarrow> 'v pq_t \<Rightarrow> 'v pv_t \<times> 'v pq_t" where
  "pop_root now q =
     (let xs = elems q;
          item = xs ! 0;
          sz = pq_size q - 1;
          xs1 = xs[0 := xs ! sz]
      in (item, q\<lparr>pq_size := sz, pq_elements := Some (sift_down (pq_compare q) now 0 sz 0 xs1)\<rparr>))"

text \<open>
  \<open>item\<close> is the caller's buffer: \<^const>\<open>None\<close> when the caller passes NULL. The result is the
  returned flag, the buffer and the queue.
\<close>

definition priority_queue_try_pop ::
  "(nat \<Rightarrow> uint64) \<Rightarrow> 'v pq_t option \<Rightarrow> 'v pv_t option \<Rightarrow> bool \<times> 'v pv_t option \<times> 'v pq_t option" where
  "priority_queue_try_pop now pq item =
     (case (pq, item) of
        (Some q, Some _) \<Rightarrow>
          if pq_empty (Some q) then (False, item, Some q)
          else (case pop_root now q of (x, q') \<Rightarrow> (True, Some x, Some q'))
      | _ \<Rightarrow> (False, item, pq))"

text \<open>
  The blocking variant: \<^const>\<open>None\<close> says that the caller waits on the condition variable,
  because the queue is empty.
\<close>

definition priority_queue_pop ::
  "(nat \<Rightarrow> uint64) \<Rightarrow> 'v pq_t option \<Rightarrow> 'v pv_t option \<Rightarrow>
   (bool \<times> 'v pv_t option \<times> 'v pq_t option) option" where
  "priority_queue_pop now pq item =
     (case (pq, item) of
        (Some q, Some _) \<Rightarrow>
          if pq_empty (Some q) then None
          else Some (case pop_root now q of (x, q') \<Rightarrow> (True, Some x, Some q'))
      | _ \<Rightarrow> Some (False, item, pq))"

subsection \<open>Clearing\<close>

text \<open>
  With a callback, the loop hands every non-NULL value of a used slot to it and clears the slot.
  The second component of the result is the sequence of values handed over.
\<close>

fun clear_slots :: "nat \<Rightarrow> 'v pv_t list \<Rightarrow> 'v list \<times> 'v pv_t list" where
  "clear_slots 0 xs = ([], xs)"
| "clear_slots (Suc k) [] = ([], [])"
| "clear_slots (Suc k) (x # xs) =
     (case clear_slots k xs of
        (fs, ys) \<Rightarrow>
          (case pv_value x of
             None \<Rightarrow> (fs, x # ys)
           | Some v \<Rightarrow> (v # fs, x\<lparr>pv_value := None\<rparr> # ys)))"

definition priority_queue_clear :: "'v pq_t option \<Rightarrow> bool \<Rightarrow> bool \<times> 'v list \<times> 'v pq_t option" where
  "priority_queue_clear pq has_callback =
     (case pq of
        None \<Rightarrow> (False, [], None)
      | Some q \<Rightarrow>
          if has_callback then
            (case clear_slots (pq_size q) (elems q) of
               (freed, xs) \<Rightarrow> (True, freed, Some (q\<lparr>pq_elements := map_option (\<lambda>_. xs) (pq_elements q), pq_size := 0\<rparr>)))
          else (True, [], Some (q\<lparr>pq_size := 0\<rparr>)))"

subsection \<open>Invariants\<close>

text \<open>
  \<open>pq_wf\<close> is the shape every operation relies on: the array exists, it has \<open>capacity\<close> slots and the
  used part fits. \<open>heap_upto key n xs\<close> is the heap order of the first \<open>n\<close> slots for the priority
  \<open>key\<close> (largest at the root); \<open>heap_but_up\<close> and \<open>heap_but_down\<close> are the same order with one slot
  still to be moved towards the root or towards the leaves.
\<close>

definition pq_wf :: "'v pq_t \<Rightarrow> bool" where
  "pq_wf q \<longleftrightarrow>
     pq_elements q \<noteq> None \<and> int (length (elems q)) = pq_capacity q \<and> pq_size q \<le> length (elems q)"

definition pq_items :: "'v pq_t \<Rightarrow> 'v pv_t list" where
  "pq_items q = take (pq_size q) (elems q)"

definition parent :: "nat \<Rightarrow> nat" where
  "parent i = (i - 1) div 2"

definition heap_upto :: "('e \<Rightarrow> int) \<Rightarrow> nat \<Rightarrow> 'e list \<Rightarrow> bool" where
  "heap_upto key n xs \<longleftrightarrow> (\<forall>i<n. 0 < i \<longrightarrow> key (xs ! i) \<le> key (xs ! parent i))"

definition heap_but_up :: "('e \<Rightarrow> int) \<Rightarrow> nat \<Rightarrow> nat \<Rightarrow> 'e list \<Rightarrow> bool" where
  "heap_but_up key n k xs \<longleftrightarrow>
     (\<forall>i<n. 0 < i \<longrightarrow> i \<noteq> k \<longrightarrow> key (xs ! i) \<le> key (xs ! parent i)) \<and>
     (\<forall>i<n. 0 < i \<longrightarrow> 0 < k \<longrightarrow> parent i = k \<longrightarrow> key (xs ! i) \<le> key (xs ! (parent k)))"

definition heap_but_down :: "('e \<Rightarrow> int) \<Rightarrow> nat \<Rightarrow> nat \<Rightarrow> 'e list \<Rightarrow> bool" where
  "heap_but_down key n k xs \<longleftrightarrow>
     (\<forall>i<n. 0 < i \<longrightarrow> parent i \<noteq> k \<longrightarrow> key (xs ! i) \<le> key (xs ! parent i)) \<and>
     (\<forall>i<n. 0 < i \<longrightarrow> 0 < k \<longrightarrow> parent i = k \<longrightarrow> key (xs ! i) \<le> key (xs ! (parent k)))"

subsection \<open>What the loops keep\<close>

lemma swap_elements_eq [simp]: "swap_elements i j xs = swap_at i j xs"
  by (simp add: swap_elements_def swap_at_def Let_def)

lemma child_index: "0 < i \<Longrightarrow> parent i = k \<longleftrightarrow> i = 2 * k + 1 \<or> i = 2 * k + 2"
  unfolding parent_def by presburger

lemma parent_less: "0 < i \<Longrightarrow> parent i < i"
  unfolding parent_def by presburger

lemma parent_bound: "i < m \<Longrightarrow> parent i < m"
  unfolding parent_def by presburger

lemma sift_up_unfold:
  "sift_up cmp now n k xs =
     (if k > 0 then
        if sint (cmp (now n) (xs ! parent k) (xs ! k)) \<ge> 0 then xs
        else sift_up cmp now (Suc n) (parent k) (swap_at (parent k) k xs)
      else xs)"
  by (subst sift_up.simps) (simp add: Let_def parent_def)

lemma length_sift_up [shape_simps]: "length (sift_up cmp now n k xs) = length xs"
  by (induction cmp now n k xs rule: sift_up.induct) (subst sift_up.simps, simp add: Let_def)

lemma length_sift_down [shape_simps]: "length (sift_down cmp now n sz k xs) = length xs"
  by (induction cmp now n sz k xs rule: sift_down.induct)
    (subst sift_down.simps, simp split: prod.split)

lemma sift_up_used [shape_simps]:
  "k < m \<Longrightarrow> m \<le> length xs \<Longrightarrow>
   mset (take m (sift_up cmp now n k xs)) = mset (take m xs) \<and>
   drop m (sift_up cmp now n k xs) = drop m xs"
proof (induction cmp now n k xs rule: sift_up.induct)
  case (1 cmp now n k xs)
  let ?p = "parent k"
  have "?p < m" using "1.prems"(1) by (rule parent_bound)
  then show ?case
    using "1.IH" [folded parent_def, OF _ refl] "1.prems" by (subst (1 2) sift_up_unfold) simp
qed

lemma sift_down_used [shape_simps]:
  "k < sz \<Longrightarrow> sz \<le> length xs \<Longrightarrow>
   mset (take sz (sift_down cmp now n sz k xs)) = mset (take sz xs) \<and>
   drop sz (sift_down cmp now n sz k xs) = drop sz xs"
proof (induction cmp now n sz k xs rule: sift_down.induct)
  case (1 cmp now n sz k xs)
  obtain n' l where l: "largest_index cmp now n sz k xs = (n', l)" by fastforce
  then have "l \<noteq> k \<Longrightarrow> l < sz" using largest_index_cases [OF l] by simp
  then show ?case
    using "1.IH" [OF l [symmetric]] "1.prems" by (subst (1 2) sift_down.simps) (simp add: l)
qed

lemma sift_down_idle: "sz \<le> 1 \<Longrightarrow> sift_down cmp now n sz 0 xs = xs"
  by (subst sift_down.simps) (simp add: largest_index_def)

subsection \<open>Heap order for any consistent comparison\<close>

text \<open>
  What the queue needs from its comparison function: on acceptable elements, the sign of the
  result orders them by a number. The clock readings of one operation are part of the contract,
  because the aging comparison depends on them.
\<close>

locale key_compare =
  fixes cmp :: "'v compare_fn"
    and now :: "nat \<Rightarrow> uint64"
    and key :: "'v pv_t \<Rightarrow> int"
    and ok :: "'v pv_t \<Rightarrow> bool"
  assumes cmp_ge: "ok a \<Longrightarrow> ok b \<Longrightarrow> 0 \<le> sint (cmp (now n) a b) \<longleftrightarrow> key b \<le> key a"
    and cmp_gt: "ok a \<Longrightarrow> ok b \<Longrightarrow> 0 < sint (cmp (now n) a b) \<longleftrightarrow> key b < key a"
begin

lemma swap_up:
  assumes "heap_but_up key m k xs" and "k < m" and "m \<le> length xs" and "0 < k"
    and "key (xs ! (parent k)) < key (xs ! k)"
  shows "heap_but_up key m (parent k) (swap_at (parent k) k xs)"
proof -
  let ?p = "parent k"
  have p: "?p < k" using \<open>0 < k\<close> by (rule parent_less)
  have nth: "swap_at ?p k xs ! i = (if i = ?p then xs ! k else if i = k then xs ! ?p else xs ! i)"
    if "i < m" for i
    using that p assms(2,3) by (simp add: nth_swap_at)
  note par = parent_bound [of _ m]
  have up: "key (xs ! i) \<le> key (xs ! parent i)" if "i < m" "0 < i" "i \<noteq> k" for i
    using assms(1) that by (simp add: heap_but_up_def)
  have below: "key (xs ! i) \<le> key (xs ! ?p)" if "i < m" "0 < i" "parent i = k" for i
    using assms(1,4) that by (simp add: heap_but_up_def)
  have "key (swap_at ?p k xs ! i) \<le> key (swap_at ?p k xs ! parent i)"
    if "i < m" "0 < i" "i \<noteq> ?p" for i
  proof (cases "i = k")
    case True
    then show ?thesis using assms(2,5) p by (simp add: nth)
  next
    case False
    then show ?thesis
      using up [OF that(1,2)] below [OF that(1,2)] assms(5) that par [OF that(1)]
      by (auto simp: nth)
  qed
  moreover have "key (swap_at ?p k xs ! i) \<le> key (swap_at ?p k xs ! parent ?p)"
    if "i < m" "0 < i" "0 < ?p" "parent i = ?p" for i
  proof -
    have lt: "parent ?p < ?p" using that(3) by (rule parent_less)
    have ip: "i \<noteq> ?p" using that(2,4) parent_less [of i] by auto
    have "key (xs ! ?p) \<le> key (xs ! parent ?p)" using up [of ?p] p assms(2) that(3) by simp
    moreover have "i \<noteq> k \<Longrightarrow> key (xs ! i) \<le> key (xs ! ?p)" using up [OF that(1,2)] that(4) by simp
    ultimately show ?thesis
      using lt ip p assms(2) that(1) by (auto simp: nth)
  qed
  ultimately show ?thesis by (simp add: heap_but_up_def)
qed

lemma sift_up_heap:
  "\<lbrakk>heap_but_up key m k xs; k < m; m \<le> length xs; \<forall>x\<in>set (take m xs). ok x\<rbrakk> \<Longrightarrow>
   heap_upto key m (sift_up cmp now n k xs)"
proof (induction k arbitrary: n xs rule: less_induct)
  case (less k)
  let ?p = "parent k"
  show ?case
  proof (cases "k = 0")
    case True
    with less.prems(1) show ?thesis
      by (subst sift_up_unfold) (auto simp: heap_but_up_def heap_upto_def)
  next
    case False
    have p: "?p < k" using False by (intro parent_less) simp
    have ok: "ok (xs ! ?p)" "ok (xs ! k)"
      using less.prems(2-4) p by (auto intro!: nth_in_set_take [THEN less.prems(4) [rule_format]])
    show ?thesis
    proof (cases "key (xs ! k) \<le> key (xs ! ?p)")
      case True
      have "key (xs ! i) \<le> key (xs ! parent i)" if "i < m" "0 < i" for i
        using less.prems(1) True that by (cases "i = k") (auto simp: heap_but_up_def)
      with True ok False show ?thesis
        by (subst sift_up_unfold) (simp add: cmp_ge heap_upto_def)
    next
      case below: False
      have "heap_but_up key m ?p (swap_at ?p k xs)"
        using less.prems below False by (intro swap_up) auto
      moreover have "set (take m (swap_at ?p k xs)) = set (take m xs)"
        using less.prems p by (simp flip: set_mset_mset)
      ultimately have "heap_upto key m (sift_up cmp now (Suc n) ?p (swap_at ?p k xs))"
        using less.prems p by (intro less.IH) auto
      with below ok False show ?thesis
        by (subst sift_up_unfold) (simp add: cmp_ge)
    qed
  qed
qed

lemma largest_index_spec:
  assumes l: "largest_index cmp now n sz k xs = (n', l)"
    and "k < sz" and "sz \<le> length xs" and all_ok: "\<forall>x\<in>set (take sz xs). ok x"
  shows "\<forall>i < sz. 0 < i \<longrightarrow> parent i = k \<longrightarrow> key (xs ! i) \<le> key (xs ! l)"
    and "l \<noteq> k \<Longrightarrow> l < sz \<and> 0 < l \<and> parent l = k \<and> key (xs ! k) < key (xs ! l)"
    and "l = k \<or> key (xs ! k) < key (xs ! l)"
proof -
  have ok: "ok (xs ! i)" if "i < sz" for i
    using all_ok assms(3) that by (auto intro: nth_in_set_take)
  have kids: "l = k \<and> (\<forall>i\<in>{2 * k + 1, 2 * k + 2}. i < sz \<longrightarrow> key (xs ! i) \<le> key (xs ! k)) \<or>
      (l = 2 * k + 1 \<or> l = 2 * k + 2) \<and> l < sz \<and> key (xs ! k) < key (xs ! l) \<and>
      (\<forall>i\<in>{2 * k + 1, 2 * k + 2}. i < sz \<longrightarrow> key (xs ! i) \<le> key (xs ! l))"
    using l assms(2) by (auto simp: largest_index_def Let_def cmp_gt ok split: if_splits)
  then show "\<forall>i < sz. 0 < i \<longrightarrow> parent i = k \<longrightarrow> key (xs ! i) \<le> key (xs ! l)"
    by (auto simp: child_index)
  from kids show "l \<noteq> k \<Longrightarrow> l < sz \<and> 0 < l \<and> parent l = k \<and> key (xs ! k) < key (xs ! l)"
    using child_index [of l k] by auto
  from kids show "l = k \<or> key (xs ! k) < key (xs ! l)" by auto
qed

lemma swap_down:
  assumes "heap_but_down key sz k xs" and "sz \<le> length xs"
    and l: "l < sz" "0 < l" "parent l = k" "key (xs ! k) < key (xs ! l)"
    and top: "\<forall>i < sz. 0 < i \<longrightarrow> parent i = k \<longrightarrow> key (xs ! i) \<le> key (xs ! l)"
  shows "heap_but_down key sz l (swap_at k l xs)"
proof -
  have kl: "k < l" using l(2,3) parent_less by blast
  have nth: "swap_at k l xs ! i = (if i = k then xs ! l else if i = l then xs ! k else xs ! i)"
    if "i < sz" for i
    using that kl l(1) assms(2) by (simp add: nth_swap_at)
  have down: "key (xs ! i) \<le> key (xs ! parent i)" if "i < sz" "0 < i" "parent i \<noteq> k" for i
    using assms(1) that by (simp add: heap_but_down_def)
  have below: "key (xs ! i) \<le> key (xs ! parent k)" if "i < sz" "0 < i" "0 < k" "parent i = k" for i
    using assms(1) that by (simp add: heap_but_down_def)
  have "key (swap_at k l xs ! i) \<le> key (swap_at k l xs ! parent i)"
    if "i < sz" "0 < i" "parent i \<noteq> l" for i
  proof (cases "i = k")
    case True
    then show ?thesis
      using that parent_less [of k] below [OF l(1,2) _ l(3)] kl by (simp add: nth parent_bound)
  next
    case False
    then show ?thesis
      using that down [OF that(1,2)] top l parent_bound [OF that(1)] by (auto simp: nth)
  qed
  moreover have "key (swap_at k l xs ! i) \<le> key (swap_at k l xs ! parent l)"
    if "i < sz" "0 < i" "parent i = l" for i
  proof -
    have "l < i" using that parent_less by blast
    then show ?thesis using down [OF that(1,2)] that kl l(3) by (auto simp: nth)
  qed
  ultimately show ?thesis by (simp add: heap_but_down_def)
qed

lemma sift_down_heap:
  "\<lbrakk>heap_but_down key sz k xs; k < sz; sz \<le> length xs; \<forall>x\<in>set (take sz xs). ok x\<rbrakk> \<Longrightarrow>
   heap_upto key sz (sift_down cmp now n sz k xs)"
proof (induction "sz - k" arbitrary: n k xs rule: less_induct)
  case less
  obtain n' l where l: "largest_index cmp now n sz k xs = (n', l)" by fastforce
  note spec = largest_index_spec [OF l less.prems(2-4)]
  show ?case
  proof (cases "l = k")
    case True
    have "key (xs ! i) \<le> key (xs ! parent i)" if "i < sz" "0 < i" for i
      using less.prems(1) spec(1) True that by (cases "parent i = k") (auto simp: heap_but_down_def)
    with True show ?thesis
      by (subst sift_down.simps) (simp add: l heap_upto_def)
  next
    case False
    with spec(2) have lc: "l < sz" "0 < l" "parent l = k" "key (xs ! k) < key (xs ! l)" by auto
    then have "k < l" using parent_less by blast
    moreover have "heap_but_down key sz l (swap_at k l xs)"
      using less.prems lc spec(1) by (intro swap_down) auto
    moreover have "set (take sz (swap_at k l xs)) = set (take sz xs)"
      using less.prems lc by (simp flip: set_mset_mset)
    ultimately have "heap_upto key sz (sift_down cmp now n' sz l (swap_at k l xs))"
      using less.prems lc by (intro less.hyps) auto
    with False show ?thesis
      by (subst sift_down.simps) (simp add: l)
  qed
qed

end

subsection \<open>The operations keep the shape and the contents\<close>

lemma heap_upto_root:
  assumes "heap_upto key n xs" and "i < n"
  shows "key (xs ! i) \<le> key (xs ! 0)"
  using \<open>i < n\<close>
proof (induction i rule: less_induct)
  case (less i)
  show ?case
  proof (cases "i = 0")
    case False
    then have "parent i < i" by (simp add: parent_less)
    with less have "key (xs ! parent i) \<le> key (xs ! 0)" by simp
    moreover have "key (xs ! i) \<le> key (xs ! parent i)"
      using assms(1) False less.prems by (simp add: heap_upto_def)
    ultimately show ?thesis by simp
  qed simp
qed

lemma heap_upto_push:
  "heap_upto key n xs \<Longrightarrow> n < length xs \<Longrightarrow> heap_but_up key (Suc n) n (xs[n := x])"
  unfolding heap_upto_def heap_but_up_def
  using parent_bound parent_less by (auto simp: nth_list_update less_Suc_eq)

lemma heap_upto_pop:
  assumes "heap_upto key n xs" and "n \<le> length xs" and "0 < n"
  shows "heap_but_down key (n - 1) 0 (xs[0 := xs ! (n - 1)])"
  using assms child_index [of _ 0] unfolding heap_upto_def heap_but_down_def
  by (auto simp: nth_list_update)

lemma pq_wfD:
  assumes "pq_wf q"
  obtains xs where "pq_elements q = Some xs" "elems q = xs" "pq_size q \<le> length xs"
    "int (length xs) = pq_capacity q"
  using assms by (cases "pq_elements q") (auto simp: pq_wf_def elems_def)

definition pq_inv :: "('v pv_t \<Rightarrow> int) \<Rightarrow> ('v pv_t \<Rightarrow> bool) \<Rightarrow> 'v compare_fn \<Rightarrow> 'v pq_t \<Rightarrow> bool" where
  "pq_inv key ok cmp q \<longleftrightarrow>
     pq_wf q \<and> pq_compare q = cmp \<and> heap_upto key (pq_size q) (elems q) \<and> (\<forall>x\<in>set (pq_items q). ok x)"

lemma push_success:
  assumes "pq_wf q" and "int (pq_size q) < pq_capacity q"
  shows "priority_queue_push now (Some q) x =
     (True, Some (q\<lparr>pq_size := Suc (pq_size q),
                    pq_elements := Some (sift_up (pq_compare q) now 0 (pq_size q) ((elems q)[pq_size q := x]))\<rparr>))"
  using assms by (elim pq_wfD) (simp add: priority_queue_push_def pq_full_def Let_def)

lemma push_contents:
  assumes wf: "pq_wf q" and room: "int (pq_size q) < pq_capacity q"
    and push: "priority_queue_push now (Some q) x = (b, Some q')"
  shows "b" and "pq_wf q'" and "pq_compare q' = pq_compare q" and "pq_capacity q' = pq_capacity q"
    and "pq_size q' = Suc (pq_size q)"
    and "mset (pq_items q') = add_mset x (mset (pq_items q))"
    and "elems q' = sift_up (pq_compare q) now 0 (pq_size q) ((elems q)[pq_size q := x])"
proof -
  obtain xs where xs: "pq_elements q = Some xs" "elems q = xs" "int (length xs) = pq_capacity q"
    using wf by (elim pq_wfD)
  have q': "b" "q' = q\<lparr>pq_size := Suc (pq_size q),
      pq_elements := Some (sift_up (pq_compare q) now 0 (pq_size q) (xs[pq_size q := x]))\<rparr>"
    using push push_success [OF wf room] xs(2) by auto
  have len: "pq_size q < length xs" using room xs(3) by simp
  have "mset (take (Suc (pq_size q)) (xs[pq_size q := x])) = add_mset x (mset (take (pq_size q) xs))"
    using len by (simp add: take_Suc_conv_app_nth)
  with q' len xs show "b" "pq_wf q'" "pq_compare q' = pq_compare q" "pq_capacity q' = pq_capacity q"
    "pq_size q' = Suc (pq_size q)" "mset (pq_items q') = add_mset x (mset (pq_items q))"
    "elems q' = sift_up (pq_compare q) now 0 (pq_size q) ((elems q)[pq_size q := x])"
    by (auto simp: pq_wf_def elems_def pq_items_def length_sift_up sift_up_used)
qed

lemma pop_root_contents:
  assumes wf: "pq_wf q" and some: "0 < pq_size q" and pop: "pop_root now q = (x, q')"
  shows "x = elems q ! 0" and "pq_wf q'" and "pq_compare q' = pq_compare q"
    and "pq_capacity q' = pq_capacity q" and "pq_size q' = pq_size q - 1"
    and "mset (pq_items q) = add_mset x (mset (pq_items q'))"
    and "elems q' = sift_down (pq_compare q) now 0 (pq_size q - 1) 0 ((elems q)[0 := elems q ! (pq_size q - 1)])"
proof -
  obtain xs where xs: "pq_elements q = Some xs" "elems q = xs" "pq_size q \<le> length xs"
    "int (length xs) = pq_capacity q"
    using wf by (elim pq_wfD)
  let ?n = "pq_size q - 1"
  let ?ys = "xs[0 := xs ! ?n]"
  have q': "x = xs ! 0" "q' = q\<lparr>pq_size := ?n, pq_elements := Some (sift_down (pq_compare q) now 0 ?n 0 ?ys)\<rparr>"
    using pop xs(2) by (auto simp: pop_root_def Let_def)
  obtain y zs where yz: "take (pq_size q) xs = y # zs"
    using some xs(3) by (cases xs; cases "pq_size q") auto
  have sz: "pq_size q = Suc (length zs)" using arg_cong [OF yz, of length] xs(3) by simp
  have "mset (take ?n ?ys) = mset zs"
  proof (cases zs rule: rev_cases)
    case Nil
    then show ?thesis using sz by simp
  next
    case (snoc ws w)
    have "xs ! ?n = w" using arg_cong [OF yz, of "\<lambda>l. l ! ?n"] sz snoc by simp
    moreover have "take ?n xs = y # ws"
      using arg_cong [OF yz, of butlast] xs(3) sz snoc by (simp add: butlast_take)
    ultimately show ?thesis using snoc sz by (simp add: take_update_swap)
  qed
  moreover have "mset (take ?n (sift_down (pq_compare q) now 0 ?n 0 ?ys)) = mset (take ?n ?ys)"
    using xs(3) some by (cases "?n = 0") (auto simp: sift_down_used)
  moreover have "y = xs ! 0" using arg_cong [OF yz, of "\<lambda>l. l ! 0"] some by simp
  ultimately show "x = elems q ! 0" "pq_wf q'" "pq_compare q' = pq_compare q" "pq_capacity q' = pq_capacity q"
    "pq_size q' = pq_size q - 1" "mset (pq_items q) = add_mset x (mset (pq_items q'))"
    "elems q' = sift_down (pq_compare q) now 0 (pq_size q - 1) 0 ((elems q)[0 := elems q ! (pq_size q - 1)])"
    using q' xs yz by (auto simp: pq_wf_def elems_def pq_items_def length_sift_down)
qed

context key_compare
begin

lemma push_inv:
  assumes inv: "pq_inv key ok cmp q" and "ok x" and room: "int (pq_size q) < pq_capacity q"
    and push: "priority_queue_push now (Some q) x = (b, Some q')"
  shows "pq_inv key ok cmp q'"
proof -
  have wf: "pq_wf q" and c: "pq_compare q = cmp" using inv by (auto simp: pq_inv_def)
  obtain xs where xs: "elems q = xs" "int (length xs) = pq_capacity q" using wf by (elim pq_wfD)
  let ?n = "pq_size q"
  have len: "?n < length xs" using room xs(2) by simp
  have "heap_but_up key (Suc ?n) ?n (xs[?n := x])"
    using inv xs(1) len by (intro heap_upto_push) (auto simp: pq_inv_def)
  moreover have ok: "\<forall>y\<in>set (pq_items q'). ok y"
    using push_contents(6) [OF wf room push] inv \<open>ok x\<close>
    by (auto simp: pq_inv_def simp flip: set_mset_mset)
  moreover have "set (take (Suc ?n) (xs[?n := x])) = set (pq_items q')"
    using push_contents(6) [OF wf room push] len xs(1)
    by (simp add: take_Suc_conv_app_nth pq_items_def flip: set_mset_mset)
  ultimately have "heap_upto key (Suc ?n) (sift_up cmp now 0 ?n (xs[?n := x]))"
    using len by (intro sift_up_heap) auto
  with push_contents(2,3,5,7) [OF wf room push] ok c xs(1) show ?thesis
    by (simp add: pq_inv_def)
qed

lemma pop_inv:
  assumes inv: "pq_inv key ok cmp q" and some: "0 < pq_size q" and pop: "pop_root now q = (x, q')"
  shows "pq_inv key ok cmp q'"
proof -
  have wf: "pq_wf q" and c: "pq_compare q = cmp" using inv by (auto simp: pq_inv_def)
  obtain xs where xs: "elems q = xs" "pq_size q \<le> length xs" using wf by (elim pq_wfD)
  let ?n = "pq_size q - 1"
  let ?ys = "xs[0 := xs ! ?n]"
  note contents = pop_root_contents [OF wf some pop]
  have ok: "\<forall>y\<in>set (pq_items q'). ok y"
    using contents(6) inv by (auto simp: pq_inv_def simp flip: set_mset_mset)
  have "heap_upto key ?n (sift_down cmp now 0 ?n 0 ?ys)"
  proof (cases "?n = 0")
    case False
    have "heap_but_down key ?n 0 ?ys"
      using inv xs some by (intro heap_upto_pop) (auto simp: pq_inv_def)
    moreover have "ok y" if "y \<in> set (take ?n ?ys)" for y
    proof -
      have "y \<in> set (take (pq_size q) xs)"
        using that some xs(2) set_update_subset_insert [of "take ?n xs" 0 "xs ! ?n"]
          set_take_mono [of ?n "pq_size q" xs] nth_in_set_take [of ?n "pq_size q" xs]
        by (auto simp: take_update_swap)
      then show ?thesis using inv xs(1) by (simp add: pq_inv_def pq_items_def)
    qed
    ultimately show ?thesis using False xs(2) by (intro sift_down_heap) auto
  qed (simp add: heap_upto_def)
  with contents(2,3,5,7) ok c xs(1) show ?thesis
    by (simp add: pq_inv_def)
qed

lemma pop_maximal:
  assumes "pq_inv key ok cmp q" and "0 < pq_size q" and "pop_root now q = (x, q')"
    and "y \<in> set (pq_items q)"
  shows "key y \<le> key x"
proof -
  have wf: "pq_wf q" using assms(1) by (simp add: pq_inv_def)
  obtain i where "i < pq_size q" "y = elems q ! i"
    using assms(4) by (auto simp: pq_items_def in_set_conv_nth)
  moreover have "x = elems q ! 0" by (rule pop_root_contents(1) [OF wf assms(2,3)])
  ultimately show ?thesis
    using assms(1) heap_upto_root by (auto simp: pq_inv_def)
qed

end

end
