(* ===== verification/Priority_Queue_Correct.thy ===== *)
theory Priority_Queue_Correct
  imports Priority_Queue
begin

text \<open>
  What the priority queue promises. \<open>bounded_pqueue\<close> is the interface its clients use: a bag of
  elements with room for more, where pushing adds and popping removes an element of maximal key.
  Every consistent comparison gives such a queue (\<open>sublocale\<close>), and the three comparison functions
  of the source are interpreted: \<open>mx\<close> and \<open>mn\<close> for the two static orders, \<open>ag\<close> for the aging order at
  a fixed clock reading. The last section is the protocol of the condition variable.
\<close>

subsection \<open>The interface\<close>

fun drain :: "('q \<Rightarrow> ('e \<times> 'q) option) \<Rightarrow> nat \<Rightarrow> 'q \<Rightarrow> 'e list" where
  "drain pop 0 q = []"
| "drain pop (Suc n) q = (case pop q of None \<Rightarrow> [] | Some (x, q') \<Rightarrow> x # drain pop n q')"

fun push_all :: "('e \<Rightarrow> 'q \<Rightarrow> 'q) \<Rightarrow> 'q \<Rightarrow> 'e list \<Rightarrow> 'q" where
  "push_all push q [] = q"
| "push_all push q (x # xs) = push_all push (push x q) xs"

locale bounded_pqueue =
  fixes invar :: "'q \<Rightarrow> bool"
    and bag :: "'q \<Rightarrow> 'e multiset"
    and room :: "'q \<Rightarrow> nat"
    and push :: "'e \<Rightarrow> 'q \<Rightarrow> 'q"
    and pop :: "'q \<Rightarrow> ('e \<times> 'q) option"
    and key :: "'e \<Rightarrow> int"
    and ok :: "'e \<Rightarrow> bool"
  assumes invar_push: "invar q \<Longrightarrow> ok x \<Longrightarrow> 0 < room q \<Longrightarrow> invar (push x q)"
    and bag_push: "invar q \<Longrightarrow> ok x \<Longrightarrow> 0 < room q \<Longrightarrow> bag (push x q) = add_mset x (bag q)"
    and room_push: "invar q \<Longrightarrow> ok x \<Longrightarrow> 0 < room q \<Longrightarrow> Suc (room (push x q)) = room q"
    and pop_empty: "invar q \<Longrightarrow> pop q = None \<longleftrightarrow> bag q = {#}"
    and invar_pop: "invar q \<Longrightarrow> pop q = Some (x, q') \<Longrightarrow> invar q'"
    and bag_pop: "invar q \<Longrightarrow> pop q = Some (x, q') \<Longrightarrow> bag q = add_mset x (bag q')"
    and pop_max: "invar q \<Longrightarrow> pop q = Some (x, q') \<Longrightarrow> y \<in># bag q \<Longrightarrow> key y \<le> key x"
begin

lemma drain_sorted:
  "invar q \<Longrightarrow> size (bag q) \<le> n \<Longrightarrow>
   mset (drain pop n q) = bag q \<and> sorted_wrt (\<lambda>a b. key b \<le> key a) (drain pop n q)"
proof (induction n arbitrary: q)
  case 0
  then show ?case by simp
next
  case (Suc n)
  show ?case
  proof (cases "pop q")
    case None
    moreover from this have "bag q = {#}" using pop_empty [OF Suc.prems(1)] by simp
    ultimately show ?thesis by simp
  next
    case (Some xq)
    then obtain x q' where xq: "pop q = Some (x, q')" by (cases xq) auto
    note bag = bag_pop [OF Suc.prems(1) xq]
    have "mset (drain pop n q') = bag q' \<and> sorted_wrt (\<lambda>a b. key b \<le> key a) (drain pop n q')"
      using Suc.prems bag by (intro Suc.IH invar_pop [OF Suc.prems(1) xq]) simp
    moreover from this have "key y \<le> key x" if "y \<in> set (drain pop n q')" for y
      using that bag pop_max [OF Suc.prems(1) xq] by (metis insert_iff set_mset_add_mset_insert set_mset_mset)
    ultimately show ?thesis using xq bag by simp
  qed
qed

lemma push_all_bag:
  "invar q \<Longrightarrow> \<forall>x\<in>set xs. ok x \<Longrightarrow> length xs \<le> room q \<Longrightarrow>
   invar (push_all push q xs) \<and> bag (push_all push q xs) = mset xs + bag q"
proof (induction xs arbitrary: q)
  case (Cons x xs)
  then have "0 < room q" by (cases "room q") auto
  then have "invar (push x q)" "bag (push x q) = add_mset x (bag q)" "Suc (room (push x q)) = room q"
    using Cons.prems by (auto intro: invar_push bag_push room_push)
  then show ?case using Cons.IH [of "push x q"] Cons.prems by simp
qed simp

lemma fill_and_drain:
  assumes "invar q" and "bag q = {#}" and "\<forall>x\<in>set xs. ok x" and "length xs \<le> room q"
  shows "mset (drain pop (length xs) (push_all push q xs)) = mset xs"
    and "sorted_wrt (\<lambda>a b. key b \<le> key a) (drain pop (length xs) (push_all push q xs))"
  using push_all_bag [OF assms(1,3,4)] assms(2) drain_sorted [of "push_all push q xs" "length xs"] by auto

end

subsection \<open>Every consistent comparison implements the interface\<close>

definition pq_room :: "'v pq_t \<Rightarrow> nat" where
  "pq_room q = nat (pq_capacity q) - pq_size q"

definition pq_push :: "(nat \<Rightarrow> uint64) \<Rightarrow> 'v pv_t \<Rightarrow> 'v pq_t \<Rightarrow> 'v pq_t" where
  "pq_push now x q = (case priority_queue_push now (Some q) x of (_, Some q') \<Rightarrow> q' | _ \<Rightarrow> q)"

definition pq_pop :: "(nat \<Rightarrow> uint64) \<Rightarrow> 'v pq_t \<Rightarrow> ('v pv_t \<times> 'v pq_t) option" where
  "pq_pop now q =
     (case priority_queue_try_pop now (Some q) (Some empty_pv) of
        (True, Some x, Some q') \<Rightarrow> Some (x, q')
      | _ \<Rightarrow> None)"

lemma pq_push_eq:
  assumes "pq_wf q" and "0 < pq_room q"
  shows "priority_queue_push now (Some q) x = (True, Some (pq_push now x q))"
    and "int (pq_size q) < pq_capacity q"
proof -
  show "int (pq_size q) < pq_capacity q" using assms(2) by (simp add: pq_room_def)
  then show "priority_queue_push now (Some q) x = (True, Some (pq_push now x q))"
    using push_success [OF assms(1)] by (simp add: pq_push_def)
qed

lemma pq_pop_eq: "pq_pop now q = (if pq_size q = 0 then None else Some (pop_root now q))"
  by (simp add: pq_pop_def priority_queue_try_pop_def pq_empty_def split: prod.split)

sublocale key_compare \<subseteq> heap: bounded_pqueue
  "pq_inv key ok cmp" "\<lambda>q. mset (pq_items q)" pq_room "pq_push now" "pq_pop now" key ok
proof (unfold_locales, goal_cases)
  case (1 q x)
  then have wf: "pq_wf q" by (simp add: pq_inv_def)
  show ?case using push_inv [OF 1(1,2) pq_push_eq(2,1) [OF wf 1(3)]] .
next
  case (2 q x)
  then have wf: "pq_wf q" by (simp add: pq_inv_def)
  show ?case using push_contents(6) [OF wf pq_push_eq(2,1) [OF wf 2(3)]] .
next
  case (3 q x)
  then have wf: "pq_wf q" by (simp add: pq_inv_def)
  show ?case
    using push_contents(4,5) [OF wf pq_push_eq(2,1) [OF wf 3(3)]] 3(3) by (simp add: pq_room_def)
next
  case (4 q)
  then have "length (pq_items q) = pq_size q"
    by (auto simp: pq_inv_def pq_items_def pq_wf_def)
  then show ?case by (auto simp: pq_pop_eq)
next
  case (5 q x q')
  then show ?case by (auto simp: pq_pop_eq split: if_splits intro: pop_inv)
next
  case (6 q x q')
  then show ?case by (auto simp: pq_pop_eq pq_inv_def split: if_splits intro: pop_root_contents(6))
next
  case (7 q x q' y)
  then show ?case by (auto simp: pq_pop_eq split: if_splits intro: pop_maximal)
qed

subsection \<open>The three comparison functions\<close>

definition mx_key :: "'v pv_t \<Rightarrow> int" where
  "mx_key a = sint (pv_priority a)"

definition mx_ok :: "'v pv_t \<Rightarrow> bool" where
  "mx_ok a = small32 (pv_priority a)"

definition eff_priority :: "uint64 \<Rightarrow> 'v pv_t \<Rightarrow> int32" where
  "eff_priority t a = pv_priority a + age t a"

definition ag_key :: "uint64 \<Rightarrow> 'v pv_t \<Rightarrow> int" where
  "ag_key t a = sint (eff_priority t a)"

definition ag_ok :: "uint64 \<Rightarrow> 'v pv_t \<Rightarrow> bool" where
  "ag_ok t a = small32 (eff_priority t a)"

interpretation mx: key_compare max_heap_compare now mx_key mx_ok for now
  by unfold_locales (auto simp: max_heap_compare_def mx_key_def mx_ok_def small32_sub)

interpretation mn: key_compare min_heap_compare now "\<lambda>a. - mx_key a" mx_ok for now
  by unfold_locales (auto simp: min_heap_compare_def mx_key_def mx_ok_def small32_sub)

interpretation ag: key_compare aging_compare "\<lambda>_. t" "\<lambda>a. - ag_key t a" "ag_ok t" for t
  by unfold_locales (auto simp: aging_compare_def Let_def ag_key_def ag_ok_def eff_priority_def small32_sub)

subsection \<open>Properties\<close>

text \<open>A sample item and a sample queue, for the instances below.\<close>

definition sample_item :: "int32 \<Rightarrow> uint64 \<Rightarrow> nat pv_t" where
  "sample_item p t = \<lparr>pv_priority = p, pv_value = Some 9, pv_timestamp = t\<rparr>"

definition sample_queue :: "nat compare_fn \<Rightarrow> nat pv_t list \<Rightarrow> nat pq_t" where
  "sample_queue cmp xs =
     \<lparr>pq_elements = Some (xs @ [empty_pv]), pq_capacity = int (length xs) + 1, pq_size = length xs,
      pq_compare = cmp\<rparr>"

lemmas sample_defs = sample_item_def sample_queue_def pq_inv_def pq_wf_def elems_def pq_items_def
  heap_upto_def parent_def small32_def less_Suc_eq numeral_2_eq_2


text \<open>
  C1. Filling and draining. Take a queue fresh from \<^verbatim>\<open>pq_init\<close> with \<^verbatim>\<open>max_heap_compare\<close>, push any
  sequence of items that fits and whose priorities stay within 30 bits, then pop without blocking
  until the queue is empty: the items come back exactly once each, in descending order of priority.
\<close>

theorem max_queue_sorts:
  assumes init: "pq_init True (Some block) cap (Some max_heap_compare) = Some q"
    and "int (length block) = cap" and "length xs \<le> length block"
    and "list_all (\<lambda>x. small32 (pv_priority x)) xs"
  shows "mset (drain (pq_pop now) (length xs) (push_all (pq_push now) q xs)) = mset xs \<and>
         sorted_wrt (\<lambda>a b. sint (pv_priority b) \<le> sint (pv_priority a))
           (drain (pq_pop now) (length xs) (push_all (pq_push now) q xs))"
proof -
  have q: "q = \<lparr>pq_elements = Some block, pq_capacity = cap, pq_size = 0, pq_compare = max_heap_compare\<rparr>"
    using init by (simp add: pq_init_def)
  have "pq_inv mx_key mx_ok max_heap_compare q"
    using assms(2) by (simp add: q pq_inv_def pq_wf_def elems_def heap_upto_def pq_items_def)
  moreover have "length xs \<le> pq_room q" "mset (pq_items q) = {#}" "\<forall>x\<in>set xs. mx_ok x"
    using assms(2-4) by (auto simp: q pq_room_def pq_items_def mx_ok_def list_all_iff)
  ultimately show ?thesis
    using mx.heap.fill_and_drain [of q xs now] by (simp add: mx_key_def)
qed

theorem max_queue_sorts_witness:
  "let xs = [sample_item 1 0, sample_item 3 0, sample_item 2 0];
       q = \<lparr>pq_elements = Some (replicate 3 empty_pv), pq_capacity = 3, pq_size = 0, pq_compare = max_heap_compare\<rparr>;
       ys = drain (pq_pop (\<lambda>_. 0)) (length xs) (push_all (pq_push (\<lambda>_. 0)) q xs)
   in mset ys = mset xs \<and> sorted_wrt (\<lambda>a b. sint (pv_priority b) \<le> sint (pv_priority a)) ys"
  unfolding Let_def
  by (rule max_queue_sorts [where block = "replicate 3 empty_pv" and cap = 3])
    (simp_all add: pq_init_def sample_item_def small32_def)

text \<open>
  Pushing. On a well-formed heap with a free slot, \<^verbatim>\<open>priority_queue_push\<close> returns true, the
  result is again a well-formed heap, and its contents are the old ones and the new item.
\<close>

theorem max_queue_push:
  assumes "pq_inv mx_key mx_ok max_heap_compare q" and "small32 (pv_priority x)"
    and "int (pq_size q) < pq_capacity q"
  shows "\<exists>q'. priority_queue_push now (Some q) x = (True, Some q') \<and>
           pq_inv mx_key mx_ok max_heap_compare q' \<and>
           mset (pq_items q') = add_mset x (mset (pq_items q)) \<and>
           pq_capacity q' = pq_capacity q"
proof -
  have wf: "pq_wf q" using assms(1) by (simp add: pq_inv_def)
  obtain q' where q': "priority_queue_push now (Some q) x = (True, Some q')"
    using push_success [OF wf assms(3)] by blast
  then show ?thesis
    using mx.push_inv [OF assms(1) _ assms(3) q'] assms(2) push_contents(4,6) [OF wf assms(3) q']
    by (simp add: mx_ok_def)
qed

theorem max_queue_push_witness:
  "\<exists>q'. priority_queue_push (\<lambda>_. 0) (Some (sample_queue max_heap_compare [sample_item 5 0])) (sample_item 7 0) =
        (True, Some q') \<and> mset (pq_items q') = {#sample_item 7 0, sample_item 5 0#}"
  using max_queue_push [of "sample_queue max_heap_compare [sample_item 5 0]" "sample_item 7 0" "\<lambda>_. 0"]
  by (auto simp: sample_defs mx_ok_def)

text \<open>
  Popping. On a well-formed heap that is not empty, \<^verbatim>\<open>priority_queue_try_pop\<close> and the blocking
  \<^verbatim>\<open>priority_queue_pop\<close> store the same item, one of maximal priority, remove exactly it and leave a
  well-formed heap.
\<close>

theorem max_queue_pop:
  assumes "pq_inv mx_key mx_ok max_heap_compare q" and "0 < pq_size q"
  shows "\<exists>x q'. priority_queue_try_pop now (Some q) (Some buf) = (True, Some x, Some q') \<and>
           priority_queue_pop now (Some q) (Some buf) = Some (True, Some x, Some q') \<and>
           pq_inv mx_key mx_ok max_heap_compare q' \<and>
           mset (pq_items q) = add_mset x (mset (pq_items q')) \<and>
           (\<forall>y\<in>set (pq_items q). sint (pv_priority y) \<le> sint (pv_priority x))"
proof -
  obtain x q' where pop: "pop_root now q = (x, q')" by fastforce
  have wf: "pq_wf q" using assms(1) by (simp add: pq_inv_def)
  have "priority_queue_try_pop now (Some q) (Some buf) = (True, Some x, Some q')"
    "priority_queue_pop now (Some q) (Some buf) = Some (True, Some x, Some q')"
    using pop assms(2) by (simp_all add: priority_queue_try_pop_def priority_queue_pop_def pq_empty_def)
  then show ?thesis
    using mx.pop_inv [OF assms pop] pop_root_contents(6) [OF wf assms(2) pop] mx.pop_maximal [OF assms pop]
    by (auto simp: mx_key_def)
qed

theorem max_queue_pop_witness:
  "\<exists>x q'. priority_queue_try_pop (\<lambda>_. 0) (Some (sample_queue max_heap_compare [sample_item 5 0, sample_item 2 0]))
          (Some empty_pv) = (True, Some x, Some q') \<and> sint (pv_priority x) \<ge> 5"
  using max_queue_pop [of "sample_queue max_heap_compare [sample_item 5 0, sample_item 2 0]" "\<lambda>_. 0" empty_pv]
  by (auto simp: sample_defs mx_ok_def mx_key_def)

text \<open>
  Refusals. \<^verbatim>\<open>priority_queue_push\<close> returns false exactly when the queue pointer or its array is
  NULL or the queue is full, and then it changes nothing.
\<close>

lemma push_refused:
  "(fst (priority_queue_push now pq x) \<longleftrightarrow>
      (case pq of None \<Rightarrow> False | Some q \<Rightarrow> pq_elements q \<noteq> None \<and> int (pq_size q) < pq_capacity q)) \<and>
   (fst (priority_queue_push now pq x) \<or> snd (priority_queue_push now pq x) = pq)"
  by (auto simp: priority_queue_push_def pq_full_def Let_def split: option.splits if_splits)

text \<open>
  The aging order is inverted. A queue that uses \<^verbatim>\<open>aging_compare\<close> hands out an item of the
  \<^emph>\<open>lowest\<close> effective priority (priority plus one per second of waiting), at a clock reading
  \<open>t\<close>: the comparison returns \<^verbatim>\<open>eff_b - eff_a\<close> where the heap keeps an element with a positive
  comparison result nearer to the root. Its comment announces the opposite order.
\<close>

theorem aging_queue_pops_lowest:
  assumes "pq_inv (\<lambda>a. - ag_key t a) (ag_ok t) aging_compare q" and "0 < pq_size q"
  shows "\<exists>x q'. priority_queue_try_pop (\<lambda>_. t) (Some q) (Some buf) = (True, Some x, Some q') \<and>
           pq_inv (\<lambda>a. - ag_key t a) (ag_ok t) aging_compare q' \<and>
           (\<forall>y\<in>set (pq_items q). sint (eff_priority t x) \<le> sint (eff_priority t y))"
proof -
  obtain x q' where pop: "pop_root (\<lambda>_. t) q = (x, q')" by fastforce
  have "priority_queue_try_pop (\<lambda>_. t) (Some q) (Some buf) = (True, Some x, Some q')"
    using pop assms(2) by (simp add: priority_queue_try_pop_def pq_empty_def)
  then show ?thesis
    using ag.pop_inv [OF assms pop] ag.pop_maximal [OF assms pop] by (auto simp: ag_key_def)
qed

theorem aging_queue_pops_lowest_witness:
  "\<exists>x q'. priority_queue_try_pop (\<lambda>_. 5000) (Some (sample_queue aging_compare [sample_item 1 0, sample_item 3 0]))
          (Some empty_pv) = (True, Some x, Some q') \<and> sint (eff_priority 5000 x) \<le> 6"
proof -
  have age: "age 5000 \<lparr>pv_priority = p, pv_value = v, pv_timestamp = 0\<rparr> = 5" for p and v :: "nat option"
    unfolding age_def AGING_TIME_def pv_t.simps by simp
  show ?thesis
    using aging_queue_pops_lowest
        [of 5000 "sample_queue aging_compare [sample_item 1 0, sample_item 3 0]" empty_pv]
    by (auto simp: sample_defs ag_ok_def ag_key_def eff_priority_def age)
qed

text \<open>
  Clearing with a callback. \<^verbatim>\<open>priority_queue_clear\<close> hands every non-NULL value of the queue to the
  callback exactly once, in slot order, leaves no value behind in the slots it had used, and the
  queue is empty and well-formed afterwards.
\<close>

lemma clear_slots_spec:
  "clear_slots n xs = (fs, ys) \<Longrightarrow> n \<le> length xs \<Longrightarrow>
   fs = List.map_filter pv_value (take n xs) \<and> length ys = length xs \<and>
   (\<forall>i<n. pv_value (ys ! i) = None) \<and> drop n ys = drop n xs"
proof (induction n xs arbitrary: fs ys rule: clear_slots.induct)
  case (3 k x xs)
  obtain gs zs where r: "clear_slots k xs = (gs, zs)" by fastforce
  with 3 show ?case
    by (auto simp: List.map_filter_def nth_Cons' less_Suc_eq_0_disj split: option.splits)
qed (auto simp: List.map_filter_def)

theorem clear_hands_over_all:
  assumes "pq_wf q"
  shows "\<exists>q'. priority_queue_clear (Some q) True = (True, List.map_filter pv_value (pq_items q), Some q') \<and>
           pq_wf q' \<and> pq_items q' = [] \<and> (\<forall>i<pq_size q. pv_value (elems q' ! i) = None)"
proof -
  obtain xs where xs: "pq_elements q = Some xs" "elems q = xs" "pq_size q \<le> length xs"
    "int (length xs) = pq_capacity q"
    using assms by (elim pq_wfD)
  obtain fs ys where r: "clear_slots (pq_size q) xs = (fs, ys)" by fastforce
  note spec = clear_slots_spec [OF r xs(3)]
  let ?q' = "q\<lparr>pq_elements := Some ys, pq_size := 0\<rparr>"
  have "priority_queue_clear (Some q) True = (True, fs, Some ?q')"
    using xs r by (simp add: priority_queue_clear_def)
  moreover have "pq_wf ?q'" "pq_items ?q' = []" "elems ?q' = ys"
    using spec xs(4) by (auto simp: pq_wf_def elems_def pq_items_def)
  ultimately show ?thesis using spec xs(2) by (auto simp: pq_items_def)
qed

theorem clear_hands_over_all_witness:
  "\<exists>q'. priority_queue_clear (Some (sample_queue max_heap_compare [sample_item 5 0, sample_item 2 0])) True =
        (True, [9, 9], Some q') \<and> pq_items q' = []"
  using clear_hands_over_all [of "sample_queue max_heap_compare [sample_item 5 0, sample_item 2 0]"]
  by (auto simp: sample_defs List.map_filter_def)

subsection \<open>The condition variable\<close>

text \<open>
  Threads share one queue. \<open>waiting\<close> counts the threads inside \<^verbatim>\<open>pthread_cond_wait\<close>, \<open>woken\<close> those
  that have been woken and have not yet run. Every step is one critical section: a successful push
  signals, which wakes at least one waiting thread if there is one; a popping thread that finds the
  queue empty waits; a woken thread tests the queue again, as the \<^verbatim>\<open>while\<close> around
  \<^verbatim>\<open>pthread_cond_wait\<close> does; a wake-up may be spurious.
\<close>

record 'v pq_sys =
  queue :: "'v pq_t"
  waiting :: nat
  woken :: nat

inductive pq_step :: "'v pq_sys \<Rightarrow> 'v pq_sys \<Rightarrow> bool" where
  push: "\<lbrakk>priority_queue_push now (Some (queue s)) x = (True, Some q');
          k \<le> waiting s; 0 < waiting s \<longrightarrow> 0 < k\<rbrakk> \<Longrightarrow>
    pq_step s (s\<lparr>queue := q', waiting := waiting s - k, woken := woken s + k\<rparr>)"
| try_pop: "priority_queue_try_pop now (Some (queue s)) (Some b) = (True, Some x, Some q') \<Longrightarrow>
    pq_step s (s\<lparr>queue := q'\<rparr>)"
| pop_now: "priority_queue_pop now (Some (queue s)) (Some b) = Some (True, Some x, Some q') \<Longrightarrow>
    pq_step s (s\<lparr>queue := q'\<rparr>)"
| pop_wait: "priority_queue_pop now (Some (queue s)) (Some b) = None \<Longrightarrow>
    pq_step s (s\<lparr>waiting := waiting s + 1\<rparr>)"
| resume: "\<lbrakk>0 < woken s; priority_queue_pop now (Some (queue s)) (Some b) = Some (True, Some x, Some q')\<rbrakk> \<Longrightarrow>
    pq_step s (s\<lparr>queue := q', woken := woken s - 1\<rparr>)"
| resume_wait: "\<lbrakk>0 < woken s; priority_queue_pop now (Some (queue s)) (Some b) = None\<rbrakk> \<Longrightarrow>
    pq_step s (s\<lparr>waiting := waiting s + 1, woken := woken s - 1\<rparr>)"
| spurious: "0 < waiting s \<Longrightarrow> pq_step s (s\<lparr>waiting := waiting s - 1, woken := woken s + 1\<rparr>)"
| clear: "priority_queue_clear (Some (queue s)) c = (True, fs, Some q') \<Longrightarrow>
    pq_step s (s\<lparr>queue := q'\<rparr>)"

inductive pq_reachable :: "'v pq_t \<Rightarrow> 'v pq_sys \<Rightarrow> bool" for q0 where
  start: "pq_reachable q0 \<lparr>queue = q0, waiting = 0, woken = 0\<rparr>"
| step: "pq_reachable q0 s \<Longrightarrow> pq_step s s' \<Longrightarrow> pq_reachable q0 s'"

definition wakeup_inv :: "'v pq_sys \<Rightarrow> bool" where
  "wakeup_inv s \<longleftrightarrow> pq_wf (queue s) \<and> (0 < waiting s \<longrightarrow> pq_size (queue s) \<le> woken s)"

lemma clear_size:
  "priority_queue_clear (Some q) c = (True, fs, Some q') \<Longrightarrow> pq_wf q \<Longrightarrow> pq_wf q' \<and> pq_size q' = 0"
  by (auto simp: priority_queue_clear_def pq_wf_def elems_def split: if_splits prod.splits option.splits
      dest!: clear_slots_spec)

lemma try_pop_size:
  "priority_queue_try_pop now (Some q) b = (True, x, Some q') \<Longrightarrow> pq_wf q \<Longrightarrow>
   pq_wf q' \<and> pq_size q = Suc (pq_size q')"
  by (auto simp: priority_queue_try_pop_def pq_empty_def split: option.splits if_splits prod.splits
      dest: pop_root_contents(2,5))

lemma pop_size:
  "priority_queue_pop now (Some q) b = Some (True, x, Some q') \<Longrightarrow> pq_wf q \<Longrightarrow>
   pq_wf q' \<and> pq_size q = Suc (pq_size q')"
  by (auto simp: priority_queue_pop_def pq_empty_def split: option.splits if_splits prod.splits
      dest: pop_root_contents(2,5))

lemma pop_blocks: "priority_queue_pop now (Some q) (Some b) = None \<Longrightarrow> pq_size q = 0"
  by (auto simp: priority_queue_pop_def pq_empty_def split: if_splits)

lemma push_true_room:
  "priority_queue_push now (Some q) x = (True, pq') \<Longrightarrow> int (pq_size q) < pq_capacity q"
  by (auto simp: priority_queue_push_def pq_full_def split: option.splits if_splits)

lemma push_size:
  "priority_queue_push now (Some q) x = (True, Some q') \<Longrightarrow> pq_wf q \<Longrightarrow>
   pq_wf q' \<and> pq_size q' = Suc (pq_size q)"
  using push_true_room push_contents(2,5) by blast

lemmas queue_sizes = push_size try_pop_size pop_size clear_size pop_blocks

lemma wakeup_inv_step: "pq_step s s' \<Longrightarrow> wakeup_inv s \<Longrightarrow> wakeup_inv s'"
  by (induction rule: pq_step.induct) (auto simp: wakeup_inv_def dest!: queue_sizes)

text \<open>
  C2. No lost wake-up. In every state that the threads can reach from a fresh, empty queue, whenever
  items are in the queue and threads still wait on the condition variable, at least as many threads
  as there are items have been woken and are about to run.
\<close>

theorem no_lost_wakeup:
  assumes "pq_reachable q0 s" and "pq_wf q0" and "pq_size q0 = 0" and "0 < waiting s"
  shows "pq_size (queue s) \<le> woken s"
proof -
  have "wakeup_inv s"
    using assms(1)
  proof (induction rule: pq_reachable.induct)
    case start
    show ?case using assms(2,3) by (simp add: wakeup_inv_def)
  next
    case (step s s')
    then show ?case by (blast intro: wakeup_inv_step)
  qed
  then show ?thesis using assms(4) by (simp add: wakeup_inv_def)
qed

text \<open>Two threads wait on an empty queue, and a push wakes one of them.\<close>

lemma two_waiting:
  "pq_reachable (sample_queue max_heap_compare [])
     \<lparr>queue = sample_queue max_heap_compare [], waiting = 2, woken = 0\<rparr>"
proof -
  let ?q = "sample_queue max_heap_compare []"
  have wait: "pq_step s (s\<lparr>waiting := waiting s + 1\<rparr>)" if "queue s = ?q" for s
    using that by (intro pq_step.pop_wait [where b = empty_pv]) (simp add: priority_queue_pop_def pq_empty_def sample_queue_def)
  have "pq_reachable ?q (\<lparr>queue = ?q, waiting = 0, woken = 0\<rparr>\<lparr>waiting := 1\<rparr>)"
    using pq_reachable.step [OF pq_reachable.start wait, of ?q] by simp
  from pq_reachable.step [OF this wait] show ?thesis by (simp add: numeral_2_eq_2)
qed

theorem no_lost_wakeup_witness:
  "\<exists>s. pq_reachable (sample_queue max_heap_compare []) s \<and> 0 < waiting s \<and> 0 < pq_size (queue s) \<and>
     pq_size (queue s) \<le> woken s"
proof -
  let ?q = "sample_queue max_heap_compare [] :: nat pq_t" and ?x = "sample_item 5 0"
  have wf: "pq_wf ?q" "pq_size ?q = 0" and room: "int (pq_size ?q) < pq_capacity ?q" by (simp_all add: sample_defs)
  obtain q' where q': "priority_queue_push (\<lambda>_. 0) (Some ?q) ?x = (True, Some q')"
    using push_success [OF wf(1) room] by blast
  let ?s = "\<lparr>queue = q', waiting = 1, woken = 1\<rparr>"
  have "pq_step \<lparr>queue = ?q, waiting = 2, woken = 0\<rparr>
      (\<lparr>queue = ?q, waiting = 2, woken = 0\<rparr>\<lparr>queue := q', waiting := 2 - 1, woken := 0 + 1\<rparr>)"
    using q' pq_step.push [of "\<lambda>_. 0" "\<lparr>queue = ?q, waiting = 2, woken = 0\<rparr>" ?x q' 1] by simp
  then have r: "pq_reachable ?q ?s" using pq_reachable.step [OF two_waiting] by fastforce
  have "pq_size q' = 1" using push_contents [OF wf(1) room q'] wf(2) by simp
  with no_lost_wakeup [OF r wf] r show ?thesis by (intro exI [of _ ?s]) simp
qed

end
