(* ===== verification/Utils.thy ===== *)
theory Utils
  imports Prelude
begin

text \<open>
  The helpers of \<^verbatim>\<open>src/src/utils/utils.c\<close> and the path helper of
  \<^verbatim>\<open>src/src/utils/file_utils.c\<close>: clock reading, byte order, the log line buffer, recursive
  directory creation and the directory part of a path. The byte order of the host is a parameter,
  the file system is a state \<open>'fs\<close> with a \<open>mkdir\<close> parameter, and \<^verbatim>\<open>hv_strncpy\<close> (libhv, not part
  of the sources) is a parameter whose documented truncation is a hypothesis of the theorems that
  need it.
\<close>

subsection \<open>Clock\<close>

record timespec =
  tv_sec :: int
  tv_nsec :: int

definition gettime_msec :: "timespec \<Rightarrow> uint64" where
  "gettime_msec tp = word_of_int (tv_sec tp) * 1000 + word_of_int (tv_nsec tp div (1000 * 1000))"

subsection \<open>Byte order\<close>

datatype endian = LittleEndian | BigEndian

text \<open>How the host stores a 16-bit number, lowest address first.\<close>

definition store16 :: "endian \<Rightarrow> uint16 \<Rightarrow> uint8 list" where
  "store16 host x =
     (let low = ucast x; high = ucast (drop_bit 8 x)
      in case host of LittleEndian \<Rightarrow> [low, high] | BigEndian \<Rightarrow> [high, low])"

definition is_little_endian :: "endian \<Rightarrow> bool" where
  "is_little_endian host = (hd (store16 host 1) = 1)"

function reverse_loop :: "nat \<Rightarrow> nat \<Rightarrow> uint8 list \<Rightarrow> uint8 list" where
  "reverse_loop i sz tmp =
     (if i < sz div 2 then
        (let c = tmp ! i;
             tmp1 = tmp[i := tmp ! (sz - 1 - i)]
         in reverse_loop (Suc i) sz (tmp1[sz - 1 - i := c]))
      else tmp)"
  by pat_completeness auto
termination
  by (relation "measure (\<lambda>(i, sz, tmp). sz div 2 - i)") auto

declare reverse_loop.simps [simp del]

definition convert_byte_order :: "endian \<Rightarrow> uint8 list option \<Rightarrow> nat \<Rightarrow> bool \<Rightarrow> uint8 list option" where
  "convert_byte_order host src sz big_endian =
     (case src of
        None \<Rightarrow> None
      | Some tmp \<Rightarrow>
          if sz = 0 then src
          else if \<not> is_little_endian host \<and> big_endian then src
          else Some (reverse_loop 0 sz tmp))"

subsection \<open>The log line\<close>

datatype log_level_e = DEBUG_LEVEL | INFO_LEVEL | WARN_LEVEL | ERROR_LEVEL | DEFAULT_LEVEL

definition level_of_type :: "string \<Rightarrow> log_level_e" where
  "level_of_type type =
     (if type = ''DEBUG'' then DEBUG_LEVEL
      else if type = ''INFO'' then INFO_LEVEL
      else if type = ''WARN'' then WARN_LEVEL
      else if type = ''ERROR'' then ERROR_LEVEL
      else DEBUG_LEVEL)"

primrec level_num :: "log_level_e \<Rightarrow> nat" where
  "level_num DEBUG_LEVEL = 0"
| "level_num INFO_LEVEL = 1"
| "level_num WARN_LEVEL = 2"
| "level_num ERROR_LEVEL = 3"
| "level_num DEFAULT_LEVEL = 4"

text \<open>The filter of \<^verbatim>\<open>write_frm_td\<close>: a line is dropped when the configured level is below its level.\<close>

definition write_frm_td :: "log_level_e \<Rightarrow> string \<Rightarrow> log_level_e \<Rightarrow> string option" where
  "write_frm_td log_level str level = (if level_num log_level < level_num level then None else Some str)"

text \<open>The decimal format \<open>%d\<close>.\<close>

definition digit_char :: "nat \<Rightarrow> char" where
  "digit_char n = char_of (48 + n)"

fun show_nat :: "nat \<Rightarrow> string" where
  "show_nat n = (if n < 10 then [digit_char n] else show_nat (n div 10) @ [digit_char (n mod 10)])"

declare show_nat.simps [simp del]

definition show_int :: "int \<Rightarrow> string" where
  "show_int i = (if i < 0 then ''-'' @ show_nat (nat (- i)) else show_nat (nat i))"

text \<open>
  \<open>snprintf\<close> into a buffer with \<open>n\<close> bytes left writes at most \<open>n - 1\<close> characters and the
  terminator. \<open>header\<close> and \<open>msg\<close> are the two formatted texts; the result is the string in
  \<^verbatim>\<open>log_buffer\<close> after the final \<^verbatim>\<open>strcat\<close>.
\<close>

definition snprintf_text :: "nat \<Rightarrow> string \<Rightarrow> string" where
  "snprintf_text n s = take (n - 1) s"

definition LOG_BUFFER_SIZE :: nat where
  "LOG_BUFFER_SIZE = 2048"

definition errif_debug_buffer :: "string \<Rightarrow> string \<Rightarrow> string" where
  "errif_debug_buffer header msg =
     (let b1 = snprintf_text LOG_BUFFER_SIZE header;
          b2 = b1 @ snprintf_text (LOG_BUFFER_SIZE - length b1) msg
      in b2 @ [CHR 0x0A])"

subsection \<open>Directories\<close>

datatype mkdir_result = MkdirOk | MkdirExists | MkdirError

definition FILE_PATH_MAX_LEN :: nat where
  "FILE_PATH_MAX_LEN = 128"

text \<open>
  The loop over the characters of the buffer: \<open>pre\<close> is the part before the cursor. At a slash the
  path up to it is created; an error other than EEXIST ends the loop with \<^const>\<open>False\<close>.
\<close>

fun mkdir_prefixes ::
  "('fs \<Rightarrow> string \<Rightarrow> mkdir_result \<times> 'fs) \<Rightarrow> 'fs \<Rightarrow> string \<Rightarrow> string \<Rightarrow> bool \<times> 'fs" where
  "mkdir_prefixes mkdir fs pre [] = (True, fs)"
| "mkdir_prefixes mkdir fs pre (c # cs) =
     (if c = CHR 0x2F then
        (case mkdir fs pre of
           (MkdirError, fs') \<Rightarrow> (False, fs')
         | (_, fs') \<Rightarrow> mkdir_prefixes mkdir fs' (pre @ [c]) cs)
      else mkdir_prefixes mkdir fs (pre @ [c]) cs)"

definition make_dir_recursive ::
  "(string \<Rightarrow> nat \<Rightarrow> string) \<Rightarrow> ('fs \<Rightarrow> string \<Rightarrow> mkdir_result \<times> 'fs) \<Rightarrow> 'fs \<Rightarrow> string option \<Rightarrow> int \<times> 'fs" where
  "make_dir_recursive hv_strncpy mkdir fs path =
     (case path of
        None \<Rightarrow> (- 2, fs)
      | Some p \<Rightarrow>
          (let tmp_path = hv_strncpy p FILE_PATH_MAX_LEN in
           case mkdir_prefixes mkdir fs (take 1 tmp_path) (drop 1 tmp_path) of
             (False, fs') \<Rightarrow> (- 1, fs')
           | (True, fs') \<Rightarrow>
               (case mkdir fs' tmp_path of
                  (MkdirError, fs'') \<Rightarrow> (- 1, fs'')
                | (_, fs'') \<Rightarrow> (- 2, fs''))))"

subsection \<open>The directory part of a path\<close>

definition is_sep :: "char \<Rightarrow> bool" where
  "is_sep c \<longleftrightarrow> c = CHR 0x2F \<or> c = CHR 0x5C"

text \<open>The backward search: from index \<open>i\<close> down to 1, never index 0.\<close>

fun last_slash_from :: "string \<Rightarrow> nat \<Rightarrow> nat option" where
  "last_slash_from path 0 = None"
| "last_slash_from path (Suc i) = (if is_sep (path ! Suc i) then Some (Suc i) else last_slash_from path i)"

definition extract_directory :: "string option \<Rightarrow> string option" where
  "extract_directory path =
     (case path of
        None \<Rightarrow> None
      | Some p \<Rightarrow>
          if length p = 0 then Some ''.''
          else
            (case last_slash_from p (length p - 1) of
               None \<Rightarrow> Some ''.''
             | Some i \<Rightarrow> if i = 0 then Some [CHR 0x2F] else Some (take i p)))"

subsection \<open>Byte order: the loop reverses\<close>

lemma reverse_loop_length [shape_simps]: "length (reverse_loop i n xs) = length xs"
  by (induction i n xs rule: reverse_loop.induct) (subst reverse_loop.simps, simp add: Let_def)

lemma reverse_loop_nth:
  "n \<le> length xs \<Longrightarrow> k < length xs \<Longrightarrow>
   reverse_loop i n xs ! k = (if i \<le> k \<and> k < n - i then xs ! (n - 1 - k) else xs ! k)"
proof (induction i n xs rule: reverse_loop.induct)
  case (1 i n xs)
  show ?case
  proof (cases "i < n div 2")
    case True
    let ?ys = "xs[i := xs ! (n - 1 - i), n - 1 - i := xs ! i]"
    have "reverse_loop i n xs = reverse_loop (Suc i) n ?ys"
      using True by (subst reverse_loop.simps) (simp add: Let_def)
    moreover have "reverse_loop (Suc i) n ?ys ! k =
        (if Suc i \<le> k \<and> k < n - Suc i then ?ys ! (n - 1 - k) else ?ys ! k)"
      using True "1.prems" by (intro "1.IH") auto
    ultimately show ?thesis
      using True "1.prems" by (auto simp: nth_list_update)
  next
    case False
    then have "n - 1 - k = k" if "i \<le> k" "k < n - i" using that by arith
    with False show ?thesis by (subst reverse_loop.simps) auto
  qed
qed

lemma reverse_loop_rev: "n \<le> length xs \<Longrightarrow> reverse_loop 0 n xs = rev (take n xs) @ drop n xs"
  by (rule nth_equalityI) (auto simp: shape_simps reverse_loop_nth nth_append rev_nth)

lemma is_little_endian_iff [simp]: "is_little_endian host \<longleftrightarrow> host = LittleEndian"
  by (cases host) (simp_all add: is_little_endian_def store16_def)

text \<open>
  Byte order conversion. For a buffer of at least \<open>sz\<close> bytes, \<^verbatim>\<open>convert_byte_order\<close> reverses the
  first \<open>sz\<close> bytes and nothing else on every host and for every request, except that it leaves the
  buffer alone when a big-endian host asks for big-endian order. So on a little-endian host the
  request \<^verbatim>\<open>big_endian = false\<close>, for which the two orders agree, reverses as well.
\<close>

theorem convert_byte_order_spec:
  assumes "sz \<le> length bytes"
  shows "convert_byte_order host (Some bytes) sz big_endian =
     Some (if host = BigEndian \<and> big_endian then bytes else rev (take sz bytes) @ drop sz bytes)"
  using assms reverse_loop_rev [OF assms] by (cases host) (auto simp: convert_byte_order_def)

theorem convert_byte_order_spec_witness:
  "convert_byte_order LittleEndian (Some [1, 2, 3, 4]) 4 True = Some [4, 3, 2, 1] \<and>
   convert_byte_order LittleEndian (Some [1, 2, 3, 4]) 4 False = Some [4, 3, 2, 1]"
  using convert_byte_order_spec [of 4 "[1, 2, 3, 4]" LittleEndian] by simp

subsection \<open>The log line\<close>

text \<open>
  The log buffer. The string that \<^verbatim>\<open>errif_debug\<close> builds, with its terminating byte, fits into
  the 2048 bytes of \<^verbatim>\<open>log_buffer\<close> exactly when header and message together have at most 2046
  characters; for a longer line the final \<^verbatim>\<open>strcat\<close> writes one byte past the buffer.
\<close>

lemma errif_debug_fits:
  "length (errif_debug_buffer header msg) + 1 \<le> LOG_BUFFER_SIZE \<longleftrightarrow> length header + length msg \<le> 2046"
  by (auto simp: errif_debug_buffer_def snprintf_text_def LOG_BUFFER_SIZE_def Let_def)

subsection \<open>Directories\<close>

text \<open>The paths created before the last one: what stands before each slash that is not the first character.\<close>

fun slash_prefixes :: "string \<Rightarrow> string \<Rightarrow> string list" where
  "slash_prefixes pre [] = []"
| "slash_prefixes pre (c # cs) =
     (if c = CHR 0x2F then pre # slash_prefixes (pre @ [c]) cs else slash_prefixes (pre @ [c]) cs)"

text \<open>
  Recursive directory creation never reports success. When every \<^verbatim>\<open>mkdir\<close> creates its directory
  or finds it, \<^verbatim>\<open>make_dir_recursive\<close> asks for every ancestor in order and then for the (truncated)
  path itself, and returns -2, the code for an invalid argument; no call ever returns 0.
\<close>

lemma mkdir_prefixes_log:
  "\<forall>fs p. fst (mkdir fs p) \<noteq> MkdirError \<and> snd (mkdir fs p) = fs @ [p] \<Longrightarrow>
   mkdir_prefixes mkdir fs pre cs = (True, fs @ slash_prefixes pre cs)"
  by (induction cs arbitrary: fs pre)
    (auto split: prod.splits mkdir_result.splits simp: prod_eq_iff dest!: spec)

lemma make_dir_recursive_result: "fst (make_dir_recursive cpy mkdir fs path) \<in> {- 1, - 2}"
  by (auto simp: make_dir_recursive_def Let_def split: option.splits prod.splits bool.splits mkdir_result.splits)

theorem make_dir_recursive_never_zero:
  fixes mkdir :: "string list \<Rightarrow> string \<Rightarrow> mkdir_result \<times> string list"
  assumes "\<forall>fs p. fst (mkdir fs p) \<noteq> MkdirError \<and> snd (mkdir fs p) = fs @ [p]"
  shows "make_dir_recursive hv_strncpy mkdir fs (Some path) =
      (let tmp = hv_strncpy path FILE_PATH_MAX_LEN
       in (- 2, fs @ slash_prefixes (take 1 tmp) (drop 1 tmp) @ [tmp])) \<and>
     (\<forall>any mk s p. fst (make_dir_recursive any mk s p) \<noteq> (0::int))"
proof
  show "make_dir_recursive hv_strncpy mkdir fs (Some path) =
      (let tmp = hv_strncpy path FILE_PATH_MAX_LEN
       in (- 2, fs @ slash_prefixes (take 1 tmp) (drop 1 tmp) @ [tmp]))"
    using assms
    by (auto simp: make_dir_recursive_def Let_def mkdir_prefixes_log [OF assms] prod_eq_iff
        split: prod.splits mkdir_result.splits dest!: spec)
  show "\<forall>any mk s p. fst (make_dir_recursive any mk s p) \<noteq> (0::int)"
  proof (intro allI)
    fix any mk s p
    show "fst (make_dir_recursive any mk s p) \<noteq> (0::int)"
      using make_dir_recursive_result [of any mk s p] by auto
  qed
qed

theorem make_dir_recursive_never_zero_witness:
  "make_dir_recursive (\<lambda>p n. take (n - 1) p) (\<lambda>fs p. (MkdirOk, fs @ [p])) [] (Some ''/a/b'') =
     (- 2, [''/a'', ''/a/b''])"
  using make_dir_recursive_never_zero [of "\<lambda>fs p. (MkdirOk, fs @ [p])" "\<lambda>p n. take (n - 1) p" "[]" "''/a/b''"]
  by (auto simp: FILE_PATH_MAX_LEN_def)

subsection \<open>The directory part\<close>

lemma last_slash_from_None: "last_slash_from p n = None \<longleftrightarrow> (\<forall>i. 0 < i \<and> i \<le> n \<longrightarrow> \<not> is_sep (p ! i))"
  by (induction n) (auto simp: le_Suc_eq)

lemma last_slash_from_Some:
  "last_slash_from p n = Some i \<Longrightarrow>
   0 < i \<and> i \<le> n \<and> is_sep (p ! i) \<and> (\<forall>j. i < j \<and> j \<le> n \<longrightarrow> \<not> is_sep (p ! j))"
  by (induction n) (auto simp: le_Suc_eq split: if_splits)

text \<open>
  The directory part of a path. For a path \<open>d @ [sep] @ f\<close> with a non-empty \<open>d\<close> and no
  separator in \<open>f\<close>, the result is \<open>d\<close>; when the only separator is the first character, as in
  \<^verbatim>\<open>/etc\<close>, the result is the current directory and not the root, because the backward search stops
  before index 0.
\<close>

theorem extract_directory_spec:
  assumes "is_sep sep" and "\<forall>c\<in>set f. \<not> is_sep c"
  shows "extract_directory (Some (d @ [sep] @ f)) = Some (if d = [] then ''.'' else d)"
proof -
  let ?p = "d @ [sep] @ f"
  have after: "\<not> is_sep (?p ! i)" if "length d < i" "i \<le> length ?p - 1" for i
    using that assms(2) by (auto simp: nth_append nth_Cons' intro!: nth_mem)
  show ?thesis
  proof (cases "last_slash_from ?p (length ?p - 1)")
    case None
    then have "d = []" using assms(1) by (auto simp: last_slash_from_None)
    with None show ?thesis by (simp add: extract_directory_def)
  next
    case (Some i)
    note s = last_slash_from_Some [OF Some]
    have "i \<le> length d" using s after [of i] by (meson not_le_imp_less)
    moreover have "\<not> i < length d" using s assms(1) by (auto dest!: spec [of _ "length d"])
    ultimately have "i = length d" by simp
    with Some s show ?thesis by (auto simp: extract_directory_def)
  qed
qed

theorem extract_directory_spec_witness:
  "extract_directory (Some ''/var/log'') = Some ''/var'' \<and> extract_directory (Some ''/etc'') = Some ''.''"
  using extract_directory_spec [of "CHR 0x2F" "''log''" "''/var''"]
    extract_directory_spec [of "CHR 0x2F" "''etc''" "[]"]
  by (simp add: is_sep_def)

end
