(* ===== verification/Module_Queue.thy ===== *)
theory Module_Queue
  imports Priority_Queue_Correct
begin

text \<open>
  The per-module task queues of \<^verbatim>\<open>src/src/can/module_queue_manager.c\<close>, with the task and frame types
  of \<^verbatim>\<open>src/src/can/can.h\<close>. The manager holds one aging priority queue of 20 slots for each of the 12
  modules. \<^verbatim>\<open>module_push_task\<close> is modelled as its two critical sections: the duplicate scan under
  the queue's lock, and the rest, which takes the lock again inside the queue operations. A fault
  (\<open>Inl\<close>) is undefined behaviour that the code does not rule out: the dereference of a NULL pointer
  that it does not test, or (in the driver) a float outside the range of the integer it is cast to.
\<close>

subsection \<open>Tasks and frames\<close>

datatype task_priority_e = NONE | NORMAL | URGENT | IMMEDIATE

record can_frame =
  can_id :: uint32
  can_dlc :: uint8
  frame_data :: "uint8 list"

datatype can_callback = Dcdc_send_encapsulation | Other_callback nat

record can_msg_t =
  frame :: can_frame
  callback :: "can_callback option"

record dcdc_task_t =
  priority :: task_priority_e
  data :: "can_msg_t option"
  task_id :: int
  module_id :: int

definition MODULE_COUNT :: nat where
  "MODULE_COUNT = 12"

definition DCDC_QUEUE_LEN :: int where
  "DCDC_QUEUE_LEN = 20"

definition SET_MODE_SWITCH :: int where
  "SET_MODE_SWITCH = 0x30"

primrec priority_to_int :: "task_priority_e \<Rightarrow> int32" where
  "priority_to_int NONE = 0"
| "priority_to_int NORMAL = 1"
| "priority_to_int URGENT = 2"
| "priority_to_int IMMEDIATE = 3"

subsection \<open>Creation and destruction\<close>

record module_queue_mgr_t =
  queues :: "dcdc_task_t pq_t option list"

text \<open>
  \<open>allocs\<close> lists, for each queue in turn, the outcomes of the two allocations in \<^verbatim>\<open>pq_init\<close>. A failure
  deletes the queues made so far; \<open>Inl\<close> carries the blocks that were released.
\<close>

fun init_queues :: "(bool \<times> dcdc_task_t pv_t list option) list \<Rightarrow> dcdc_task_t pq_t option list \<Rightarrow>
    pq_block list list + dcdc_task_t pq_t option list" where
  "init_queues [] made = Inr made"
| "init_queues ((obj_ok, block) # allocs) made =
     (case pq_init obj_ok block DCDC_QUEUE_LEN (Some aging_compare) of
        None \<Rightarrow> Inl (map (\<lambda>q. snd (pq_delete q)) made)
      | Some q \<Rightarrow> init_queues allocs (made @ [Some q]))"

definition module_queue_mgr_init ::
  "bool \<Rightarrow> (bool \<times> dcdc_task_t pv_t list option) list \<Rightarrow> module_queue_mgr_t option \<times> pq_block list list" where
  "module_queue_mgr_init mgr_ok allocs =
     (if \<not> mgr_ok then (None, [])
      else (case init_queues (take MODULE_COUNT allocs) [] of
              Inl freed \<Rightarrow> (None, freed)
            | Inr qs \<Rightarrow> (Some \<lparr>queues = qs\<rparr>, [])))"

definition module_queue_mgr_destroy :: "module_queue_mgr_t option \<Rightarrow> pq_block list list" where
  "module_queue_mgr_destroy mgr =
     (case mgr of None \<Rightarrow> [] | Some m \<Rightarrow> map (\<lambda>q. snd (pq_delete q)) (take MODULE_COUNT (queues m)))"

subsection \<open>Pushing a task\<close>

datatype module_fault = NullDeref | BadConversion

definition bad_module :: "module_queue_mgr_t option \<Rightarrow> int \<Rightarrow> bool" where
  "bad_module mgr mid \<longleftrightarrow> mgr = None \<or> mid \<le> 0 \<or> mid > int MODULE_COUNT"

definition same_task :: "dcdc_task_t \<Rightarrow> dcdc_task_t pv_t \<Rightarrow> bool" where
  "same_task task e =
     (case pv_value e of
        None \<Rightarrow> False
      | Some existing \<Rightarrow> task_id existing = task_id task \<and> module_id existing = module_id task)"

text \<open>The scan, one critical section: is a task with the same two identifiers queued?\<close>

definition scan_duplicate :: "dcdc_task_t pq_t \<Rightarrow> dcdc_task_t \<Rightarrow> bool" where
  "scan_duplicate pq task = list_ex (same_task task) (take (pq_size pq) (elems pq))"

text \<open>
  The rest. \<open>copy_ok\<close> and \<open>msg_ok\<close> are the outcomes of the two allocations; \<open>stamp\<close> is the clock
  reading stored with the task and \<open>now\<close> the readings of the comparisons.
\<close>

definition enqueue_task ::
  "bool \<Rightarrow> bool \<Rightarrow> uint64 \<Rightarrow> (nat \<Rightarrow> uint64) \<Rightarrow> dcdc_task_t pq_t option \<Rightarrow> dcdc_task_t \<Rightarrow>
   module_fault + (bool \<times> dcdc_task_t pq_t option)" where
  "enqueue_task copy_ok msg_ok stamp now pq task =
     (let pq1 = (if SET_MODE_SWITCH = task_id task then snd (snd (priority_queue_clear pq True)) else pq)
      in if \<not> copy_ok then Inl NullDeref
         else if \<not> msg_ok then Inr (False, pq1)
         else (case data task of
                 None \<Rightarrow> Inl NullDeref
               | Some msg \<Rightarrow>
                   (let task_cp = \<lparr>priority = priority task, data = Some msg,
                                   task_id = task_id task, module_id = module_id task\<rparr>;
                        item = \<lparr>pv_priority = priority_to_int (priority task_cp),
                                pv_value = Some task_cp, pv_timestamp = stamp\<rparr>
                    in Inr (priority_queue_push now pq1 item))))"

definition module_push_task ::
  "bool \<Rightarrow> bool \<Rightarrow> uint64 \<Rightarrow> (nat \<Rightarrow> uint64) \<Rightarrow> module_queue_mgr_t option \<Rightarrow> int \<Rightarrow> dcdc_task_t \<Rightarrow>
   module_fault + (bool \<times> module_queue_mgr_t option)" where
  "module_push_task copy_ok msg_ok stamp now mgr mid task =
     (case mgr of
        None \<Rightarrow> Inr (False, None)
      | Some m \<Rightarrow>
          if bad_module mgr mid then Inr (False, mgr)
          else
            (let i = nat (mid - 1) in
             case queues m ! i of
               None \<Rightarrow> Inr (False, mgr)
             | Some pq \<Rightarrow>
                 if scan_duplicate pq task then Inr (True, mgr)
                 else (case enqueue_task copy_ok msg_ok stamp now (Some pq) task of
                         Inl e \<Rightarrow> Inl e
                       | Inr (b, pq') \<Rightarrow> Inr (b, Some (m\<lparr>queues := (queues m)[i := pq']\<rparr>)))))"

subsection \<open>Popping a task\<close>

definition module_try_pop_task ::
  "(nat \<Rightarrow> uint64) \<Rightarrow> module_queue_mgr_t option \<Rightarrow> int \<Rightarrow> dcdc_task_t option \<times> module_queue_mgr_t option" where
  "module_try_pop_task now mgr mid =
     (case mgr of
        None \<Rightarrow> (None, None)
      | Some m \<Rightarrow>
          if bad_module mgr mid then (None, mgr)
          else
            (let i = nat (mid - 1) in
             case priority_queue_try_pop now (queues m ! i) (Some empty_pv) of
               (True, Some item, q') \<Rightarrow> (pv_value item, Some (m\<lparr>queues := (queues m)[i := q']\<rparr>))
             | (_, _, q') \<Rightarrow> (None, Some (m\<lparr>queues := (queues m)[i := q']\<rparr>))))"

text \<open>The blocking variant; the outer \<^const>\<open>None\<close> means that the caller waits.\<close>

definition module_pop_task ::
  "(nat \<Rightarrow> uint64) \<Rightarrow> module_queue_mgr_t option \<Rightarrow> int \<Rightarrow>
   (dcdc_task_t option \<times> module_queue_mgr_t option) option" where
  "module_pop_task now mgr mid =
     (case mgr of
        None \<Rightarrow> Some (None, None)
      | Some m \<Rightarrow>
          if bad_module mgr mid then Some (None, mgr)
          else
            (let i = nat (mid - 1) in
             case priority_queue_pop now (queues m ! i) (Some empty_pv) of
               None \<Rightarrow> None
             | Some (True, Some item, q') \<Rightarrow> Some (pv_value item, Some (m\<lparr>queues := (queues m)[i := q']\<rparr>))
             | Some (_, _, q') \<Rightarrow> Some (None, Some (m\<lparr>queues := (queues m)[i := q']\<rparr>))))"

subsection \<open>Invariant\<close>

text \<open>
  \<open>task_key\<close> identifies a task for the duplicate scan. A module queue is good when it has the shape of
  a queue of 20 slots, every item carries a task, and no two items carry tasks with the same key.
\<close>

definition task_key :: "dcdc_task_t \<Rightarrow> int \<times> int" where
  "task_key t = (task_id t, module_id t)"

definition item_keys :: "dcdc_task_t pq_t \<Rightarrow> (int \<times> int) option list" where
  "item_keys q = map (\<lambda>e. map_option task_key (pv_value e)) (pq_items q)"

definition module_queue_ok :: "dcdc_task_t pq_t \<Rightarrow> bool" where
  "module_queue_ok q \<longleftrightarrow>
     pq_wf q \<and> pq_capacity q = DCDC_QUEUE_LEN \<and> distinct (item_keys q) \<and> None \<notin> set (item_keys q)"

definition mgr_wf :: "module_queue_mgr_t \<Rightarrow> bool" where
  "mgr_wf m \<longleftrightarrow>
     length (queues m) = MODULE_COUNT \<and>
     list_all (\<lambda>pq. case pq of None \<Rightarrow> False | Some q \<Rightarrow> module_queue_ok q) (queues m)"

lemma mgr_wfD:
  assumes "mgr_wf m" and "i < MODULE_COUNT"
  obtains q where "queues m ! i = Some q" "module_queue_ok q"
  using assms by (auto simp: mgr_wf_def list_all_length split: option.splits)

lemma mgr_wf_update [wf_intros]:
  "mgr_wf m \<Longrightarrow> module_queue_ok q \<Longrightarrow> mgr_wf (m\<lparr>queues := (queues m)[i := Some q]\<rparr>)"
  by (cases "i < length (queues m)") (auto simp: mgr_wf_def list_all_length nth_list_update)

lemma same_task_iff: "same_task task e \<longleftrightarrow> map_option task_key (pv_value e) = Some (task_key task)"
  by (auto simp: same_task_def task_key_def split: option.splits)

lemma scan_duplicate_iff: "scan_duplicate q task \<longleftrightarrow> Some (task_key task) \<in> set (item_keys q)"
  by (auto simp: scan_duplicate_def item_keys_def pq_items_def same_task_iff list_ex_iff image_iff eq_commute)

subsection \<open>Pushing\<close>

lemma queue_ok_push:
  assumes "module_queue_ok q" and "pv_value x = Some t" and "Some (task_key t) \<notin> set (item_keys q)"
    and push: "priority_queue_push now (Some q) x = (True, Some q')"
  shows "module_queue_ok q' \<and> set (item_keys q') = insert (Some (task_key t)) (set (item_keys q)) \<and>
    mset (pq_items q') = add_mset x (mset (pq_items q))"
proof -
  have wf: "pq_wf q" using assms(1) by (simp add: module_queue_ok_def)
  have room: "int (pq_size q) < pq_capacity q" using push by (rule push_true_room)
  note c = push_contents [OF wf room push]
  have keys: "mset (item_keys q') = mset (Some (task_key t) # item_keys q)"
    using c(6) assms(2) by (simp add: item_keys_def)
  then have "distinct (item_keys q')" "set (item_keys q') = insert (Some (task_key t)) (set (item_keys q))"
    using mset_eq_imp_distinct_iff [OF keys] mset_eq_setD [OF keys] assms(1,3)
    by (auto simp: module_queue_ok_def)
  then show ?thesis using c(2,4,6) assms(1) by (auto simp: module_queue_ok_def)
qed

lemma queue_ok_empty: "pq_wf q \<Longrightarrow> pq_items q = [] \<Longrightarrow> pq_capacity q = DCDC_QUEUE_LEN \<Longrightarrow> module_queue_ok q"
  by (simp add: module_queue_ok_def item_keys_def)

lemma clear_module_queue:
  assumes "module_queue_ok q"
  obtains q' where "snd (snd (priority_queue_clear (Some q) True)) = Some q'"
    "module_queue_ok q'" "pq_items q' = []" "pq_size q' = 0"
proof -
  have wf: "pq_wf q" using assms by (simp add: module_queue_ok_def)
  obtain fs ys where r: "clear_slots (pq_size q) (elems q) = (fs, ys)" by fastforce
  let ?q' = "q\<lparr>pq_elements := map_option (\<lambda>_. ys) (pq_elements q), pq_size := 0\<rparr>"
  have c: "priority_queue_clear (Some q) True = (True, fs, Some ?q')"
    by (simp add: priority_queue_clear_def r)
  then have "pq_wf ?q'" using clear_size [OF c wf] by simp
  moreover have "pq_items ?q' = []" by (simp add: pq_items_def)
  ultimately have "module_queue_ok ?q'" "pq_items ?q' = []"
    using assms by (simp_all add: queue_ok_empty module_queue_ok_def item_keys_def)
  then show thesis using that [of ?q'] c by simp
qed

text \<open>What the second critical section does to a good queue without the task.\<close>

lemma enqueue_task_cases:
  assumes ok: "module_queue_ok q" and fresh: "\<not> scan_duplicate q task"
    and r: "enqueue_task copy_ok msg_ok stamp now (Some q) task = Inr (b, pq')"
  shows "\<exists>q'. pq' = Some q' \<and> module_queue_ok q' \<and>
    (b \<longrightarrow> Some (task_key task) \<in> set (item_keys q')) \<and>
    (b \<and> task_id task = SET_MODE_SWITCH \<longrightarrow> item_keys q' = [Some (task_key task)])"
proof -
  obtain q1 where q1: "module_queue_ok q1" "\<not> scan_duplicate q1 task"
    "(if SET_MODE_SWITCH = task_id task then snd (snd (priority_queue_clear (Some q) True)) else Some q) = Some q1"
    "task_id task = SET_MODE_SWITCH \<Longrightarrow> pq_items q1 = []"
  proof (cases "SET_MODE_SWITCH = task_id task")
    case True
    obtain q1 where "snd (snd (priority_queue_clear (Some q) True)) = Some q1"
      "module_queue_ok q1" "pq_items q1 = []"
      using clear_module_queue [OF ok] .
    then show thesis using that [of q1] True by (simp add: scan_duplicate_iff item_keys_def)
  next
    case False
    then show thesis using that [of q] ok fresh by simp
  qed
  show ?thesis
  proof (cases "copy_ok \<and> msg_ok")
    case False
    then show ?thesis using r q1(1) by (auto simp: enqueue_task_def q1(3) Let_def split: if_splits)
  next
    case True
    then obtain item t where push: "priority_queue_push now (Some q1) item = (b, pq')"
      and t: "pv_value item = Some t" "task_key t = task_key task"
      using r by (auto simp: enqueue_task_def q1(3) Let_def task_key_def split: option.splits)
    show ?thesis
    proof (cases b)
      case b: True
      then obtain q' where q': "pq' = Some q'"
        using push by (auto simp: priority_queue_push_def Let_def split: option.splits if_splits)
      have k: "Some (task_key t) \<notin> set (item_keys q1)" using q1(2) t by (simp add: scan_duplicate_iff)
      have push': "priority_queue_push now (Some q1) item = (True, Some q')" using push b q' by simp
      note ok' = queue_ok_push [OF q1(1) t(1) k push']
      have "item_keys q' = [Some (task_key task)]" if "task_id task = SET_MODE_SWITCH"
        using ok' q1(4) that t by (auto simp: item_keys_def)
      then show ?thesis using q' ok' t by auto
    next
      case False
      then have "pq' = Some q1"
        using push by (auto simp: priority_queue_push_def Let_def split: option.splits if_splits)
      then show ?thesis using q1(1) False by simp
    qed
  qed
qed

lemma module_push_task_cases:
  assumes wf: "mgr_wf m" and mid: "1 \<le> mid" "mid \<le> 12"
    and r: "module_push_task copy_ok msg_ok stamp now (Some m) mid task = Inr (b, mgr')"
  obtains (dup) q where "queues m ! nat (mid - 1) = Some q" "scan_duplicate q task" "b" "mgr' = Some m"
  | (fresh) q pq' where "queues m ! nat (mid - 1) = Some q" "module_queue_ok q" "\<not> scan_duplicate q task"
      "enqueue_task copy_ok msg_ok stamp now (Some q) task = Inr (b, pq')"
      "mgr' = Some (m\<lparr>queues := (queues m)[nat (mid - 1) := pq']\<rparr>)"
proof -
  have "nat (mid - 1) < MODULE_COUNT" using mid by (simp add: MODULE_COUNT_def)
  then obtain q where "queues m ! nat (mid - 1) = Some q" "module_queue_ok q" using mgr_wfD [OF wf] by blast
  then show thesis
    using r mid dup [of q] fresh [of q]
    by (auto simp: module_push_task_def bad_module_def MODULE_COUNT_def Let_def split: if_splits sum.splits)
qed

text \<open>
  The manager invariant. Pushing a task to any module, whatever the outcome of the allocations,
  keeps all twelve queues well-formed and free of duplicates: no module queue ever holds two tasks
  with the same task and module identifier when the calls do not overlap.
\<close>

theorem module_push_keeps_wf:
  assumes "mgr_wf m" and "module_push_task copy_ok msg_ok stamp now (Some m) mid task = Inr (b, mgr')"
  shows "\<exists>m'. mgr' = Some m' \<and> mgr_wf m'"
proof (cases "1 \<le> mid \<and> mid \<le> 12")
  case True
  with assms have "mgr_wf m" "1 \<le> mid" "mid \<le> 12"
    "module_push_task copy_ok msg_ok stamp now (Some m) mid task = Inr (b, mgr')" by auto
  then show ?thesis
  proof (cases rule: module_push_task_cases)
    case (dup q)
    then show ?thesis using assms(1) by simp
  next
    case (fresh q pq')
    then show ?thesis using enqueue_task_cases [OF fresh(2-4)] assms(1) by (auto intro: wf_intros)
  qed
next
  case False
  then show ?thesis
    using assms by (auto simp: module_push_task_def bad_module_def MODULE_COUNT_def split: if_splits)
qed

text \<open>
  The effect of a push. When it returns true, the addressed queue holds a task with the given
  identifiers; a mode-switch task that was not yet queued is then the only task in it, because it
  flushes the queue first. Whatever it returns, the queues of all other modules are untouched.
\<close>

theorem module_push_effect:
  assumes "mgr_wf m" and mid: "1 \<le> mid" "mid \<le> 12"
    and r: "module_push_task copy_ok msg_ok stamp now (Some m) mid task = Inr (b, Some m')"
  shows "\<exists>q q'. queues m ! nat (mid - 1) = Some q \<and> queues m' ! nat (mid - 1) = Some q' \<and>
     (b \<longrightarrow> Some (task_key task) \<in> set (item_keys q')) \<and>
     (b \<and> task_id task = SET_MODE_SWITCH \<and> Some (task_key task) \<notin> set (item_keys q) \<longrightarrow>
        item_keys q' = [Some (task_key task)]) \<and>
     (\<forall>j. j \<noteq> nat (mid - 1) \<longrightarrow> queues m' ! j = queues m ! j)"
  using assms(1) mid r
proof (cases rule: module_push_task_cases)
  case (dup q)
  then show ?thesis by (auto simp: scan_duplicate_iff)
next
  case (fresh q pq')
  note q' = enqueue_task_cases [OF fresh(2-4)]
  have "nat (mid - 1) < length (queues m)" using assms(1) mid by (simp add: mgr_wf_def MODULE_COUNT_def)
  with fresh(1,5) q' show ?thesis by auto
qed

subsection \<open>Popping and creation\<close>

lemma queue_ok_pop:
  assumes "module_queue_ok q" and "0 < pq_size q" and "pop_root now q = (x, q')"
  shows "module_queue_ok q' \<and> (\<exists>t. pv_value x = Some t \<and> Some (task_key t) \<notin> set (item_keys q'))"
proof -
  have wf: "pq_wf q" using assms(1) by (simp add: module_queue_ok_def)
  note c = pop_root_contents [OF wf assms(2,3)]
  have keys: "mset (item_keys q) = mset (map_option task_key (pv_value x) # item_keys q')"
    using c(6) by (simp add: item_keys_def)
  then have "distinct (map_option task_key (pv_value x) # item_keys q')"
    "None \<notin> set (map_option task_key (pv_value x) # item_keys q')"
    using mset_eq_imp_distinct_iff [OF keys] mset_eq_setD [OF keys] assms(1)
    by (auto simp: module_queue_ok_def)
  then show ?thesis using c(2,4) assms(1) by (auto simp: module_queue_ok_def)
qed

text \<open>
  Taking a task. \<^verbatim>\<open>module_try_pop_task\<close> on a well-formed manager and a valid module returns NULL
  exactly when that module's queue is empty; otherwise it returns a queued task, and the queue no
  longer holds a task with that key. The manager stays well-formed.
\<close>

theorem module_try_pop_effect:
  assumes "mgr_wf m" and mid: "1 \<le> mid" "mid \<le> 12"
    and r: "module_try_pop_task now (Some m) mid = (t, mgr')"
  shows "\<exists>q q' m'. queues m ! nat (mid - 1) = Some q \<and> mgr' = Some m' \<and> mgr_wf m' \<and>
     queues m' ! nat (mid - 1) = Some q' \<and>
     (case t of
        None \<Rightarrow> pq_items q = [] \<and> q' = q
      | Some task \<Rightarrow> Some (task_key task) \<in> set (item_keys q) \<and> Some (task_key task) \<notin> set (item_keys q'))"
proof -
  let ?i = "nat (mid - 1)"
  have i: "?i < MODULE_COUNT" using mid by (simp add: MODULE_COUNT_def)
  obtain q where q: "queues m ! ?i = Some q" "module_queue_ok q" using mgr_wfD [OF assms(1) i] .
  have len: "?i < length (queues m)" using assms(1) i by (simp add: mgr_wf_def)
  show ?thesis
  proof (cases "pq_size q = 0")
    case True
    then have "t = None" "mgr' = Some (m\<lparr>queues := (queues m)[?i := Some q]\<rparr>)" "pq_items q = []"
      using r q(1) mid by (auto simp: module_try_pop_task_def bad_module_def MODULE_COUNT_def
          priority_queue_try_pop_def pq_empty_def pq_items_def)
    then show ?thesis using q len assms(1) by (auto intro: wf_intros)
  next
    case False
    obtain x q' where pop: "pop_root now q = (x, q')" by fastforce
    have eq: "t = pv_value x" "mgr' = Some (m\<lparr>queues := (queues m)[?i := Some q']\<rparr>)"
      using r q(1) mid False pop by (auto simp: module_try_pop_task_def bad_module_def MODULE_COUNT_def
          priority_queue_try_pop_def pq_empty_def)
    obtain t' where t': "module_queue_ok q'" "pv_value x = Some t'" "Some (task_key t') \<notin> set (item_keys q')"
      using queue_ok_pop [OF q(2) _ pop] False by auto
    moreover have "Some (task_key t') \<in> set (item_keys q)"
      using pop_root_contents(6) [OF _ _ pop] q(2) False t'(2)
      by (force simp: module_queue_ok_def item_keys_def image_iff simp flip: set_mset_mset)
    ultimately show ?thesis using q(1) eq len assms(1) by (auto intro: wf_intros)
  qed
qed

lemma fresh_queue_ok:
  "length xs = 20 \<Longrightarrow>
   module_queue_ok \<lparr>pq_elements = Some xs, pq_capacity = DCDC_QUEUE_LEN, pq_size = 0, pq_compare = c\<rparr> \<and>
   pq_items \<lparr>pq_elements = Some xs, pq_capacity = DCDC_QUEUE_LEN, pq_size = 0, pq_compare = c\<rparr> = []"
  by (simp add: module_queue_ok_def pq_wf_def elems_def item_keys_def pq_items_def DCDC_QUEUE_LEN_def)

lemma init_queues_spec:
  "init_queues allocs made =
     (if list_all (\<lambda>(obj_ok, block). obj_ok \<and> block \<noteq> None) allocs
      then Inr (made @ map (\<lambda>(_, block). Some \<lparr>pq_elements = block, pq_capacity = DCDC_QUEUE_LEN, pq_size = 0,
                                               pq_compare = aging_compare\<rparr>) allocs)
      else Inl (map (\<lambda>q. snd (pq_delete q)) made @
                map (\<lambda>_. [PqElements, PqObject]) (takeWhile (\<lambda>(obj_ok, block). obj_ok \<and> block \<noteq> None) allocs)))"
  by (induction allocs made rule: init_queues.induct)
    (auto simp: pq_init_def pq_delete_def split: if_splits)

text \<open>
  Creation of the manager. When all allocations succeed with blocks of 20 slots, the result is a
  well-formed manager with twelve empty queues. When the manager's own allocation succeeds and one for
  a queue fails, the result is NULL and exactly the blocks of the queues made before the failure are
  released.
\<close>

theorem module_queue_mgr_init_spec:
  assumes "length allocs = MODULE_COUNT"
    and "list_all (\<lambda>(obj_ok, block). case block of None \<Rightarrow> True | Some xs \<Rightarrow> length xs = 20) allocs"
  shows "case module_queue_mgr_init True allocs of
      (Some m, freed) \<Rightarrow> mgr_wf m \<and> freed = [] \<and> list_all (\<lambda>q. map_option pq_items q = Some []) (queues m)
    | (None, freed) \<Rightarrow>
        freed = map (\<lambda>_. [PqElements, PqObject]) (takeWhile (\<lambda>(obj_ok, block). obj_ok \<and> block \<noteq> None) allocs) \<and>
        \<not> list_all (\<lambda>(obj_ok, block). obj_ok \<and> block \<noteq> None) allocs"
proof (cases "list_all (\<lambda>(obj_ok, block). obj_ok \<and> block \<noteq> None) allocs")
  case True
  have "\<exists>q. (case a of (_, block) \<Rightarrow> Some \<lparr>pq_elements = block, pq_capacity = DCDC_QUEUE_LEN, pq_size = 0,
            pq_compare = aging_compare\<rparr>) = Some q \<and> module_queue_ok q \<and> pq_items q = []"
    if "a \<in> set allocs" for a
    using that True assms(2) fresh_queue_ok by (fastforce simp: list_all_iff)
  then show ?thesis
    using True assms(1) by (fastforce simp: module_queue_mgr_init_def init_queues_spec mgr_wf_def list_all_iff)
next
  case False
  then show ?thesis
    using assms(1) by (simp add: module_queue_mgr_init_def init_queues_spec)
qed

text \<open>
  The scan and the push are two critical sections. If two threads push the same task to an
  empty queue and both scan before either of them enqueues, both enqueue: the queue then holds the
  task twice, and the invariant of the manager is lost.
\<close>

definition interleaved_push ::
  "uint64 \<Rightarrow> dcdc_task_t pq_t \<Rightarrow> dcdc_task_t \<Rightarrow> dcdc_task_t pq_t option" where
  "interleaved_push t q task =
     (let dup1 = scan_duplicate q task;
          dup2 = scan_duplicate q task;
          act = (\<lambda>dup pq. if dup then pq
                         else (case enqueue_task True True t (\<lambda>_. t) pq task of Inl _ \<Rightarrow> None | Inr (_, pq') \<Rightarrow> pq'))
      in act dup2 (act dup1 (Some q)))"

theorem interleaved_push_duplicates:
  assumes ok: "module_queue_ok q" and empty: "pq_items q = []" and msg: "data task = Some msg"
    and other: "task_id task \<noteq> SET_MODE_SWITCH"
  shows "\<exists>q'. interleaved_push t q task = Some q' \<and>
     mset (item_keys q') = {#Some (task_key task), Some (task_key task)#} \<and> \<not> module_queue_ok q'"
proof -
  let ?item = "\<lparr>pv_priority = priority_to_int (priority task),
      pv_value = Some \<lparr>priority = priority task, data = Some msg, task_id = task_id task, module_id = module_id task\<rparr>,
      pv_timestamp = t\<rparr>"
  have key: "map_option task_key (pv_value ?item) = Some (task_key task)" by (simp add: task_key_def)
  have wf: "pq_wf q" and cap: "pq_capacity q = 20" using ok by (auto simp: module_queue_ok_def DCDC_QUEUE_LEN_def)
  have sz: "pq_size q = 0" using empty wf by (auto simp: pq_items_def pq_wf_def)
  have enq: "enqueue_task True True t (\<lambda>_. t) pq task = Inr (priority_queue_push (\<lambda>_. t) pq ?item)" for pq
    using msg other by (simp add: enqueue_task_def Let_def)
  have r1: "int (pq_size q) < pq_capacity q" using sz cap by simp
  obtain q1 where p1: "priority_queue_push (\<lambda>_. t) (Some q) ?item = (True, Some q1)"
    using push_success [OF wf r1] by blast
  note c1 = push_contents [OF wf r1 p1]
  have r2: "int (pq_size q1) < pq_capacity q1" using c1(4,5) sz cap by simp
  obtain q2 where p2: "priority_queue_push (\<lambda>_. t) (Some q1) ?item = (True, Some q2)"
    using push_success [OF c1(2) r2] by blast
  have keys: "mset (item_keys q2) = {#Some (task_key task), Some (task_key task)#}"
    using push_contents(6) [OF c1(2) r2 p2] c1(6) empty key by (simp add: item_keys_def)
  moreover have "\<not> distinct (item_keys q2)"
    using mset_eq_imp_distinct_iff [of "item_keys q2" "[Some (task_key task), Some (task_key task)]"] keys by simp
  moreover have "interleaved_push t q task = Some q2"
    using empty p1 p2 by (simp add: interleaved_push_def Let_def scan_duplicate_iff item_keys_def enq)
  ultimately show ?thesis by (auto simp: module_queue_ok_def)
qed

subsection \<open>Instances\<close>

definition sample_frame :: can_frame where
  "sample_frame = \<lparr>can_id = 0, can_dlc = 8, frame_data = replicate 8 0\<rparr>"

definition sample_task :: "int \<Rightarrow> int \<Rightarrow> dcdc_task_t" where
  "sample_task tid mid =
     \<lparr>priority = NORMAL, data = Some \<lparr>frame = sample_frame, callback = None\<rparr>, task_id = tid, module_id = mid\<rparr>"

definition sample_mq :: "dcdc_task_t pq_t" where
  "sample_mq = \<lparr>pq_elements = Some (replicate 20 empty_pv), pq_capacity = 20, pq_size = 0, pq_compare = aging_compare\<rparr>"

definition sample_mgr :: module_queue_mgr_t where
  "sample_mgr = \<lparr>queues = replicate 12 (Some sample_mq)\<rparr>"

definition sample_pushed :: module_queue_mgr_t where
  "sample_pushed =
     sample_mgr\<lparr>queues := (queues sample_mgr)[4 := snd (priority_queue_push (\<lambda>_. 0) (Some sample_mq)
        \<lparr>pv_priority = 1, pv_value = Some (sample_task SET_MODE_SWITCH 5), pv_timestamp = 0\<rparr>)]\<rparr>"

lemma sample_mq_ok: "module_queue_ok sample_mq" "pq_items sample_mq = []" "pq_size sample_mq = 0"
  by (simp_all add: sample_mq_def module_queue_ok_def pq_wf_def elems_def item_keys_def pq_items_def DCDC_QUEUE_LEN_def)

lemma sample_mgr_wf: "mgr_wf sample_mgr"
  using sample_mq_ok(1) by (simp add: sample_mgr_def mgr_wf_def MODULE_COUNT_def list_all_iff)

lemma sample_push:
  "module_push_task True True 0 (\<lambda>_. 0) (Some sample_mgr) 5 (sample_task SET_MODE_SWITCH 5) = Inr (True, Some sample_pushed)"
  by (simp add: module_push_task_def bad_module_def MODULE_COUNT_def sample_mgr_def scan_duplicate_def Let_def
      enqueue_task_def priority_queue_clear_def sample_task_def sample_pushed_def sample_mq_def
      priority_queue_push_def pq_full_def elems_def)

theorem module_push_keeps_wf_witness: "\<exists>m'. Some sample_pushed = Some m' \<and> mgr_wf m'"
  by (rule module_push_keeps_wf [OF sample_mgr_wf sample_push])

theorem module_push_effect_witness:
  "\<exists>q'. queues sample_pushed ! 4 = Some q' \<and> item_keys q' = [Some (SET_MODE_SWITCH, 5)]"
  using module_push_effect [OF sample_mgr_wf _ _ sample_push] sample_mq_ok(2)
  by (auto simp: sample_mgr_def item_keys_def task_key_def sample_task_def)

theorem module_try_pop_effect_witness:
  "fst (module_try_pop_task (\<lambda>_. 0) (Some sample_mgr) 5) = None \<and>
   (\<exists>m'. snd (module_try_pop_task (\<lambda>_. 0) (Some sample_mgr) 5) = Some m' \<and> mgr_wf m')"
proof -
  have t: "fst (module_try_pop_task (\<lambda>_. 0) (Some sample_mgr) 5) = None"
    by (simp add: module_try_pop_task_def bad_module_def MODULE_COUNT_def sample_mgr_def Let_def
        priority_queue_try_pop_def pq_empty_def sample_mq_def)
  show ?thesis
    using module_try_pop_effect [OF sample_mgr_wf _ _ prod.collapse [symmetric], of 5 "\<lambda>_. 0"] t by auto
qed

theorem module_queue_mgr_init_spec_witness:
  "case module_queue_mgr_init True (replicate 12 (True, Some (replicate 20 empty_pv))) of
     (Some m, freed) \<Rightarrow> mgr_wf m | (None, freed) \<Rightarrow> False"
  using module_queue_mgr_init_spec [of "replicate 12 (True, Some (replicate 20 empty_pv))"]
  by (auto simp: MODULE_COUNT_def list_all_iff split: prod.splits option.splits)

theorem interleaved_push_duplicates_witness:
  "\<exists>q'. interleaved_push 0 sample_mq (sample_task 1 5) = Some q' \<and> \<not> module_queue_ok q'"
  using interleaved_push_duplicates [OF sample_mq_ok(1,2), of "sample_task 1 5" _ 0]
  by (auto simp: sample_task_def SET_MODE_SWITCH_def)

end
