(* ===== verification/Can.thy ===== *)
theory Can
  imports Complex_Main Utils Module_Queue
begin

unbundle bit_operations_syntax

text \<open>
  The power-module driver of \<^verbatim>\<open>src/src/can/can.c\<close>: the 29-bit identifier, the set frame, the task pool and
  the two threads. A setter builds a frame and queues it for a module; the dispatcher thread moves one
  task of every module to the pool's queue; the worker threads pop the pool's queue by priority and
  call the callback of the message. Sending a frame is logging it, so the trace of the worker is the
  list of the frames it sent. A \<^verbatim>\<open>float\<close> argument is its exact value, and one handed over in a union is
  its bit pattern.
\<close>

subsection \<open>The identifier\<close>

text \<open>
  \<^verbatim>\<open>dcdc_can_id_u\<close> is a packed union: the bit-fields \<open>group\<close> (3 bits), \<open>src_addr\<close> (8), \<open>dst_addr\<close> (8),
  \<open>ptp\<close> (1), \<open>protno\<close> (9) and \<open>reserved\<close> (3) share one 32-bit number. The compiler lays them out from the lowest
  bit upwards on a little-endian host and from the highest bit downwards on a big-endian one: \<open>fpos\<close> is
  where a field is that begins \<open>pos\<close> bits after the first one.
\<close>

definition fpos :: "endian \<Rightarrow> nat \<Rightarrow> nat \<Rightarrow> nat" where
  "fpos host pos len = (case host of LittleEndian \<Rightarrow> pos | BigEndian \<Rightarrow> 32 - pos - len)"

definition get_field :: "nat \<Rightarrow> nat \<Rightarrow> uint32 \<Rightarrow> uint32" where
  "get_field pos len i = take_bit len (drop_bit pos i)"

definition set_field :: "nat \<Rightarrow> nat \<Rightarrow> uint32 \<Rightarrow> uint32 \<Rightarrow> uint32" where
  "set_field pos len v i = (i AND NOT (push_bit pos (mask len))) OR push_bit pos (take_bit len v)"

definition ERROR_ID :: uint32 where "ERROR_ID = 0x00000000"
definition BROADCAST :: uint32 where "BROADCAST = 0x0607FF80"
definition PROTNO :: uint32 where "PROTNO = 0x060"
definition SRC_ADDR :: uint32 where "SRC_ADDR = 0xF0"
definition DST_BROADCAST :: uint8 where "DST_BROADCAST = 0xFE"
definition DST_EXT_BROADCAST :: uint8 where "DST_EXT_BROADCAST = 0xFF"
definition CAN_EFF_FLAG :: uint32 where "CAN_EFF_FLAG = 0x80000000"
definition CAN_MAX_DLC :: uint8 where "CAN_MAX_DLC = 8"

record dc_model_param_t =
  ptp :: uint8
  dst :: uint8
  group :: uint8

definition can_id_fill_dst :: "endian \<Rightarrow> dc_model_param_t \<Rightarrow> uint32" where
  "can_id_fill_dst host p =
     (let set_group = set_field (fpos host 0 3) 3; set_src = set_field (fpos host 3 8) 8; set_dst = set_field (fpos host 11 8) 8;
          set_ptp = set_field (fpos host 19 1) 1; set_protno = set_field (fpos host 20 9) 9;
          fin = (\<lambda>i. set_protno PROTNO (set_src SRC_ADDR i));
          c0 = set_ptp (ucast (ptp p)) 0
      in if ptp p = 1 then fin (set_dst (ucast (dst p)) c0)
         else if ptp p = 0 then
           (if dst p = DST_EXT_BROADCAST then fin (set_dst (ucast (dst p)) c0)
            else if dst p = DST_BROADCAST then fin (set_group (ucast (group p)) (set_dst (ucast (dst p)) c0))
            else fin (set_dst (ucast (0xFD - dst p)) c0))
         else ERROR_ID)"

subsection \<open>Payload and frame\<close>

definition store32 :: "endian \<Rightarrow> uint32 \<Rightarrow> uint8 list" where
  "store32 host x =
     (let bs = [ucast x, ucast (drop_bit 8 x), ucast (drop_bit 16 x), ucast (drop_bit 24 x)]
      in case host of LittleEndian \<Rightarrow> bs | BigEndian \<Rightarrow> rev bs)"

text \<open>\<^verbatim>\<open>htonl\<close> exchanges the bytes on a little-endian host.\<close>

definition htonl :: "endian \<Rightarrow> uint32 \<Rightarrow> uint32" where
  "htonl host x =
     (case host of
        BigEndian \<Rightarrow> x
      | LittleEndian \<Rightarrow>
          push_bit 24 (take_bit 8 x) OR push_bit 16 (take_bit 8 (drop_bit 8 x)) OR
          push_bit 8 (take_bit 8 (drop_bit 16 x)) OR drop_bit 24 x)"

definition int32_2_can_need_format :: "endian \<Rightarrow> uint32 \<Rightarrow> uint8 list" where
  "int32_2_can_need_format host v = store32 host (htonl host v)"

definition float32_2_can_need_format :: "endian \<Rightarrow> uint32 \<Rightarrow> uint8 list" where
  "float32_2_can_need_format host bits =
     (case convert_byte_order host (Some (store32 host bits)) 4 True of None \<Rightarrow> [] | Some bs \<Rightarrow> take 4 bs)"

definition DCDC_CAN_FUNC_CODE_SET :: uint8 where "DCDC_CAN_FUNC_CODE_SET = 0x03"
definition DCDC_DATA_LEN :: nat where "DCDC_DATA_LEN = 4"

definition set_frame_fill :: "endian \<Rightarrow> uint16 \<Rightarrow> uint8 list \<Rightarrow> dc_model_param_t \<Rightarrow> can_frame" where
  "set_frame_fill host register_num dat p =
     (let zeroed = replicate 8 0;
          d1 = zeroed[0 := DCDC_CAN_FUNC_CODE_SET, 2 := ucast (drop_bit 8 register_num), 3 := ucast register_num]
      in \<lparr>can_id = can_id_fill_dst host p OR CAN_EFF_FLAG, can_dlc = CAN_MAX_DLC,
          frame_data = take 4 d1 @ take DCDC_DATA_LEN dat\<rparr>)"

text \<open>How a receiver reads a set frame: function code, register number and value, in network order.\<close>

definition read_be :: "uint8 list \<Rightarrow> nat" where
  "read_be bs = foldl (\<lambda>acc b. acc * 256 + unat b) 0 bs"

definition decode_set_frame :: "can_frame \<Rightarrow> nat \<times> nat \<times> nat" where
  "decode_set_frame f =
     (let d = frame_data f in (unat (d ! 0), read_be [d ! 2, d ! 3], read_be (drop 4 d)))"

subsection \<open>Facts on identifiers and frames\<close>

lemma bit_set_field:
  "bit (set_field pos len v i) n \<longleftrightarrow>
     n < 32 \<and> (if pos \<le> n \<and> n < pos + len then bit v (n - pos) else bit i n)"
  by (auto simp: set_field_def bit_simps less_diff_conv2 add.commute)

lemma bit_get_field: "bit (get_field pos len i) n \<longleftrightarrow> n < len \<and> bit i (pos + n)"
  by (auto simp: get_field_def bit_simps)

lemma get_set_field:
  assumes "pos + len \<le> 32"
  shows "get_field pos len (set_field pos len v i) = take_bit len v"
  using assms by (intro bit_word_eqI) (auto simp: bit_get_field bit_set_field bit_simps)

lemma get_set_other:
  assumes "pos + len \<le> pos' \<or> pos' + len' \<le> pos"
  shows "get_field pos len (set_field pos' len' v i) = get_field pos len i"
  using assms by (intro bit_word_eqI) (auto simp: bit_get_field bit_set_field dest: bit_imp_le_length)

lemma get_field_0 [simp]: "get_field pos len 0 = 0"
  by (simp add: get_field_def)

lemmas field_simps_id = get_set_field get_set_other

lemma take_bit_8_ucast [simp]: "take_bit 8 (ucast (x :: uint8) :: uint32) = ucast x"
  by (rule bit_word_eqI) (auto simp: bit_simps dest: bit_imp_le_length)

lemma ptp_cases: "take_bit 1 (ucast (x :: uint8) :: uint32) = ucast x" if "x = 0 \<or> x = 1"
  using that by auto

lemma id_constants [simp]: "take_bit 9 PROTNO = PROTNO" "take_bit 8 SRC_ADDR = SRC_ADDR"
  by (simp_all add: PROTNO_def SRC_ADDR_def)

text \<open>
  The identifier. For a point-to-point (\<open>ptp = 1\<close>) or broadcast (\<open>ptp = 0\<close>) request every field of
  the identifier reads back: protocol number, source address, the \<open>ptp\<close> bit, no reserved bit, the
  destination (mirrored to \<open>0xFD - dst\<close> for an extended group), and the group number, reduced to its
  three bits, only for a broadcast within a group. Any other \<open>ptp\<close> gives \<^verbatim>\<open>ERROR_ID\<close>.
\<close>

theorem can_id_fields:
  "if ptp p = 0 \<or> ptp p = 1
   then get_field (fpos host 20 9) 9 (can_id_fill_dst host p) = PROTNO \<and>
        get_field (fpos host 3 8) 8 (can_id_fill_dst host p) = SRC_ADDR \<and>
        get_field (fpos host 19 1) 1 (can_id_fill_dst host p) = ucast (ptp p) \<and>
        get_field (fpos host 29 3) 3 (can_id_fill_dst host p) = 0 \<and>
        get_field (fpos host 11 8) 8 (can_id_fill_dst host p) =
          ucast (if ptp p = 0 \<and> dst p \<noteq> DST_EXT_BROADCAST \<and> dst p \<noteq> DST_BROADCAST then 0xFD - dst p else dst p) \<and>
        get_field (fpos host 0 3) 3 (can_id_fill_dst host p) =
          (if ptp p = 0 \<and> dst p = DST_BROADCAST then take_bit 3 (ucast (group p)) else 0)
   else can_id_fill_dst host p = ERROR_ID"
  by (cases host; auto simp: can_id_fill_dst_def fpos_def Let_def field_simps_id ptp_cases DST_EXT_BROADCAST_def DST_BROADCAST_def)

text \<open>
  The upper three bits, where the flags of a frame are, hold the reserved field on a little-endian host, which stays zero,
  and the group number on a big-endian one.
\<close>

definition group_broadcast :: "dc_model_param_t \<Rightarrow> bool" where
  "group_broadcast p \<longleftrightarrow> ptp p = 0 \<and> dst p = DST_BROADCAST"

lemma can_id_high_bits:
  assumes "29 \<le> n" "host = LittleEndian \<or> \<not> group_broadcast p"
  shows "\<not> bit (can_id_fill_dst host p) n"
  using assms by (cases host) (auto simp: can_id_fill_dst_def fpos_def group_broadcast_def Let_def bit_set_field ERROR_ID_def)

lemma flagged_id: "take_bit 29 (can_id_fill_dst host p OR CAN_EFF_FLAG) = take_bit 29 (can_id_fill_dst host p)"
  by (rule bit_word_eqI) (auto simp: CAN_EFF_FLAG_def bit_simps)

lemma low_bits_id:
  assumes "host = LittleEndian \<or> \<not> group_broadcast p"
  shows "take_bit 29 (can_id_fill_dst host p) = can_id_fill_dst host p"
  using can_id_high_bits [OF _ assms] by (intro bit_word_eqI) (auto simp: bit_simps intro: leI ccontr)

lemma big_endian_low:
  assumes "group_broadcast p"
  shows "take_bit 29 (can_id_fill_dst BigEndian p) = can_id_fill_dst BigEndian (p\<lparr>group := 0\<rparr>)"
  using assms by (intro bit_word_eqI)
    (auto simp: can_id_fill_dst_def fpos_def group_broadcast_def Let_def bit_set_field bit_simps DST_BROADCAST_def DST_EXT_BROADCAST_def)

lemma div_mod_256: "(n :: nat) div m mod 256 + 256 * (n div (m * 256)) = n div m"
  by (simp add: div_mult2_eq)

lemma digits_256:
  "b0 + 256 * n1 = n \<Longrightarrow> b1 + 256 * n2 = n1 \<Longrightarrow> b2 + 256 * n3 = n2 \<Longrightarrow>
   ((n3 * 256 + b2) * 256 + b1) * 256 + b0 = (n :: nat)"
  by simp

lemma unat_byte: "unat (ucast (drop_bit k (v :: 'a::len word)) :: uint8) = unat v div 2 ^ k mod 256"
  unfolding unsigned_ucast_eq unsigned_drop_bit_eq
  by (simp add: take_bit_eq_mod drop_bit_eq_div [of k "unat v"] take_bit_nat_eq_self flip: unsigned_drop_bit_eq)

lemma read_be_store32: "read_be (store32 BigEndian v) = unat v"
proof -
  note b = unat_byte [of _ v]
  have "unat v < 2 ^ 32" using unsigned_less [of v] by simp
  then have "unat v div 16777216 mod 256 = unat v div 16777216" by simp
  then have "read_be (store32 BigEndian v) =
      ((unat v div 16777216 * 256 + unat v div 65536 mod 256) * 256 + unat v div 256 mod 256) * 256 + unat v mod 256"
    using b [of 0] b [of 8] b [of 16] b [of 24] by (simp add: store32_def read_be_def Let_def)
  moreover have "unat v mod 256 + 256 * (unat v div 256) = unat v" by simp
  moreover have "unat v div 256 mod 256 + 256 * (unat v div 65536) = unat v div 256"
    using div_mod_256 [of "unat v" 256] by simp
  moreover have "unat v div 65536 mod 256 + 256 * (unat v div 16777216) = unat v div 65536"
    using div_mod_256 [of "unat v" 65536] by simp
  ultimately show ?thesis using digits_256 by metis
qed

lemma htonl_bytes: "store32 host (htonl host v) = store32 BigEndian v"
proof (cases host)
  case LittleEndian
  have "ucast (htonl LittleEndian v) = (ucast (drop_bit 24 v) :: uint8)"
    "ucast (drop_bit 8 (htonl LittleEndian v)) = (ucast (drop_bit 16 v) :: uint8)"
    "ucast (drop_bit 16 (htonl LittleEndian v)) = (ucast (drop_bit 8 v) :: uint8)"
    "ucast (drop_bit 24 (htonl LittleEndian v)) = (ucast v :: uint8)"
    by (rule bit_word_eqI; force simp: htonl_def bit_simps dest: bit_imp_le_length)+
  then show ?thesis using LittleEndian by (simp add: store32_def)
next
  case BigEndian
  then show ?thesis by (simp add: htonl_def)
qed

lemma float_bytes: "float32_2_can_need_format host bits = store32 BigEndian bits"
proof -
  have len: "4 \<le> length (store32 host bits)" by (cases host) (simp_all add: store32_def Let_def)
  show ?thesis
    using reverse_loop_rev [OF len]
    by (cases host) (simp_all add: float32_2_can_need_format_def convert_byte_order_def store32_def Let_def)
qed

lemma length_store32 [simp]: "length (store32 host v) = 4"
  by (cases host) (simp_all add: store32_def Let_def)

lemma read_be_16: "read_be [ucast (drop_bit 8 (r :: uint16)), ucast r] = unat r"
proof -
  have "unat r < 2 ^ 16" using unsigned_less [of r] by simp
  then have "unat r div 256 < 256" by simp
  then show ?thesis
    using unat_byte [of 8 r] unat_byte [of 0 r] div_mult_mod_eq [of "unat r" 256] by (simp add: read_be_def)
qed

lemma set_frame_fill_facts:
  assumes "length bs = 4"
  shows "length (frame_data (set_frame_fill host reg bs p)) = 8"
    and "decode_set_frame (set_frame_fill host reg bs p) = (3, unat reg, read_be bs)"
    and "take_bit 29 (can_id (set_frame_fill host reg bs p)) = take_bit 29 (can_id_fill_dst host p)"
    and "bit (can_id (set_frame_fill host reg bs p)) 31"
  using assms read_be_16 [of reg] flagged_id [of host p]
  by (simp_all add: set_frame_fill_def Let_def decode_set_frame_def DCDC_CAN_FUNC_CODE_SET_def DCDC_DATA_LEN_def
      CAN_EFF_FLAG_def bit_simps nth_append)

text \<open>
  C5. The set frame on the wire. On hosts of either byte order and for integer and float payloads
  alike, the frame has eight data bytes that decode to the set function code, the register number and
  the 32-bit payload; the extended-frame flag is set; and the 29 bits of the identifier that go on the bus are those of
  \<^verbatim>\<open>can_id_fill_dst\<close>, which are all of it, except on a big-endian host in a broadcast to a group: there the group number
  is in the three bits above them, where the flags of the frame are, and is not sent.
\<close>

theorem set_frame_wire_format:
  "list_all (\<lambda>fmt.
     length (frame_data (set_frame_fill host reg (fmt v) p)) = 8 \<and>
     decode_set_frame (set_frame_fill host reg (fmt v) p) = (3, unat reg, unat v) \<and>
     bit (can_id (set_frame_fill host reg (fmt v) p)) 31 \<and>
     take_bit 29 (can_id (set_frame_fill host reg (fmt v) p)) =
       (if host = BigEndian \<and> ptp p = 0 \<and> dst p = DST_BROADCAST
        then can_id_fill_dst host (p\<lparr>group := 0\<rparr>) else can_id_fill_dst host p))
   [int32_2_can_need_format host, float32_2_can_need_format host]"
proof -
  have "take_bit 29 (can_id_fill_dst host p) =
     (if host = BigEndian \<and> ptp p = 0 \<and> dst p = DST_BROADCAST then can_id_fill_dst host (p\<lparr>group := 0\<rparr>) else can_id_fill_dst host p)"
    using low_bits_id [of host p] big_endian_low [of p] by (cases host) (auto simp: group_broadcast_def)
  then show ?thesis
    using set_frame_fill_facts [of "store32 BigEndian v" host reg p] read_be_store32 [of v]
    by (simp add: int32_2_can_need_format_def htonl_bytes float_bytes)
qed

subsection \<open>Submitting and setting\<close>

text \<open>\<open>alloc_ok\<close> is the outcome of the \<^verbatim>\<open>malloc\<close>, which the code does not test.\<close>

definition submit_task ::
  "bool \<Rightarrow> uint64 \<Rightarrow> (nat \<Rightarrow> uint64) \<Rightarrow> can_msg_t pq_t option \<Rightarrow> can_frame \<Rightarrow> can_callback option \<Rightarrow> int32 \<Rightarrow>
   module_fault + (bool \<times> can_msg_t pq_t option)" where
  "submit_task alloc_ok stamp now pool_q fr cb prio =
     (if pool_q = None then Inr (False, pool_q)
      else if \<not> alloc_ok then Inl NullDeref
      else
        (let task = \<lparr>frame = fr, callback = cb\<rparr>;
             item = \<lparr>pv_priority = prio, pv_value = Some task, pv_timestamp = stamp\<rparr>
         in case priority_queue_push now pool_q item of
              (False, pool_q') \<Rightarrow> Inr (False, pool_q')
            | (True, pool_q') \<Rightarrow> Inr (True, pool_q')))"

definition GET_MODE_OUTPUT_VOL :: int where "GET_MODE_OUTPUT_VOL = 0x0001"
definition SET_MODE_OUTPUT_CUR :: uint32 where "SET_MODE_OUTPUT_CUR = 0x001B"
definition DCDC_CUR_GAIN :: rat where "DCDC_CUR_GAIN = 1024"

text \<open>
  The queued message is a fresh block whose callback field is never written: \<open>garbage\<close> is what it
  holds. The function ends without a return value, so its result is only the manager.
\<close>

definition generic_set_mode_function ::
  "endian \<Rightarrow> bool \<Rightarrow> can_callback option \<Rightarrow> bool \<Rightarrow> bool \<Rightarrow> uint64 \<Rightarrow> (nat \<Rightarrow> uint64) \<Rightarrow> module_queue_mgr_t option \<Rightarrow>
   dc_model_param_t \<Rightarrow> uint32 \<Rightarrow> uint32 \<Rightarrow> bool \<Rightarrow> module_fault + module_queue_mgr_t option" where
  "generic_set_mode_function host alloc_ok garbage copy_ok msg_ok stamp now mgr p val cmd_type is_float =
     (let dat = (if is_float then float32_2_can_need_format host val else int32_2_can_need_format host val)
      in if \<not> alloc_ok then Inl NullDeref
         else
           (let taskdata = \<lparr>frame = set_frame_fill host (ucast cmd_type) dat p, callback = garbage\<rparr>;
                task = \<lparr>priority = NORMAL, data = Some taskdata, task_id = GET_MODE_OUTPUT_VOL, module_id = 5\<rparr>
            in case module_push_task copy_ok msg_ok stamp now mgr (module_id task) task of
                 Inl e \<Rightarrow> Inl e
               | Inr (_, mgr') \<Rightarrow> Inr mgr'))"

text \<open>
  Multiplying a float by 1024 is exact; the cast to \<^verbatim>\<open>uint32_t\<close> drops the fraction and is undefined
  when the whole part does not fit.
\<close>

definition float_to_uint32 :: "rat \<Rightarrow> uint32 option" where
  "float_to_uint32 x = (if - 1 < x \<and> x < 2 ^ 32 then Some (word_of_int (if x < 0 then 0 else \<lfloor>x\<rfloor>)) else None)"

definition set_mode_out_cur ::
  "endian \<Rightarrow> bool \<Rightarrow> can_callback option \<Rightarrow> bool \<Rightarrow> bool \<Rightarrow> uint64 \<Rightarrow> (nat \<Rightarrow> uint64) \<Rightarrow> module_queue_mgr_t option \<Rightarrow>
   dc_model_param_t \<Rightarrow> rat \<Rightarrow> module_fault + module_queue_mgr_t option" where
  "set_mode_out_cur host alloc_ok garbage copy_ok msg_ok stamp now mgr p out_cur =
     (case float_to_uint32 (out_cur * DCDC_CUR_GAIN) of
        None \<Rightarrow> Inl BadConversion
      | Some v \<Rightarrow>
          generic_set_mode_function host alloc_ok garbage copy_ok msg_ok stamp now mgr p v SET_MODE_OUTPUT_CUR False)"

subsection \<open>The dispatcher thread\<close>

text \<open>
  The loop over the modules: each pops at most one task of its queue and submits its frame to the
  pool. The clock readings and the outcome of the allocation in \<^verbatim>\<open>submit_task\<close> are given per module.
\<close>

fun sweep ::
  "(nat \<Rightarrow> bool) \<Rightarrow> (nat \<Rightarrow> uint64) \<Rightarrow> (nat \<Rightarrow> nat \<Rightarrow> uint64) \<Rightarrow> nat list \<Rightarrow>
   module_queue_mgr_t option \<Rightarrow> can_msg_t pq_t option \<Rightarrow>
   module_fault + (module_queue_mgr_t option \<times> can_msg_t pq_t option)" where
  "sweep alloc_ok stamp now [] mgr pool_q = Inr (mgr, pool_q)"
| "sweep alloc_ok stamp now (i # is) mgr pool_q =
     (case module_try_pop_task (now i) mgr (int i + 1) of
        (None, mgr') \<Rightarrow> sweep alloc_ok stamp now is mgr' pool_q
      | (Some received, mgr') \<Rightarrow>
          (case data received of
             None \<Rightarrow> Inl NullDeref
           | Some taskptr \<Rightarrow>
               (case submit_task (alloc_ok i) (stamp i) (now i) pool_q (frame taskptr)
                       (Some Dcdc_send_encapsulation) (priority_to_int (priority received)) of
                  Inl e \<Rightarrow> Inl e
                | Inr (_, pool_q') \<Rightarrow> sweep alloc_ok stamp now is mgr' pool_q')))"

text \<open>One round of the endless loop: queue the 100 A set command for module 5, then sweep.\<close>

definition module_queue_task_thread ::
  "endian \<Rightarrow> bool \<Rightarrow> can_callback option \<Rightarrow> bool \<Rightarrow> bool \<Rightarrow> (nat \<Rightarrow> bool) \<Rightarrow> (nat \<Rightarrow> uint64) \<Rightarrow> (nat \<Rightarrow> nat \<Rightarrow> uint64) \<Rightarrow>
   module_queue_mgr_t option \<Rightarrow> can_msg_t pq_t option \<Rightarrow>
   module_fault + (module_queue_mgr_t option \<times> can_msg_t pq_t option)" where
  "module_queue_task_thread host set_ok garbage copy_ok msg_ok alloc_ok stamp now mgr pool_q =
     (let can_id_param = \<lparr>ptp = 1, dst = 5, group = 0\<rparr>
      in case set_mode_out_cur host set_ok garbage copy_ok msg_ok (stamp 12) (now 12) mgr can_id_param 100 of
           Inl e \<Rightarrow> Inl e
         | Inr mgr' \<Rightarrow> sweep alloc_ok stamp now [0..<12] mgr' pool_q)"

subsection \<open>The worker thread\<close>

datatype work_state = Waiting | Exited | Faulted | Running

text \<open>
  \<open>n\<close> rounds of the worker's loop at most; \<^const>\<open>Running\<close> says that they were used up. A message is
  logged with its callback. A NULL message is dereferenced before it is tested.
\<close>

fun task_work ::
  "nat \<Rightarrow> (nat \<Rightarrow> nat \<Rightarrow> uint64) \<Rightarrow> can_msg_t pq_t option \<Rightarrow> (can_callback \<times> can_frame) list \<Rightarrow>
   work_state \<times> can_msg_t pq_t option \<times> (can_callback \<times> can_frame) list" where
  "task_work 0 now pool_q sent = (Running, pool_q, sent)"
| "task_work (Suc n) now pool_q sent =
     (case priority_queue_pop (now n) pool_q (Some empty_pv) of
        None \<Rightarrow> (Waiting, pool_q, sent)
      | Some (True, Some item, pool_q') \<Rightarrow>
          (case pv_value item of
             None \<Rightarrow> (Faulted, pool_q', sent)
           | Some task \<Rightarrow>
               (case callback task of
                  None \<Rightarrow> (Exited, pool_q', sent)
                | Some cb \<Rightarrow> task_work n now pool_q' (sent @ [(cb, frame task)])))
      | Some (_, _, pool_q') \<Rightarrow> task_work n now pool_q' sent)"

subsection \<open>Starting the pool\<close>

datatype pool_event = Started nat | Cancelled nat | Joined nat | FreeTid | FreeQueue pq_block

text \<open>
  The loop that starts the threads. Its counter is a \<^verbatim>\<open>uint8_t\<close>, so it never ends when \<open>thread_num\<close>
  exceeds 255; \<open>create i k\<close> is the outcome of \<^verbatim>\<open>pthread_create\<close> for counter \<open>i\<close> at the \<open>k\<close>-th call.
\<close>

partial_function (option) start_threads ::
  "(uint8 \<Rightarrow> nat \<Rightarrow> bool) \<Rightarrow> int \<Rightarrow> uint8 \<Rightarrow> nat \<Rightarrow> pq_block list \<Rightarrow> pool_event list \<Rightarrow> (int \<times> pool_event list) option" where
  "start_threads create thread_num i k queue_blocks ev =
     (if uint i < thread_num then
        (if create i k then start_threads create thread_num (i + 1) (Suc k) queue_blocks (ev @ [Started (unat i)])
         else Some (- 1, ev @ concat (map (\<lambda>j. [Cancelled j, Joined j]) [0..<unat i]) @
                         [FreeTid] @ map FreeQueue queue_blocks @ [FreeQueue PqObject]))
      else Some (0, ev))"

text \<open>
  \<open>block\<close> and \<open>obj_ok\<close> are the outcomes of the allocations for the queue, \<open>tid_ok\<close> that of the thread
  table. The result is the returned code, the queue left in the pool, and the events in order.
\<close>

definition taskpool_init ::
  "bool \<Rightarrow> bool \<Rightarrow> can_msg_t pv_t list option \<Rightarrow> bool \<Rightarrow> (uint8 \<Rightarrow> nat \<Rightarrow> bool) \<Rightarrow> int \<Rightarrow> int \<Rightarrow>
   (int \<times> can_msg_t pq_t option \<times> pool_event list) option" where
  "taskpool_init pool_ok obj_ok block tid_ok create queue_size thread_num =
     (if \<not> pool_ok then Some (- 1, None, [])
      else
        (case pq_init obj_ok block queue_size (Some max_heap_compare) of
           None \<Rightarrow> Some (- 1, None, [])
         | Some q \<Rightarrow>
             if \<not> tid_ok then Some (- 1, Some q, map FreeQueue (snd (pq_delete (Some q))) @ [FreeQueue PqObject])
             else map_option (\<lambda>(ret, ev). (ret, Some q, ev))
                    (start_threads create thread_num 0 0 (snd (pq_delete (Some q))) [])))"

subsection \<open>The dispatcher moves tasks without losing any\<close>

text \<open>
  \<open>mgr_tasks\<close> is the bag of all queued tasks, \<open>pool_msgs\<close> the bag of the messages in the pool's queue,
  and \<open>pool_msg\<close> the message that is submitted for a task.
\<close>

definition queue_tasks :: "dcdc_task_t pq_t option \<Rightarrow> dcdc_task_t option multiset" where
  "queue_tasks pq = (case pq of None \<Rightarrow> {#} | Some q \<Rightarrow> mset (map pv_value (pq_items q)))"

definition mgr_tasks :: "module_queue_mgr_t \<Rightarrow> dcdc_task_t option multiset" where
  "mgr_tasks m = sum_list (map queue_tasks (queues m))"

definition pool_msgs :: "can_msg_t pq_t \<Rightarrow> can_msg_t option multiset" where
  "pool_msgs q = mset (map pv_value (pq_items q))"

definition pool_msg :: "dcdc_task_t \<Rightarrow> can_msg_t option" where
  "pool_msg t = map_option (\<lambda>d. \<lparr>frame = frame d, callback = Some Dcdc_send_encapsulation\<rparr>) (data t)"

definition tasks_have_data :: "module_queue_mgr_t \<Rightarrow> bool" where
  "tasks_have_data m \<longleftrightarrow> (\<forall>v \<in># mgr_tasks m. case v of None \<Rightarrow> False | Some t \<Rightarrow> data t \<noteq> None)"

lemma module_try_pop_cases:
  assumes wf: "mgr_wf m" and i: "i < 12"
  obtains (empty) q where "queues m ! i = Some q" "pq_items q = []"
      "module_try_pop_task now (Some m) (int i + 1) = (None, Some m)"
  | (taken) t m' where "module_try_pop_task now (Some m) (int i + 1) = (Some t, Some m')" "mgr_wf m'"
      "mgr_tasks m = add_mset (Some t) (mgr_tasks m')" "\<forall>j. j \<noteq> i \<longrightarrow> queues m' ! j = queues m ! j"
      "size (queue_tasks (queues m ! i)) = Suc (size (queue_tasks (queues m' ! i)))"
proof -
  have i': "i < MODULE_COUNT" "i < length (queues m)" using i wf by (simp_all add: mgr_wf_def MODULE_COUNT_def)
  obtain q where q: "queues m ! i = Some q" "module_queue_ok q" using mgr_wfD [OF wf i'(1)] .
  have wfq: "pq_wf q" using q(2) by (simp add: module_queue_ok_def)
  show thesis
  proof (cases "pq_size q = 0")
    case True
    moreover have "m\<lparr>queues := (queues m)[i := Some q]\<rparr> = m" using q(1) by (metis list_update_id module_queue_mgr_t.surjective module_queue_mgr_t.update_convs(1))
    ultimately show thesis
      using q(1) i by (intro empty [of q])
        (auto simp: module_try_pop_task_def bad_module_def MODULE_COUNT_def priority_queue_try_pop_def pq_empty_def pq_items_def)
  next
    case False
    obtain x q' where pop: "pop_root now q = (x, q')" by fastforce
    let ?m' = "m\<lparr>queues := (queues m)[i := Some q']\<rparr>"
    obtain t where t: "module_queue_ok q'" "pv_value x = Some t"
      using queue_ok_pop [OF q(2) _ pop] False by auto
    have "queue_tasks (Some q) = add_mset (Some t) (queue_tasks (Some q'))"
      using pop_root_contents(6) [OF wfq _ pop] False t(2) by (simp add: queue_tasks_def)
    moreover from this have "mgr_tasks m = add_mset (Some t) (mgr_tasks ?m')"
      using sum_list_update [OF i'(2), of queue_tasks "Some q'"] q(1) by (simp add: mgr_tasks_def)
    moreover have "module_try_pop_task now (Some m) (int i + 1) = (Some t, Some ?m')"
      using q(1) i False pop t(2)
      by (simp add: module_try_pop_task_def bad_module_def MODULE_COUNT_def priority_queue_try_pop_def pq_empty_def)
    ultimately show thesis using taken [of t ?m'] wf t(1) q(1) i'(2) by (simp add: wf_intros)
  qed
qed

lemma submit_task_room:
  assumes "pq_wf q" and "int (pq_size q) < pq_capacity q"
  obtains q' where "submit_task True stamp now (Some q) fr cb prio = Inr (True, Some q')" "pq_wf q'"
    "pool_msgs q' = add_mset (Some \<lparr>frame = fr, callback = cb\<rparr>) (pool_msgs q)"
    "pq_size q' = Suc (pq_size q)" "pq_capacity q' = pq_capacity q"
proof -
  let ?item = "\<lparr>pv_priority = prio, pv_value = Some \<lparr>frame = fr, callback = cb\<rparr>, pv_timestamp = stamp\<rparr>"
  obtain q' where push: "priority_queue_push now (Some q) ?item = (True, Some q')"
    using push_success [OF assms] by blast
  note c = push_contents [OF assms push]
  show thesis using that [of q'] push c by (simp add: submit_task_def pool_msgs_def)
qed

lemma sweep_conserves:
  assumes "mgr_wf m" and "tasks_have_data m" and "pq_wf q" and "int (pq_size q + length is) \<le> pq_capacity q"
    and "\<forall>i\<in>set is. i < 12"
  shows "\<exists>m' q' ts. sweep (\<lambda>_. True) stamp now is (Some m) (Some q) = Inr (Some m', Some q') \<and>
     mgr_wf m' \<and> pq_wf q' \<and> length ts \<le> length is \<and>
     mgr_tasks m = mgr_tasks m' + mset (map Some ts) \<and> pool_msgs q' = pool_msgs q + mset (map pool_msg ts)"
  using assms
proof (induction "is" arbitrary: m q)
  case Nil
  then show ?case by (auto intro!: exI [of _ "[]"])
next
  case (Cons i "is")
  from Cons.prems have "mgr_wf m" "i < 12" by auto
  then show ?case
  proof (cases rule: module_try_pop_cases [of m i "now i"])
    case (empty q0)
    then show ?thesis using Cons.IH [of m q] Cons.prems by (auto intro: le_SucI)
  next
    case (taken t m1)
    then obtain d where d: "data t = Some d" using Cons.prems(2) by (auto simp: tasks_have_data_def)
    have data1: "tasks_have_data m1" using taken(3) Cons.prems(2) by (simp add: tasks_have_data_def)
    have room: "int (pq_size q) < pq_capacity q" using Cons.prems(4) by simp
    have msg: "pool_msg t = Some \<lparr>frame = frame d, callback = Some Dcdc_send_encapsulation\<rparr>"
      using d by (simp add: pool_msg_def)
    obtain q1 where q1: "submit_task True (stamp i) (now i) (Some q) (frame d) (Some Dcdc_send_encapsulation)
          (priority_to_int (priority t)) = Inr (True, Some q1)" "pq_wf q1"
        "pool_msgs q1 = add_mset (pool_msg t) (pool_msgs q)" "pq_size q1 = Suc (pq_size q)" "pq_capacity q1 = pq_capacity q"
      unfolding msg by (rule submit_task_room [OF Cons.prems(3) room])
    have "sweep (\<lambda>_. True) stamp now (i # is) (Some m) (Some q) = sweep (\<lambda>_. True) stamp now is (Some m1) (Some q1)"
      using taken(1) d q1(1) by simp
    moreover obtain m' q' ts where r: "sweep (\<lambda>_. True) stamp now is (Some m1) (Some q1) = Inr (Some m', Some q')"
      "mgr_wf m'" "pq_wf q'" "length ts \<le> length is" "mgr_tasks m1 = mgr_tasks m' + mset (map Some ts)"
      "pool_msgs q' = pool_msgs q1 + mset (map pool_msg ts)"
      using Cons.IH [OF taken(2) data1 q1(2)] Cons.prems(4,5) q1(4,5) by auto
    ultimately show ?thesis
      using taken(3) q1(3) by (intro exI [of _ m'] exI [of _ q'] exI [of _ "t # ts"]) simp
  qed
qed

text \<open>Every module in the sweep that has a task loses one, and the pool's queue stays a heap.\<close>

lemma sweep_progress:
  "sweep (\<lambda>_. True) stamp now is (Some m) (Some q) = Inr (Some m', Some q') \<Longrightarrow> mgr_wf m \<Longrightarrow> distinct is \<Longrightarrow>
   \<forall>i\<in>set is. i < 12 \<Longrightarrow>
   size (queue_tasks (queues m' ! j)) = size (queue_tasks (queues m ! j)) - (if j \<in> set is then 1 else 0)"
proof (induction "is" arbitrary: m q)
  case (Cons i "is")
  from Cons.prems have "mgr_wf m" "i < 12" by auto
  then show ?case
  proof (cases rule: module_try_pop_cases [of m i "now i"])
    case (empty q0)
    then have "size (queue_tasks (queues m ! i)) = 0" by (simp add: queue_tasks_def)
    then show ?thesis using empty Cons.IH [of m q] Cons.prems by auto
  next
    case (taken t m1)
    obtain q1 where "sweep (\<lambda>_. True) stamp now is (Some m1) (Some q1) = Inr (Some m', Some q')"
      using taken(1) Cons.prems(1)
      by (auto simp: submit_task_def priority_queue_push_def Let_def split: option.splits if_splits)
    then have "size (queue_tasks (queues m' ! j)) = size (queue_tasks (queues m1 ! j)) - (if j \<in> set is then 1 else 0)"
      using Cons.IH [of m1 q1] taken(2) Cons.prems(3,4) by simp
    then show ?thesis using taken(4,5) Cons.prems(3) by (cases "j = i") auto
  qed
qed simp

lemma priority_small: "small32 (priority_to_int p)"
  by (cases p) (simp_all add: small32_def)

lemma submit_task_heap:
  assumes inv: "pq_inv mx_key mx_ok max_heap_compare q"
    and r: "submit_task True stamp now (Some q) fr cb (priority_to_int p) = Inr (b, pool')"
  shows "\<exists>q'. pool' = Some q' \<and> pq_inv mx_key mx_ok max_heap_compare q'"
proof -
  let ?item = "\<lparr>pv_priority = priority_to_int p, pv_value = Some \<lparr>frame = fr, callback = cb\<rparr>, pv_timestamp = stamp\<rparr>"
  have wf: "pq_wf q" using inv by (simp add: pq_inv_def)
  have push: "priority_queue_push now (Some q) ?item = (b, pool')"
    using r by (auto simp: submit_task_def Let_def split: prod.splits bool.splits)
  show ?thesis
  proof (cases "int (pq_size q) < pq_capacity q")
    case True
    then obtain q' where q': "priority_queue_push now (Some q) ?item = (True, Some q')" using push_success [OF wf] by blast
    have "mx_ok ?item" by (simp add: mx_ok_def priority_small)
    then show ?thesis using mx.push_inv [OF inv _ True q'] push q' by auto
  next
    case False
    then show ?thesis using push inv by (auto simp: priority_queue_push_def pq_full_def split: option.splits)
  qed
qed

lemma sweep_heap:
  "sweep (\<lambda>_. True) stamp now is mgr (Some q) = Inr (mgr', pool') \<Longrightarrow> pq_inv mx_key mx_ok max_heap_compare q \<Longrightarrow>
   \<exists>q'. pool' = Some q' \<and> pq_inv mx_key mx_ok max_heap_compare q'"
proof (induction "is" arbitrary: mgr q)
  case (Cons i "is")
  show ?case
  proof (cases "fst (module_try_pop_task (now i) mgr (int i + 1))")
    case None
    then show ?thesis
      using Cons.IH [of "snd (module_try_pop_task (now i) mgr (int i + 1))" q] Cons.prems by (simp add: split_beta)
  next
    case (Some t)
    then obtain d b pool1 where d: "data t = Some d"
      "submit_task True (stamp i) (now i) (Some q) (frame d) (Some Dcdc_send_encapsulation) (priority_to_int (priority t)) = Inr (b, pool1)"
      "sweep (\<lambda>_. True) stamp now is (snd (module_try_pop_task (now i) mgr (int i + 1))) pool1 = Inr (mgr', pool')"
      using Cons.prems(1) by (auto simp: split_beta split: option.splits sum.splits)
    then show ?thesis using submit_task_heap [OF Cons.prems(2) d(2)] Cons.IH by blast
  qed
qed auto

text \<open>
  C3. The dispatcher. When every allocation succeeds and the pool's queue has room for twelve more
  messages, a sweep over the modules never faults, takes exactly one task of each module that has one, and what
  leaves the module queues is exactly what arrives in the pool: each task once, with its own frame
  and the sending callback. No task is lost and none is duplicated.
\<close>

theorem dispatcher_conserves_tasks:
  assumes "mgr_wf m" and "tasks_have_data m" and "pq_wf q" and "int (pq_size q) + 12 \<le> pq_capacity q"
  shows "\<exists>m' q' ts. sweep (\<lambda>_. True) stamp now [0..<12] (Some m) (Some q) = Inr (Some m', Some q') \<and>
     mgr_wf m' \<and> pq_wf q' \<and> length ts \<le> 12 \<and>
     mgr_tasks m = mgr_tasks m' + mset (map Some ts) \<and> pool_msgs q' = pool_msgs q + mset (map pool_msg ts) \<and>
     (\<forall>i<12. size (queue_tasks (queues m' ! i)) = size (queue_tasks (queues m ! i)) - 1)"
proof -
  obtain m' q' ts where r: "sweep (\<lambda>_. True) stamp now [0..<12] (Some m) (Some q) = Inr (Some m', Some q')"
    "mgr_wf m'" "pq_wf q'" "length ts \<le> 12" "mgr_tasks m = mgr_tasks m' + mset (map Some ts)"
    "pool_msgs q' = pool_msgs q + mset (map pool_msg ts)"
    using sweep_conserves [OF assms(1-3), of "[0..<12]" stamp now] assms(4) by auto
  moreover have "size (queue_tasks (queues m' ! i)) = size (queue_tasks (queues m ! i)) - 1" if "i < 12" for i
    using sweep_progress [OF r(1) assms(1), of i] that by simp
  ultimately show ?thesis by blast
qed

text \<open>
  A full pool loses the task. When the pool's queue is full and a module has a task, the
  dispatcher pops the task, the submission fails, and the task is in neither queue afterwards.
\<close>

theorem full_pool_loses_task:
  assumes "mgr_wf m" and "tasks_have_data m" and "queues m ! i = Some q0" and "pq_items q0 \<noteq> []" and "i < 12"
    and "pq_full (Some q)" and "alloc_ok i"
  shows "\<exists>m' t. sweep alloc_ok stamp now [i] (Some m) (Some q) = Inr (Some m', Some q) \<and>
     mgr_tasks m = add_mset (Some t) (mgr_tasks m')"
  using assms(1,5)
proof (cases rule: module_try_pop_cases [of m i "now i"])
  case (empty q1)
  then show ?thesis using assms(3,4) by simp
next
  case (taken t m')
  then obtain d where "data t = Some d" using assms(2) by (auto simp: tasks_have_data_def)
  with taken assms(6,7) show ?thesis
    by (auto simp: submit_task_def priority_queue_push_def split: option.splits)
qed

subsection \<open>Setting the output current\<close>

lemma float_to_uint32_nonneg:
  "0 \<le> x \<Longrightarrow> x < 2 ^ 32 \<Longrightarrow> float_to_uint32 x = Some (word_of_int \<lfloor>x\<rfloor>) \<and> unat (word_of_int \<lfloor>x\<rfloor> :: uint32) = nat \<lfloor>x\<rfloor>"
proof -
  assume x: "0 \<le> x" "x < 2 ^ 32"
  then have "0 \<le> \<lfloor>x\<rfloor>" "\<lfloor>x\<rfloor> < 2 ^ 32" by (simp_all add: floor_less_iff)
  then have "unat (word_of_int \<lfloor>x\<rfloor> :: uint32) = nat \<lfloor>x\<rfloor>" by (simp add: unsigned_of_int take_bit_int_eq_self)
  then show ?thesis using x by (simp add: float_to_uint32_def)
qed

definition set_cur_task :: "endian \<Rightarrow> can_callback option \<Rightarrow> dc_model_param_t \<Rightarrow> uint32 \<Rightarrow> dcdc_task_t" where
  "set_cur_task host garbage p v =
     \<lparr>priority = NORMAL,
      data = Some \<lparr>frame = set_frame_fill host 0x1B (int32_2_can_need_format host v) p, callback = garbage\<rparr>,
      task_id = 1, module_id = 5\<rparr>"

lemma set_mode_out_cur_eq:
  assumes "0 \<le> cur" and "cur < 2 ^ 22"
  shows "set_mode_out_cur host True garbage copy_ok msg_ok stamp now mgr p cur =
     (case module_push_task copy_ok msg_ok stamp now mgr 5
             (set_cur_task host garbage p (word_of_int \<lfloor>cur * 1024\<rfloor>)) of
        Inl e \<Rightarrow> Inl e | Inr (_, mgr') \<Rightarrow> Inr mgr')"
  using assms float_to_uint32_nonneg [of "cur * 1024"]
  by (simp add: set_mode_out_cur_def DCDC_CUR_GAIN_def generic_set_mode_function_def SET_MODE_OUTPUT_CUR_def
      GET_MODE_OUTPUT_VOL_def set_cur_task_def)

lemma push_fresh_task:
  assumes wf: "mgr_wf m" and i: "i < 12" and q: "queues m ! i = Some q"
    and fresh: "Some (task_key task) \<notin> set (item_keys q)" and room: "pq_size q < 20"
    and d: "data task \<noteq> None" and other: "task_id task \<noteq> SET_MODE_SWITCH"
  shows "\<exists>m'. module_push_task True True stamp now (Some m) (int i + 1) task = Inr (True, Some m') \<and>
     mgr_tasks m' = add_mset (Some task) (mgr_tasks m) \<and> mgr_wf m'"
proof -
  obtain msg where msg: "data task = Some msg" using d by auto
  let ?item = "\<lparr>pv_priority = priority_to_int (priority task), pv_value = Some task, pv_timestamp = stamp\<rparr>"
  have len: "i < length (queues m)" using wf i by (simp add: mgr_wf_def MODULE_COUNT_def)
  have ok: "module_queue_ok q" using wf q len by (auto simp: mgr_wf_def list_all_length dest!: spec [of _ i])
  then have wfq: "pq_wf q" "int (pq_size q) < pq_capacity q"
    using room by (simp_all add: module_queue_ok_def DCDC_QUEUE_LEN_def)
  obtain q' where push: "priority_queue_push now (Some q) ?item = (True, Some q')"
    using push_success [OF wfq] by blast
  have cp: "\<lparr>priority = priority task, data = Some msg, task_id = task_id task, module_id = module_id task\<rparr> = task"
    using msg by simp
  have "module_push_task True True stamp now (Some m) (int i + 1) task =
      Inr (True, Some (m\<lparr>queues := (queues m)[i := Some q']\<rparr>))"
    using i q fresh msg other push
    by (simp add: module_push_task_def bad_module_def MODULE_COUNT_def scan_duplicate_iff enqueue_task_def cp)
  moreover have "queue_tasks (Some q') = add_mset (Some task) (queue_tasks (Some q))"
    using push_contents(6) [OF wfq push] by (simp add: queue_tasks_def)
  moreover have "module_queue_ok q'" using queue_ok_push [OF ok _ _ push] fresh by simp
  ultimately show ?thesis
    using sum_list_update [OF len, of queue_tasks "Some q'"] q wf by (simp add: mgr_tasks_def wf_intros)
qed

lemma set_mode_out_cur_pushes:
  assumes "mgr_wf m" and "queues m ! 4 = Some q" and "Some (1, 5) \<notin> set (item_keys q)" and "pq_size q < 20"
    and cur: "0 \<le> cur" "cur < 2 ^ 22"
  shows "\<exists>m'. set_mode_out_cur host True garbage True True stamp now (Some m) p cur = Inr (Some m') \<and> mgr_wf m' \<and>
     mgr_tasks m' = add_mset (Some (set_cur_task host garbage p (word_of_int \<lfloor>cur * 1024\<rfloor>))) (mgr_tasks m)"
proof -
  let ?t = "set_cur_task host garbage p (word_of_int \<lfloor>cur * 1024\<rfloor>)"
  obtain m' where "module_push_task True True stamp now (Some m) (int 4 + 1) ?t = Inr (True, Some m')"
    "mgr_tasks m' = add_mset (Some ?t) (mgr_tasks m)" "mgr_wf m'"
    using push_fresh_task [OF assms(1) _ assms(2), of ?t stamp now] assms(3,4)
    by (auto simp: task_key_def set_cur_task_def SET_MODE_SWITCH_def)
  then show ?thesis by (simp add: set_mode_out_cur_eq [OF cur])
qed

lemma set_cur_task_frame:
  assumes "0 \<le> (cur :: rat)" and "cur < 2 ^ 22"
  shows "\<exists>d. data (set_cur_task host garbage p (word_of_int \<lfloor>cur * 1024\<rfloor>)) = Some d \<and>
     decode_set_frame (frame d) = (3, 0x1B, nat \<lfloor>cur * 1024\<rfloor>) \<and> take_bit 29 (can_id (frame d)) = take_bit 29 (can_id_fill_dst host p)"
proof -
  let ?v = "word_of_int \<lfloor>cur * 1024\<rfloor> :: uint32"
  have "unat ?v = nat \<lfloor>cur * 1024\<rfloor>" using assms float_to_uint32_nonneg [of "cur * 1024"] by simp
  then show ?thesis
    using set_frame_fill_facts(2,3) [of "store32 BigEndian ?v" host "0x1B" p] read_be_store32 [of ?v]
    by (simp add: set_cur_task_def int32_2_can_need_format_def htonl_bytes)
qed

text \<open>
  Setting the output current. If module 5 has a free slot and no earlier set command waits
  there, the command for a current between 0 and \<open>2 ^ 22\<close> A is queued: exactly one task is added, and
  its frame carries the requested address, the register 0x1B and the current in units of 1/1024 A.
\<close>

theorem set_mode_out_cur_queued:
  assumes "mgr_wf m" and "queues m ! 4 = Some q" and "Some (1, 5) \<notin> set (item_keys q)" and "pq_size q < 20"
    and cur: "0 \<le> cur" "cur < 2 ^ 22"
  shows "\<exists>m' t d. set_mode_out_cur host True garbage True True stamp now (Some m) p cur = Inr (Some m') \<and>
     mgr_tasks m' = add_mset (Some t) (mgr_tasks m) \<and> data t = Some d \<and>
     decode_set_frame (frame d) = (3, 0x1B, nat \<lfloor>cur * 1024\<rfloor>) \<and>
     take_bit 29 (can_id (frame d)) = take_bit 29 (can_id_fill_dst host p)"
proof -
  obtain m' where "set_mode_out_cur host True garbage True True stamp now (Some m) p cur = Inr (Some m')"
    "mgr_tasks m' = add_mset (Some (set_cur_task host garbage p (word_of_int \<lfloor>cur * 1024\<rfloor>))) (mgr_tasks m)"
    using set_mode_out_cur_pushes [OF assms] by blast
  then show ?thesis using set_cur_task_frame [OF cur] by metis
qed

text \<open>
  A second command is dropped. Every setter uses the task identifier of the voltage query and
  module 5, so while one set command waits, a later one, with whatever value and address, is taken
  for a duplicate: the manager does not change.
\<close>

theorem set_mode_out_cur_dropped:
  assumes "mgr_wf m" and "queues m ! 4 = Some q" and "Some (1, 5) \<in> set (item_keys q)"
    and "0 \<le> cur" and "cur < 2 ^ 22"
  shows "set_mode_out_cur host True garbage copy_ok msg_ok stamp now (Some m) p cur = Inr (Some m)"
  using assms(1-3)
  by (simp add: set_mode_out_cur_eq [OF assms(4,5)] module_push_task_def bad_module_def MODULE_COUNT_def
      scan_duplicate_iff task_key_def set_cur_task_def)

subsection \<open>The worker\<close>

definition msg_event :: "can_msg_t pv_t \<Rightarrow> can_callback \<times> can_frame" where
  "msg_event x = (case pv_value x of Some d \<Rightarrow> (case callback d of Some cb \<Rightarrow> (cb, frame d)))"

definition has_callback :: "can_msg_t pv_t \<Rightarrow> bool" where
  "has_callback x = (case pv_value x of None \<Rightarrow> False | Some d \<Rightarrow> callback d \<noteq> None)"

lemma pop_ready:
  assumes inv: "pq_inv mx_key mx_ok max_heap_compare q" and some: "0 < pq_size q"
  obtains x q' where "priority_queue_pop now (Some q) (Some b) = Some (True, Some x, Some q')"
    "pq_inv mx_key mx_ok max_heap_compare q'" "mset (pq_items q) = add_mset x (mset (pq_items q'))"
    "pq_size q' = pq_size q - 1" "\<forall>y\<in>set (pq_items q). mx_key y \<le> mx_key x"
proof -
  obtain x q' where pop: "pop_root now q = (x, q')" by fastforce
  have wf: "pq_wf q" using inv by (simp add: pq_inv_def)
  show thesis
    using that [of x q'] pop some mx.pop_inv [OF inv some pop] pop_root_contents(5,6) [OF wf some pop]
      mx.pop_maximal [OF inv some pop]
    by (auto simp: priority_queue_pop_def pq_empty_def)
qed

lemma task_work_drains:
  assumes "pq_inv mx_key mx_ok max_heap_compare q" and "\<forall>x\<in>set (pq_items q). has_callback x" and "pq_size q < n"
  shows "\<exists>xs q'. task_work n now (Some q) sent = (Waiting, Some q', sent @ map msg_event xs) \<and>
     mset xs = mset (pq_items q) \<and> sorted_wrt (\<lambda>a b. mx_key b \<le> mx_key a) xs \<and> pq_items q' = []"
  using assms
proof (induction n arbitrary: q sent)
  case (Suc n)
  show ?case
  proof (cases "pq_size q = 0")
    case True
    then show ?thesis
      by (auto simp: priority_queue_pop_def pq_empty_def pq_items_def intro!: exI [of _ "[]"])
  next
    case False
    then obtain x q1 where pop: "priority_queue_pop (now n) (Some q) (Some empty_pv) = Some (True, Some x, Some q1)"
      "pq_inv mx_key mx_ok max_heap_compare q1" "mset (pq_items q) = add_mset x (mset (pq_items q1))"
      "pq_size q1 = pq_size q - 1" "\<forall>y\<in>set (pq_items q). mx_key y \<le> mx_key x"
      using pop_ready [OF Suc.prems(1)] by blast
    have sub: "set (pq_items q) = insert x (set (pq_items q1))"
      using pop(3) by (metis set_mset_add_mset_insert set_mset_mset)
    then obtain d cb where d: "pv_value x = Some d" "callback d = Some cb" "msg_event x = (cb, frame d)"
      using Suc.prems(2) by (auto simp: has_callback_def msg_event_def split: option.splits)
    obtain xs q' where r: "task_work n now (Some q1) (sent @ [msg_event x]) =
        (Waiting, Some q', (sent @ [msg_event x]) @ map msg_event xs)"
      "mset xs = mset (pq_items q1)" "sorted_wrt (\<lambda>a b. mx_key b \<le> mx_key a) xs" "pq_items q' = []"
      using Suc.IH [OF pop(2), of "sent @ [msg_event x]"] Suc.prems(2,3) sub pop(4) False by fastforce
    moreover have "\<forall>y\<in>set xs. mx_key y \<le> mx_key x" using mset_eq_setD [OF r(2)] pop(5) sub by auto
    ultimately show ?thesis
      using pop(1,3) d by (intro exI [of _ "x # xs"] exI [of _ q']) simp
  qed
qed simp

text \<open>
  C4. The worker. On a pool queue whose messages all have a callback, the worker's loop handles every
  queued message exactly once, in the order of descending priority, and then waits on the empty
  queue; it needs one round for each message and one more to find the queue empty.
\<close>

theorem worker_sends_by_priority:
  assumes "pq_inv mx_key mx_ok max_heap_compare q" and "list_all has_callback (pq_items q)" and "pq_size q < n"
  shows "\<exists>xs q'. task_work n now (Some q) [] = (Waiting, Some q', map msg_event xs) \<and>
     mset xs = mset (pq_items q) \<and>
     sorted_wrt (\<lambda>a b. sint (pv_priority b) \<le> sint (pv_priority a)) xs \<and> pq_items q' = []"
  using task_work_drains [OF assms(1) _ assms(3), of now "[]"] assms(2) by (simp add: list_all_iff mx_key_def)

subsection \<open>An idle system\<close>

lemma queue_tasks_le: "mgr_wf m \<Longrightarrow> i < 12 \<Longrightarrow> queue_tasks (queues m ! i) \<subseteq># mgr_tasks m"
  using sum_list_update [of i "queues m" queue_tasks None]
  by (simp add: mgr_wf_def MODULE_COUNT_def mgr_tasks_def queue_tasks_def [of None] mset_subset_eq_exists_conv)
    (metis add.commute)

lemma mgr_tasks_empty_iff:
  assumes "mgr_wf m"
  shows "mgr_tasks m = {#} \<longleftrightarrow> (\<forall>i<12. queue_tasks (queues m ! i) = {#})"
proof
  assume "mgr_tasks m = {#}"
  then show "\<forall>i<12. queue_tasks (queues m ! i) = {#}" using queue_tasks_le [OF assms] by fastforce
next
  assume "\<forall>i<12. queue_tasks (queues m ! i) = {#}"
  then have "\<forall>pq\<in>set (queues m). queue_tasks pq = {#}"
    using assms by (auto simp: mgr_wf_def MODULE_COUNT_def in_set_conv_nth)
  then have "map queue_tasks (queues m) = replicate 12 {#}"
    using assms by (auto simp: mgr_wf_def MODULE_COUNT_def intro!: replicate_eqI)
  then show "mgr_tasks m = {#}" by (simp add: mgr_tasks_def numeral_eq_Suc)
qed

text \<open>A sweep over all modules moves a lone task to the pool.\<close>

lemma sweep_single:
  assumes wf: "mgr_wf m" and one: "mgr_tasks m = {#Some t#}" and d: "data t \<noteq> None"
    and inv: "pq_inv mx_key mx_ok max_heap_compare q" and idle: "pq_items q = []" and room: "12 \<le> pq_capacity q"
  shows "\<exists>m' q' x. sweep (\<lambda>_. True) stamp now [0..<12] (Some m) (Some q) = Inr (Some m', Some q') \<and>
     mgr_wf m' \<and> mgr_tasks m' = {#} \<and> pq_inv mx_key mx_ok max_heap_compare q' \<and>
     pq_items q' = [x] \<and> pv_value x = pool_msg t"
proof -
  have wfq: "pq_wf q" "pq_size q = 0" using inv idle by (auto simp: pq_inv_def pq_wf_def pq_items_def)
  have "tasks_have_data m" using one d by (simp add: tasks_have_data_def)
  then obtain m' q' ts where r: "sweep (\<lambda>_. True) stamp now [0..<12] (Some m) (Some q) = Inr (Some m', Some q')"
    "mgr_wf m'" "mgr_tasks m = mgr_tasks m' + mset (map Some ts)" "pool_msgs q' = pool_msgs q + mset (map pool_msg ts)"
    using sweep_conserves [OF wf _ wfq(1), of "[0..<12]" stamp now] wfq(2) room by auto
  have "size (queue_tasks (queues m' ! i)) = 0" if "i < 12" for i
    using sweep_progress [OF r(1) wf, of i] size_mset_mono [OF queue_tasks_le [OF wf that]] one that by simp
  then have empty: "mgr_tasks m' = {#}" using mgr_tasks_empty_iff [OF r(2)] by simp
  then have "mset (map Some ts) = {#Some t#}" using r(3) one by simp
  then have "ts = [t]" by (cases ts) auto
  then have "mset (map pv_value (pq_items q')) = {#pool_msg t#}" using r(4) idle by (simp add: pool_msgs_def)
  then obtain x where "pq_items q' = [x]" "pv_value x = pool_msg t"
    by (cases "pq_items q'") auto
  then show ?thesis using r(1,2) empty sweep_heap [OF r(1) inv] by auto
qed

subsection \<open>Starting the pool\<close>

lemma cancel_events: "count_list (concat (map (\<lambda>j. [Cancelled j, Joined j]) xs)) (FreeQueue b) = 0"
  by (induction xs) simp_all

lemma count_free_queue: "count_list (map FreeQueue bs) (FreeQueue b) = count_list bs b"
  by (induction bs) simp_all

lemma start_threads_returns:
  assumes "thread_num \<le> 255" and "count_list ev (FreeQueue PqObject) = 0" and "count_list blocks PqObject = 1"
  shows "\<exists>ret ev'. start_threads create thread_num i k blocks ev = Some (ret, ev') \<and>
     (ret = 0 \<and> count_list ev' (FreeQueue PqObject) = 0 \<or> ret = - 1 \<and> count_list ev' (FreeQueue PqObject) = 2)"
  using assms(2)
proof (induction "nat (thread_num - uint i)" arbitrary: i k ev rule: less_induct)
  case less
  show ?case
  proof (cases "uint i < thread_num \<and> create i k")
    case True
    then have "uint (i + 1) = uint i + 1" using assms(1) uint_add_lem [of i 1] by simp
    with True less show ?thesis by (subst start_threads.simps) simp
  next
    case False
    then show ?thesis
      using less.prems assms(3) by (subst start_threads.simps) (auto simp: cancel_events count_free_queue)
  qed
qed

text \<open>
  Starting the pool with at most 255 threads. The call returns; on success nothing is released,
  and on every failure after the queue was made the queue object is released twice: by \<^verbatim>\<open>pq_delete\<close>
  and again by \<^verbatim>\<open>free\<close>.
\<close>

theorem taskpool_init_frees_twice:
  assumes "thread_num \<le> 255"
  shows "\<exists>ret q ev. taskpool_init True True (Some block) tid_ok create queue_size thread_num = Some (ret, Some q, ev) \<and>
     (ret = 0 \<and> count_list ev (FreeQueue PqObject) = 0 \<or> ret = - 1 \<and> count_list ev (FreeQueue PqObject) = 2)"
proof -
  let ?q = "\<lparr>pq_elements = Some block, pq_capacity = queue_size, pq_size = 0, pq_compare = max_heap_compare\<rparr>"
  have del: "snd (pq_delete (Some ?q)) = [PqElements, PqObject]" by (simp add: pq_delete_def)
  have init: "pq_init True (Some block) queue_size (Some max_heap_compare) = Some ?q" by (simp add: pq_init_def)
  show ?thesis
    using start_threads_returns [OF assms, of "[]" "snd (pq_delete (Some ?q))" create 0 0]
    by (cases tid_ok) (auto simp: taskpool_init_def init del)
qed

subsection \<open>Instances\<close>

definition sample_pool :: "can_msg_t pv_t list \<Rightarrow> can_msg_t pq_t" where
  "sample_pool xs =
     \<lparr>pq_elements = Some (xs @ replicate (20 - length xs) empty_pv), pq_capacity = 20, pq_size = length xs,
      pq_compare = max_heap_compare\<rparr>"

definition sample_msg :: "int32 \<Rightarrow> can_msg_t pv_t" where
  "sample_msg prio =
     \<lparr>pv_priority = prio, pv_value = Some \<lparr>frame = sample_frame, callback = Some Dcdc_send_encapsulation\<rparr>, pv_timestamp = 0\<rparr>"

lemma sample_mgr_tasks: "mgr_tasks sample_mgr = {#}" "tasks_have_data sample_mgr"
  by (simp_all add: mgr_tasks_def tasks_have_data_def sample_mgr_def queue_tasks_def sample_mq_ok numeral_eq_Suc)

lemma sample_pushed_facts:
  "mgr_wf sample_pushed" "mgr_tasks sample_pushed = {#Some (sample_task SET_MODE_SWITCH 5)#}"
  "tasks_have_data sample_pushed"
proof -
  let ?x = "\<lparr>pv_priority = 1, pv_value = Some (sample_task SET_MODE_SWITCH 5), pv_timestamp = 0\<rparr>"
  have wf: "pq_wf sample_mq" "int (pq_size sample_mq) < pq_capacity sample_mq"
    by (simp_all add: sample_mq_def pq_wf_def elems_def)
  obtain q' where push: "priority_queue_push (\<lambda>_. 0) (Some sample_mq) ?x = (True, Some q')"
    using push_success [OF wf] by blast
  have "module_queue_ok q'"
    using queue_ok_push [OF sample_mq_ok(1) _ _ push] by (simp add: item_keys_def sample_mq_ok)
  then show "mgr_wf sample_pushed"
    using sample_mgr_wf push by (simp add: sample_pushed_def wf_intros)
  have "queue_tasks (Some q') = {#Some (sample_task SET_MODE_SWITCH 5)#}"
    using push_contents(6) [OF wf push] by (simp add: queue_tasks_def sample_mq_ok)
  then show *: "mgr_tasks sample_pushed = {#Some (sample_task SET_MODE_SWITCH 5)#}"
    using push sample_mgr_tasks(1) sum_list_update [of 4 "queues sample_mgr" queue_tasks "Some q'"]
    by (simp add: mgr_tasks_def sample_pushed_def) (simp add: sample_mgr_def queue_tasks_def sample_mq_ok)
  show "tasks_have_data sample_pushed" by (simp add: tasks_have_data_def * sample_task_def)
qed

lemma sample_pool_wf: "pq_wf (sample_pool [])"
  by (simp add: sample_pool_def pq_wf_def elems_def)

theorem dispatcher_conserves_tasks_witness:
  "\<exists>m' q'. sweep (\<lambda>_. True) (\<lambda>_. 0) (\<lambda>_ _. 0) [0..<12] (Some sample_pushed) (Some (sample_pool [])) = Inr (Some m', Some q') \<and>
     mgr_tasks sample_pushed \<noteq> {#} \<and> mgr_tasks m' = {#} \<and> pool_msgs q' = {#pool_msg (sample_task SET_MODE_SWITCH 5)#}"
proof -
  let ?t = "sample_task SET_MODE_SWITCH 5"
  obtain m' q' ts where r: "sweep (\<lambda>_. True) (\<lambda>_. 0) (\<lambda>_ _. 0) [0..<12] (Some sample_pushed) (Some (sample_pool [])) = Inr (Some m', Some q')"
    "mgr_wf m'" "{#Some ?t#} = mgr_tasks m' + mset (map Some ts)" "pool_msgs q' = pool_msgs (sample_pool []) + mset (map pool_msg ts)"
    "\<forall>i<12. size (queue_tasks (queues m' ! i)) = size (queue_tasks (queues sample_pushed ! i)) - 1"
    using dispatcher_conserves_tasks [OF sample_pushed_facts(1,3) sample_pool_wf, of "\<lambda>_. 0" "\<lambda>_ _. 0"]
    unfolding sample_pushed_facts(2) by (auto simp: sample_pool_def)
  have "size (queue_tasks (queues m' ! i)) = 0" if "i < 12" for i
    using r(5) size_mset_mono [OF queue_tasks_le [OF sample_pushed_facts(1) that]] that by (simp add: sample_pushed_facts)
  then have empty: "mgr_tasks m' = {#}" using mgr_tasks_empty_iff [OF r(2)] by simp
  then have "ts = [?t]" using r(3) by (cases ts) auto
  then show ?thesis using r(1,4) empty by (auto simp: sample_pushed_facts pool_msgs_def sample_pool_def pq_items_def elems_def)
qed

theorem set_mode_out_cur_queued_witness:
  "\<exists>m' t d. set_mode_out_cur LittleEndian True None True True 0 (\<lambda>_. 0) (Some sample_mgr) \<lparr>ptp = 1, dst = 5, group = 0\<rparr> 100 =
       Inr (Some m') \<and> mgr_tasks m' = {#Some t#} \<and> data t = Some d \<and> decode_set_frame (frame d) = (3, 0x1B, 102400)"
  using set_mode_out_cur_queued [OF sample_mgr_wf, of sample_mq 100 LittleEndian None 0 "\<lambda>_. 0" "\<lparr>ptp = 1, dst = 5, group = 0\<rparr>"]
  by (simp add: sample_mgr_tasks) (auto simp: sample_mgr_def item_keys_def sample_mq_ok)

theorem taskpool_init_frees_twice_witness:
  "\<exists>ret q ev. taskpool_init True True (Some []) False (\<lambda>_ _. True) 20 1 = Some (ret, Some q, ev) \<and>
     (ret = 0 \<and> count_list ev (FreeQueue PqObject) = 0 \<or> ret = - 1 \<and> count_list ev (FreeQueue PqObject) = 2)"
  by (rule taskpool_init_frees_twice) simp

theorem worker_sends_by_priority_witness:
  "\<exists>xs q'. task_work 3 (\<lambda>_ _. 0) (Some (sample_pool [sample_msg 3, sample_msg 1])) [] = (Waiting, Some q', map msg_event xs) \<and>
     mset xs = {#sample_msg 3, sample_msg 1#}"
proof -
  have "pq_inv mx_key mx_ok max_heap_compare (sample_pool [sample_msg 3, sample_msg 1])"
    by (auto simp: sample_pool_def sample_msg_def pq_inv_def pq_wf_def elems_def pq_items_def heap_upto_def parent_def
        mx_key_def mx_ok_def small32_def less_Suc_eq numeral_2_eq_2)
  then show ?thesis
    using worker_sends_by_priority [of "sample_pool [sample_msg 3, sample_msg 1]" 3 "\<lambda>_ _. 0"]
    by (auto simp: sample_pool_def sample_msg_def pq_items_def elems_def has_callback_def)
qed

text \<open>A manager in which a set command waits for module 5.\<close>

definition waiting_queue :: "dcdc_task_t pq_t" where
  "waiting_queue = sample_mq\<lparr>
     pq_elements := Some (\<lparr>pv_priority = 1, pv_value = Some (sample_task 1 5), pv_timestamp = 0\<rparr> # replicate 19 empty_pv),
     pq_size := 1\<rparr>"

definition waiting_mgr :: module_queue_mgr_t where
  "waiting_mgr = sample_mgr\<lparr>queues := (queues sample_mgr)[4 := Some waiting_queue]\<rparr>"

lemma waiting_facts:
  "module_queue_ok waiting_queue" "pq_items waiting_queue \<noteq> []" "Some (1, 5) \<in> set (item_keys waiting_queue)"
  "queues waiting_mgr ! 4 = Some waiting_queue" "mgr_wf waiting_mgr" "tasks_have_data waiting_mgr"
proof -
  show ok: "module_queue_ok waiting_queue" "pq_items waiting_queue \<noteq> []" "Some (1, 5) \<in> set (item_keys waiting_queue)"
    "queues waiting_mgr ! 4 = Some waiting_queue"
    by (simp_all add: waiting_queue_def waiting_mgr_def sample_mq_def sample_mgr_def module_queue_ok_def pq_wf_def elems_def
        item_keys_def pq_items_def DCDC_QUEUE_LEN_def task_key_def sample_task_def)
  show "mgr_wf waiting_mgr" unfolding waiting_mgr_def by (intro wf_intros sample_mgr_wf ok)
  have "mgr_tasks waiting_mgr = {#Some (sample_task 1 5)#}"
    using sum_list_update [of 4 "queues sample_mgr" queue_tasks "Some waiting_queue"] sample_mgr_tasks(1)
    by (simp add: mgr_tasks_def waiting_mgr_def)
      (simp add: sample_mgr_def queue_tasks_def sample_mq_ok waiting_queue_def pq_items_def elems_def)
  then show "tasks_have_data waiting_mgr" by (simp add: tasks_have_data_def sample_task_def)
qed

theorem full_pool_loses_task_witness:
  "\<exists>m' t. sweep (\<lambda>_. True) (\<lambda>_. 0) (\<lambda>_ _. 0) [4] (Some waiting_mgr) (Some (sample_pool (replicate 20 (sample_msg 1)))) =
       Inr (Some m', Some (sample_pool (replicate 20 (sample_msg 1)))) \<and>
     mgr_tasks waiting_mgr = add_mset (Some t) (mgr_tasks m')"
  by (rule full_pool_loses_task [OF waiting_facts(5,6,4,2)]) (simp_all add: pq_full_def sample_pool_def)

theorem set_mode_out_cur_dropped_witness:
  "set_mode_out_cur LittleEndian True None True True 0 (\<lambda>_. 0) (Some waiting_mgr) \<lparr>ptp = 1, dst = 7, group = 0\<rparr> 50 =
   Inr (Some waiting_mgr)"
  by (rule set_mode_out_cur_dropped [OF waiting_facts(5,4,3)]) simp_all

end
