(* ===== verification/Linked_List.thy ===== *)
theory Linked_List
  imports Prelude
begin

text \<open>
  Doubly linked lists in a field-split heap: \<open>nxt\<close> and \<open>prv\<close> give the two links of every node.
  \<open>lseg nxt prv p pr xs q l\<close> says that the nodes \<open>xs\<close>, in order, form the segment that starts at the
  pointer \<open>p\<close> with predecessor \<open>pr\<close> and is followed by the pointer \<open>q\<close>; \<open>l\<close> points to its last node, or
  is \<open>pr\<close> when the segment is empty. The timer list and the cache list are instances.
\<close>

type_synonym links = "addr \<Rightarrow> ptr"

fun lseg :: "links \<Rightarrow> links \<Rightarrow> ptr \<Rightarrow> ptr \<Rightarrow> addr list \<Rightarrow> ptr \<Rightarrow> ptr \<Rightarrow> bool" where
  "lseg nxt prv p pr [] q l \<longleftrightarrow> p = q \<and> pr = l"
| "lseg nxt prv p pr (a # xs) q l \<longleftrightarrow> p = Some a \<and> prv a = pr \<and> lseg nxt prv (nxt a) (Some a) xs q l"

lemma lseg_append:
  "lseg nxt prv p pr (xs @ ys) q l \<longleftrightarrow> (\<exists>m k. lseg nxt prv p pr xs m k \<and> lseg nxt prv m k ys q l)"
  by (induction xs arbitrary: p pr) auto

lemma lseg_upd_nxt [simp]: "a \<notin> set xs \<Longrightarrow> lseg (nxt(a := v)) prv p pr xs q l = lseg nxt prv p pr xs q l"
  by (induction xs arbitrary: p pr) auto

lemma lseg_upd_prv [simp]: "a \<notin> set xs \<Longrightarrow> lseg nxt (prv(a := v)) p pr xs q l = lseg nxt prv p pr xs q l"
  by (induction xs arbitrary: p pr) auto

lemma lseg_cong:
  "(\<And>a. a \<in> set xs \<Longrightarrow> nxt a = nxt' a \<and> prv a = prv' a) \<Longrightarrow>
   lseg nxt prv p pr xs q l = lseg nxt' prv' p pr xs q l"
  by (induction xs arbitrary: p pr) auto

lemma lseg_start: "lseg nxt prv p pr xs q l \<Longrightarrow> p = (case xs of [] \<Rightarrow> q | a # _ \<Rightarrow> Some a)"
  by (cases xs) auto

lemma lseg_last: "lseg nxt prv p pr xs q l \<Longrightarrow> l = (if xs = [] then pr else Some (last xs))"
  by (induction xs arbitrary: p pr) (auto split: if_splits)

lemma lseg_snoc:
  "lseg nxt prv p pr (xs @ [a]) q l \<longleftrightarrow>
   (\<exists>k. lseg nxt prv p pr xs (Some a) k \<and> prv a = k) \<and> nxt a = q \<and> l = Some a"
  by (auto simp: lseg_append)

text \<open>Redirecting what follows a segment: only the last node's link changes.\<close>

lemma lseg_relink:
  "lseg nxt prv p pr (xs @ [a]) q l \<Longrightarrow> a \<notin> set xs \<Longrightarrow> lseg (nxt(a := v)) prv p pr (xs @ [a]) v l"
  by (auto simp: lseg_snoc)

text \<open>Redirecting what precedes a segment: only the first node's back link changes.\<close>

lemma lseg_reprev:
  "lseg nxt prv p pr (a # xs) q l \<Longrightarrow> a \<notin> set xs \<Longrightarrow> lseg nxt (prv(a := v)) p v (a # xs) q l"
  by auto

end
