(* ===== verification/Timer.thy ===== *)
theory Timer
  imports Utils Linked_List "HOL-Library.Product_Lexorder" "HOL-Library.Multiset"
begin

text \<open>
  The timers of \<^verbatim>\<open>src/src/utils/timer.c\<close> at the level of its pointers: \<open>t_prev\<close>, \<open>t_next\<close> and \<open>handle\<close> are
  the fields of the nodes by address, \<open>list_head\<close> is the global head of the list. The list is kept in the
  order of the absolute timeouts. \<open>fired\<close> records the callbacks that the loop called with their
  argument, \<open>posts\<close> counts the wake-up signals, and \<open>freed_data\<close> the released user data. Each call is cut into
  what it writes before it takes the list mutex and what it does while it holds it; in between, other threads may do the same
  (\<open>tc_step\<close>). Callbacks run while the mutex is held, which is not recursive, so they cannot start, stop or add timers.
  Seconds are unbounded: a timeout of less than \<open>2 ^ 64\<close> ms cannot overflow a 64-bit second counter.
\<close>

subsection \<open>Data\<close>

datatype timer_status_e = TIMER_IDLE | TIMER_RUNNING | TIMER_STOP

record timer_handle =
  abs_timeout :: timespec
  cb :: "nat option"
  timeout_ms :: uint64
  userdata :: "nat option"
  repeat :: int32
  timeout_count :: int32
  status :: timer_status_e

record timer_state =
  t_prev :: links
  t_next :: links
  handle :: "addr \<Rightarrow> timer_handle"
  list_head :: ptr
  ctrl_fd :: int
  posts :: nat
  fired :: "(nat \<times> nat option) list"
  freed_data :: "nat list"

definition upd_handle :: "addr \<Rightarrow> (timer_handle \<Rightarrow> timer_handle) \<Rightarrow> timer_state \<Rightarrow> timer_state" where
  "upd_handle a f s = s\<lparr>handle := (handle s)(a := f (handle s a))\<rparr>"

subsection \<open>Time\<close>

definition timer_add_abstimeout :: "timespec \<Rightarrow> uint64 \<Rightarrow> timespec" where
  "timer_add_abstimeout t ms =
     (let sec = tv_sec t + uint ms div 1000;
          nsec = tv_nsec t + uint ms mod 1000 * 1000000
      in if nsec > 1000000000 then \<lparr>tv_sec = sec + 1, tv_nsec = nsec - 1000000000\<rparr>
         else \<lparr>tv_sec = sec, tv_nsec = nsec\<rparr>)"

definition timer_set_abstimeout :: "timespec \<Rightarrow> uint64 \<Rightarrow> timespec" where
  "timer_set_abstimeout now ms = timer_add_abstimeout now ms"

definition timer_post_timeout_signal :: "timer_state \<Rightarrow> timer_state" where
  "timer_post_timeout_signal s = (if ctrl_fd s > 0 then s\<lparr>posts := posts s + 1\<rparr> else s)"

definition timespec_compare :: "timespec \<Rightarrow> timespec \<Rightarrow> int" where
  "timespec_compare a b =
     (if tv_sec a > tv_sec b then 1
      else if tv_sec a < tv_sec b then - 1
      else if tv_nsec a = tv_nsec b then 0
      else if tv_nsec a > tv_nsec b then 1 else - 1)"

subsection \<open>The list\<close>

text \<open>The walks are partial functions: \<^const>\<open>None\<close> means that they do not end.\<close>

partial_function (option) inlist_from :: "timer_state \<Rightarrow> ptr \<Rightarrow> addr \<Rightarrow> bool option" where
  "inlist_from s cur hdl =
     (case cur of
        None \<Rightarrow> Some False
      | Some c \<Rightarrow> if c = hdl then Some True else inlist_from s (t_next s c) hdl)"

definition timer_is_inlist :: "timer_state \<Rightarrow> addr \<Rightarrow> bool option" where
  "timer_is_inlist s hdl = inlist_from s (list_head s) hdl"

definition timer_list_remove :: "addr \<Rightarrow> timer_state \<Rightarrow> timer_state" where
  "timer_list_remove hdl s =
     (case (t_prev s hdl, t_next s hdl) of
        (None, None) \<Rightarrow> s\<lparr>list_head := None\<rparr>
      | (None, Some n) \<Rightarrow> s\<lparr>t_prev := (t_prev s)(n := None), list_head := Some n\<rparr>
      | (Some p, None) \<Rightarrow> s\<lparr>t_next := (t_next s)(p := None)\<rparr>
      | (Some p, Some n) \<Rightarrow> s\<lparr>t_prev := (t_prev s)(n := None), t_next := (t_next s)(p := None)\<rparr>)"

definition timer_list_insert_after :: "addr \<Rightarrow> addr \<Rightarrow> timer_state \<Rightarrow> timer_state" where
  "timer_list_insert_after cur hdl s =
     (let nx = t_next s cur;
          s1 = s\<lparr>t_prev := (t_prev s)(hdl := Some cur), t_next := (t_next s)(hdl := nx)\<rparr>;
          s2 = s1\<lparr>t_next := (t_next s1)(cur := Some hdl)\<rparr>
      in case nx of None \<Rightarrow> s2 | Some n \<Rightarrow> s2\<lparr>t_prev := (t_prev s2)(n := Some hdl)\<rparr>)"

definition timer_list_insert_before :: "addr \<Rightarrow> addr \<Rightarrow> timer_state \<Rightarrow> timer_state" where
  "timer_list_insert_before cur hdl s =
     (case t_prev s cur of
        None \<Rightarrow>
          s\<lparr>list_head := Some hdl, t_prev := (t_prev s)(hdl := None, cur := Some hdl),
            t_next := (t_next s)(hdl := Some cur)\<rparr>
      | Some p \<Rightarrow>
          s\<lparr>t_prev := (t_prev s)(hdl := Some p, cur := Some hdl),
            t_next := (t_next s)(hdl := Some cur, p := Some hdl)\<rparr>)"

partial_function (option) add_from :: "timer_state \<Rightarrow> addr \<Rightarrow> ptr \<Rightarrow> nat \<Rightarrow> (nat \<times> timer_state) option" where
  "add_from s hdl cur index =
     (case cur of
        None \<Rightarrow> Some (index, s)
      | Some c \<Rightarrow>
          if timespec_compare (abs_timeout (handle s c)) (abs_timeout (handle s hdl)) > 0
          then Some (index, timer_list_insert_before c hdl s)
          else if t_next s c = None then Some (index, timer_list_insert_after c hdl s)
          else add_from s hdl (t_next s c) (Suc index))"

definition timer_list_add :: "addr \<Rightarrow> timer_state \<Rightarrow> (nat \<times> timer_state) option" where
  "timer_list_add hdl s =
     (if list_head s = None
      then Some (0, s\<lparr>list_head := Some hdl, t_prev := (t_prev s)(hdl := None), t_next := (t_next s)(hdl := None)\<rparr>)
      else add_from s hdl (list_head s) 0)"

subsection \<open>The loop\<close>

definition rearm :: "timer_handle \<Rightarrow> bool" where
  "rearm h \<longleftrightarrow> sint (timeout_count h) < sint (repeat h) \<or> sint (repeat h) < 0"

partial_function (option) timer_loop :: "timespec \<Rightarrow> ptr \<Rightarrow> timer_state \<Rightarrow> timer_state option" where
  "timer_loop curtime cur s =
     (case cur of
        None \<Rightarrow> Some s
      | Some c \<Rightarrow>
          (let nx = t_next s c in
           if timespec_compare curtime (abs_timeout (handle s c)) < 0 then Some s
           else if status (handle s c) \<noteq> TIMER_RUNNING then timer_loop curtime nx (timer_list_remove c s)
           else
             (let s1 = (case cb (handle s c) of
                          None \<Rightarrow> s
                        | Some f \<Rightarrow> s\<lparr>fired := fired s @ [(f, userdata (handle s c))]\<rparr>);
                  s2 = upd_handle c (\<lambda>h. h\<lparr>timeout_count := timeout_count h + 1\<rparr>) s1;
                  s3 = timer_list_remove c s2
              in if rearm (handle s3 c) then
                   (let s4 = upd_handle c (\<lambda>h. h\<lparr>abs_timeout := timer_add_abstimeout curtime (timeout_ms h)\<rparr>) s3
                    in case timer_list_add c s4 of
                         None \<Rightarrow> None
                       | Some (_, s5) \<Rightarrow> timer_loop curtime nx s5)
                 else timer_loop curtime nx (upd_handle c (\<lambda>h. h\<lparr>status := TIMER_STOP\<rparr>) s3))))"

definition p_timer_loop_once :: "timespec \<Rightarrow> timer_state \<Rightarrow> timer_state option" where
  "p_timer_loop_once curtime s =
     (if list_head s = None then Some s else timer_loop curtime (list_head s) s)"

text \<open>C division rounds towards zero. The result is the pair of seconds and microseconds.\<close>

definition c_div :: "int \<Rightarrow> int \<Rightarrow> int" where
  "c_div a b = (if a < 0 then - ((- a) div b) else a div b)"

definition p_timer_loop_get_next_min_timeout :: "timespec \<Rightarrow> timer_state \<Rightarrow> int \<times> int" where
  "p_timer_loop_get_next_min_timeout now s =
     (case list_head s of
        None \<Rightarrow> (10, 0)
      | Some c \<Rightarrow>
          (let t = abs_timeout (handle s c);
               sec = tv_sec t - tv_sec now;
               usec = c_div (tv_nsec t - tv_nsec now) 1000;
               (sec1, usec1) = (if usec < 0 then (sec - 1, usec + 1000000) else (sec, usec))
           in if sec1 < 0 \<or> sec1 = 0 \<and> usec1 < 1000 then (0, 1000) else (sec1, usec1)))"

text \<open>
  The thread: each round waits and then runs the loop once; \<open>rounds\<close> lists the clock reading of the
  loop and the value of the quit flag after it. The second component is False when the list of
  rounds is used up before the flag is set.
\<close>

fun p_timer_mian_loop :: "(timespec \<times> int) list \<Rightarrow> timer_state \<Rightarrow> (timer_state \<times> bool) option" where
  "p_timer_mian_loop [] s = Some (s, False)"
| "p_timer_mian_loop ((now, quit_ctl) # rounds) s =
     (case p_timer_loop_once now s of
        None \<Rightarrow> None
      | Some s' \<Rightarrow> if quit_ctl \<noteq> 0 then Some (s', True) else p_timer_mian_loop rounds s')"

subsection \<open>The interface\<close>


text \<open>Starting: the fields that are written without the mutex, and the section with the mutex.\<close>

definition start_prepare :: "timespec \<Rightarrow> addr \<Rightarrow> timer_state \<Rightarrow> timer_state" where
  "start_prepare now a s =
     upd_handle a (\<lambda>h. h\<lparr>abs_timeout := timer_set_abstimeout now (timeout_ms h), timeout_count := 0, status := TIMER_RUNNING\<rparr>) s"

definition start_insert :: "addr \<Rightarrow> timer_state \<Rightarrow> timer_state option" where
  "start_insert a s =
     (case timer_is_inlist s a of
        None \<Rightarrow> None
      | Some isin \<Rightarrow>
          (let s1 = (if isin then timer_list_remove a s else s)
           in case timer_list_add a s1 of
                None \<Rightarrow> None
              | Some (index, s2) \<Rightarrow> Some (if index = 0 then timer_post_timeout_signal s2 else s2)))"

definition p_timer_start :: "timespec \<Rightarrow> ptr \<Rightarrow> timer_state \<Rightarrow> (int \<times> timer_state) option" where
  "p_timer_start now hdl s =
     (case hdl of
        None \<Rightarrow> Some (- 1, s)
      | Some a \<Rightarrow> map_option (\<lambda>s'. (0, s')) (start_insert a (start_prepare now a s)))"




definition unlink_if_listed :: "addr \<Rightarrow> timer_state \<Rightarrow> timer_state option" where
  "unlink_if_listed a s =
     (case timer_is_inlist s a of
        None \<Rightarrow> None
      | Some isin \<Rightarrow> Some (if isin then timer_list_remove a s else s))"

definition stop_mark :: "addr \<Rightarrow> timer_state \<Rightarrow> timer_state" where
  "stop_mark a s = upd_handle a (\<lambda>h. h\<lparr>status := TIMER_STOP\<rparr>) s"

definition p_timer_stop :: "ptr \<Rightarrow> timer_state \<Rightarrow> (int \<times> timer_state) option" where
  "p_timer_stop hdl s =
     (case hdl of
        None \<Rightarrow> Some (- 1, s)
      | Some a \<Rightarrow>
          map_option (\<lambda>s'. (0, s')) (unlink_if_listed a (stop_mark a s)))"

definition free_hdl :: "addr \<Rightarrow> timer_state \<Rightarrow> timer_state" where
  "free_hdl a s = (case userdata (handle s a) of None \<Rightarrow> s | Some u \<Rightarrow> s\<lparr>freed_data := freed_data s @ [u]\<rparr>)"

text \<open>The caller's pointer variable is the outer argument; afterwards it holds NULL.\<close>

definition p_timer_del :: "ptr option \<Rightarrow> timer_state \<Rightarrow> (int \<times> ptr option \<times> timer_state) option" where
  "p_timer_del p_hdl s =
     (case p_hdl of
        Some (Some a) \<Rightarrow>
          map_option (\<lambda>s'. (0, Some None, free_hdl a s')) (unlink_if_listed a (stop_mark a s))
      | _ \<Rightarrow> Some (- 1, p_hdl, s))"

subsection \<open>The list operations on a well-formed list\<close>

definition ts_key :: "timespec \<Rightarrow> int \<times> int" where
  "ts_key t = (tv_sec t, tv_nsec t)"

abbreviation tkey :: "timer_state \<Rightarrow> addr \<Rightarrow> int \<times> int" where
  "tkey s a \<equiv> ts_key (abs_timeout (handle s a))"

definition timer_list :: "timer_state \<Rightarrow> addr list \<Rightarrow> bool" where
  "timer_list s xs \<longleftrightarrow> (\<exists>l. lseg (t_next s) (t_prev s) (list_head s) None xs None l) \<and> distinct xs"

lemma timespec_compare_key [simp]:
  "timespec_compare a b > 0 \<longleftrightarrow> ts_key b < ts_key a"
  "timespec_compare a b < 0 \<longleftrightarrow> ts_key a < ts_key b"
  by (auto simp: timespec_compare_def ts_key_def)

lemma remove_shape [shape_simps]:
  "handle (timer_list_remove a s) = handle s" "fired (timer_list_remove a s) = fired s"
  "freed_data (timer_list_remove a s) = freed_data s" "posts (timer_list_remove a s) = posts s"
  "ctrl_fd (timer_list_remove a s) = ctrl_fd s"
  by (simp_all add: timer_list_remove_def split: option.split)

lemma insert_shape [shape_simps]:
  "handle (timer_list_insert_before c a s) = handle s" "fired (timer_list_insert_before c a s) = fired s"
  "freed_data (timer_list_insert_before c a s) = freed_data s"
  "handle (timer_list_insert_after c a s) = handle s" "fired (timer_list_insert_after c a s) = fired s"
  "freed_data (timer_list_insert_after c a s) = freed_data s"
  by (simp_all add: timer_list_insert_before_def timer_list_insert_after_def Let_def split: option.split)

lemma upd_handle_simps [simp]:
  "handle (upd_handle a f s) = (handle s)(a := f (handle s a))"
  "t_next (upd_handle a f s) = t_next s" "t_prev (upd_handle a f s) = t_prev s"
  "list_head (upd_handle a f s) = list_head s" "fired (upd_handle a f s) = fired s"
  "freed_data (upd_handle a f s) = freed_data s"
  by (simp_all add: upd_handle_def)

lemma timer_list_frame:
  "t_next s' = t_next s \<Longrightarrow> t_prev s' = t_prev s \<Longrightarrow> list_head s' = list_head s \<Longrightarrow> timer_list s' xs = timer_list s xs"
  by (simp add: timer_list_def)

lemma timer_list_head: "timer_list s xs \<Longrightarrow> list_head s = (case xs of [] \<Rightarrow> None | a # _ \<Rightarrow> Some a)"
  by (auto simp: timer_list_def dest: lseg_start)

lemma timer_list_links:
  assumes "timer_list s (xs @ a # ys)"
  shows "t_prev s a = (if xs = [] then None else Some (last xs))"
    and "t_next s a = (case ys of [] \<Rightarrow> None | b # _ \<Rightarrow> Some b)"
  using assms by (auto simp: timer_list_def lseg_append dest: lseg_start lseg_last)

text \<open>What removal does: a first or last node leaves the rest; a middle node cuts the list there.\<close>

lemma timer_list_remove_list:
  assumes "timer_list s (xs @ a # ys)"
  shows "timer_list (timer_list_remove a s) (if xs = [] then ys else xs)"
proof (cases xs rule: rev_cases)
  case Nil
  then show ?thesis
    using assms timer_list_links [OF assms]
    by (cases ys) (auto simp: timer_list_remove_def timer_list_def)
next
  case (snoc ws w)
  then have "lseg (t_next s) (t_prev s) (list_head s) None (ws @ [w]) (Some a) (Some w)" "distinct (ws @ [w] @ a # ys)"
    using assms by (auto simp: timer_list_def lseg_append)
  then show ?thesis
    using snoc timer_list_links [OF assms] lseg_relink [of "t_next s" "t_prev s" "list_head s" None ws w "Some a" "Some w" None]
    by (cases ys) (auto simp: timer_list_remove_def timer_list_def)
qed

lemma insert_before_list:
  assumes "timer_list s (xs @ c # ys)" and "a \<notin> set (xs @ c # ys)"
  shows "timer_list (timer_list_insert_before c a s) (xs @ a # c # ys)"
proof (cases xs rule: rev_cases)
  case Nil
  then show ?thesis
    using assms timer_list_links [OF assms(1)] by (auto simp: timer_list_insert_before_def timer_list_def)
next
  case (snoc ws w)
  have d: "distinct (ws @ w # c # ys)" "a \<notin> set (ws @ w # c # ys)"
    using assms snoc by (auto simp: timer_list_def)
  have "lseg (t_next s) (t_prev s) (list_head s) None (ws @ [w]) (Some c) (Some w)"
    "\<exists>l. lseg (t_next s) (t_prev s) (t_next s c) (Some c) ys None l"
    using assms snoc by (auto simp: timer_list_def lseg_append)
  then show ?thesis
    using snoc timer_list_links(1) [OF assms(1)] d
    by (auto simp: timer_list_insert_before_def timer_list_def lseg_append)
qed

lemma insert_after_list:
  assumes "timer_list s (xs @ [c])" and "a \<notin> set (xs @ [c])"
  shows "timer_list (timer_list_insert_after c a s) (xs @ [c, a])"
  using assms timer_list_links(2) [OF assms(1)]
  by (auto simp: timer_list_insert_after_def timer_list_def lseg_append Let_def)

lemma inlist_from_lseg:
  "lseg (t_next s) (t_prev s) p pr xs None l \<Longrightarrow> inlist_from s p a = Some (a \<in> set xs)"
proof (induction xs arbitrary: p pr)
  case Nil
  then show ?case by (simp add: inlist_from.simps)
next
  case (Cons x xs)
  then show ?case by (subst inlist_from.simps) auto
qed

lemma timer_is_inlist_list: "timer_list s xs \<Longrightarrow> timer_is_inlist s a = Some (a \<in> set xs)"
  by (auto simp: timer_is_inlist_def timer_list_def dest: inlist_from_lseg)

subsection \<open>Sorted insertion\<close>

definition insert_by :: "(addr \<Rightarrow> int \<times> int) \<Rightarrow> addr \<Rightarrow> addr list \<Rightarrow> addr list" where
  "insert_by k a xs = takeWhile (\<lambda>b. k b \<le> k a) xs @ a # dropWhile (\<lambda>b. k b \<le> k a) xs"

lemma set_insert_by [simp]: "set (insert_by k a xs) = insert a (set xs)"
  by (simp add: insert_by_def) (metis set_append takeWhile_dropWhile_id)

lemma insert_by_Cons: "insert_by k a (x # xs) = (if k x \<le> k a then x # insert_by k a xs else a # x # xs)"
  by (simp add: insert_by_def)

lemma insert_by_append: "\<forall>x\<in>set xs. k x \<le> k a \<Longrightarrow> insert_by k a (xs @ ys) = xs @ insert_by k a ys"
  by (induction xs) (auto simp: insert_by_Cons)

lemma sorted_insert_by: "sorted (map k xs) \<Longrightarrow> sorted (map k (insert_by k a xs))"
  by (induction xs) (auto simp: insert_by_Cons insert_by_def [of _ _ "[]"])

lemma insert_by_cong: "(\<And>b. b \<in> insert a (set xs) \<Longrightarrow> k b = k' b) \<Longrightarrow> insert_by k a xs = insert_by k' a xs"
  by (induction xs) (auto simp: insert_by_Cons insert_by_def [of _ _ "[]"])

lemma add_from_list:
  "timer_list s (xs @ ys) \<Longrightarrow> ys \<noteq> [] \<Longrightarrow> a \<notin> set (xs @ ys) \<Longrightarrow>
   \<exists>n' s'. add_from s a (Some (hd ys)) n = Some (n', s') \<and> timer_list s' (xs @ insert_by (tkey s) a ys) \<and>
     handle s' = handle s \<and> fired s' = fired s \<and> freed_data s' = freed_data s"
proof (induction ys arbitrary: xs n)
  case (Cons c ys)
  note links = timer_list_links(2) [OF Cons.prems(1)]
  show ?case
  proof (cases "tkey s c \<le> tkey s a")
    case False
    then show ?thesis
      using insert_before_list [OF Cons.prems(1,3)]
      by (subst add_from.simps) (auto simp: insert_by_Cons shape_simps)
  next
    case True
    show ?thesis
    proof (cases ys)
      case Nil
      then show ?thesis
        using True links insert_after_list [of s xs c a] Cons.prems
        by (subst add_from.simps) (auto simp: insert_by_def shape_simps)
    next
      case (Cons d zs)
      then show ?thesis
        using True links Cons.IH [of "xs @ [c]" "Suc n"] Cons.prems
        by (subst add_from.simps) (auto simp: insert_by_Cons)
    qed
  qed
qed simp

lemma timer_list_add_list:
  assumes "timer_list s xs" and "a \<notin> set xs"
  shows "\<exists>n s'. timer_list_add a s = Some (n, s') \<and> timer_list s' (insert_by (tkey s) a xs) \<and>
     handle s' = handle s \<and> fired s' = fired s \<and> freed_data s' = freed_data s"
proof (cases xs)
  case Nil
  then show ?thesis
    using timer_list_head [OF assms(1)] by (auto simp: timer_list_add_def timer_list_def insert_by_def)
next
  case (Cons x ys)
  then show ?thesis
    using timer_list_head [OF assms(1)] add_from_list [of s "[]" xs a 0] assms by (simp add: timer_list_add_def)
qed

subsection \<open>One run of the loop\<close>

definition ts_ok :: "timespec \<Rightarrow> bool" where
  "ts_ok t \<longleftrightarrow> 0 \<le> tv_nsec t \<and> tv_nsec t \<le> 1000000000"

lemma add_abstimeout_ok [wf_intros]: "ts_ok t \<Longrightarrow> ts_ok (timer_add_abstimeout t ms)"
proof -
  have "0 \<le> uint ms mod 1000" "uint ms mod 1000 < 1000" by simp_all
  then show "ts_ok t \<Longrightarrow> ts_ok (timer_add_abstimeout t ms)"
    by (auto simp: ts_ok_def timer_add_abstimeout_def Let_def)
qed

lemma add_abstimeout_later:
  assumes "ts_ok t" and "0 < ms"
  shows "ts_key t < ts_key (timer_add_abstimeout t ms)"
proof -
  have "0 < uint ms" using assms(2) by (simp add: word_less_def)
  then have "0 < uint ms div 1000 \<or> 0 < uint ms mod 1000 \<and> uint ms div 1000 = 0"
    "0 \<le> uint ms div 1000" "0 \<le> uint ms mod 1000" by (auto simp: not_less)
  then show ?thesis
    using assms(1) by (auto simp: ts_key_def timer_add_abstimeout_def Let_def ts_ok_def)
qed

text \<open>What a run of the loop at time \<open>now\<close> makes of an expired timer, and which callback it calls.\<close>

definition expire :: "timespec \<Rightarrow> timer_handle \<Rightarrow> timer_handle" where
  "expire now h =
     (if status h \<noteq> TIMER_RUNNING then h
      else let h1 = h\<lparr>timeout_count := timeout_count h + 1\<rparr>
           in if rearm h1 then h1\<lparr>abs_timeout := timer_add_abstimeout now (timeout_ms h)\<rparr>
              else h1\<lparr>status := TIMER_STOP\<rparr>)"

definition fire_event :: "timer_handle \<Rightarrow> (nat \<times> nat option) list" where
  "fire_event h =
     (if status h = TIMER_RUNNING then (case cb h of None \<Rightarrow> [] | Some f \<Rightarrow> [(f, userdata h)]) else [])"

definition rearmed :: "timer_handle \<Rightarrow> bool" where
  "rearmed h \<longleftrightarrow> status h = TIMER_RUNNING \<and> rearm (h\<lparr>timeout_count := timeout_count h + 1\<rparr>)"

text \<open>One step of the loop on the expired head of the list.\<close>

lemma timer_loop_step:
  assumes list: "timer_list s (e # zs)" and exp: "tkey s e \<le> ts_key now"
  shows "\<exists>s1. timer_loop now (Some e) s = timer_loop now (case zs of [] \<Rightarrow> None | z # _ \<Rightarrow> Some z) s1 \<and>
     timer_list s1 (if rearmed (handle s e) then insert_by (tkey s1) e zs else zs) \<and>
     handle s1 = (handle s)(e := expire now (handle s e)) \<and>
     fired s1 = fired s @ fire_event (handle s e) \<and> freed_data s1 = freed_data s"
proof -
  let ?nx = "case zs of [] \<Rightarrow> None | z # _ \<Rightarrow> Some z"
  let ?h = "handle s e"
  have nx: "t_next s e = ?nx" using timer_list_links(2) [of s "[]" e zs] list by simp
  have e: "e \<notin> set zs" using list by (simp add: timer_list_def)
  have exp': "\<not> timespec_compare now (abs_timeout ?h) < 0" using exp by simp
  show ?thesis
  proof (cases "status ?h = TIMER_RUNNING")
    case False
    then show ?thesis
      using timer_list_remove_list [of s "[]" e zs] list exp' nx
      by (subst timer_loop.simps) (auto simp: expire_def fire_event_def rearmed_def shape_simps)
  next
    case True
    define s1 where "s1 = (case cb ?h of None \<Rightarrow> s | Some f \<Rightarrow> s\<lparr>fired := fired s @ [(f, userdata ?h)]\<rparr>)"
    define s2 where "s2 = upd_handle e (\<lambda>h. h\<lparr>timeout_count := timeout_count h + 1\<rparr>) s1"
    define s3 where "s3 = timer_list_remove e s2"
    have s1: "t_next s1 = t_next s" "t_prev s1 = t_prev s" "list_head s1 = list_head s" "handle s1 = handle s"
      "fired s1 = fired s @ fire_event ?h" "freed_data s1 = freed_data s"
      using True by (simp_all add: s1_def fire_event_def split: option.split)
    have l2: "timer_list s2 (e # zs)" using list s1 by (simp add: s2_def timer_list_def)
    have s3: "timer_list s3 zs" "handle s3 = (handle s)(e := ?h\<lparr>timeout_count := timeout_count ?h + 1\<rparr>)"
      "fired s3 = fired s @ fire_event ?h" "freed_data s3 = freed_data s"
      using timer_list_remove_list [of s2 "[]" e zs] l2 s1 by (simp_all add: s3_def s2_def shape_simps)
    have loop: "timer_loop now (Some e) s =
       (if rearm (handle s3 e) then
          (case timer_list_add e (upd_handle e (\<lambda>h. h\<lparr>abs_timeout := timer_add_abstimeout now (timeout_ms h)\<rparr>) s3) of
             None \<Rightarrow> None | Some (_, s5) \<Rightarrow> timer_loop now ?nx s5)
        else timer_loop now ?nx (upd_handle e (\<lambda>h. h\<lparr>status := TIMER_STOP\<rparr>) s3))"
      using exp' nx True by (subst timer_loop.simps) (simp add: Let_def s1_def s2_def s3_def)
    show ?thesis
    proof (cases "rearm (handle s3 e)")
      case rearm: True
      let ?s4 = "upd_handle e (\<lambda>h. h\<lparr>abs_timeout := timer_add_abstimeout now (timeout_ms h)\<rparr>) s3"
      have l4: "timer_list ?s4 zs" using s3(1) by (simp add: timer_list_def)
      obtain n s5 where s5: "timer_list_add e ?s4 = Some (n, s5)" "timer_list s5 (insert_by (tkey ?s4) e zs)"
        "handle s5 = handle ?s4" "fired s5 = fired ?s4" "freed_data s5 = freed_data ?s4"
        using timer_list_add_list [OF l4 e] by blast
      then show ?thesis
        using loop rearm True s3 by (intro exI [of _ s5]) (simp add: expire_def rearmed_def)
    next
      case False
      then show ?thesis
        using loop True s3
        by (intro exI [of _ "upd_handle e (\<lambda>h. h\<lparr>status := TIMER_STOP\<rparr>) s3"])
          (simp add: expire_def rearmed_def timer_list_def)
    qed
  qed
qed

lemma timer_loop_stops:
  "cur = None \<or> (\<exists>c. cur = Some c \<and> ts_key now < tkey s c) \<Longrightarrow> timer_loop now cur s = Some s"
  by (subst timer_loop.simps) auto

text \<open>The whole loop: \<open>es\<close> are the expired timers still to be handled, \<open>rs\<close> the timers that are not due.\<close>

lemma timer_loop_list:
  assumes "timer_list s (es @ rs)" and "\<forall>e\<in>set es. tkey s e \<le> ts_key now" and "\<forall>r\<in>set rs. ts_key now < tkey s r"
    and "sorted (map (tkey s) rs)" and "\<forall>e\<in>set es. 0 < timeout_ms (handle s e)" and "ts_ok now"
    and "case es of e # _ \<Rightarrow> cur = Some e | [] \<Rightarrow> cur = None \<or> (\<exists>c\<in>set rs. cur = Some c)"
  shows "\<exists>s' ys. timer_loop now cur s = Some s' \<and> timer_list s' ys \<and> sorted (map (tkey s') ys) \<and>
     set ys = set rs \<union> {e \<in> set es. rearmed (handle s e)} \<and> (\<forall>y\<in>set ys. ts_key now < tkey s' y) \<and>
     handle s' = (\<lambda>a. if a \<in> set es then expire now (handle s a) else handle s a) \<and>
     fired s' = fired s @ concat (map (\<lambda>e. fire_event (handle s e)) es) \<and> freed_data s' = freed_data s"
  using assms
proof (induction es arbitrary: s rs cur)
  case Nil
  then have "timer_loop now cur s = Some s" by (intro timer_loop_stops) auto
  then show ?case using Nil by (intro exI [of _ s] exI [of _ rs]) simp
next
  case (Cons e es)
  have cur: "cur = Some e" and d: "e \<notin> set es" "e \<notin> set rs" "distinct (es @ rs)"
    using Cons.prems(1,7) by (auto simp: timer_list_def)
  obtain s1 where loop: "timer_loop now cur s = timer_loop now (case es @ rs of [] \<Rightarrow> None | z # _ \<Rightarrow> Some z) s1"
    and l1: "timer_list s1 (if rearmed (handle s e) then insert_by (tkey s1) e (es @ rs) else es @ rs)"
    and h1: "handle s1 = (handle s)(e := expire now (handle s e))"
    and f1: "fired s1 = fired s @ fire_event (handle s e)" "freed_data s1 = freed_data s"
    using timer_loop_step [of s e "es @ rs" now] Cons.prems(1,2) cur by auto
  let ?rs = "if rearmed (handle s e) then insert_by (tkey s1) e rs else rs"
  have late: "ts_key now < tkey s1 e" if "rearmed (handle s e)"
    using that add_abstimeout_later [OF Cons.prems(6)] Cons.prems(5) by (simp add: h1 expire_def rearmed_def)
  then have "insert_by (tkey s1) e (es @ rs) = es @ insert_by (tkey s1) e rs" if "rearmed (handle s e)"
    using that Cons.prems(2) d(1) by (intro insert_by_append) (auto simp: h1 dest: less_imp_le intro: order.trans)
  with l1 have a1: "timer_list s1 (es @ ?rs)" by (simp split: if_splits)
  have a2: "\<forall>z\<in>set es. tkey s1 z \<le> ts_key now" and a3: "\<forall>r\<in>set ?rs. ts_key now < tkey s1 r"
    and a5: "\<forall>z\<in>set es. 0 < timeout_ms (handle s1 z)"
    using Cons.prems(2,3,5) d late by (auto simp: h1)
  have rs: "map (tkey s1) rs = map (tkey s) rs" using d(2) by (auto simp: h1)
  have a4: "sorted (map (tkey s1) ?rs)"
    using Cons.prems(4) sorted_insert_by [of "tkey s1" rs e] by (simp add: rs)
  have a7: "case es of z # _ \<Rightarrow> (case es @ rs of [] \<Rightarrow> None | z # _ \<Rightarrow> Some z) = Some z
      | [] \<Rightarrow> (case es @ rs of [] \<Rightarrow> None | z # _ \<Rightarrow> Some z) = None \<or>
              (\<exists>c\<in>set ?rs. (case es @ rs of [] \<Rightarrow> None | z # _ \<Rightarrow> Some z) = Some c)"
    by (auto split: list.split)
  obtain s' ys where
    IH: "timer_loop now (case es @ rs of [] \<Rightarrow> None | z # _ \<Rightarrow> Some z) s1 = Some s'" "timer_list s' ys"
      "sorted (map (tkey s') ys)" "set ys = set ?rs \<union> {e \<in> set es. rearmed (handle s1 e)}"
      "\<forall>y\<in>set ys. ts_key now < tkey s' y"
      "handle s' = (\<lambda>a. if a \<in> set es then expire now (handle s1 a) else handle s1 a)"
      "fired s' = fired s1 @ concat (map (\<lambda>e. fire_event (handle s1 e)) es)" "freed_data s' = freed_data s1"
    using Cons.IH [OF a1 a2 a3 a4 a5 Cons.prems(6) a7] by blast
  have ev: "map (\<lambda>e. fire_event (handle s1 e)) es = map (\<lambda>e. fire_event (handle s e)) es"
    and re: "{e \<in> set es. rearmed (handle s1 e)} = {e \<in> set es. rearmed (handle s e)}"
    using d(1) by (auto simp: h1)
  have "fired s' = fired s @ concat (map (\<lambda>e. fire_event (handle s e)) (e # es))"
    unfolding IH(7) ev f1 by simp
  moreover have "set ys = set rs \<union> {a \<in> set (e # es). rearmed (handle s a)}"
    using IH(4) re by auto
  moreover have "handle s' = (\<lambda>a. if a \<in> set (e # es) then expire now (handle s a) else handle s a)"
    using IH(6) d(1) by (auto simp: h1 fun_eq_iff)
  moreover have "timer_loop now cur s = Some s'" "freed_data s' = freed_data s"
    using loop IH(1,8) f1(2) by simp_all
  ultimately show ?case using IH(2,3,5) by blast
qed

subsection \<open>The invariant\<close>

definition timer_inv :: "timer_state \<Rightarrow> addr list \<Rightarrow> bool" where
  "timer_inv s xs \<longleftrightarrow>
     timer_list s xs \<and> sorted (map (tkey s) xs) \<and>
     (\<forall>a\<in>set xs. 0 < timeout_ms (handle s a) \<and> ts_ok (abs_timeout (handle s a)))"

definition due :: "timespec \<Rightarrow> timer_state \<Rightarrow> addr \<Rightarrow> bool" where
  "due now s a \<longleftrightarrow> tkey s a \<le> ts_key now"

lemma sorted_filter_split:
  fixes k :: "'b \<Rightarrow> 'k::linorder"
  shows "sorted (map k xs) \<Longrightarrow> xs = filter (\<lambda>a. k a \<le> b) xs @ filter (\<lambda>a. \<not> k a \<le> b) xs"
proof (induction xs)
  case (Cons x xs)
  show ?case
  proof (cases "k x \<le> b")
    case True
    then show ?thesis using Cons by simp
  next
    case False
    then have "\<not> k y \<le> b" if "y \<in> set xs" for y using that Cons.prems by (auto simp: not_le)
    then have "filter (\<lambda>a. k a \<le> b) xs = []" "filter (\<lambda>a. \<not> k a \<le> b) xs = xs"
      by (auto simp: filter_empty_conv filter_id_conv)
    then show ?thesis using False by simp
  qed
qed simp

lemma expire_shape [shape_simps]:
  "timeout_ms (expire now h) = timeout_ms h" "userdata (expire now h) = userdata h" "cb (expire now h) = cb h"
  "repeat (expire now h) = repeat h"
  by (simp_all add: expire_def Let_def)

lemma expire_ts_ok: "ts_ok now \<Longrightarrow> ts_ok (abs_timeout h) \<Longrightarrow> ts_ok (abs_timeout (expire now h))"
  by (simp add: expire_def Let_def add_abstimeout_ok)

lemma loop_once_list:
  assumes inv: "timer_inv s xs" and now: "ts_ok now"
  shows "\<exists>s' ys. p_timer_loop_once now s = Some s' \<and> timer_inv s' ys \<and>
     fired s' = fired s @ concat (map (\<lambda>a. fire_event (handle s a)) (filter (due now s) xs)) \<and>
     set ys = {a \<in> set xs. due now s a \<longrightarrow> rearmed (handle s a)} \<and>
     (\<forall>y\<in>set ys. \<not> due now s' y) \<and>
     handle s' = (\<lambda>a. if a \<in> set xs \<and> due now s a then expire now (handle s a) else handle s a)"
proof -
  let ?es = "filter (due now s) xs" and ?rs = "filter (\<lambda>a. \<not> due now s a) xs"
  have srt: "sorted (map (tkey s) xs)" and "timer_list s xs" using inv by (simp_all add: timer_inv_def)
  moreover have "xs = ?es @ ?rs" using sorted_filter_split [OF srt, of "ts_key now"] by (simp add: due_def [abs_def])
  ultimately have l: "timer_list s (?es @ ?rs)" by argo
  have srs: "sorted (map (tkey s) ?rs)" using srt by (rule sorted_filter)
  show ?thesis
  proof (cases xs)
    case Nil
    then show ?thesis
      using inv timer_list_head [of s xs] by (auto simp: timer_inv_def p_timer_loop_once_def)
  next
    case (Cons x zs)
    have hd: "list_head s = (case ?es @ ?rs of [] \<Rightarrow> None | a # _ \<Rightarrow> Some a)" by (rule timer_list_head [OF l])
    then have once: "p_timer_loop_once now s = timer_loop now (list_head s) s"
      by (auto simp: p_timer_loop_once_def timer_loop_stops)
    have p2: "\<forall>e\<in>set ?es. tkey s e \<le> ts_key now" and p3: "\<forall>r\<in>set ?rs. ts_key now < tkey s r"
      and p5: "\<forall>e\<in>set ?es. 0 < timeout_ms (handle s e)"
      using inv by (auto simp: timer_inv_def due_def not_le)
    have p7: "case ?es of e # _ \<Rightarrow> list_head s = Some e | [] \<Rightarrow> list_head s = None \<or> (\<exists>c\<in>set ?rs. list_head s = Some c)"
      using hd by (cases ?es; cases ?rs) (auto simp: Cons_eq_filter_iff)
    obtain s' ys where r: "timer_loop now (list_head s) s = Some s'" "timer_list s' ys" "sorted (map (tkey s') ys)"
      "set ys = set ?rs \<union> {e \<in> set ?es. rearmed (handle s e)}" "\<forall>y\<in>set ys. ts_key now < tkey s' y"
      "handle s' = (\<lambda>a. if a \<in> set ?es then expire now (handle s a) else handle s a)"
      "fired s' = fired s @ concat (map (\<lambda>e. fire_event (handle s e)) ?es)"
      using timer_loop_list [OF l p2 p3 srs p5 now p7] by blast
    have "timer_inv s' ys"
      using r inv now by (auto simp: timer_inv_def shape_simps intro: expire_ts_ok)
    moreover have "set ys = {a \<in> set xs. due now s a \<longrightarrow> rearmed (handle s a)}" using r(4) by auto
    ultimately show ?thesis
      using once r by (intro exI [of _ s'] exI [of _ ys]) (auto simp: due_def not_le fun_eq_iff)
  qed
qed

subsection \<open>Starting and stopping\<close>

text \<open>What is left of the list when \<open>a\<close> is taken out of it.\<close>

definition cut_list :: "addr \<Rightarrow> addr list \<Rightarrow> addr list" where
  "cut_list a xs = (if a \<notin> set xs then xs else if hd xs = a then tl xs else takeWhile (\<lambda>b. b \<noteq> a) xs)"

lemma cut_split: "distinct (ls @ a # rs) \<Longrightarrow> cut_list a (ls @ a # rs) = (if ls = [] then rs else ls)"
  by (cases ls) (auto simp: cut_list_def takeWhile_tail)

lemma set_cut: "distinct xs \<Longrightarrow> set (cut_list a xs) \<subseteq> set xs - {a}"
  by (cases xs) (auto simp: cut_list_def dest: set_takeWhileD)

lemma sorted_cut: "sorted (map k xs) \<Longrightarrow> sorted (map k (cut_list a xs))"
  by (auto simp: cut_list_def map_tl sorted_tl dest: sorted_takeWhile [of "map k xs" "\<lambda>_. True"])
    (metis sorted_wrt_append sorted_map takeWhile_dropWhile_id)

lemma unlink_list:
  assumes "timer_list s xs"
  shows "\<exists>s'. unlink_if_listed a s = Some s' \<and> timer_list s' (cut_list a xs) \<and> handle s' = handle s \<and>
     fired s' = fired s \<and> freed_data s' = freed_data s"
proof (cases "a \<in> set xs")
  case True
  then obtain ls rs where xs: "xs = ls @ a # rs" by (meson split_list)
  then have "timer_list (timer_list_remove a s) (cut_list a xs)"
    using timer_list_remove_list [of s ls a rs] assms cut_split [of ls a rs] by (simp add: timer_list_def)
  then show ?thesis
    using True timer_is_inlist_list [OF assms, of a] by (simp add: unlink_if_listed_def shape_simps)
next
  case False
  then show ?thesis
    using assms timer_is_inlist_list [OF assms, of a] by (simp add: unlink_if_listed_def cut_list_def)
qed

lemma timer_inv_cut:
  assumes "timer_inv s xs" and "timer_list s' (cut_list a xs)" and "\<And>b. b \<noteq> a \<Longrightarrow> handle s' b = handle s b"
  shows "timer_inv s' (cut_list a xs)"
proof -
  have d: "distinct xs" using assms(1) by (simp add: timer_inv_def timer_list_def)
  have same: "handle s' b = handle s b" "b \<in> set xs" if "b \<in> set (cut_list a xs)" for b
    using that set_cut [OF d, of a] assms(3) by blast+
  then have eq: "map (tkey s') (cut_list a xs) = map (tkey s) (cut_list a xs)" by simp
  show ?thesis
    using assms(1,2) sorted_cut [of "tkey s" xs a] same unfolding timer_inv_def eq by simp
qed

lemma stop_list:
  assumes "timer_inv s xs"
  shows "\<exists>s'. p_timer_stop (Some a) s = Some (0, s') \<and> timer_inv s' (cut_list a xs) \<and>
     handle s' = (handle s)(a := (handle s a)\<lparr>status := TIMER_STOP\<rparr>) \<and> fired s' = fired s"
proof -
  let ?s1 = "upd_handle a (\<lambda>h. h\<lparr>status := TIMER_STOP\<rparr>) s"
  have "timer_list ?s1 xs" using assms by (simp add: timer_inv_def timer_list_def)
  then obtain s' where s': "unlink_if_listed a ?s1 = Some s'" "timer_list s' (cut_list a xs)" "handle s' = handle ?s1"
    "fired s' = fired ?s1" "freed_data s' = freed_data ?s1" using unlink_list by blast
  then show ?thesis using timer_inv_cut [OF assms s'(2)] by (simp add: p_timer_stop_def stop_mark_def)
qed

lemma del_list:
  assumes "timer_inv s xs"
  shows "\<exists>s'. p_timer_del (Some (Some a)) s = Some (0, Some None, s') \<and> timer_inv s' (cut_list a xs) \<and> fired s' = fired s \<and>
     freed_data s' = freed_data s @ (case userdata (handle s a) of None \<Rightarrow> [] | Some u \<Rightarrow> [u])"
proof -
  let ?s1 = "upd_handle a (\<lambda>h. h\<lparr>status := TIMER_STOP\<rparr>) s"
  have "timer_list ?s1 xs" using assms by (simp add: timer_inv_def timer_list_def)
  then obtain s' where s': "unlink_if_listed a ?s1 = Some s'" "timer_list s' (cut_list a xs)" "handle s' = handle ?s1"
    "fired s' = fired ?s1" "freed_data s' = freed_data ?s1" using unlink_list by blast
  have f: "timer_list (free_hdl a s') (cut_list a xs)" "handle (free_hdl a s') = handle s'" "fired (free_hdl a s') = fired s'"
    "freed_data (free_hdl a s') = freed_data s' @ (case userdata (handle s' a) of None \<Rightarrow> [] | Some u \<Rightarrow> [u])"
    using s'(2) by (auto simp: free_hdl_def timer_list_def split: option.split)
  then show ?thesis using timer_inv_cut [OF assms f(1)] s' by (simp add: p_timer_del_def stop_mark_def)
qed

lemma post_signal_shape [shape_simps]:
  "handle (timer_post_timeout_signal s) = handle s" "fired (timer_post_timeout_signal s) = fired s"
  "freed_data (timer_post_timeout_signal s) = freed_data s"
  "timer_list (timer_post_timeout_signal s) xs = timer_list s xs"
  by (simp_all add: timer_post_timeout_signal_def timer_list_def)

lemma start_list:
  assumes inv: "timer_inv s xs" and ms: "0 < timeout_ms (handle s a)" and now: "ts_ok now"
  shows "\<exists>s'. p_timer_start now (Some a) s = Some (0, s') \<and> timer_inv s' (insert_by (tkey s') a (cut_list a xs)) \<and>
     handle s' = (handle s)(a := (handle s a)\<lparr>abs_timeout := timer_add_abstimeout now (timeout_ms (handle s a)),
        timeout_count := 0, status := TIMER_RUNNING\<rparr>) \<and> fired s' = fired s \<and> freed_data s' = freed_data s"
proof -
  let ?s1 = "upd_handle a (\<lambda>h. h\<lparr>abs_timeout := timer_set_abstimeout now (timeout_ms h), timeout_count := 0,
      status := TIMER_RUNNING\<rparr>) s"
  have l1: "timer_list ?s1 xs" and d: "distinct xs" using inv by (simp_all add: timer_inv_def timer_list_def)
  then obtain s2 where s2: "unlink_if_listed a ?s1 = Some s2" "timer_list s2 (cut_list a xs)" "handle s2 = handle ?s1"
    "fired s2 = fired ?s1" "freed_data s2 = freed_data ?s1" using unlink_list by blast
  have fresh: "a \<notin> set (cut_list a xs)" using set_cut [OF d] by auto
  obtain n s3 where s3: "timer_list_add a s2 = Some (n, s3)" "timer_list s3 (insert_by (tkey s2) a (cut_list a xs))"
    "handle s3 = handle s2" "fired s3 = fired s2" "freed_data s3 = freed_data s2"
    using timer_list_add_list [OF s2(2) fresh] by blast
  let ?s' = "if n = 0 then timer_post_timeout_signal s3 else s3"
  have "p_timer_start now (Some a) s = Some (0, ?s')"
    using s2(1) s3(1) timer_is_inlist_list [OF l1, of a] by (simp add: p_timer_start_def start_prepare_def start_insert_def Let_def unlink_if_listed_def)
  moreover have h: "handle ?s' = handle s2" "fired ?s' = fired s" "freed_data ?s' = freed_data s"
    "timer_list ?s' (insert_by (tkey s2) a (cut_list a xs))"
    using s2 s3 by (simp_all add: shape_simps)
  have inv2: "timer_inv s2 (cut_list a xs)" using timer_inv_cut [OF inv s2(2)] s2(3) by simp
  have "0 < timeout_ms (handle s2 a) \<and> ts_ok (abs_timeout (handle s2 a))"
    using ms now s2(3) by (simp add: timer_set_abstimeout_def add_abstimeout_ok)
  then have "timer_inv ?s' (insert_by (tkey ?s') a (cut_list a xs))"
    using inv2 h(4) sorted_insert_by [of "tkey s2" "cut_list a xs" a] unfolding timer_inv_def h(1) by simp
  ultimately show ?thesis using h(1-3) s2(3) by (auto simp: timer_set_abstimeout_def)
qed

subsection \<open>Properties\<close>

text \<open>
  C6. One run of the timer loop. On a sorted, well-formed list the loop returns; it calls exactly the
  callbacks of the running timers that are due, once each and in the order of their timeouts. A due
  timer with repetitions left is armed again from the current time; any other due timer leaves the
  list. The list stays well-formed and sorted, and afterwards no timer in it is due.
\<close>

theorem loop_once_fires_due:
  assumes "timer_inv s xs" and "ts_ok now"
  shows "\<exists>s' ys. p_timer_loop_once now s = Some s' \<and> timer_inv s' ys \<and>
     fired s' = fired s @ concat (map (\<lambda>a. fire_event (handle s a)) (filter (due now s) xs)) \<and>
     set ys = {a \<in> set xs. due now s a \<longrightarrow> rearmed (handle s a)} \<and>
     (\<forall>y\<in>set ys. \<not> due now s' y) \<and>
     handle s' = (\<lambda>a. if a \<in> set xs \<and> due now s a then expire now (handle s a) else handle s a)"
  using assms by (rule loop_once_list)

text \<open>
  Starting a timer that is not in the list puts it in its place among the others by its new
  timeout, running and with a zero count; no other timer changes.
\<close>

theorem start_inserts_sorted:
  assumes "timer_inv s xs" and "0 < timeout_ms (handle s a)" and "ts_ok now" and "a \<notin> set xs"
  shows "\<exists>s'. p_timer_start now (Some a) s = Some (0, s') \<and> timer_inv s' (insert_by (tkey s') a xs) \<and>
     status (handle s' a) = TIMER_RUNNING \<and> timeout_count (handle s' a) = 0 \<and>
     ts_key now < tkey s' a \<and> (\<forall>b. b \<noteq> a \<longrightarrow> handle s' b = handle s b)"
  using start_list [OF assms(1-3)] assms(4) add_abstimeout_later [OF assms(3,2)] by (auto simp: cut_list_def)

text \<open>
  Stopping a timer. The first or the last timer of the list is taken out and the others stay.
  Stopping one in the middle also drops every later timer from the list: they never fire again.
\<close>

theorem stop_cuts_list:
  assumes "timer_inv s (ls @ a # rs)"
  shows "\<exists>s'. p_timer_stop (Some a) s = Some (0, s') \<and> timer_inv s' (if ls = [] then rs else ls) \<and>
     status (handle s' a) = TIMER_STOP \<and> fired s' = fired s"
  using stop_list [OF assms, of a] cut_split [of ls a rs] assms by (auto simp: timer_inv_def timer_list_def)

subsection \<open>Calls of several threads\<close>






























lemma c_div_bounds: "- 1000 < a - c_div a 1000 * 1000" "a - c_div a 1000 * 1000 < 1000"
  by (auto simp: c_div_def)

text \<open>
  How long the thread sleeps. With a timer pending whose time and the clock's are normalised, the
  timeout handed to \<^verbatim>\<open>select\<close> is at least one millisecond, not negative, and ends within one microsecond
  of the first timeout when that is more than a millisecond away: the loop neither misses it nor spins.
\<close>

theorem next_timeout_accurate:
  assumes "list_head s = Some c" and "ts_ok (abs_timeout (handle s c))" and "ts_ok now"
    and "p_timer_loop_get_next_min_timeout now s = (sec, usec)"
    and "rem = (tv_sec (abs_timeout (handle s c)) - tv_sec now) * 1000000000 +
               (tv_nsec (abs_timeout (handle s c)) - tv_nsec now)"
  shows "0 \<le> sec \<and> 0 \<le> usec \<and> usec \<le> 1000000 \<and> 1000 \<le> sec * 1000000 + usec \<and>
     rem - 1000 < (sec * 1000000 + usec) * 1000 \<and> (sec * 1000000 + usec) * 1000 \<le> max 1000000 (rem + 999)"
proof -
  let ?d = "tv_nsec (abs_timeout (handle s c)) - tv_nsec now"
  have d: "- 1000000000 \<le> ?d" "?d \<le> 1000000000" using assms(2,3) by (auto simp: ts_ok_def)
  note b = c_div_bounds [of ?d]
  have "- 1000000 \<le> c_div ?d 1000" "c_div ?d 1000 \<le> 1000000" using b d by linarith+
  then show ?thesis
    using assms(1,4,5) b by (auto simp: p_timer_loop_get_next_min_timeout_def Let_def split: if_splits)
qed

lemma sint_Suc: "0 \<le> sint (x :: int32) \<Longrightarrow> sint x < sint (y :: int32) \<Longrightarrow> sint (x + 1) = sint x + 1"
proof -
  assume a: "0 \<le> sint x" "sint x < sint y"
  have "sint y < 2 ^ 31" using sint_lt [of y] by simp
  with a have "sint (word_of_int (sint x + 1) :: int32) = sint x + 1" by (intro sint_eq_of_int_32) auto
  then show "sint (x + 1) = sint x + 1" by simp
qed

lemma distinct_singleton_list: "distinct ys \<Longrightarrow> set ys = {a} \<Longrightarrow> ys = [a]"
  by (cases ys; cases "tl ys") auto

lemma loop_once_single:
  assumes inv: "timer_inv s [a]" and now: "ts_ok now" and run: "status (handle s a) = TIMER_RUNNING"
    and f: "cb (handle s a) = Some f" and c: "0 \<le> sint (timeout_count (handle s a))"
      "sint (timeout_count (handle s a)) < sint (repeat (handle s a))"
  obtains (wait) s' where "p_timer_loop_once now s = Some s'" "timer_inv s' [a]" "fired s' = fired s"
      "handle s' a = handle s a"
  | (fire) s' where "p_timer_loop_once now s = Some s'" "timer_inv s' [a]"
      "fired s' = fired s @ [(f, userdata (handle s a))]" "handle s' a = expire now (handle s a)"
      "status (expire now (handle s a)) = TIMER_RUNNING"
      "sint (timeout_count (handle s a)) + 1 < sint (repeat (handle s a))"
      "sint (timeout_count (expire now (handle s a))) = sint (timeout_count (handle s a)) + 1"
  | (last) s' where "p_timer_loop_once now s = Some s'" "timer_inv s' []"
      "fired s' = fired s @ [(f, userdata (handle s a))]"
      "sint (timeout_count (handle s a)) + 1 = sint (repeat (handle s a))"
proof -
  let ?h = "handle s a"
  note cnt = sint_Suc [OF c]
  have re: "rearmed ?h \<longleftrightarrow> sint (timeout_count ?h) + 1 < sint (repeat ?h)"
    using run c by (simp add: rearmed_def rearm_def cnt)
  have ev: "fire_event ?h = [(f, userdata ?h)]" using run f by (simp add: fire_event_def)
  obtain s' ys where r: "p_timer_loop_once now s = Some s'" "timer_inv s' ys"
    "fired s' = fired s @ concat (map (\<lambda>a. fire_event (handle s a)) (filter (due now s) [a]))"
    "set ys = {b \<in> set [a]. due now s b \<longrightarrow> rearmed (handle s b)}"
    "handle s' = (\<lambda>b. if b \<in> set [a] \<and> due now s b then expire now (handle s b) else handle s b)"
    using loop_once_list [OF inv now] by blast
  have "set ys = (if due now s a \<longrightarrow> rearmed ?h then {a} else {})" "distinct ys"
    using r(2,4) by (auto simp: timer_inv_def timer_list_def)
  then have ys: "ys = (if due now s a \<longrightarrow> rearmed ?h then [a] else [])"
    using distinct_singleton_list [of ys a] by (simp split: if_splits)
  show thesis
  proof (cases "due now s a")
    case False
    then show thesis using wait [of s'] r ys by simp
  next
    case due: True
    show thesis
    proof (cases "rearmed ?h")
      case True
      then show thesis using fire [of s'] r ys due re ev run cnt by (simp add: expire_def rearmed_def)
    next
      case False
      then show thesis using last [of s'] r ys due re ev c by simp
    qed
  qed
qed

lemma main_loop_empty:
  "timer_inv s [] \<Longrightarrow> \<exists>q. p_timer_mian_loop rounds s = Some (s, q)"
proof -
  assume "timer_inv s []"
  then have "list_head s = None" using timer_list_head [of s "[]"] by (simp add: timer_inv_def)
  then show ?thesis by (induction rounds) (auto simp: p_timer_loop_once_def ex_bool_eq)
qed

lemma main_loop_single:
  assumes "timer_inv s [a]" and "status (handle s a) = TIMER_RUNNING" and "cb (handle s a) = Some f"
    and "0 \<le> sint (timeout_count (handle s a))" and "sint (timeout_count (handle s a)) < sint (repeat (handle s a))"
    and "\<forall>(t, q) \<in> set rounds. ts_ok t"
  shows "\<exists>s' q k. p_timer_mian_loop rounds s = Some (s', q) \<and>
     fired s' = fired s @ replicate k (f, userdata (handle s a)) \<and>
     (int k = sint (repeat (handle s a)) - sint (timeout_count (handle s a)) \<and> timer_inv s' [] \<or>
      int k < sint (repeat (handle s a)) - sint (timeout_count (handle s a)) \<and> timer_inv s' [a])"
  using assms
proof (induction rounds arbitrary: s)
  case Nil
  then show ?case by (auto intro!: exI [of _ 0])
next
  case (Cons r rounds)
  obtain t q where r: "r = (t, q)" by (cases r)
  have ok: "ts_ok t" "\<forall>(t, q) \<in> set rounds. ts_ok t" using Cons.prems(6) r by auto
  from Cons.prems(1) ok(1) Cons.prems(2-5) show ?case
  proof (cases rule: loop_once_single)
    case (wait s1)
    then show ?thesis
      using Cons.IH [OF wait(2)] Cons.prems(2-5) ok(2) r by (cases "q = 0") (auto intro!: exI [of _ 0])
  next
    case (fire s1)
    show ?thesis
    proof (cases "q = 0")
      case True
      have "cb (handle s1 a) = Some f" "userdata (handle s1 a) = userdata (handle s a)"
        "repeat (handle s1 a) = repeat (handle s a)"
        using fire(4) Cons.prems(3) by (simp_all add: shape_simps)
      then obtain s' q' k where "p_timer_mian_loop rounds s1 = Some (s', q')"
        "fired s' = fired s1 @ replicate k (f, userdata (handle s a))"
        "int k = sint (repeat (handle s a)) - sint (timeout_count (handle s1 a)) \<and> timer_inv s' [] \<or>
         int k < sint (repeat (handle s a)) - sint (timeout_count (handle s1 a)) \<and> timer_inv s' [a]"
        using Cons.IH [OF fire(2)] fire(4-7) Cons.prems(4) ok(2) by fastforce
      then show ?thesis
        using fire True r by (intro exI [of _ s'] exI [of _ q'] exI [of _ "Suc k"]) auto
    next
      case False
      then show ?thesis using fire r by (auto intro!: exI [of _ 1])
    qed
  next
    case (last s1)
    then show ?thesis
      using main_loop_empty [OF last(2), of rounds] r by (cases "q = 0") (auto intro!: exI [of _ 1])
  qed
qed

text \<open>
  C8. Repetitions. A timer that was started with \<open>repeat = n > 0\<close>, alone in the list, never fires more
  than \<open>n\<close> times over any number of rounds of the thread, whatever the clock does; it leaves the list
  exactly when it has fired \<open>n\<close> times.
\<close>

theorem timer_fires_at_most_repeat:
  assumes "timer_inv s [a]" and "status (handle s a) = TIMER_RUNNING" and "cb (handle s a) = Some f"
    and "timeout_count (handle s a) = 0" and "sint (repeat (handle s a)) = int n" and "0 < n"
    and "list_all (\<lambda>(t, q). ts_ok t) rounds"
  shows "\<exists>s' q k. p_timer_mian_loop rounds s = Some (s', q) \<and> k \<le> n \<and>
     fired s' = fired s @ replicate k (f, userdata (handle s a)) \<and> timer_inv s' (if k = n then [] else [a])"
  using main_loop_single [OF assms(1-3), of rounds] assms(4-7) by (fastforce simp: list_all_iff)

subsection \<open>Instances\<close>

definition sample_handle :: "int \<Rightarrow> int32 \<Rightarrow> timer_handle" where
  "sample_handle t rep =
     \<lparr>abs_timeout = \<lparr>tv_sec = t, tv_nsec = 0\<rparr>, cb = Some 7, timeout_ms = 1000, userdata = Some 9, repeat = rep,
      timeout_count = 0, status = TIMER_RUNNING\<rparr>"

definition sample_timers :: timer_state where
  "sample_timers =
     \<lparr>t_prev = (\<lambda>_. None)(2 := Some 1, 3 := Some 2), t_next = (\<lambda>_. None)(1 := Some 2, 2 := Some 3),
      handle = (\<lambda>a. sample_handle (int a) 2), list_head = Some 1, ctrl_fd = 4, posts = 0, fired = [], freed_data = []\<rparr>"

definition sample_single :: timer_state where
  "sample_single = sample_timers\<lparr>t_next := (\<lambda>_. None)\<rparr>"

lemma sample_timer_inv: "timer_inv sample_timers [1, 2, 3]" "timer_inv sample_single [1]"
  by (simp_all add: timer_inv_def timer_list_def sample_timers_def sample_single_def sample_handle_def ts_key_def ts_ok_def)

theorem loop_once_fires_due_witness:
  "\<exists>s' ys. p_timer_loop_once \<lparr>tv_sec = 2, tv_nsec = 0\<rparr> sample_timers = Some s' \<and> timer_inv s' ys \<and>
     fired s' = [(7, Some 9), (7, Some 9)]"
  using loop_once_fires_due [OF sample_timer_inv(1), of "\<lparr>tv_sec = 2, tv_nsec = 0\<rparr>"]
  by (auto simp: ts_ok_def due_def sample_timers_def sample_handle_def ts_key_def fire_event_def)

theorem start_inserts_sorted_witness:
  "\<exists>s'. p_timer_start \<lparr>tv_sec = 1, tv_nsec = 5\<rparr> (Some 4) sample_timers = Some (0, s') \<and> status (handle s' 4) = TIMER_RUNNING"
  using start_inserts_sorted [OF sample_timer_inv(1), of 4 "\<lparr>tv_sec = 1, tv_nsec = 5\<rparr>"]
  by (auto simp: ts_ok_def sample_timers_def sample_handle_def)

theorem stop_cuts_list_witness:
  "\<exists>s'. p_timer_stop (Some 2) sample_timers = Some (0, s') \<and> timer_inv s' [1]"
  using stop_cuts_list [of sample_timers "[1]" 2 "[3]"] sample_timer_inv(1) by auto





theorem next_timeout_accurate_witness:
  "let (sec, usec) = p_timer_loop_get_next_min_timeout \<lparr>tv_sec = 0, tv_nsec = 500000000\<rparr> sample_timers
   in 1000 \<le> sec * 1000000 + usec \<and> (sec * 1000000 + usec) * 1000 \<le> 500000999"
  using next_timeout_accurate [of sample_timers 1 "\<lparr>tv_sec = 0, tv_nsec = 500000000\<rparr>"
      "fst (p_timer_loop_get_next_min_timeout \<lparr>tv_sec = 0, tv_nsec = 500000000\<rparr> sample_timers)"
      "snd (p_timer_loop_get_next_min_timeout \<lparr>tv_sec = 0, tv_nsec = 500000000\<rparr> sample_timers)" 500000000]
  by (simp add: ts_ok_def sample_timers_def sample_handle_def split_beta)

theorem timer_fires_at_most_repeat_witness:
  "\<exists>s' q k. p_timer_mian_loop [(\<lparr>tv_sec = 3, tv_nsec = 0\<rparr>, 0), (\<lparr>tv_sec = 9, tv_nsec = 0\<rparr>, 0), (\<lparr>tv_sec = 20, tv_nsec = 0\<rparr>, 1)]
       sample_single = Some (s', q) \<and> k \<le> 2 \<and> fired s' = replicate k (7, Some 9)"
  using timer_fires_at_most_repeat [OF sample_timer_inv(2), of 7 2
      "[(\<lparr>tv_sec = 3, tv_nsec = 0\<rparr>, 0), (\<lparr>tv_sec = 9, tv_nsec = 0\<rparr>, 0), (\<lparr>tv_sec = 20, tv_nsec = 0\<rparr>, 1)]"]
  by (auto simp: ts_ok_def sample_single_def sample_timers_def sample_handle_def)

end
