(* ===== verification/Utlist.thy ===== *)
theory Utlist
  imports Linked_List
begin

text \<open>
  The doubly linked list macros of \<^verbatim>\<open>src/include/uthash/utlist.h\<close> that the cache uses. The list is linear
  forwards; the back link of the head points to the tail. A deletion that fails an assertion or follows
  a NULL link is \<^const>\<open>None\<close>. \<open>recency_list\<close> is the contract the cache relies on: a list of nodes from the
  most to the least recently used.
\<close>

record dl =
  dl_next :: links
  dl_prev :: links
  dl_head :: ptr

definition DL_PREPEND :: "addr \<Rightarrow> dl \<Rightarrow> dl" where
  "DL_PREPEND a d =
     (let nx = (dl_next d)(a := dl_head d);
          pv = (case dl_head d of
                  Some h \<Rightarrow> (dl_prev d)(a := dl_prev d h, h := Some a)
                | None \<Rightarrow> (dl_prev d)(a := Some a))
      in \<lparr>dl_next = nx, dl_prev = pv, dl_head = Some a\<rparr>)"

definition DL_DELETE :: "addr \<Rightarrow> dl \<Rightarrow> dl option" where
  "DL_DELETE a d =
     (case (dl_head d, dl_prev d a) of
        (Some h, Some p) \<Rightarrow>
          if p = a then Some (d\<lparr>dl_head := None\<rparr>)
          else if a = h then
            (case dl_next d a of
               None \<Rightarrow> None
             | Some n \<Rightarrow> Some (d\<lparr>dl_prev := (dl_prev d)(n := Some p), dl_head := Some n\<rparr>))
          else
            (let d1 = d\<lparr>dl_next := (dl_next d)(p := dl_next d a)\<rparr> in
             case dl_next d a of
               Some n \<Rightarrow> Some (d1\<lparr>dl_prev := (dl_prev d)(n := Some p)\<rparr>)
             | None \<Rightarrow> Some (d1\<lparr>dl_prev := (dl_prev d)(h := Some p)\<rparr>))
      | _ \<Rightarrow> None)"

partial_function (option) count_from :: "dl \<Rightarrow> ptr \<Rightarrow> nat \<Rightarrow> nat option" where
  "count_from d el n = (case el of None \<Rightarrow> Some n | Some a \<Rightarrow> count_from d (dl_next d a) (Suc n))"

definition DL_COUNT :: "dl \<Rightarrow> nat option" where
  "DL_COUNT d = count_from d (dl_head d) 0"

definition dl_tail :: "dl \<Rightarrow> ptr" where
  "dl_tail d = (case dl_head d of None \<Rightarrow> None | Some h \<Rightarrow> dl_prev d h)"

definition dl_empty :: dl where
  "dl_empty = \<lparr>dl_next = (\<lambda>_. None), dl_prev = (\<lambda>_. None), dl_head = None\<rparr>"

definition dl_list :: "dl \<Rightarrow> addr list \<Rightarrow> bool" where
  "dl_list d xs \<longleftrightarrow> (\<exists>t. lseg (dl_next d) (dl_prev d) (dl_head d) t xs None t) \<and> distinct xs"

subsection \<open>The contract\<close>

locale recency_list =
  fixes rep :: "'d \<Rightarrow> addr list \<Rightarrow> bool"
    and prepend :: "addr \<Rightarrow> 'd \<Rightarrow> 'd"
    and delete :: "addr \<Rightarrow> 'd \<Rightarrow> 'd option"
    and count :: "'d \<Rightarrow> nat option"
    and tail :: "'d \<Rightarrow> ptr"
  assumes rep_distinct: "rep d xs \<Longrightarrow> distinct xs"
    and prepend_rep: "rep d xs \<Longrightarrow> a \<notin> set xs \<Longrightarrow> rep (prepend a d) (a # xs)"
    and delete_rep: "rep d (ls @ a # rs) \<Longrightarrow> \<exists>d'. delete a d = Some d' \<and> rep d' (ls @ rs)"
    and count_rep: "rep d xs \<Longrightarrow> count d = Some (length xs)"
    and tail_rep: "rep d xs \<Longrightarrow> tail d = (if xs = [] then None else Some (last xs))"
begin

text \<open>Using a node moves it to the front and keeps the order of the others.\<close>

lemma touch_rep:
  assumes "rep d xs" and "a \<in> set xs"
  shows "\<exists>d'. delete a d = Some d' \<and> rep (prepend a d') (a # remove1 a xs)"
proof -
  obtain ls rs where xs: "xs = ls @ a # rs" "a \<notin> set ls" using assms(2) by (meson split_list_first)
  then obtain d' where "delete a d = Some d'" "rep d' (ls @ rs)" using delete_rep assms(1) by blast
  moreover have "a \<notin> set (ls @ rs)" using rep_distinct [OF assms(1)] xs by simp
  ultimately show ?thesis using prepend_rep xs by (simp add: remove1_append)
qed

lemma delete_remove1:
  assumes "rep d xs" and "a \<in> set xs"
  shows "\<exists>d'. delete a d = Some d' \<and> rep d' (remove1 a xs)"
proof -
  obtain ls rs where xs: "xs = ls @ a # rs" "a \<notin> set ls" using assms(2) by (meson split_list_first)
  then show ?thesis using delete_rep [of d ls a rs] assms(1) by (simp add: remove1_append)
qed

text \<open>Evicting the node behind the tail pointer drops the last element.\<close>

lemma evict_rep:
  assumes "rep d xs" and "xs \<noteq> []"
  shows "\<exists>d'. tail d = Some (last xs) \<and> delete (last xs) d = Some d' \<and> rep d' (butlast xs)"
  using tail_rep [OF assms(1)] assms delete_rep [of d "butlast xs" "last xs" "[]"] by simp

end

subsection \<open>The macros satisfy the contract\<close>

lemma count_from_lseg: "lseg (dl_next d) pv p pr xs None l \<Longrightarrow> count_from d p n = Some (n + length xs)"
proof (induction xs arbitrary: p pr n)
  case Nil
  then show ?case by (simp add: count_from.simps)
next
  case (Cons x xs)
  then show ?case by (subst count_from.simps) auto
qed

lemma dl_tail_list: "dl_list d xs \<Longrightarrow> dl_tail d = (if xs = [] then None else Some (last xs))"
  by (cases xs) (auto simp: dl_list_def dl_tail_def dest!: lseg_last split: if_splits)

lemma dl_prepend_list:
  assumes "dl_list d xs" and "a \<notin> set xs"
  shows "dl_list (DL_PREPEND a d) (a # xs)"
proof (cases xs)
  case Nil
  then show ?thesis using assms by (auto simp: dl_list_def DL_PREPEND_def)
next
  case (Cons x ys)
  then obtain t where "lseg (dl_next d) (dl_prev d) (dl_next d x) (Some x) ys None t" "dl_prev d x = t" "dl_head d = Some x"
    "distinct (x # ys)"
    using assms by (auto simp: dl_list_def)
  then show ?thesis
    using assms(2) Cons by (auto simp: dl_list_def DL_PREPEND_def Let_def intro!: exI [of _ t])
qed

lemma dl_links:
  assumes "dl_list d (ls @ a # rs)"
  shows "dl_prev d a = Some (last (a # rs)) \<or> ls \<noteq> []" and "ls \<noteq> [] \<Longrightarrow> dl_prev d a = Some (last ls)"
    and "dl_next d a = (case rs of [] \<Rightarrow> None | r # _ \<Rightarrow> Some r)"
    and "dl_head d = Some (hd (ls @ [a]))"
  using assms by (auto simp: dl_list_def lseg_append hd_append dest: lseg_start lseg_last split: if_splits list.splits)

lemma dl_delete_first:
  assumes "dl_list d (a # rs)"
  shows "\<exists>d'. DL_DELETE a d = Some d' \<and> dl_list d' rs"
proof (cases rs)
  case Nil
  then have "dl_head d = Some a" "dl_prev d a = Some a" using assms by (auto simp: dl_list_def)
  then show ?thesis using Nil by (simp add: dl_list_def DL_DELETE_def)
next
  case (Cons r ys)
  obtain t where t: "lseg (dl_next d) (dl_prev d) (dl_next d r) (Some r) ys None t" "dl_prev d a = t" "dl_head d = Some a"
    "dl_next d a = Some r" "distinct (a # r # ys)"
    using assms Cons by (auto simp: dl_list_def)
  moreover from this(1) have "t = Some (last (r # ys))" using lseg_last by fastforce
  moreover have "last (r # ys) \<noteq> a" using t(5) last_in_set [of "r # ys"] by (metis distinct.simps(2) list.distinct(1))
  ultimately show ?thesis
    using Cons by (auto simp: dl_list_def DL_DELETE_def intro!: exI [of _ t])
qed

lemma dl_delete_last:
  assumes "dl_list d (ls @ [a])" and "ls \<noteq> []"
  shows "\<exists>d'. DL_DELETE a d = Some d' \<and> dl_list d' ls"
proof -
  obtain h ws where hw: "ls = h # ws" using assms(2) by (cases ls) auto
  obtain us w where uw: "ls = us @ [w]" using assms(2) by (cases ls rule: rev_cases) auto
  have d: "distinct (ls @ [a])" using assms(1) by (simp add: dl_list_def)
  have links: "dl_prev d a = Some w" "dl_next d a = None" "dl_head d = Some h" "a \<noteq> h" "a \<noteq> w"
    using dl_links(2-4) [of d ls a "[]"] assms d hw arg_cong [OF uw, of last] last_in_set [of ls] by auto
  have "lseg (dl_next d) (dl_prev d) (Some h) (Some a) (us @ [w]) (Some a) (Some w)"
    using assms(1) links(3) by (auto simp: dl_list_def uw lseg_append)
  then have "lseg ((dl_next d)(w := None)) (dl_prev d) (Some h) (Some a) (us @ [w]) None (Some w)"
    using d uw by (intro lseg_relink) auto
  then have "lseg ((dl_next d)(w := None)) ((dl_prev d)(h := Some w)) (Some h) (Some w) (h # ws) None (Some w)"
    using hw uw d lseg_reprev [of "(dl_next d)(w := None)" "dl_prev d" "Some h" "Some a" h ws None "Some w" "Some w"] by simp
  then show ?thesis
    using links d hw by (auto simp: DL_DELETE_def dl_list_def Let_def)
qed

lemma dl_delete_middle:
  assumes "dl_list d (ls @ a # r # rs)" and "ls \<noteq> []"
  shows "\<exists>d'. DL_DELETE a d = Some d' \<and> dl_list d' (ls @ r # rs)"
proof -
  obtain us w where uw: "ls = us @ [w]" using assms(2) by (cases ls rule: rev_cases) auto
  have d: "distinct (ls @ a # r # rs)" using assms(1) by (simp add: dl_list_def)
  define h where "h = hd ls"
  have links: "dl_prev d a = Some w" "dl_next d a = Some r" "dl_head d = Some h" "a \<noteq> h" "a \<noteq> w"
    using dl_links(2-4) [of d ls a "r # rs"] assms d arg_cong [OF uw, of last] last_in_set [of ls] hd_in_set [of ls]
    by (auto simp: h_def)
  obtain t where s: "lseg (dl_next d) (dl_prev d) (Some h) t (us @ [w]) (Some a) (Some w)"
    "lseg (dl_next d) (dl_prev d) (Some r) (Some a) (r # rs) None t"
    using assms(1) links(2,3) by (auto simp: dl_list_def uw lseg_append)
  have w: "w \<notin> set (r # rs)" and r: "r \<notin> set (us @ [w])" using d uw by auto
  have "lseg ((dl_next d)(w := Some r)) (dl_prev d) (Some h) t (us @ [w]) (Some r) (Some w)"
    using s(1) d uw by (intro lseg_relink) auto
  then have "lseg ((dl_next d)(w := Some r)) ((dl_prev d)(r := Some w)) (Some h) t (us @ [w]) (Some r) (Some w)"
    using lseg_upd_prv [OF r] by blast
  moreover have "lseg (dl_next d) ((dl_prev d)(r := Some w)) (Some r) (Some w) (r # rs) None t"
    using s(2) d by (intro lseg_reprev) auto
  then have "lseg ((dl_next d)(w := Some r)) ((dl_prev d)(r := Some w)) (Some r) (Some w) (r # rs) None t"
    using lseg_upd_nxt [OF w] by blast
  ultimately have "lseg ((dl_next d)(w := Some r)) ((dl_prev d)(r := Some w)) (Some h) t ((us @ [w]) @ r # rs) None t"
    using lseg_append by blast
  then have "dl_list (d\<lparr>dl_next := (dl_next d)(w := Some r), dl_prev := (dl_prev d)(r := Some w)\<rparr>) (ls @ r # rs)"
    unfolding dl_list_def using links(3) d uw by (intro conjI exI [of _ t]) simp_all
  then show ?thesis using links by (simp add: DL_DELETE_def)
qed

lemma dl_delete_list:
  assumes "dl_list d (ls @ a # rs)"
  shows "\<exists>d'. DL_DELETE a d = Some d' \<and> dl_list d' (ls @ rs)"
  using assms dl_delete_first [of d a rs] dl_delete_last [of d ls a] dl_delete_middle [of d ls a]
  by (cases "ls = []"; cases rs) auto

interpretation dll: recency_list dl_list DL_PREPEND DL_DELETE DL_COUNT dl_tail
proof (unfold_locales, goal_cases)
  case (1 d xs)
  then show ?case by (simp add: dl_list_def)
next
  case (2 d xs a)
  then show ?case by (rule dl_prepend_list)
next
  case (3 d ls a rs)
  then show ?case by (rule dl_delete_list)
next
  case (4 d xs)
  then show ?case by (auto simp: DL_COUNT_def dl_list_def dest!: count_from_lseg [where n = 0])
next
  case (5 d xs)
  then show ?case by (rule dl_tail_list)
qed

end
