(* ===== verification/Lru.thy ===== *)
theory Lru
  imports Utlist
begin

text \<open>
  The LRU cache of \<^verbatim>\<open>src/src/utils/cache/lru.c\<close>. The recency list is the pointer structure of
  \<open>Utlist\<close>; list nodes, hash nodes and items are fields by address. The hash table of uthash is the list
  of its hash nodes in insertion order, searched by key. \<^const>\<open>None\<close> as the result of an operation means
  that a list macro failed an assertion or followed a NULL pointer. Sizes of the structures are those of an
  LP64 platform. \<open>ini\<close> and \<open>cpy\<close> stand for the user's \<^verbatim>\<open>init\<close> and \<^verbatim>\<open>copy\<close> functions, by identifier.
\<close>

subsection \<open>Data\<close>

record ut_icd =
  sz :: nat
  ic_init :: "nat option"
  ic_copy :: "nat option"
  ic_dtor :: "nat option"

record cache_item_t =
  icd :: ut_icd
  idata :: "uint8 list"

record lru_hash_t =
  key :: string
  key_len :: int
  list_node :: addr

datatype lru_block = ListNode addr | HashNode addr | KeyCopy addr | Item addr | ItemData addr | Destroyed nat addr

record lru_cache_t =
  hash :: "addr list"
  lru_list :: dl
  max_key_num :: int
  max_mem :: int
  used_mem :: int
  hnode :: "addr \<Rightarrow> lru_hash_t"
  hash_node :: "addr \<Rightarrow> addr"
  item :: "addr \<Rightarrow> addr"
  items :: "addr \<Rightarrow> cache_item_t"
  freed :: "lru_block list"

definition sizeof_list :: int where "sizeof_list = 32"
definition sizeof_hash :: int where "sizeof_hash = 80"
definition sizeof_item :: int where "sizeof_item = 40"

text \<open>The outcomes of the allocations of one call; \<open>data_blk\<close> is the uninitialised data block.\<close>

record lru_alloc =
  list_blk :: ptr
  hash_blk :: ptr
  key_ok :: bool
  item_blk :: ptr
  data_blk :: "uint8 list option"

subsection \<open>Items\<close>

definition init_bytes :: "(nat \<Rightarrow> uint8 list \<Rightarrow> uint8 list) \<Rightarrow> ut_icd \<Rightarrow> uint8 list \<Rightarrow> uint8 list" where
  "init_bytes ini i blk = (case ic_init i of Some f \<Rightarrow> ini f blk | None \<Rightarrow> replicate (sz i) 0)"

definition copy_bytes ::
  "(nat \<Rightarrow> uint8 list \<Rightarrow> uint8 list \<Rightarrow> uint8 list) \<Rightarrow> ut_icd \<Rightarrow> uint8 list \<Rightarrow> uint8 list \<Rightarrow> uint8 list" where
  "copy_bytes cpy i dst src =
     (case ic_copy i of Some f \<Rightarrow> cpy f dst src | None \<Rightarrow> take (sz i) src @ drop (sz i) dst)"

definition new_lru_cache_item ::
  "(nat \<Rightarrow> uint8 list \<Rightarrow> uint8 list) \<Rightarrow> lru_alloc \<Rightarrow> ut_icd \<Rightarrow> (addr \<times> cache_item_t) option \<times> lru_block list" where
  "new_lru_cache_item ini al i =
     (case item_blk al of
        None \<Rightarrow> (None, [])
      | Some it \<Rightarrow>
          (case data_blk al of
             None \<Rightarrow> (None, [Item it])
           | Some blk \<Rightarrow> (Some (it, \<lparr>icd = i, idata = init_bytes ini i blk\<rparr>), [])))"

definition copy_lru_cache_item ::
  "(nat \<Rightarrow> uint8 list \<Rightarrow> uint8 list \<Rightarrow> uint8 list) \<Rightarrow> cache_item_t \<Rightarrow> uint8 list \<Rightarrow> cache_item_t" where
  "copy_lru_cache_item cpy it src = it\<lparr>idata := copy_bytes cpy (icd it) (idata it) src\<rparr>"

definition data_freed :: "cache_item_t \<Rightarrow> addr \<Rightarrow> lru_block" where
  "data_freed it a = (case ic_dtor (icd it) of Some f \<Rightarrow> Destroyed f a | None \<Rightarrow> ItemData a)"

definition replace_lru_cache_item ::
  "(nat \<Rightarrow> uint8 list \<Rightarrow> uint8 list) \<Rightarrow> (nat \<Rightarrow> uint8 list \<Rightarrow> uint8 list \<Rightarrow> uint8 list) \<Rightarrow> lru_alloc \<Rightarrow> addr \<Rightarrow> ut_icd \<Rightarrow>
   uint8 list \<Rightarrow> lru_cache_t \<Rightarrow> bool \<times> lru_cache_t" where
  "replace_lru_cache_item ini cpy al a i src c =
     (case data_blk al of
        None \<Rightarrow> (False, c)
      | Some blk \<Rightarrow>
          (let dst = copy_bytes cpy i (init_bytes ini i blk) src
           in (True, c\<lparr>items := (items c)(a := \<lparr>icd = i, idata = dst\<rparr>), freed := freed c @ [data_freed (items c a) a]\<rparr>)))"

definition delete_lru_cache_item :: "addr \<Rightarrow> lru_cache_t \<Rightarrow> lru_block list" where
  "delete_lru_cache_item a c = [data_freed (items c a) a, Item a]"

subsection \<open>List and hash table\<close>

definition move_to_head :: "addr \<Rightarrow> dl \<Rightarrow> dl option" where
  "move_to_head a d = map_option (DL_PREPEND a) (DL_DELETE a d)"

definition HASH_FIND_STR :: "lru_cache_t \<Rightarrow> string \<Rightarrow> addr option" where
  "HASH_FIND_STR c k = find (\<lambda>h. key (hnode c h) = k) (hash c)"

text \<open>\<^verbatim>\<open>print_cache\<close> only walks the list: its result says that the walk ends.\<close>

definition print_cache :: "lru_cache_t \<Rightarrow> unit option" where
  "print_cache c = map_option (\<lambda>_. ()) (DL_COUNT (lru_list c))"

definition is_full :: "lru_cache_t \<Rightarrow> bool option" where
  "is_full c =
     (if used_mem c \<ge> max_mem c then Some True
      else map_option (\<lambda>cnt. int cnt \<ge> max_key_num c) (DL_COUNT (lru_list c)))"

definition entry_cost :: "lru_cache_t \<Rightarrow> addr \<Rightarrow> int" where
  "entry_cost c n =
     sizeof_list + sizeof_hash + (key_len (hnode c (hash_node c n)) + 1) + sizeof_item + int (sz (icd (items c (item c n))))"

definition delete_data :: "addr \<Rightarrow> lru_cache_t \<Rightarrow> lru_cache_t option" where
  "delete_data dst c =
     (case DL_DELETE dst (lru_list c) of
        None \<Rightarrow> None
      | Some d \<Rightarrow>
          Some (c\<lparr>lru_list := d, hash := remove1 (hash_node c dst) (hash c), used_mem := used_mem c - entry_cost c dst,
                  freed := freed c @ [KeyCopy (hash_node c dst), HashNode (hash_node c dst)] @
                           delete_lru_cache_item (item c dst) c @ [ListNode dst]\<rparr>))"

definition delete_tail_data :: "lru_cache_t \<Rightarrow> lru_cache_t option" where
  "delete_tail_data c = (case dl_tail (lru_list c) of None \<Rightarrow> None | Some t \<Rightarrow> delete_data t c)"

definition create_data ::
  "(nat \<Rightarrow> uint8 list \<Rightarrow> uint8 list) \<Rightarrow> (nat \<Rightarrow> uint8 list \<Rightarrow> uint8 list \<Rightarrow> uint8 list) \<Rightarrow> lru_alloc \<Rightarrow> string \<Rightarrow> ut_icd \<Rightarrow>
   uint8 list \<Rightarrow> lru_cache_t \<Rightarrow> bool \<times> lru_cache_t" where
  "create_data ini cpy al k i src c =
     (case list_blk al of
        None \<Rightarrow> (False, c)
      | Some n \<Rightarrow>
     (case hash_blk al of
        None \<Rightarrow> (False, c\<lparr>freed := freed c @ [ListNode n]\<rparr>)
      | Some h \<Rightarrow>
     if \<not> key_ok al then (False, c\<lparr>freed := freed c @ [ListNode n, HashNode h]\<rparr>)
     else
     (case new_lru_cache_item ini al i of
        (None, fr) \<Rightarrow> (False, c\<lparr>freed := freed c @ fr @ [ListNode n, HashNode h, KeyCopy h]\<rparr>)
      | (Some (a, it), fr) \<Rightarrow>
          (let it1 = copy_lru_cache_item cpy it src;
               klen = int (length k);
               c1 = c\<lparr>items := (items c)(a := it1), hnode := (hnode c)(h := \<lparr>key = k, key_len = klen, list_node = n\<rparr>),
                      hash := hash c @ [h]\<rparr>;
               c2 = c1\<lparr>hash_node := (hash_node c1)(n := h), item := (item c1)(n := a),
                       lru_list := DL_PREPEND n (lru_list c1)\<rparr>
           in (True, c2\<lparr>used_mem := used_mem c2 + (sizeof_list + sizeof_hash + (klen + 1) + sizeof_item + int (sz i))\<rparr>)))))"

definition update_data ::
  "(nat \<Rightarrow> uint8 list \<Rightarrow> uint8 list) \<Rightarrow> (nat \<Rightarrow> uint8 list \<Rightarrow> uint8 list \<Rightarrow> uint8 list) \<Rightarrow> lru_alloc \<Rightarrow> addr \<Rightarrow> ut_icd \<Rightarrow>
   uint8 list \<Rightarrow> lru_cache_t \<Rightarrow> bool \<times> lru_cache_t" where
  "update_data ini cpy al a i src c =
     (if icd (items c a) = i \<and> take (sz i) (idata (items c a)) = take (sz i) src then (True, c)
      else
        (let charge = sint (word_of_int (int (sz i) - int (sz (icd (items c a)))) :: int32)
         in case replace_lru_cache_item ini cpy al a i src c of
              (False, c1) \<Rightarrow> (False, c1)
            | (True, c1) \<Rightarrow> (True, c1\<lparr>used_mem := used_mem c1 + charge\<rparr>)))"

subsection \<open>The interface\<close>

definition lru_cache_get :: "lru_cache_t option \<Rightarrow> string option \<Rightarrow> (ptr \<times> lru_cache_t option) option" where
  "lru_cache_get cache k =
     (case (cache, k) of
        (Some c, Some k) \<Rightarrow>
          (case HASH_FIND_STR c k of
             None \<Rightarrow> Some (None, cache)
           | Some h \<Rightarrow>
               (case move_to_head (list_node (hnode c h)) (lru_list c) of
                  None \<Rightarrow> None
                | Some d \<Rightarrow>
                    (case print_cache (c\<lparr>lru_list := d\<rparr>) of
                       None \<Rightarrow> None
                     | Some _ \<Rightarrow> Some (Some (item c (list_node (hnode c h))), Some (c\<lparr>lru_list := d\<rparr>)))))
      | _ \<Rightarrow> Some (None, cache))"

definition lru_cache_put ::
  "(nat \<Rightarrow> uint8 list \<Rightarrow> uint8 list) \<Rightarrow> (nat \<Rightarrow> uint8 list \<Rightarrow> uint8 list \<Rightarrow> uint8 list) \<Rightarrow> lru_alloc \<Rightarrow>
   lru_cache_t option \<Rightarrow> string option \<Rightarrow> ut_icd option \<Rightarrow> uint8 list option \<Rightarrow> (bool \<times> lru_cache_t option) option" where
  "lru_cache_put ini cpy al cache k i src =
     (case (cache, k, src, i) of
        (Some c, Some k, Some src, Some i) \<Rightarrow>
          if sz i \<le> 0 then Some (False, cache)
          else
            (case HASH_FIND_STR c k of
               Some h \<Rightarrow>
                 (let n = list_node (hnode c h) in
                  case update_data ini cpy al (item c n) i src c of
                    (False, c1) \<Rightarrow> Some (False, Some c1)
                  | (True, c1) \<Rightarrow>
                      (case move_to_head n (lru_list c1) of
                         None \<Rightarrow> None
                       | Some d \<Rightarrow> Some (True, Some (c1\<lparr>lru_list := d\<rparr>))))
             | None \<Rightarrow>
                 (case is_full c of
                    None \<Rightarrow> None
                  | Some full \<Rightarrow>
                      (case (if full then delete_tail_data c else Some c) of
                         None \<Rightarrow> None
                       | Some c1 \<Rightarrow>
                           (case create_data ini cpy al k i src c1 of
                              (ret, c2) \<Rightarrow> map_option (\<lambda>_. (ret, Some c2)) (print_cache c2)))))
      | _ \<Rightarrow> Some (False, cache))"

definition plain_icd :: "nat \<Rightarrow> ut_icd" where
  "plain_icd n = \<lparr>sz = n, ic_init = None, ic_copy = None, ic_dtor = None\<rparr>"

text \<open>The typed variants; a string is its characters with the terminator.\<close>

definition lru_cache_put_struct ::
  "(nat \<Rightarrow> uint8 list \<Rightarrow> uint8 list) \<Rightarrow> (nat \<Rightarrow> uint8 list \<Rightarrow> uint8 list \<Rightarrow> uint8 list) \<Rightarrow> lru_alloc \<Rightarrow>
   lru_cache_t option \<Rightarrow> string option \<Rightarrow> nat \<Rightarrow> uint8 list option \<Rightarrow> (bool \<times> lru_cache_t option) option" where
  "lru_cache_put_struct ini cpy al cache k n src = lru_cache_put ini cpy al cache k (Some (plain_icd n)) src"

definition lru_cache_put_str ::
  "(nat \<Rightarrow> uint8 list \<Rightarrow> uint8 list) \<Rightarrow> (nat \<Rightarrow> uint8 list \<Rightarrow> uint8 list \<Rightarrow> uint8 list) \<Rightarrow> lru_alloc \<Rightarrow>
   lru_cache_t option \<Rightarrow> string option \<Rightarrow> uint8 list \<Rightarrow> (bool \<times> lru_cache_t option) option" where
  "lru_cache_put_str ini cpy al cache k str = lru_cache_put ini cpy al cache k (Some (plain_icd (length str + 1))) (Some (str @ [0]))"

text \<open>\<open>bytes\<close> are the eight bytes of the integer in memory.\<close>

definition lru_cache_put_int64 ::
  "(nat \<Rightarrow> uint8 list \<Rightarrow> uint8 list) \<Rightarrow> (nat \<Rightarrow> uint8 list \<Rightarrow> uint8 list \<Rightarrow> uint8 list) \<Rightarrow> lru_alloc \<Rightarrow>
   lru_cache_t option \<Rightarrow> string option \<Rightarrow> uint8 list \<Rightarrow> (bool \<times> lru_cache_t option) option" where
  "lru_cache_put_int64 ini cpy al cache k bytes = lru_cache_put ini cpy al cache k (Some (plain_icd 8)) (Some bytes)"

definition lru_cache_remove :: "lru_cache_t option \<Rightarrow> string option \<Rightarrow> lru_cache_t option option" where
  "lru_cache_remove cache k =
     (case (cache, k) of
        (Some c, Some k) \<Rightarrow>
          (case HASH_FIND_STR c k of
             None \<Rightarrow> Some cache
           | Some h \<Rightarrow>
               (case delete_data (list_node (hnode c h)) c of
                  None \<Rightarrow> None
                | Some c1 \<Rightarrow> map_option (\<lambda>_. Some c1) (print_cache c1)))
      | _ \<Rightarrow> Some cache)"

text \<open>The loop over the list: the next node is read before the current one is taken out and released.\<close>

partial_function (option) release_nodes :: "ptr \<Rightarrow> lru_cache_t \<Rightarrow> lru_cache_t option" where
  "release_nodes elt c =
     (case elt of
        None \<Rightarrow> Some c
      | Some n \<Rightarrow>
          (let tmp = dl_next (lru_list c) n in
           case DL_DELETE n (lru_list c) of
             None \<Rightarrow> None
           | Some d \<Rightarrow>
               release_nodes tmp
                 (c\<lparr>lru_list := d, freed := freed c @ delete_lru_cache_item (item c n) c @ [ListNode n]\<rparr>)))"

definition delete_lru_cache :: "lru_cache_t option \<Rightarrow> lru_cache_t option option" where
  "delete_lru_cache cache =
     (case cache of
        None \<Rightarrow> Some None
      | Some c \<Rightarrow>
          (case release_nodes (dl_head (lru_list c)) c of
             None \<Rightarrow> None
           | Some c1 \<Rightarrow>
               Some (Some (c1\<lparr>freed := freed c1 @ concat (map (\<lambda>h. [KeyCopy h, HashNode h]) (hash c1)),
                              hash := [], lru_list := (lru_list c1)\<lparr>dl_head := None\<rparr>\<rparr>))))"

definition new_lru_cache :: "lru_cache_t option \<Rightarrow> int \<Rightarrow> int \<Rightarrow> bool \<times> lru_cache_t option" where
  "new_lru_cache cache keys mem =
     (case cache of
        None \<Rightarrow> (False, None)
      | Some c \<Rightarrow>
          if keys \<le> 0 \<or> mem \<le> 0 then (False, cache)
          else (True, Some (c\<lparr>hash := [], lru_list := (lru_list c)\<lparr>dl_head := None\<rparr>, max_key_num := keys, max_mem := mem,
                              used_mem := 0\<rparr>)))"

subsection \<open>Invariant and abstraction\<close>

text \<open>
  \<open>lru_inv c xs\<close> says that \<open>xs\<close> are the list nodes of the cache from the most to the least recently used,
  that hash table and list refer to each other node by node, that keys are unique, and that \<open>used_mem\<close> is
  the exact sum of the costs. \<open>entries\<close> is the abstract cache: keys and items in the order of their use.
\<close>

abbreviation nkey :: "lru_cache_t \<Rightarrow> addr \<Rightarrow> string" where
  "nkey c n \<equiv> key (hnode c (hash_node c n))"

definition wf_item :: "cache_item_t \<Rightarrow> bool" where
  "wf_item it \<longleftrightarrow> length (idata it) = sz (icd it) \<and> int (sz (icd it)) < 2 ^ 31"

definition linked :: "lru_cache_t \<Rightarrow> addr \<Rightarrow> bool" where
  "linked c n \<longleftrightarrow> list_node (hnode c (hash_node c n)) = n \<and> key_len (hnode c (hash_node c n)) = int (length (nkey c n)) \<and>
     wf_item (items c (item c n))"

definition lru_inv :: "lru_cache_t \<Rightarrow> addr list \<Rightarrow> bool" where
  "lru_inv c xs \<longleftrightarrow>
     dl_list (lru_list c) xs \<and> (\<forall>n\<in>set xs. linked c n) \<and> distinct (hash c) \<and> set (hash c) = hash_node c ` set xs \<and>
     distinct (map (nkey c) xs) \<and> inj_on (item c) (set xs) \<and> used_mem c = sum_list (map (entry_cost c) xs)"

definition entries :: "lru_cache_t \<Rightarrow> addr list \<Rightarrow> (string \<times> cache_item_t) list" where
  "entries c xs = map (\<lambda>n. (nkey c n, items c (item c n))) xs"

definition touch :: "string \<Rightarrow> 'v \<Rightarrow> (string \<times> 'v) list \<Rightarrow> (string \<times> 'v) list" where
  "touch k v es = (k, v) # filter (\<lambda>e. fst e \<noteq> k) es"

lemma lru_inv_distinct: "lru_inv c xs \<Longrightarrow> distinct xs"
  by (simp add: lru_inv_def dl_list_def)

lemma hash_node_inj: "lru_inv c xs \<Longrightarrow> inj_on (hash_node c) (set xs)"
  by (rule inj_onI) (metis lru_inv_def linked_def)

lemma nkey_inj: "lru_inv c xs \<Longrightarrow> n \<in> set xs \<Longrightarrow> m \<in> set xs \<Longrightarrow> nkey c n = nkey c m \<Longrightarrow> n = m"
  by (auto simp: lru_inv_def distinct_map inj_on_def)

lemma find_absent: "lru_inv c xs \<Longrightarrow> k \<notin> nkey c ` set xs \<Longrightarrow> HASH_FIND_STR c k = None"
  by (auto simp: HASH_FIND_STR_def find_None_iff lru_inv_def)

lemma find_present:
  assumes "lru_inv c xs" and "n \<in> set xs"
  shows "HASH_FIND_STR c (nkey c n) = Some (hash_node c n)"
proof -
  have "HASH_FIND_STR c (nkey c n) \<noteq> None"
    using assms by (auto simp: HASH_FIND_STR_def find_None_iff lru_inv_def)
  then obtain h where h: "HASH_FIND_STR c (nkey c n) = Some h" by blast
  then have "h \<in> set (hash c)" "key (hnode c h) = nkey c n"
    by (auto simp: HASH_FIND_STR_def find_Some_iff)
  then show ?thesis using assms h nkey_inj [OF assms(1)] by (auto simp: lru_inv_def)
qed

lemma entries_keys [simp]: "fst ` set (entries c xs) = nkey c ` set xs"
  by (simp add: entries_def image_image)

lemma find_cases:
  assumes "lru_inv c xs"
  obtains (absent) "k \<notin> fst ` set (entries c xs)" "HASH_FIND_STR c k = None"
  | (present) n where "n \<in> set xs" "k = nkey c n" "HASH_FIND_STR c k = Some (hash_node c n)" "list_node (hnode c (hash_node c n)) = n"
proof (cases "k \<in> nkey c ` set xs")
  case True
  then show thesis using present find_present [OF assms] assms by (auto simp: lru_inv_def linked_def)
next
  case False
  then show thesis using absent find_absent [OF assms] by (simp add: entries_keys)
qed

lemma entries_remove1:
  assumes "lru_inv c xs" and "n \<in> set xs"
  shows "entries c (remove1 n xs) = filter (\<lambda>e. fst e \<noteq> nkey c n) (entries c xs)"
proof -
  have "remove1 n xs = filter (\<lambda>m. m \<noteq> n) xs"
    using lru_inv_distinct [OF assms(1)] by (simp add: distinct_remove1_removeAll removeAll_filter_not_eq) (metis)
  also have "\<dots> = filter (\<lambda>m. nkey c m \<noteq> nkey c n) xs"
    using nkey_inj [OF assms(1) _ assms(2)] by (intro filter_cong) auto
  finally show ?thesis by (simp add: entries_def filter_map comp_def)
qed

lemma map_of_entries:
  assumes "lru_inv c xs" and "n \<in> set xs"
  shows "map_of (entries c xs) (nkey c n) = Some (items c (item c n))"
  using assms by (intro map_of_is_SomeI) (auto simp: entries_def lru_inv_def comp_def)

text \<open>Reordering the list keeps the rest of the invariant.\<close>

lemma lru_inv_reorder:
  assumes "lru_inv c xs" and "dl_list d ys" and "mset ys = mset xs"
  shows "lru_inv (c\<lparr>lru_list := d\<rparr>) ys"
proof -
  let ?c = "c\<lparr>lru_list := d\<rparr>"
  have cost: "entry_cost ?c = entry_cost c" by (simp add: fun_eq_iff entry_cost_def)
  have "mset (map f ys) = mset (map f xs)" for f :: "addr \<Rightarrow> 'b" using assms(3) by simp
  then have "distinct (map (nkey c) ys)" "sum_list (map (entry_cost c) ys) = sum_list (map (entry_cost c) xs)"
    using assms(1) mset_eq_imp_distinct_iff sum_mset_sum_list by (metis lru_inv_def)+
  moreover have "set ys = set xs" using assms(3) by (rule mset_eq_setD)
  ultimately show ?thesis using assms(1,2) cost by (simp add: lru_inv_def linked_def)
qed

lemma move_to_head_inv:
  assumes "lru_inv c xs" and "n \<in> set xs"
  shows "\<exists>d. move_to_head n (lru_list c) = Some d \<and> lru_inv (c\<lparr>lru_list := d\<rparr>) (n # remove1 n xs) \<and>
     entries (c\<lparr>lru_list := d\<rparr>) (n # remove1 n xs) = touch (nkey c n) (items c (item c n)) (entries c xs)"
proof -
  have l: "dl_list (lru_list c) xs" using assms(1) by (simp add: lru_inv_def)
  obtain d where d: "move_to_head n (lru_list c) = Some d" "dl_list d (n # remove1 n xs)"
    using dll.touch_rep [OF l assms(2)] by (auto simp: move_to_head_def)
  moreover have "lru_inv (c\<lparr>lru_list := d\<rparr>) (n # remove1 n xs)"
    using lru_inv_reorder [OF assms(1) d(2)] assms(2) by simp
  moreover have "entries (c\<lparr>lru_list := d\<rparr>) ys = entries c ys" for ys by (simp add: entries_def)
  ultimately show ?thesis
    using entries_remove1 [OF assms] by (simp add: touch_def entries_def)
qed

lemma print_cache_inv: "lru_inv c xs \<Longrightarrow> print_cache c = Some ()"
  using dll.count_rep [of "lru_list c" xs] by (simp add: print_cache_def lru_inv_def)

subsection \<open>Removing, creating and updating entries\<close>

text \<open>The five blocks that one entry consists of.\<close>

definition entry_blocks :: "lru_cache_t \<Rightarrow> addr \<Rightarrow> lru_block list" where
  "entry_blocks c n =
     [KeyCopy (hash_node c n), HashNode (hash_node c n), data_freed (items c (item c n)) (item c n), Item (item c n), ListNode n]"

text \<open>The items whose destructor is called, in the order of the releases.\<close>

fun destroyed :: "lru_block list \<Rightarrow> addr list" where
  "destroyed [] = []"
| "destroyed (Destroyed f a # bs) = a # destroyed bs"
| "destroyed (b # bs) = destroyed bs"

lemma destroyed_append [simp]: "destroyed (xs @ ys) = destroyed xs @ destroyed ys"
  by (induction xs rule: destroyed.induct) simp_all

lemma delete_data_inv:
  assumes inv: "lru_inv c xs" and n: "n \<in> set xs"
  shows "\<exists>c'. delete_data n c = Some c' \<and> lru_inv c' (remove1 n xs) \<and>
     entries c' (remove1 n xs) = filter (\<lambda>e. fst e \<noteq> nkey c n) (entries c xs) \<and>
     max_key_num c' = max_key_num c \<and> max_mem c' = max_mem c \<and>
     set (hash c') \<subseteq> set (hash c) \<and> item c' = item c \<and> freed c' = freed c @ entry_blocks c n"
proof -
  have l: "dl_list (lru_list c) xs" and d: "distinct xs" using inv lru_inv_distinct by (auto simp: lru_inv_def)
  obtain dl where dl: "DL_DELETE n (lru_list c) = Some dl" "dl_list dl (remove1 n xs)"
    using dll.delete_remove1 [OF l n] by blast
  define c' where "c' = c\<lparr>lru_list := dl, hash := remove1 (hash_node c n) (hash c), used_mem := used_mem c - entry_cost c n,
      freed := freed c @ [KeyCopy (hash_node c n), HashNode (hash_node c n)] @ delete_lru_cache_item (item c n) c @ [ListNode n]\<rparr>"
  have f: "nkey c' = nkey c" "entry_cost c' = entry_cost c" "linked c' = linked c" "items c' = items c" "item c' = item c"
    "hash_node c' = hash_node c"
    by (auto simp: c'_def fun_eq_iff entry_cost_def linked_def)
  have "hash_node c ` set (remove1 n xs) = set (hash c) - {hash_node c n}"
    using inv d n hash_node_inj [OF inv] by (auto simp: lru_inv_def inj_on_def)
  moreover have "used_mem c' = sum_list (map (entry_cost c) (remove1 n xs))"
    using inv sum_list_map_remove1 [OF n, of "entry_cost c"] by (simp add: c'_def lru_inv_def)
  moreover have "set (remove1 n xs) \<subseteq> set xs" by (rule set_remove1_subset)
  moreover have "distinct (map (nkey c) (remove1 n xs))"
    using inv d nkey_inj [OF inv] by (auto simp: distinct_map inj_on_def)
  ultimately have "lru_inv c' (remove1 n xs)"
    using inv dl(2) unfolding lru_inv_def f by (auto simp: c'_def intro: inj_on_subset)
  moreover have "delete_data n c = Some c'" using dl(1) by (simp add: delete_data_def c'_def)
  moreover have "entries c' ys = entries c ys" for ys by (simp add: entries_def c'_def)
  ultimately show ?thesis
    using entries_remove1 [OF inv n] set_remove1_subset [of "hash_node c n" "hash c"]
    by (intro exI [of _ c']) (simp add: c'_def entry_blocks_def delete_lru_cache_item_def)
qed

text \<open>The blocks of a call are fresh when no node of the cache has their addresses.\<close>

definition fresh_alloc :: "lru_cache_t \<Rightarrow> addr list \<Rightarrow> lru_alloc \<Rightarrow> bool" where
  "fresh_alloc c xs al \<longleftrightarrow>
     (\<exists>n h a blk. list_blk al = Some n \<and> hash_blk al = Some h \<and> item_blk al = Some a \<and> data_blk al = Some blk \<and>
        key_ok al \<and> n \<notin> set xs \<and> h \<notin> set (hash c) \<and> a \<notin> item c ` set xs)"

lemma fresh_alloc_mono:
  assumes "fresh_alloc c xs al" and "set ys \<subseteq> set xs" and "set (hash c') \<subseteq> set (hash c)" and "item c' = item c"
  shows "fresh_alloc c' ys al"
proof -
  have "item c' ` set ys \<subseteq> item c ` set xs" using assms(2,4) by auto
  then show ?thesis using assms(1-3) unfolding fresh_alloc_def by blast
qed

definition plain_data :: "ut_icd \<Rightarrow> uint8 list \<Rightarrow> bool" where
  "plain_data i src \<longleftrightarrow> ic_init i = None \<and> ic_copy i = None \<and> 0 < sz i \<and> int (sz i) < 2 ^ 31 \<and> sz i \<le> length src"

definition stored :: "ut_icd \<Rightarrow> uint8 list \<Rightarrow> cache_item_t" where
  "stored i src = \<lparr>icd = i, idata = take (sz i) src\<rparr>"

text \<open>The payload ends up as the first \<open>sz\<close> bytes of the source, by \<^verbatim>\<open>memcpy\<close> or by the copy function of the user.\<close>

definition copied ::
  "(nat \<Rightarrow> uint8 list \<Rightarrow> uint8 list) \<Rightarrow> (nat \<Rightarrow> uint8 list \<Rightarrow> uint8 list \<Rightarrow> uint8 list) \<Rightarrow> ut_icd \<Rightarrow> uint8 list \<Rightarrow> bool" where
  "copied ini cpy i src \<longleftrightarrow> 0 < sz i \<and> int (sz i) < 2 ^ 31 \<and> sz i \<le> length src \<and>
     (\<forall>blk. copy_bytes cpy i (init_bytes ini i blk) src = take (sz i) src)"

lemma plain_copied: "plain_data i src \<Longrightarrow> copied ini cpy i src"
  by (simp add: plain_data_def copied_def copy_bytes_def init_bytes_def)

lemma copied_bytes: "copied ini cpy i src \<Longrightarrow> copy_bytes cpy i (init_bytes ini i blk) src = take (sz i) src"
  by (simp add: copied_def)

lemma create_data_inv:
  assumes inv: "lru_inv c xs" and k: "k \<notin> nkey c ` set xs" and al: "fresh_alloc c xs al" and pl: "copied ini cpy i src"
  shows "\<exists>c' n. create_data ini cpy al k i src c = (True, c') \<and> lru_inv c' (n # xs) \<and>
     entries c' (n # xs) = (k, stored i src) # entries c xs \<and> max_key_num c' = max_key_num c \<and> max_mem c' = max_mem c \<and>
     freed c' = freed c"
proof -
  obtain n h a blk where al': "list_blk al = Some n" "hash_blk al = Some h" "item_blk al = Some a" "data_blk al = Some blk"
    "key_ok al" and fr: "n \<notin> set xs" "h \<notin> set (hash c)" "a \<notin> item c ` set xs"
    using al by (auto simp: fresh_alloc_def)
  let ?cost = "sizeof_list + sizeof_hash + (int (length k) + 1) + sizeof_item + int (sz i)"
  define c' where "c' = c\<lparr>items := (items c)(a := stored i src),
      hnode := (hnode c)(h := \<lparr>key = k, key_len = int (length k), list_node = n\<rparr>), hash := hash c @ [h],
      hash_node := (hash_node c)(n := h), item := (item c)(n := a), lru_list := DL_PREPEND n (lru_list c),
      used_mem := used_mem c + ?cost\<rparr>"
  have create: "create_data ini cpy al k i src c = (True, c')"
    using al' copied_bytes [OF pl]
    by (simp add: create_data_def new_lru_cache_item_def copy_lru_cache_item_def c'_def stored_def Let_def)
  have hn: "hash_node c m \<noteq> h" "item c m \<noteq> a" "m \<noteq> n" if "m \<in> set xs" for m
    using that inv fr by (auto simp: lru_inv_def)
  have old: "nkey c' m = nkey c m" "entry_cost c' m = entry_cost c m" "linked c' m = linked c m" "hash_node c' m = hash_node c m"
    "item c' m = item c m" "items c' (item c' m) = items c (item c m)" if "m \<in> set xs" for m
    using hn [OF that] by (simp_all add: c'_def entry_cost_def linked_def)
  have new: "nkey c' n = k" "entry_cost c' n = ?cost" "linked c' n" "hash_node c' n = h" "item c' n = a"
    "items c' a = stored i src"
    using pl by (simp_all add: c'_def entry_cost_def linked_def wf_item_def stored_def copied_def)
  have maps: "map (nkey c') xs = map (nkey c) xs" "map (entry_cost c') xs = map (entry_cost c) xs"
    "hash_node c' ` set xs = hash_node c ` set xs" "item c' ` set xs = item c ` set xs"
    using old by simp_all
  have "lru_inv c' (n # xs)"
    unfolding lru_inv_def
  proof (intro conjI)
    show "dl_list (lru_list c') (n # xs)"
      using dll.prepend_rep [of "lru_list c" xs n] inv fr by (simp add: c'_def lru_inv_def)
    show "\<forall>m\<in>set (n # xs). linked c' m" using inv old new by (simp add: lru_inv_def)
    show "distinct (hash c')" "set (hash c') = hash_node c' ` set (n # xs)"
      using inv fr maps new by (simp_all add: c'_def lru_inv_def)
    show "distinct (map (nkey c') (n # xs))"
      unfolding list.map maps(1) new(1) using inv k by (simp add: lru_inv_def)
    show "inj_on (item c') (set (n # xs))"
      using inv fr maps new old by (simp add: lru_inv_def inj_on_def) (metis image_eqI)
    show "used_mem c' = sum_list (map (entry_cost c') (n # xs))"
      unfolding list.map maps(2) new(2) using inv by (simp add: lru_inv_def c'_def)
  qed
  moreover have "entries c' (n # xs) = (k, stored i src) # entries c xs"
    using old new by (simp add: entries_def)
  ultimately show ?thesis using create by (intro exI [of _ c'] exI [of _ n]) (simp add: c'_def)
qed

lemma charge_exact:
  "int a < 2 ^ 31 \<Longrightarrow> int b < 2 ^ 31 \<Longrightarrow> sint (word_of_int (int a - int b) :: int32) = int a - int b"
  by (rule sint_eq_of_int_32) auto

lemma update_data_inv:
  assumes inv: "lru_inv c xs" and n: "n \<in> set xs" and blk: "data_blk al = Some blk" and pl: "copied ini cpy i src"
  shows "\<exists>c'. update_data ini cpy al (item c n) i src c = (True, c') \<and> lru_inv c' xs \<and> nkey c' = nkey c \<and>
     item c' = item c \<and> items c' = (items c)(item c n := stored i src) \<and>
     max_key_num c' = max_key_num c \<and> max_mem c' = max_mem c"
proof -
  let ?a = "item c n"
  have wf: "wf_item (items c ?a)" using inv n by (auto simp: lru_inv_def linked_def)
  show ?thesis
  proof (cases "icd (items c ?a) = i \<and> take (sz i) (idata (items c ?a)) = take (sz i) src")
    case True
    then have "items c ?a = stored i src" using wf by (cases "items c ?a") (auto simp: stored_def wf_item_def)
    then show ?thesis using True inv by (intro exI [of _ c]) (auto simp: update_data_def)
  next
    case False
    let ?d = "int (sz i) - int (sz (icd (items c ?a)))"
    define c' where "c' = c\<lparr>items := (items c)(?a := stored i src), freed := freed c @ [data_freed (items c ?a) ?a],
        used_mem := used_mem c + ?d\<rparr>"
    have upd: "update_data ini cpy al ?a i src c = (True, c')"
      using False blk copied_bytes [OF pl] charge_exact [of "sz i" "sz (icd (items c ?a))"] pl wf
      by (auto simp: update_data_def replace_lru_cache_item_def c'_def stored_def copied_def wf_item_def)
    have inj: "item c m = ?a \<longleftrightarrow> m = n" if "m \<in> set xs" for m
      using that inv n by (auto simp: lru_inv_def inj_on_def)
    have f: "nkey c' = nkey c" "hash_node c' = hash_node c" "item c' = item c" "lru_list c' = lru_list c" "hash c' = hash c"
      "max_key_num c' = max_key_num c" "max_mem c' = max_mem c"
      by (simp_all add: c'_def fun_eq_iff)
    have "linked c' m" if "m \<in> set xs" for m
      using that inv inj [OF that] pl by (auto simp: lru_inv_def linked_def c'_def wf_item_def stored_def copied_def)
    moreover have "entry_cost c' m = entry_cost c m + (if m = n then ?d else 0)" if "m \<in> set xs" for m
      using inj [OF that] by (auto simp: entry_cost_def c'_def stored_def)
    then have "sum_list (map (entry_cost c') xs) = sum_list (map (\<lambda>m. entry_cost c m + (if m = n then ?d else 0)) xs)"
      by (metis (no_types, lifting) map_cong)
    moreover have "sum_list (map (\<lambda>m. if m = n then ?d else 0) xs) = ?d"
      using n lru_inv_distinct [OF inv] by (simp add: sum_list_distinct_conv_sum_set)
    ultimately have "lru_inv c' xs"
      using inv unfolding lru_inv_def f by (simp add: c'_def sum_list_addf)
    then show ?thesis using upd f by (intro exI [of _ c']) (simp add: c'_def)
  qed
qed

lemma evict_inv:
  assumes inv: "lru_inv c xs" and "xs \<noteq> []"
  shows "\<exists>c'. delete_tail_data c = Some c' \<and> lru_inv c' (butlast xs) \<and> entries c' (butlast xs) = butlast (entries c xs) \<and>
     max_key_num c' = max_key_num c \<and> max_mem c' = max_mem c \<and> set (hash c') \<subseteq> set (hash c) \<and> item c' = item c \<and>
     freed c' = freed c @ entry_blocks c (last xs)"
proof -
  have l: "dl_list (lru_list c) xs" using inv by (simp add: lru_inv_def)
  have d: "distinct xs" using lru_inv_distinct [OF inv] .
  have t: "dl_tail (lru_list c) = Some (last xs)" using dll.tail_rep [OF l] assms(2) by simp
  have rm: "remove1 (last xs) xs = butlast xs" using d assms(2) by (cases xs rule: rev_cases) (auto simp: remove1_append)
  obtain c' where c': "delete_data (last xs) c = Some c'" "lru_inv c' (butlast xs)"
    "entries c' (butlast xs) = filter (\<lambda>e. fst e \<noteq> nkey c (last xs)) (entries c xs)"
    "max_key_num c' = max_key_num c" "max_mem c' = max_mem c" "set (hash c') \<subseteq> set (hash c)" "item c' = item c"
    "freed c' = freed c @ entry_blocks c (last xs)"
    using delete_data_inv [OF inv, of "last xs"] assms(2) rm by auto
  have "entries c (butlast xs) = filter (\<lambda>e. fst e \<noteq> nkey c (last xs)) (entries c xs)"
    using entries_remove1 [OF inv, of "last xs"] assms(2) rm by simp
  then show ?thesis using c' t by (simp add: delete_tail_data_def entries_def map_butlast)
qed

subsection \<open>Properties\<close>

definition cache_full :: "lru_cache_t \<Rightarrow> addr list \<Rightarrow> bool" where
  "cache_full c xs \<longleftrightarrow> used_mem c \<ge> max_mem c \<or> int (length xs) \<ge> max_key_num c"

text \<open>The abstract cache: storing puts an entry in front; if it is new and the cache is full, the last one goes.\<close>

definition lru_put_spec :: "bool \<Rightarrow> string \<Rightarrow> 'v \<Rightarrow> (string \<times> 'v) list \<Rightarrow> (string \<times> 'v) list" where
  "lru_put_spec full k v es =
     (if k \<in> fst ` set es then touch k v es else (k, v) # (if full then butlast es else es))"

lemma is_full_eq: "lru_inv c xs \<Longrightarrow> is_full c = Some (cache_full c xs)"
  using dll.count_rep [of "lru_list c" xs] by (auto simp: is_full_def cache_full_def lru_inv_def)

lemma full_nonempty: "lru_inv c xs \<Longrightarrow> 0 < max_key_num c \<Longrightarrow> 0 < max_mem c \<Longrightarrow> cache_full c xs \<Longrightarrow> xs \<noteq> []"
  by (auto simp: cache_full_def lru_inv_def)

text \<open>
  Storing a new key when allocations may fail: the blocks that are obtained are not in use. Whatever fails,
  the cache stays consistent; the eviction that precedes the allocations has then happened for nothing.
\<close>

definition safe_alloc :: "lru_cache_t \<Rightarrow> addr list \<Rightarrow> lru_alloc \<Rightarrow> bool" where
  "safe_alloc c xs al \<longleftrightarrow>
     list_blk al \<notin> Some ` set xs \<and> hash_blk al \<notin> Some ` set (hash c) \<and> item_blk al \<notin> Some ` item c ` set xs"

definition all_alloc :: "lru_alloc \<Rightarrow> bool" where
  "all_alloc al \<longleftrightarrow> list_blk al \<noteq> None \<and> hash_blk al \<noteq> None \<and> key_ok al \<and> item_blk al \<noteq> None \<and> data_blk al \<noteq> None"

lemma fresh_alloc_iff: "fresh_alloc c xs al \<longleftrightarrow> safe_alloc c xs al \<and> all_alloc al"
  by (auto simp: fresh_alloc_def safe_alloc_def all_alloc_def)

lemma create_data_fails:
  assumes "\<not> all_alloc al"
  shows "\<exists>fr. create_data ini cpy al k i src c = (False, c\<lparr>freed := freed c @ fr\<rparr>) \<and> destroyed fr = []"
proof -
  consider "list_blk al = None" | n where "list_blk al = Some n" "hash_blk al = None"
    | n h where "list_blk al = Some n" "hash_blk al = Some h" "\<not> key_ok al"
    | n h where "list_blk al = Some n" "hash_blk al = Some h" "key_ok al" "item_blk al = None"
    | n h a where "list_blk al = Some n" "hash_blk al = Some h" "key_ok al" "item_blk al = Some a" "data_blk al = None"
    using assms unfolding all_alloc_def by blast
  then show ?thesis
  proof cases
    case 1
    then show ?thesis by (intro exI [of _ "[]"]) (simp add: create_data_def)
  next
    case (2 n)
    then show ?thesis by (intro exI [of _ "[ListNode n]"]) (simp add: create_data_def)
  next
    case (3 n h)
    then show ?thesis by (intro exI [of _ "[ListNode n, HashNode h]"]) (simp add: create_data_def)
  next
    case (4 n h)
    then show ?thesis
      by (intro exI [of _ "[ListNode n, HashNode h, KeyCopy h]"]) (simp add: create_data_def new_lru_cache_item_def)
  next
    case (5 n h a)
    then show ?thesis
      by (intro exI [of _ "[Item a, ListNode n, HashNode h, KeyCopy h]"]) (simp add: create_data_def new_lru_cache_item_def)
  qed
qed

lemma freed_irrelevant [simp]:
  "lru_inv (c\<lparr>freed := fr\<rparr>) xs = lru_inv c xs" "entries (c\<lparr>freed := fr\<rparr>) xs = entries c xs"
  by (simp_all add: lru_inv_def linked_def entry_cost_def [abs_def] entries_def)

definition evicted :: "bool \<Rightarrow> 'e list \<Rightarrow> 'e list" where
  "evicted full es = (if full then butlast es else es)"

lemma evict_step:
  assumes inv: "lru_inv c xs" and lim: "0 < max_key_num c" "0 < max_mem c"
  obtains c1 ys where "(if cache_full c xs then delete_tail_data c else Some c) = Some c1" "lru_inv c1 ys"
    "entries c1 ys = evicted (cache_full c xs) (entries c xs)" "max_key_num c1 = max_key_num c" "max_mem c1 = max_mem c"
    "set (hash c1) \<subseteq> set (hash c)" "item c1 = item c" "set ys \<subseteq> set xs"
    "freed c1 = freed c @ (if cache_full c xs then entry_blocks c (last xs) else [])"
proof (cases "cache_full c xs")
  case True
  with evict_inv [OF inv full_nonempty [OF inv lim]] obtain c1 where
    "delete_tail_data c = Some c1" "lru_inv c1 (butlast xs)" "entries c1 (butlast xs) = butlast (entries c xs)"
    "max_key_num c1 = max_key_num c" "max_mem c1 = max_mem c" "set (hash c1) \<subseteq> set (hash c)" "item c1 = item c"
    "freed c1 = freed c @ entry_blocks c (last xs)"
    by blast
  with True show thesis by (intro that [of c1 "butlast xs"]) (auto simp: evicted_def dest: in_set_butlastD)
next
  case False
  then show thesis using inv by (intro that [of c xs]) (auto simp: evicted_def)
qed

lemma put_absent:
  assumes inv: "lru_inv c xs" and lim: "0 < max_key_num c" "0 < max_mem c" and k: "k \<notin> fst ` set (entries c xs)"
    and al: "safe_alloc c xs al" and pl: "copied ini cpy i src"
  shows "\<exists>c' ys fr. lru_cache_put ini cpy al (Some c) (Some k) (Some i) (Some src) = Some (all_alloc al, Some c') \<and>
     lru_inv c' ys \<and> max_key_num c' = max_key_num c \<and> max_mem c' = max_mem c \<and>
     entries c' ys = (if all_alloc al then [(k, stored i src)] else []) @ evicted (cache_full c xs) (entries c xs) \<and>
     freed c' = freed c @ fr \<and> destroyed fr = (if cache_full c xs then destroyed (entry_blocks c (last xs)) else [])"
proof -
  have sz: "\<not> sz i \<le> 0" using pl by (simp add: copied_def)
  have absent: "HASH_FIND_STR c k = None" using find_absent [OF inv] k by simp
  obtain c1 ys where c1: "(if cache_full c xs then delete_tail_data c else Some c) = Some c1" "lru_inv c1 ys"
    "entries c1 ys = evicted (cache_full c xs) (entries c xs)" "max_key_num c1 = max_key_num c" "max_mem c1 = max_mem c"
    "set (hash c1) \<subseteq> set (hash c)" "item c1 = item c" "set ys \<subseteq> set xs"
    "freed c1 = freed c @ (if cache_full c xs then entry_blocks c (last xs) else [])"
    by (rule evict_step [OF inv lim])
  have put: "lru_cache_put ini cpy al (Some c) (Some k) (Some i) (Some src) = Some (r, Some c2)"
    if "create_data ini cpy al k i src c1 = (r, c2)" "lru_inv c2 zs" for r c2 zs
    using absent sz c1(1) is_full_eq [OF inv] that print_cache_inv [OF that(2)] by (simp add: lru_cache_put_def)
  show ?thesis
  proof (cases "all_alloc al")
    case True
    then have "fresh_alloc c1 ys al" using al fresh_alloc_mono [OF _ c1(8,6,7)] by (simp add: fresh_alloc_iff)
    moreover have "set (entries c1 ys) \<subseteq> set (entries c xs)"
      using c1(3) by (auto simp: evicted_def split: if_splits dest: in_set_butlastD)
    then have "k \<notin> nkey c1 ` set ys" using k entries_keys [of c1 ys] by blast
    ultimately obtain c2 n where c2: "create_data ini cpy al k i src c1 = (True, c2)" "lru_inv c2 (n # ys)"
      "entries c2 (n # ys) = (k, stored i src) # entries c1 ys" "max_key_num c2 = max_key_num c1" "max_mem c2 = max_mem c1"
      "freed c2 = freed c1"
      using create_data_inv [OF c1(2) _ _ pl] by metis
    show ?thesis
      by (rule exI [of _ c2], rule exI [of _ "n # ys"],
          rule exI [of _ "if cache_full c xs then entry_blocks c (last xs) else []"])
        (use put [OF c2(1,2)] True c2 c1 in simp)
  next
    case False
    obtain fr where fr: "create_data ini cpy al k i src c1 = (False, c1\<lparr>freed := freed c1 @ fr\<rparr>)" "destroyed fr = []"
      using create_data_fails [OF False] by blast
    show ?thesis
      by (rule exI [of _ "c1\<lparr>freed := freed c1 @ fr\<rparr>"], rule exI [of _ ys],
          rule exI [of _ "(if cache_full c xs then entry_blocks c (last xs) else []) @ fr"])
        (use put [OF fr(1), of ys] False fr(2) c1 in simp)
  qed
qed

lemma put_refines:
  assumes inv: "lru_inv c xs" and lim: "0 < max_key_num c" "0 < max_mem c"
    and al: "fresh_alloc c xs al" and pl: "copied ini cpy i src"
  shows "\<exists>c' ys. lru_cache_put ini cpy al (Some c) (Some k) (Some i) (Some src) = Some (True, Some c') \<and>
     lru_inv c' ys \<and> entries c' ys = lru_put_spec (cache_full c xs) k (stored i src) (entries c xs) \<and>
     max_key_num c' = max_key_num c \<and> max_mem c' = max_mem c"
proof -
  have sz: "\<not> sz i \<le> 0" using pl by (simp add: copied_def)
  show ?thesis
    using inv
  proof (cases rule: find_cases [where k = k])
    case (present n)
    obtain blk where blk: "data_blk al = Some blk" using al by (auto simp: fresh_alloc_def)
    obtain c1 where c1: "update_data ini cpy al (item c n) i src c = (True, c1)" "lru_inv c1 xs" "nkey c1 = nkey c"
      "item c1 = item c" "items c1 = (items c)(item c n := stored i src)" "max_key_num c1 = max_key_num c" "max_mem c1 = max_mem c"
      using update_data_inv [OF inv present(1) blk pl] by blast
    obtain d where d: "move_to_head n (lru_list c1) = Some d" "lru_inv (c1\<lparr>lru_list := d\<rparr>) (n # remove1 n xs)"
      "entries (c1\<lparr>lru_list := d\<rparr>) (n # remove1 n xs) = touch (nkey c1 n) (items c1 (item c1 n)) (entries c1 xs)"
      using move_to_head_inv [OF c1(2) present(1)] by blast
    have "items c1 (item c1 m) = items c (item c m) \<and> nkey c1 m = nkey c m" if "m \<in> set (remove1 n xs)" for m
    proof -
      have "m \<in> set xs" "m \<noteq> n" using that lru_inv_distinct [OF inv] by auto
      then have "item c m \<noteq> item c n" using inv present(1) by (auto simp: lru_inv_def inj_on_def)
      then show ?thesis using c1(3-5) by (simp add: fun_eq_iff)
    qed
    then have "entries c1 (remove1 n xs) = entries c (remove1 n xs)" by (simp add: entries_def)
    then have "filter (\<lambda>e. fst e \<noteq> nkey c n) (entries c1 xs) = filter (\<lambda>e. fst e \<noteq> nkey c n) (entries c xs)"
      using entries_remove1 [OF inv present(1)] entries_remove1 [OF c1(2) present(1)] fun_cong [OF c1(3), of n] by simp
    then have "touch (nkey c1 n) (items c1 (item c1 n)) (entries c1 xs) = lru_put_spec (cache_full c xs) k (stored i src) (entries c xs)"
      using present(1,2) c1(4,5) fun_cong [OF c1(3), of n] by (simp add: touch_def lru_put_spec_def)
    then show ?thesis
      using present sz c1 d by (intro exI [of _ "c1\<lparr>lru_list := d\<rparr>"] exI [of _ "n # remove1 n xs"])
        (simp add: lru_cache_put_def)
  next
    case absent
    have "safe_alloc c xs al" "all_alloc al" using al by (simp_all add: fresh_alloc_iff)
    then show ?thesis using put_absent [OF inv lim absent(1) _ pl, of al] absent(1) by (auto simp: lru_put_spec_def evicted_def)
  qed
qed

lemma get_refines:
  assumes inv: "lru_inv c xs"
  shows "\<exists>r c' ys. lru_cache_get (Some c) (Some k) = Some (r, Some c') \<and> lru_inv c' ys \<and>
     map_option (items c') r = map_of (entries c xs) k \<and>
     entries c' ys = (case map_of (entries c xs) k of None \<Rightarrow> entries c xs | Some v \<Rightarrow> touch k v (entries c xs)) \<and>
     max_key_num c' = max_key_num c \<and> max_mem c' = max_mem c"
  using inv
proof (cases rule: find_cases [where k = k])
  case absent
  then have "map_of (entries c xs) k = None" by (simp add: map_of_eq_None_iff)
  then show ?thesis using absent inv by (auto simp: lru_cache_get_def)
next
  case (present n)
  obtain d where d: "move_to_head n (lru_list c) = Some d" "lru_inv (c\<lparr>lru_list := d\<rparr>) (n # remove1 n xs)"
    "entries (c\<lparr>lru_list := d\<rparr>) (n # remove1 n xs) = touch (nkey c n) (items c (item c n)) (entries c xs)"
    using move_to_head_inv [OF inv present(1)] by blast
  have m: "map_of (entries c xs) k = Some (items c (item c n))"
    using map_of_entries [OF inv present(1)] present(2) by simp
  show ?thesis
    using present d print_cache_inv [OF d(2)] m
    by (intro exI [of _ "Some (item c n)"] exI [of _ "c\<lparr>lru_list := d\<rparr>"] exI [of _ "n # remove1 n xs"])
      (simp add: lru_cache_get_def)
qed

lemma remove_refines:
  assumes "lru_inv c xs"
  shows "\<exists>c' ys. lru_cache_remove (Some c) (Some k) = Some (Some c') \<and> lru_inv c' ys \<and>
     entries c' ys = filter (\<lambda>e. fst e \<noteq> k) (entries c xs) \<and>
     max_key_num c' = max_key_num c \<and> max_mem c' = max_mem c"
  using assms
proof (cases rule: find_cases [where k = k])
  case absent
  then have "filter (\<lambda>e. fst e \<noteq> k) (entries c xs) = entries c xs" by (intro filter_True) blast
  then show ?thesis using absent assms by (auto simp: lru_cache_remove_def)
next
  case (present n)
  obtain c' where "delete_data n c = Some c'" "lru_inv c' (remove1 n xs)"
    "entries c' (remove1 n xs) = filter (\<lambda>e. fst e \<noteq> nkey c n) (entries c xs)"
    "max_key_num c' = max_key_num c" "max_mem c' = max_mem c"
    using delete_data_inv [OF assms present(1)] by blast
  then show ?thesis using present print_cache_inv by (auto simp: lru_cache_remove_def)
qed

text \<open>
  C9. Storing refines the abstract cache. On a consistent cache, with memory available and a plain
  payload, \<^verbatim>\<open>lru_cache_put\<close> returns true and leaves a consistent cache with the entry in front: an existing key is
  updated and moved, a new key evicts exactly the least recently used entry when the cache is full.
  The number of keys never exceeds its limit, and the memory account stays exact.
\<close>

theorem lru_put_refines:
  assumes "lru_inv c xs" and "0 < max_key_num c" and "0 < max_mem c" and "fresh_alloc c xs al" and "plain_data i src"
    and "int (length xs) \<le> max_key_num c"
  shows "\<exists>c' ys. lru_cache_put ini cpy al (Some c) (Some k) (Some i) (Some src) = Some (True, Some c') \<and>
     lru_inv c' ys \<and> entries c' ys = lru_put_spec (cache_full c xs) k (stored i src) (entries c xs) \<and>
     int (length ys) \<le> max_key_num c'"
proof -
  obtain c' ys where r: "lru_cache_put ini cpy al (Some c) (Some k) (Some i) (Some src) = Some (True, Some c')"
    "lru_inv c' ys" "entries c' ys = lru_put_spec (cache_full c xs) k (stored i src) (entries c xs)"
    "max_key_num c' = max_key_num c"
    using put_refines [OF assms(1-4) plain_copied [OF assms(5)]] by blast
  have len: "length (entries c zs) = length zs" for c zs by (simp add: entries_def)
  have "length (filter (\<lambda>e. fst e \<noteq> k) (entries c xs)) < length (entries c xs)" if "k \<in> fst ` set (entries c xs)"
    using that by (metis (mono_tags, lifting) imageE length_filter_less)
  then have "int (length (entries c' ys)) \<le> max_key_num c"
    using r(3) assms(2,6) len [of c xs] by (auto simp: lru_put_spec_def touch_def cache_full_def)
  then show ?thesis using r len [of c' ys] by auto
qed

text \<open>
  Reading refines the abstract cache. \<^verbatim>\<open>lru_cache_get\<close> returns the item stored under the key, or NULL
  when there is none; a found entry becomes the most recently used one and the order of the others,
  and everything stored, is unchanged.
\<close>

theorem lru_get_refines:
  assumes "lru_inv c xs"
  shows "\<exists>r c' ys. lru_cache_get (Some c) (Some k) = Some (r, Some c') \<and> lru_inv c' ys \<and>
     map_option (items c') r = map_of (entries c xs) k \<and>
     entries c' ys = (case map_of (entries c xs) k of None \<Rightarrow> entries c xs | Some v \<Rightarrow> touch k v (entries c xs))"
  using get_refines [OF assms] by blast

text \<open>
  What was stored is read back: a string put under a key is returned by the next read of that
  key, with its terminator, whatever the cache held before.
\<close>

theorem lru_put_get_str:
  assumes "lru_inv c xs" and "0 < max_key_num c" and "0 < max_mem c" and "fresh_alloc c xs al" and "int (length str) + 1 < 2 ^ 31"
  shows "\<exists>c1 r c2. lru_cache_put_str ini cpy al (Some c) (Some k) str = Some (True, Some c1) \<and>
     lru_cache_get (Some c1) (Some k) = Some (Some r, Some c2) \<and> idata (items c2 r) = str @ [0]"
proof -
  let ?i = "plain_icd (length str + 1)"
  have pl: "plain_data ?i (str @ [0])" using assms(5) by (simp add: plain_data_def plain_icd_def)
  obtain c1 ys where c1: "lru_cache_put ini cpy al (Some c) (Some k) (Some ?i) (Some (str @ [0])) = Some (True, Some c1)"
    "lru_inv c1 ys" "entries c1 ys = lru_put_spec (cache_full c xs) k (stored ?i (str @ [0])) (entries c xs)"
    using put_refines [OF assms(1-4) plain_copied [OF pl]] by blast
  then have "map_of (entries c1 ys) k = Some (stored ?i (str @ [0]))" by (simp add: lru_put_spec_def touch_def)
  moreover obtain r c2 where "lru_cache_get (Some c1) (Some k) = Some (r, Some c2)"
    "map_option (items c2) r = map_of (entries c1 ys) k"
    using get_refines [OF c1(2)] by blast
  ultimately show ?thesis using c1(1) by (auto simp: lru_cache_put_str_def stored_def plain_icd_def)
qed

text \<open>
  Removing a key takes out its entry and nothing else; removing an absent key changes nothing.
\<close>

theorem lru_remove_refines:
  assumes "lru_inv c xs"
  shows "\<exists>c' ys. lru_cache_remove (Some c) (Some k) = Some (Some c') \<and> lru_inv c' ys \<and>
     entries c' ys = filter (\<lambda>e. fst e \<noteq> k) (entries c xs)"
  using remove_refines [OF assms] by blast

text \<open>
  The memory limit is only tested before an insertion: an item larger than the limit is stored
  all the same, and the memory in use then exceeds the limit.
\<close>

theorem lru_memory_limit_exceeded:
  assumes "lru_inv c xs" and "0 < max_key_num c" and "0 < max_mem c" and "fresh_alloc c xs al" and "plain_data i src"
    and "max_mem c < int (sz i)"
  shows "\<exists>c'. lru_cache_put ini cpy al (Some c) (Some k) (Some i) (Some src) = Some (True, Some c') \<and> max_mem c' < used_mem c'"
proof -
  obtain c' ys where r: "lru_cache_put ini cpy al (Some c) (Some k) (Some i) (Some src) = Some (True, Some c')"
    "lru_inv c' ys" "entries c' ys = lru_put_spec (cache_full c xs) k (stored i src) (entries c xs)" "max_mem c' = max_mem c"
    using put_refines [OF assms(1-4) plain_copied [OF assms(5)]] by blast
  then obtain n zs where ys: "ys = n # zs" "items c' (item c' n) = stored i src"
    by (cases ys) (auto simp: entries_def lru_put_spec_def touch_def split: if_splits)
  have pos: "int (sz (icd (items c' (item c' m)))) \<le> entry_cost c' m" if "m \<in> set ys" for m
    using that r(2) by (auto simp: lru_inv_def linked_def entry_cost_def sizeof_list_def sizeof_hash_def sizeof_item_def)
  then have "0 \<le> entry_cost c' m" if "m \<in> set ys" for m using that by fastforce
  then have "0 \<le> sum_list (map (entry_cost c') zs)" using ys(1) by (intro sum_list_nonneg) auto
  moreover have "int (sz i) \<le> entry_cost c' n" using pos [of n] ys by (simp add: stored_def)
  moreover have "used_mem c' = entry_cost c' n + sum_list (map (entry_cost c') zs)"
    using r(2) ys(1) by (simp add: lru_inv_def)
  ultimately show ?thesis using r(1,4) assms(6) by auto
qed

lemma release_nodes_list:
  "dl_list (lru_list c) xs \<Longrightarrow>
   \<exists>d. release_nodes (dl_head (lru_list c)) c =
        Some (c\<lparr>lru_list := d, freed := freed c @ concat (map (\<lambda>n. delete_lru_cache_item (item c n) c @ [ListNode n]) xs)\<rparr>) \<and>
       dl_list d []"
proof (induction xs arbitrary: c)
  case Nil
  then have "dl_head (lru_list c) = None" by (auto simp: dl_list_def)
  then show ?case using Nil by (auto simp: release_nodes.simps intro!: exI [of _ "lru_list c"])
next
  case (Cons n xs)
  obtain d where d: "DL_DELETE n (lru_list c) = Some d" "dl_list d xs"
    using dll.delete_rep [of "lru_list c" "[]" n xs] Cons.prems by auto
  have hd: "dl_head (lru_list c) = Some n" "dl_next (lru_list c) n = dl_head d"
    using dl_links(3,4) [of "lru_list c" "[]" n xs] Cons.prems d(2)
    by (auto simp: dl_list_def dest!: lseg_start split: list.splits)
  let ?c = "c\<lparr>lru_list := d, freed := freed c @ delete_lru_cache_item (item c n) c @ [ListNode n]\<rparr>"
  have item: "delete_lru_cache_item a ?c = delete_lru_cache_item a c" for a by (simp add: delete_lru_cache_item_def)
  have "release_nodes (dl_head (lru_list c)) c = release_nodes (dl_head d) ?c"
    unfolding hd(1) by (subst release_nodes.simps) (simp add: hd(2) d(1))
  then show ?case using Cons.IH [of ?c] d(2) item by simp
qed

lemma mset_blocks:
  "mset (concat (map f xs)) + mset (concat (map g xs)) = mset (concat (map (\<lambda>x. f x @ g x) xs))"
  by (induction xs) simp_all

lemma mset_concat_map: "mset (concat (map g xs)) = sum_mset (image_mset (\<lambda>x. mset (g x)) (mset xs))"
  by (induction xs) simp_all

lemma delete_cache_blocks:
  assumes "lru_inv c xs"
  shows "\<exists>c' bs. delete_lru_cache (Some c) = Some (Some c') \<and> freed c' = freed c @ bs \<and>
     mset bs = mset (concat (map (entry_blocks c) xs)) \<and> hash c' = [] \<and> dl_head (lru_list c') = None \<and>
     used_mem c' = used_mem c \<and> max_mem c' = max_mem c"
proof -
  let ?lb = "\<lambda>n. delete_lru_cache_item (item c n) c @ [ListNode n]" and ?hb = "\<lambda>h. [KeyCopy h, HashNode h]"
  obtain d where d: "release_nodes (dl_head (lru_list c)) c =
      Some (c\<lparr>lru_list := d, freed := freed c @ concat (map ?lb xs)\<rparr>)" "dl_list d []"
    using release_nodes_list [of c xs] assms by (auto simp: lru_inv_def)
  have "mset (hash c) = mset (map (hash_node c) xs)"
    using assms hash_node_inj [OF assms] lru_inv_distinct [OF assms]
    by (intro set_eq_iff_mset_eq_distinct [THEN iffD1]) (auto simp: lru_inv_def distinct_map)
  then have "mset (concat (map ?hb (hash c))) = mset (concat (map (\<lambda>n. ?hb (hash_node c n)) xs))"
    by (simp add: mset_concat_map multiset.map_comp comp_def)
  then have "mset (concat (map ?lb xs) @ concat (map ?hb (hash c))) = mset (concat (map (\<lambda>n. ?hb (hash_node c n) @ ?lb n) xs))"
    using mset_blocks [of "\<lambda>n. ?hb (hash_node c n)" xs ?lb] by (simp add: add.commute)
  moreover have "(\<lambda>n. ?hb (hash_node c n) @ ?lb n) = entry_blocks c"
    by (simp add: fun_eq_iff entry_blocks_def delete_lru_cache_item_def)
  ultimately show ?thesis
    using d by (auto simp: delete_lru_cache_def)
qed

text \<open>
  Deleting the cache releases the five blocks of every entry exactly once and nothing else, and
  leaves an empty cache. But the account of used memory is not reset: if it had reached the limit, the
  next \<^verbatim>\<open>lru_cache_put\<close> on the cache takes it for full and follows the NULL list pointer.
\<close>

theorem delete_lru_cache_effect:
  assumes "lru_inv c xs"
  shows "\<exists>c' bs. delete_lru_cache (Some c) = Some (Some c') \<and> freed c' = freed c @ bs \<and>
     mset bs = mset (concat (map (entry_blocks c) xs)) \<and> hash c' = [] \<and> dl_head (lru_list c') = None \<and>
     (max_mem c \<le> used_mem c \<and> 0 < sz i \<longrightarrow>
        lru_cache_put ini cpy al (Some c') (Some k) (Some i) (Some src) = None)"
proof -
  obtain c' bs where "delete_lru_cache (Some c) = Some (Some c')" "freed c' = freed c @ bs"
    "mset bs = mset (concat (map (entry_blocks c) xs))" "hash c' = []" "dl_head (lru_list c') = None"
    "used_mem c' = used_mem c" "max_mem c' = max_mem c"
    using delete_cache_blocks [OF assms] by blast
  then show ?thesis
    by (intro exI [of _ c'] exI [of _ bs])
      (auto simp: lru_cache_put_def HASH_FIND_STR_def is_full_def delete_tail_data_def dl_tail_def)
qed

subsection \<open>Instances\<close>

definition sample_cache :: lru_cache_t where
  "sample_cache =
     \<lparr>hash = [], lru_list = dl_empty, max_key_num = 2, max_mem = 400, used_mem = 0,
      hnode = (\<lambda>_. \<lparr>key = '''', key_len = 0, list_node = 0\<rparr>), hash_node = (\<lambda>_. 0), item = (\<lambda>_. 0),
      items = (\<lambda>_. \<lparr>icd = plain_icd 0, idata = []\<rparr>), freed = []\<rparr>"

definition sample_alloc :: "addr \<Rightarrow> lru_alloc" where
  "sample_alloc a = \<lparr>list_blk = Some a, hash_blk = Some a, key_ok = True, item_blk = Some a, data_blk = Some []\<rparr>"

lemma sample_cache_inv:
  "lru_inv sample_cache []" "0 < max_key_num sample_cache" "0 < max_mem sample_cache" "fresh_alloc sample_cache [] (sample_alloc 7)"
  "entries sample_cache [] = []"
  by (simp_all add: lru_inv_def sample_cache_def dl_list_def dl_empty_def fresh_alloc_def sample_alloc_def entries_def)

theorem lru_put_refines_witness:
  "\<exists>c' ys. lru_cache_put (\<lambda>_ b. b) (\<lambda>_ _ s. s) (sample_alloc 7) (Some sample_cache) (Some ''k'') (Some (plain_icd 2)) (Some [1, 2]) =
       Some (True, Some c') \<and> entries c' ys = [(''k'', stored (plain_icd 2) [1, 2])]"
proof -
  have "plain_data (plain_icd 2) [1, 2]" by (simp add: plain_data_def plain_icd_def)
  then show ?thesis
    using lru_put_refines [OF sample_cache_inv(1-4), of "plain_icd 2" "[1, 2]" "\<lambda>_ b. b" "\<lambda>_ _ s. s" "''k''"] sample_cache_inv(2,5)
    by (auto simp: lru_put_spec_def split: if_splits)
qed

theorem lru_get_refines_witness:
  "\<exists>r c' ys. lru_cache_get (Some sample_cache) (Some ''k'') = Some (r, Some c') \<and> entries c' ys = []"
  using lru_get_refines [OF sample_cache_inv(1), of "''k''"] sample_cache_inv(5) by auto

theorem lru_put_get_str_witness:
  "\<exists>c1 r c2. lru_cache_put_str (\<lambda>_ b. b) (\<lambda>_ _ s. s) (sample_alloc 7) (Some sample_cache) (Some ''k'') [65] = Some (True, Some c1) \<and>
     lru_cache_get (Some c1) (Some ''k'') = Some (Some r, Some c2) \<and> idata (items c2 r) = [65] @ [0]"
  by (rule lru_put_get_str [OF sample_cache_inv(1-4)]) simp

theorem lru_remove_refines_witness:
  "\<exists>c' ys. lru_cache_remove (Some sample_cache) (Some ''k'') = Some (Some c') \<and> lru_inv c' ys"
  using lru_remove_refines [OF sample_cache_inv(1), of "''k''"] by blast

theorem lru_memory_limit_exceeded_witness:
  "\<exists>c'. lru_cache_put (\<lambda>_ b. b) (\<lambda>_ _ s. s) (sample_alloc 7) (Some sample_cache) (Some ''k'') (Some (plain_icd 500))
       (Some (replicate 500 0)) = Some (True, Some c') \<and> max_mem c' < used_mem c'"
  by (rule lru_memory_limit_exceeded [OF sample_cache_inv(1-4)]) (simp_all add: plain_data_def plain_icd_def sample_cache_def)

theorem delete_lru_cache_effect_witness:
  "\<exists>c' bs. delete_lru_cache (Some sample_cache) = Some (Some c') \<and> freed c' = bs \<and> mset bs = {#}"
  using delete_lru_cache_effect [OF sample_cache_inv(1)] by (auto simp: sample_cache_def)

end
