(* ===== verification/Candump.thy ===== *)
theory Candump
  imports Module_Queue "HOL-Library.Sublist"
begin

unbundle bit_operations_syntax

text \<open>
  The CAN logger of \<^verbatim>\<open>src/src/utils/my_candump.c\<close>: the formatting of a frame as a log line, the double
  buffer between the reading thread and the writing thread, and one round of each thread. A slot of the
  buffer is its 77 bytes; the NUL byte is \<open>CHR 0x00\<close>. The mutex makes a push and a round of the writer
  atomic; the writer waits (\<^const>\<open>None\<close>) while the buffer it would write is empty.
\<close>

subsection \<open>Formatting\<close>

definition MAX_LOG_MSG_LEN :: nat where "MAX_LOG_MSG_LEN = 77"
definition INIT_LOG_QUEUE_SIZE :: nat where "INIT_LOG_QUEUE_SIZE = 20"

definition hex_digit :: "nat \<Rightarrow> char" where
  "hex_digit n = ''0123456789abcdef'' ! n"

text \<open>\<^verbatim>\<open>%0nx\<close> of a number below \<open>16 ^ n\<close>.\<close>

fun hex :: "nat \<Rightarrow> nat \<Rightarrow> string" where
  "hex 0 v = []"
| "hex (Suc n) v = hex n (v div 16) @ [hex_digit (v mod 16)]"

definition hex_bytes :: "uint8 list \<Rightarrow> string" where
  "hex_bytes bs = concat (map (\<lambda>b. CHR '' '' # hex 2 (unat b)) bs)"

definition snprintf_buf :: "nat \<Rightarrow> string \<Rightarrow> string" where
  "snprintf_buf n s = take (n - 1) s"

text \<open>
  \<open>frm\<close> is the frame that was read, or \<^const>\<open>None\<close> when \<^verbatim>\<open>read\<close> fails; \<open>time_str\<close> is the local time.
  The result is the returned code and the text in the caller's zeroed buffer.
\<close>

definition read_can_msg_log :: "can_frame option \<Rightarrow> string \<Rightarrow> nat \<Rightarrow> int \<times> string" where
  "read_can_msg_log frm time_str len =
     (case frm of
        None \<Rightarrow> (- 1, [])
      | Some f \<Rightarrow>
          (let log_msg = snprintf_buf 60 (''mcan1  '' @ hex 8 (unat (can_id f)) @ ''  [8] '' @ hex_bytes (frame_data f))
           in (0, snprintf_buf len (''('' @ time_str @ '')  '' @ log_msg @ [CHR 0x0A]))))"

subsection \<open>The double buffer\<close>

record log_queue_t =
  log_msg_queue :: "string list list"
  cur_buf_index :: nat
  write_index :: nat
  cnt :: "nat list"

definition strncpy_slot :: "string \<Rightarrow> string" where
  "strncpy_slot msg = take MAX_LOG_MSG_LEN msg @ replicate (MAX_LOG_MSG_LEN - length msg) (CHR 0x00)"

text \<open>What \<^verbatim>\<open>strlen\<close> and \<^verbatim>\<open>fwrite\<close> see of a slot that holds a terminator.\<close>

definition slot_text :: "string \<Rightarrow> string" where
  "slot_text s = takeWhile (\<lambda>c. c \<noteq> CHR 0x00) s"

definition double_buffer_push :: "log_queue_t option \<Rightarrow> string option \<Rightarrow> int \<times> log_queue_t option" where
  "double_buffer_push q msg =
     (case (q, msg) of
        (Some q, Some msg) \<Rightarrow>
          (let q1 = (if cnt q ! cur_buf_index q \<ge> INIT_LOG_QUEUE_SIZE
                     then q\<lparr>cur_buf_index := 1 - cur_buf_index q, cnt := (cnt q)[1 - cur_buf_index q := 0], write_index := 0\<rparr>
                     else q);
               b = cur_buf_index q1;
               buf = (log_msg_queue q1 ! b)[write_index q1 := strncpy_slot msg]
           in (0, Some (q1\<lparr>log_msg_queue := (log_msg_queue q1)[b := buf], cnt := (cnt q1)[b := cnt q1 ! b + 1],
                           write_index := (write_index q1 + 1) mod INIT_LOG_QUEUE_SIZE\<rparr>)))
      | _ \<Rightarrow> (- 1, q))"

definition log_write_pthread :: "log_queue_t \<Rightarrow> (string list \<times> log_queue_t) option" where
  "log_write_pthread q =
     (let b = 1 - cur_buf_index q in
      if cnt q ! b = 0 then None
      else Some (map slot_text (take (cnt q ! b) (log_msg_queue q ! b)), q\<lparr>cnt := (cnt q)[b := 0]\<rparr>))"

text \<open>One round of the reading thread: the edge detection of the charging state, then a message.\<close>

record dump_state =
  g_was_charging :: bool
  g_stop_charging_time :: uint64
  g_log_queue :: log_queue_t

definition dy_candump_pthread :: "uint64 \<Rightarrow> bool \<Rightarrow> can_frame option \<Rightarrow> string \<Rightarrow> dump_state \<Rightarrow> dump_state" where
  "dy_candump_pthread current_time log_flag frm time_str s =
     (let s1 = (if log_flag \<and> \<not> g_was_charging s then s\<lparr>g_was_charging := True\<rparr>
                else if \<not> log_flag \<and> g_was_charging s
                     then s\<lparr>g_was_charging := False, g_stop_charging_time := current_time\<rparr>
                else s)
      in if log_flag then
           (case double_buffer_push (Some (g_log_queue s1)) (Some (snd (read_can_msg_log frm time_str MAX_LOG_MSG_LEN))) of
              (_, Some q) \<Rightarrow> s1\<lparr>g_log_queue := q\<rparr>
            | _ \<Rightarrow> s1)
         else s1)"

definition log_queue_zero :: log_queue_t where
  "log_queue_zero =
     \<lparr>log_msg_queue = replicate 2 (replicate INIT_LOG_QUEUE_SIZE (replicate MAX_LOG_MSG_LEN (CHR 0x00))),
      cur_buf_index = 0, write_index = 0, cnt = [0, 0]\<rparr>"

subsection \<open>Invariant\<close>

definition msg_ok :: "string \<Rightarrow> bool" where
  "msg_ok m \<longleftrightarrow> length m < MAX_LOG_MSG_LEN \<and> CHR 0x00 \<notin> set m"

definition log_wf :: "log_queue_t \<Rightarrow> bool" where
  "log_wf q \<longleftrightarrow>
     cur_buf_index q \<le> 1 \<and> length (cnt q) = 2 \<and> length (log_msg_queue q) = 2 \<and>
     list_all (\<lambda>b. length b = INIT_LOG_QUEUE_SIZE) (log_msg_queue q) \<and>
     list_all (\<lambda>n. n \<le> INIT_LOG_QUEUE_SIZE) (cnt q) \<and>
     write_index q = cnt q ! cur_buf_index q mod INIT_LOG_QUEUE_SIZE"

text \<open>The messages in a buffer, oldest first; \<open>front\<close> is being filled, \<open>pending\<close> waits to be written.\<close>

definition buffered :: "log_queue_t \<Rightarrow> nat \<Rightarrow> string list" where
  "buffered q b = map slot_text (take (cnt q ! b) (log_msg_queue q ! b))"

definition front :: "log_queue_t \<Rightarrow> string list" where
  "front q = buffered q (cur_buf_index q)"

definition pending :: "log_queue_t \<Rightarrow> string list" where
  "pending q = buffered q (1 - cur_buf_index q)"

lemma takeWhile_padded: "c \<notin> set m \<Longrightarrow> takeWhile (\<lambda>x. x \<noteq> c) (m @ replicate k c) = m"
  by (induction m) (auto simp: takeWhile_eq_Nil_iff hd_replicate)

lemma slot_text_copy: "msg_ok m \<Longrightarrow> slot_text (strncpy_slot m) = m"
  by (simp add: msg_ok_def slot_text_def strncpy_slot_def takeWhile_padded)

lemma log_wfD:
  assumes "log_wf q"
  obtains b0 b1 n0 n1 where "log_msg_queue q = [b0, b1]" "cnt q = [n0, n1]" "length b0 = 20" "length b1 = 20"
    "n0 \<le> 20" "n1 \<le> 20" "cur_buf_index q = 0 \<or> cur_buf_index q = 1" "write_index q = cnt q ! cur_buf_index q mod 20"
  using assms
  by (auto simp: log_wf_def numeral_2_eq_2 length_Suc_conv INIT_LOG_QUEUE_SIZE_def le_Suc_eq)

lemma push_buffers:
  assumes wf: "log_wf q" and m: "msg_ok m"
  shows "\<exists>q'. double_buffer_push (Some q) (Some m) = (0, Some q') \<and> log_wf q' \<and>
     (if length (front q) < 20 then front q' = front q @ [m] \<and> pending q' = pending q
      else front q' = [m] \<and> pending q' = front q)"
  using wf
proof (rule log_wfD)
  fix b0 b1 n0 n1
  assume q: "log_msg_queue q = [b0, b1]" "cnt q = [n0, n1]" "length b0 = 20" "length b1 = 20"
    "n0 \<le> 20" "n1 \<le> 20" "cur_buf_index q = 0 \<or> cur_buf_index q = 1" "write_index q = cnt q ! cur_buf_index q mod 20"
  then show ?thesis
    using slot_text_copy [OF m]
    by (auto simp: double_buffer_push_def Let_def log_wf_def front_def pending_def buffered_def INIT_LOG_QUEUE_SIZE_def
        take_Suc_conv_app_nth take_update_cancel)
qed

lemma write_buffers:
  assumes "log_wf q"
  shows "log_write_pthread q = (if pending q = [] then None else Some (pending q, q\<lparr>cnt := (cnt q)[1 - cur_buf_index q := 0]\<rparr>))"
    and "log_wf (q\<lparr>cnt := (cnt q)[1 - cur_buf_index q := 0]\<rparr>)"
    and "front (q\<lparr>cnt := (cnt q)[1 - cur_buf_index q := 0]\<rparr>) = front q"
    and "pending (q\<lparr>cnt := (cnt q)[1 - cur_buf_index q := 0]\<rparr>) = []"
  using assms
  by (rule log_wfD, auto simp: log_write_pthread_def Let_def log_wf_def front_def pending_def buffered_def INIT_LOG_QUEUE_SIZE_def)+

subsection \<open>Properties\<close>

lemma length_hex [simp]: "length (hex n v) = n"
  by (induction n v rule: hex.induct) simp_all

lemma hex_digit_not_nul: "d < 16 \<Longrightarrow> hex_digit d \<noteq> CHR 0x00"
  by (auto simp: hex_digit_def less_Suc_eq numeral_eq_Suc)

lemma hex_no_nul: "CHR 0x00 \<notin> set (hex n v)"
proof (induction n v rule: hex.induct)
  case (2 n v)
  then show ?case using hex_digit_not_nul [of "v mod 16"] by auto
qed simp

lemma length_hex_bytes [simp]: "length (hex_bytes bs) = 3 * length bs"
  by (induction bs) (simp_all add: hex_bytes_def)

lemma hex_bytes_no_nul: "CHR 0x00 \<notin> set (hex_bytes bs)"
  using hex_no_nul by (auto simp: hex_bytes_def)

text \<open>
  The log line. For a classic frame of eight data bytes and a time of 26 characters (date, time and
  microseconds) nothing is cut off: the line has exactly 76 characters, ends with a newline, and so fits a slot
  of 77 bytes with its terminator.
\<close>

theorem log_line_fits:
  assumes "length (frame_data f) = 8" and "length time_str = 26" and "CHR 0x00 \<notin> set time_str"
  shows "\<exists>line. read_can_msg_log (Some f) time_str MAX_LOG_MSG_LEN = (0, line @ [CHR 0x0A]) \<and>
     length (line @ [CHR 0x0A]) = 76 \<and> msg_ok (line @ [CHR 0x0A]) \<and>
     line = ''('' @ time_str @ '')  mcan1  '' @ hex 8 (unat (can_id f)) @ ''  [8] '' @ hex_bytes (frame_data f)"
  using assms hex_no_nul hex_bytes_no_nul
  by (simp add: read_can_msg_log_def snprintf_buf_def MAX_LOG_MSG_LEN_def msg_ok_def)

text \<open>
  The interleavings of the two threads: the reader pushes, the writer writes when it is not waiting.
  \<open>log_reach q ps ws n\<close>: after pushing \<open>ps\<close> in order, \<open>ws\<close> has been written, the buffers are \<open>q\<close>, and \<open>n\<close>
  messages were in the buffer that a swap reused before the writer came to it.
\<close>

inductive log_reach :: "log_queue_t \<Rightarrow> string list \<Rightarrow> string list \<Rightarrow> nat \<Rightarrow> bool" where
  init: "log_reach log_queue_zero [] [] 0"
| push: "log_reach q ps ws n \<Longrightarrow> msg_ok m \<Longrightarrow> double_buffer_push (Some q) (Some m) = (0, Some q') \<Longrightarrow>
         log_reach q' (ps @ [m]) ws (n + (if length (front q) < 20 then 0 else length (pending q)))"
| flush: "log_reach q ps ws n \<Longrightarrow> log_write_pthread q = Some (out, q') \<Longrightarrow> log_reach q' ps (ws @ out) n"

lemma log_reach_inv:
  "log_reach q ps ws n \<Longrightarrow>
   log_wf q \<and> subseq (ws @ pending q @ front q) ps \<and> length ps = length (ws @ pending q @ front q) + n"
proof (induction rule: log_reach.induct)
  case init
  then show ?case
    by (auto simp: log_wf_def log_queue_zero_def front_def pending_def buffered_def INIT_LOG_QUEUE_SIZE_def numeral_2_eq_2)
next
  case (push q ps ws n m q')
  then have wf: "log_wf q'" and b: "if length (front q) < 20 then front q' = front q @ [m] \<and> pending q' = pending q
      else front q' = [m] \<and> pending q' = front q"
    using push_buffers [of q m] by auto
  show ?case
  proof (cases "length (front q) < 20")
    case True
    then show ?thesis using push.IH b wf by (simp flip: append_assoc)
  next
    case False
    have "subseq (ws @ front q) (ws @ pending q @ front q)" by (simp add: subseq_append' subseq_drop_many)
    then have "subseq (ws @ front q) ps" using push.IH subseq_order.order_trans by blast
    then show ?thesis using False push.IH b wf by (simp flip: append_assoc)
  qed
next
  case (flush q ps ws n out q')
  then have "out = pending q" "q' = q\<lparr>cnt := (cnt q)[1 - cur_buf_index q := 0]\<rparr>"
    using write_buffers(1) [of q] by (auto split: if_splits)
  then show ?case using flush.IH write_buffers(2-4) [of q] by simp
qed

text \<open>
  Order and loss. Whatever the interleaving, what has been written followed by what is buffered is the
  pushed sequence with some messages left out: none is duplicated, invented or moved. The number left
  out is exactly the number of messages that swaps found unwritten, so a writer that keeps up loses none.
\<close>

theorem log_order_and_loss:
  assumes "log_reach q ps ws n"
  shows "subseq (ws @ pending q @ front q) ps \<and> length ps = length (ws @ pending q @ front q) + n \<and>
     (n = 0 \<longrightarrow> ws @ pending q @ front q = ps)"
  using log_reach_inv [OF assms] subseq_same_length [of "ws @ pending q @ front q" ps] by auto

theorem log_line_fits_witness:
  "\<exists>line. read_can_msg_log (Some sample_frame) (replicate 26 (CHR ''0'')) MAX_LOG_MSG_LEN = (0, line @ [CHR 0x0A]) \<and>
     length (line @ [CHR 0x0A]) = 76"
  using log_line_fits [of sample_frame "replicate 26 (CHR ''0'')"] by (auto simp: sample_frame_def)

theorem log_order_and_loss_witness: "[] @ pending log_queue_zero @ front log_queue_zero = []"
  using log_order_and_loss [OF log_reach.init] by simp

end
