(* ===== verification/Json_Tree.thy ===== *)
theory Json_Tree
  imports Prelude
begin

text \<open>
  The nodes of the JSON library (\<^verbatim>\<open>src/include/cjsonx/cJSON.h\<close>) that the configuration merge and the web handlers read
  and write directly. The chain of the children of a node is a list, so a pointer to a child is its position.
  The code of the library is not part of the sources: its functions are the fields of \<open>'f cjson_tree\<close>, and
  \<open>tree_ok\<close> says what the header documents of them. Floating-point numbers are only copied, so their type \<open>'f\<close> is
  left open.
\<close>

datatype 'f cJSON =
  CJSON (jtype: int) (jstr: "string option") (jint: int32) (jdbl: 'f) (jkey: "string option") (jchild: "'f cJSON list")

definition cJSON_False :: int where "cJSON_False = 1"
definition cJSON_True :: int where "cJSON_True = 2"
definition cJSON_NULL :: int where "cJSON_NULL = 4"
definition cJSON_Number :: int where "cJSON_Number = 8"
definition cJSON_String :: int where "cJSON_String = 16"
definition cJSON_Array :: int where "cJSON_Array = 32"
definition cJSON_Object :: int where "cJSON_Object = 64"
definition cJSON_Raw :: int where "cJSON_Raw = 128"

lemmas cjson_types [simp] = cJSON_False_def cJSON_True_def cJSON_NULL_def cJSON_Number_def cJSON_String_def cJSON_Array_def
  cJSON_Object_def cJSON_Raw_def

text \<open>The low byte of the type; assignments to the fields of a node.\<close>

definition kind :: "'f cJSON \<Rightarrow> int" where
  "kind v = jtype v mod 256"

definition set_type :: "int \<Rightarrow> 'f cJSON \<Rightarrow> 'f cJSON" where
  "set_type t v = CJSON t (jstr v) (jint v) (jdbl v) (jkey v) (jchild v)"

definition set_int :: "int32 \<Rightarrow> 'f cJSON \<Rightarrow> 'f cJSON" where
  "set_int i v = CJSON (jtype v) (jstr v) i (jdbl v) (jkey v) (jchild v)"

definition set_children :: "'f cJSON list \<Rightarrow> 'f cJSON \<Rightarrow> 'f cJSON" where
  "set_children cs v = CJSON (jtype v) (jstr v) (jint v) (jdbl v) (jkey v) cs"

lemma set_fields [simp]:
  "jtype (set_type t v) = t" "jstr (set_type t v) = jstr v" "jint (set_type t v) = jint v" "jdbl (set_type t v) = jdbl v"
  "jkey (set_type t v) = jkey v" "jchild (set_type t v) = jchild v"
  "jtype (set_int i v) = jtype v" "jstr (set_int i v) = jstr v" "jint (set_int i v) = i" "jdbl (set_int i v) = jdbl v"
  "jkey (set_int i v) = jkey v" "jchild (set_int i v) = jchild v"
  "jtype (set_children cs v) = jtype v" "jstr (set_children cs v) = jstr v" "jint (set_children cs v) = jint v"
  "jdbl (set_children cs v) = jdbl v" "jkey (set_children cs v) = jkey v" "jchild (set_children cs v) = cs"
  "set_type (jtype v) v = v" "set_int (jint v) v = v" "set_children (jchild v) v = v"
  by (simp_all add: set_type_def set_int_def set_children_def)

lemma set_type_same [simp]: "jtype v = t \<Longrightarrow> set_type t v = v"
  by auto

lemma all_named_iff: "list_all (\<lambda>c. jkey c \<noteq> None) cs \<longleftrightarrow> None \<notin> set (map jkey cs)"
  by (induction cs) auto

record 'f cjson_tree =
  get_cs :: "'f cJSON \<Rightarrow> string \<Rightarrow> nat option"
  get_ci :: "'f cJSON \<Rightarrow> string \<Rightarrow> nat option"
  dup :: "'f cJSON \<Rightarrow> 'f cJSON option"
  replace_ptr :: "'f cJSON \<Rightarrow> nat option \<Rightarrow> 'f cJSON \<Rightarrow> 'f cJSON"
  set_number :: "'f cJSON \<Rightarrow> 'f \<Rightarrow> 'f cJSON"
  set_valuestring :: "'f cJSON \<Rightarrow> string option \<Rightarrow> 'f cJSON option"
  is_array :: "'f cJSON option \<Rightarrow> bool"
  array_size :: "'f cJSON \<Rightarrow> int"
  array_item :: "'f cJSON \<Rightarrow> int \<Rightarrow> nat option"

text \<open>
  Well-formed values, as parsing and the add functions build them: a type without flags, strings with their
  text, the children of an object named, without duplicates, and no others named.
\<close>

definition node_ok :: "'f cJSON \<Rightarrow> bool" where
  "node_ok v \<longleftrightarrow> jtype v \<in> {1, 2, 4, 8, 16, 32, 64, 128} \<and> (jtype v = cJSON_String \<longrightarrow> jstr v \<noteq> None) \<and>
     (if jtype v = cJSON_Object then list_all (\<lambda>c. jkey c \<noteq> None) (jchild v) \<and> distinct (map jkey (jchild v))
      else list_all (\<lambda>c. jkey c = None) (jchild v))"

fun jwf :: "'f cJSON \<Rightarrow> bool" where
  "jwf (CJSON t s i f k cs) = (node_ok (CJSON t s i f k cs) \<and> list_all jwf cs)"

lemma jwfD:
  assumes "jwf v"
  shows "node_ok v" "0 < jtype v" "jtype v < 256" "kind v = jtype v" "c \<in> set (jchild v) \<Longrightarrow> jwf c"
  using assms by (cases v; auto simp: node_ok_def kind_def list_all_iff split: if_splits)+

text \<open>
  The laws: a lookup returns a child of that name, and one exists if every child is named and one has the name;
  a copy of a well-formed value is identical; replacing and setting change what they name and nothing else. A
  string is set only on a string node.
\<close>

definition tree_ok :: "'f cjson_tree \<Rightarrow> bool" where
  "tree_ok lib \<longleftrightarrow>
     (\<forall>v k i. get_cs lib v k = Some i \<longrightarrow> i < length (jchild v) \<and> jkey (jchild v ! i) = Some k) \<and>
     (\<forall>v k. list_all (\<lambda>c. jkey c \<noteq> None) (jchild v) \<longrightarrow> Some k \<in> jkey ` set (jchild v) \<longrightarrow> get_cs lib v k \<noteq> None) \<and>
     (\<forall>v. jwf v \<longrightarrow> dup lib v = Some v) \<and>
     (\<forall>v i x. i < length (jchild v) \<longrightarrow> replace_ptr lib v (Some i) x = set_children ((jchild v)[i := x]) v) \<and>
     (\<forall>v x. replace_ptr lib v None x = v) \<and>
     (\<forall>v x. \<exists>n. set_number lib v x = CJSON (jtype v) (jstr v) n x (jkey v) (jchild v)) \<and>
     (\<forall>v s. jtype v \<noteq> cJSON_String \<longrightarrow> set_valuestring lib v s = None) \<and>
     (\<forall>v s. jtype v = cJSON_String \<longrightarrow> set_valuestring lib v (Some s) = Some (CJSON (jtype v) (Some s) (jint v) (jdbl v) (jkey v) (jchild v))) \<and>
     (\<forall>v s x. set_valuestring lib v s = Some x \<longrightarrow> jkey x = jkey v)"

lemma tree_okD:
  assumes "tree_ok lib"
  shows "get_cs lib v k = Some i \<Longrightarrow> i < length (jchild v)" "get_cs lib v k = Some i \<Longrightarrow> jkey (jchild v ! i) = Some k"
    "list_all (\<lambda>c. jkey c \<noteq> None) (jchild v) \<Longrightarrow> Some k \<in> jkey ` set (jchild v) \<Longrightarrow> get_cs lib v k \<noteq> None"
    "jwf v \<Longrightarrow> dup lib v = Some v"
    "i < length (jchild v) \<Longrightarrow> replace_ptr lib v (Some i) x = set_children ((jchild v)[i := x]) v"
    "replace_ptr lib v None x = v"
    "\<exists>n. set_number lib v y = CJSON (jtype v) (jstr v) n y (jkey v) (jchild v)"
    "jtype v \<noteq> cJSON_String \<Longrightarrow> set_valuestring lib v s' = None"
    "jtype v = cJSON_String \<Longrightarrow> set_valuestring lib v (Some s) = Some (CJSON (jtype v) (Some s) (jint v) (jdbl v) (jkey v) (jchild v))"
    "set_valuestring lib v s' = Some z \<Longrightarrow> jkey z = jkey v"
  using assms by (simp_all add: tree_ok_def)

lemma get_cs_found:
  assumes "tree_ok lib" and "list_all (\<lambda>c. jkey c \<noteq> None) (jchild v)" and "distinct (map jkey (jchild v))"
    and "i < length (jchild v)" and "jkey (jchild v ! i) = Some k"
  shows "get_cs lib v k = Some i"
proof -
  have "Some k \<in> jkey ` set (jchild v)" using assms(4,5) by (metis image_eqI nth_mem)
  then obtain j where j: "get_cs lib v k = Some j" using tree_okD(3) [OF assms(1,2)] by blast
  then have "j < length (jchild v)" "jkey (jchild v ! j) = Some k" using tree_okD(1,2) [OF assms(1)] by blast+
  then have "j = i" using assms(3-5) by (auto simp: distinct_conv_nth) metis
  then show ?thesis using j by simp
qed

text \<open>
  Reading arrays and objects without regard to case, as the web handlers do: a lookup finds a child whose name
  equals the requested one up to case, if every child is named and there is one; an array gives its size and its
  items by index.
\<close>

definition lower :: "string \<Rightarrow> string" where
  "lower s = map (\<lambda>c. if 65 \<le> (of_char c :: nat) \<and> (of_char c :: nat) \<le> 90 then char_of ((of_char c :: nat) + 32) else c) s"

definition read_ok :: "'f cjson_tree \<Rightarrow> bool" where
  "read_ok lib \<longleftrightarrow>
     (\<forall>v k i. get_ci lib v k = Some i \<longrightarrow> i < length (jchild v) \<and> map_option lower (jkey (jchild v ! i)) = Some (lower k)) \<and>
     (\<forall>v k. list_all (\<lambda>c. jkey c \<noteq> None) (jchild v) \<longrightarrow> Some (lower k) \<in> (\<lambda>c. map_option lower (jkey c)) ` set (jchild v) \<longrightarrow>
        get_ci lib v k \<noteq> None) \<and>
     \<not> is_array lib None \<and> (\<forall>v. is_array lib (Some v) = (kind v = cJSON_Array)) \<and>
     (\<forall>v. int (length (jchild v)) < 2 ^ 31 \<longrightarrow> array_size lib v = int (length (jchild v))) \<and>
     (\<forall>v i. i < length (jchild v) \<longrightarrow> array_item lib v (int i) = Some i)"

text \<open>In a well-formed value a lookup is the search among the children.\<close>

definition child_named :: "string option \<Rightarrow> 'f cJSON \<Rightarrow> 'f cJSON option" where
  "child_named k v = find (\<lambda>c. jkey c = k) (jchild v)"

lemma child_named_Some:
  assumes "tree_ok lib" and "node_ok v" and "child_named (Some k) v = Some c"
  shows "\<exists>j. get_cs lib v k = Some j \<and> j < length (jchild v) \<and> jchild v ! j = c \<and> jkey c = Some k"
proof -
  obtain j where j: "j < length (jchild v)" "jkey (jchild v ! j) = Some k" "c = jchild v ! j"
    using assms(3) by (auto simp: child_named_def find_Some_iff)
  then have "jtype v = cJSON_Object" using assms(2) by (auto simp: node_ok_def list_all_length split: if_splits)
  then have "list_all (\<lambda>c. jkey c \<noteq> None) (jchild v)" "distinct (map jkey (jchild v))" using assms(2) by (auto simp: node_ok_def)
  then show ?thesis using get_cs_found [OF assms(1) _ _ j(1,2)] j by blast
qed

lemma child_named_None:
  assumes "tree_ok lib" and "child_named (Some k) v = None"
  shows "get_cs lib v k = None"
proof (rule ccontr)
  assume "get_cs lib v k \<noteq> None"
  then obtain j where "j < length (jchild v)" "jkey (jchild v ! j) = Some k" using tree_okD(1,2) [OF assms(1)] by blast
  then show False using assms(2) by (auto simp: child_named_def find_None_iff)
qed

subsection \<open>A library with these laws\<close>

fun position :: "'a \<Rightarrow> 'a list \<Rightarrow> nat option" where
  "position x [] = None"
| "position x (y # ys) = (if x = y then Some 0 else map_option Suc (position x ys))"

lemma position_Some: "position x ys = Some i \<Longrightarrow> i < length ys \<and> ys ! i = x"
  by (induction ys arbitrary: i) (auto split: if_splits)

lemma position_None: "position x ys = None \<longleftrightarrow> x \<notin> set ys"
  by (induction ys) auto

definition list_tree :: "'f cjson_tree" where
  "list_tree =
     \<lparr>get_cs = (\<lambda>v k. position (Some k) (map jkey (jchild v))), get_ci = (\<lambda>v k. position (Some (lower k)) (map (\<lambda>c. map_option lower (jkey c)) (jchild v))),
      dup = Some,
      replace_ptr = (\<lambda>v i x. case i of None \<Rightarrow> v | Some i \<Rightarrow> set_children ((jchild v)[i := x]) v),
      set_number = (\<lambda>v x. CJSON (jtype v) (jstr v) (jint v) x (jkey v) (jchild v)),
      set_valuestring = (\<lambda>v s. if jtype v = cJSON_String
         then map_option (\<lambda>t. CJSON (jtype v) (Some t) (jint v) (jdbl v) (jkey v) (jchild v)) s else None),
      is_array = (\<lambda>v. case v of None \<Rightarrow> False | Some v \<Rightarrow> kind v = cJSON_Array),
      array_size = (\<lambda>v. int (length (jchild v))),
      array_item = (\<lambda>v i. if 0 \<le> i \<and> i < int (length (jchild v)) then Some (nat i) else None)\<rparr>"

lemma list_tree_ok: "tree_ok list_tree"
proof -
  have "get_cs list_tree v k = Some i \<Longrightarrow> i < length (jchild v) \<and> jkey (jchild v ! i) = Some k" for v :: "'a cJSON" and k i
    using position_Some [of "Some k" "map jkey (jchild v)" i] by (auto simp: list_tree_def)
  moreover have "get_cs list_tree v k \<noteq> None" if "Some k \<in> jkey ` set (jchild v)" for v :: "'a cJSON" and k
    using that by (simp add: list_tree_def position_None del: not_None_eq)
  ultimately show ?thesis unfolding tree_ok_def by (auto simp: list_tree_def simp del: not_None_eq cjson_types)
qed

lemma list_tree_read_ok: "read_ok list_tree"
proof -
  have "get_ci list_tree v k = Some i \<Longrightarrow> i < length (jchild v) \<and> map_option lower (jkey (jchild v ! i)) = Some (lower k)"
    for v :: "'a cJSON" and k i
    using position_Some [of "Some (lower k)" "map (\<lambda>c. map_option lower (jkey c)) (jchild v)" i] by (auto simp: list_tree_def)
  moreover have "get_ci list_tree v k \<noteq> None" if "Some (lower k) \<in> (\<lambda>c. map_option lower (jkey c)) ` set (jchild v)"
    for v :: "'a cJSON" and k
    using that by (simp add: list_tree_def position_None del: not_None_eq)
  ultimately show ?thesis unfolding read_ok_def by (auto simp: list_tree_def simp del: not_None_eq cjson_types)
qed

definition jnum :: "string \<Rightarrow> int \<Rightarrow> int cJSON" where
  "jnum k n = CJSON cJSON_Number None (word_of_int n) n (Some k) []"

definition jobj :: "string option \<Rightarrow> int cJSON list \<Rightarrow> int cJSON" where
  "jobj k cs = CJSON cJSON_Object None 0 0 k cs"

end
