(* ===== verification/Config.thy ===== *)
theory Config
  imports Utils
begin

text \<open>
  The configuration manager of \<^verbatim>\<open>src/src/config/config_manage.c\<close>: two tables of named JSON values, the
  defaults and the current ones, each value mirrored in a file, and lists of callbacks that are told of
  a change. A uthash table is the list of its items in insertion order; the linked list of
  owners is the list of its callbacks. The JSON library (cJSON, not part of the sources) is the record
  \<open>'j cjson_lib\<close>, and what the manager relies on is \<open>cjson_ok\<close>. \<open>mem\<close> gives the outcome of each allocation and
  lock initialisation of a call by its site; the file system is a map from paths to contents.
\<close>

subsection \<open>Data\<close>

record 'j cjson_lib =
  cj_compare :: "'j option \<Rightarrow> 'j \<Rightarrow> bool"
  cj_duplicate :: "'j \<Rightarrow> 'j option"
  cj_parse :: "string \<Rightarrow> 'j option"
  cj_print :: "'j \<Rightarrow> string option"
  cj_print_unformatted :: "'j option \<Rightarrow> string option"

type_synonym change_cb = nat

record 'j config_manage_t =
  path :: string
  name :: string
  cvalue :: "'j option"
  owners :: "change_cb list"

datatype config_type_e = CFG_DEFAULT | CFG_CURRENT

type_synonym file_system = "string \<rightharpoonup> string"

record 'j config_state =
  g_config_manage :: "'j config_manage_t list"
  g_default_config_manage :: "'j config_manage_t list"
  files :: file_system
  notified :: "(change_cb \<times> 'j \<times> 'j) list"

datatype alloc_site = SuffixBuf | PrefixBuf | ItemBlk | NameBuf | PathBuf | ValueLock | OwnersLock | OwnerBlk | ReadBuf | DestBuf

type_synonym mem = "alloc_site \<Rightarrow> bool"

record file_io =
  can_open :: "string \<Rightarrow> bool"
  has_fd :: "string \<Rightarrow> bool"
  fsync_ok :: "string \<Rightarrow> bool"

definition CONFIG_PATH :: string where
  "CONFIG_PATH = ''/home/zlgmcu/project/learnC++/src/config/config_path/current''"

definition DEFAULT_CONFIG_PATH :: string where
  "DEFAULT_CONFIG_PATH = ''/home/zlgmcu/project/learnC++/src/config/config_path/default''"

definition config_dir :: "config_type_e \<Rightarrow> string" where
  "config_dir where_e = (if where_e = CFG_DEFAULT then DEFAULT_CONFIG_PATH else CONFIG_PATH)"

subsection \<open>Names, items and files\<close>

definition name_add_suffix :: "mem \<Rightarrow> string option \<Rightarrow> string option" where
  "name_add_suffix mem n = (case n of None \<Rightarrow> None | Some n \<Rightarrow> if mem SuffixBuf then Some (n @ ''.json'') else None)"

definition name_add_prefix :: "mem \<Rightarrow> string option \<Rightarrow> string option" where
  "name_add_prefix mem n = (case n of None \<Rightarrow> None | Some n \<Rightarrow> if mem PrefixBuf then Some (''default_'' @ n) else None)"

definition new_config_item ::
  "'j cjson_lib \<Rightarrow> mem \<Rightarrow> string \<Rightarrow> 'j \<Rightarrow> config_type_e \<Rightarrow> 'j config_manage_t option" where
  "new_config_item lib mem n config where_e =
     (if \<not> mem ItemBlk then None
      else if \<not> mem NameBuf then None
      else
        (case cj_duplicate lib config of
           None \<Rightarrow> None
         | Some v \<Rightarrow>
             if \<not> mem PathBuf then None
             else if \<not> mem ValueLock then None
             else if \<not> mem OwnersLock then None
             else Some \<lparr>path = config_dir where_e @ ''/'' @ n, name = n, cvalue = Some v, owners = []\<rparr>))"

definition find_config_item :: "'j config_manage_t list \<Rightarrow> string option \<Rightarrow> 'j config_manage_t option" where
  "find_config_item table n = (case n of None \<Rightarrow> None | Some n \<Rightarrow> find (\<lambda>s. name s = n) table)"

text \<open>Changing the item that was found: the first with its name.\<close>

fun upd_item :: "string \<Rightarrow> ('j config_manage_t \<Rightarrow> 'j config_manage_t) \<Rightarrow> 'j config_manage_t list \<Rightarrow> 'j config_manage_t list" where
  "upd_item n f [] = []"
| "upd_item n f (s # ss) = (if name s = n then f s # ss else s # upd_item n f ss)"

definition write_memory_to_file ::
  "'j cjson_lib \<Rightarrow> file_io \<Rightarrow> 'j option \<Rightarrow> string \<Rightarrow> file_system \<Rightarrow> bool \<times> file_system" where
  "write_memory_to_file lib io config p fs =
     (case config of
        None \<Rightarrow> (False, fs)
      | Some v \<Rightarrow>
          (case cj_print lib v of
             None \<Rightarrow> (False, fs)
           | Some json_string \<Rightarrow>
               if \<not> can_open io p then (False, fs)
               else (has_fd io p \<and> fsync_ok io p, fs(p \<mapsto> json_string))))"

text \<open>The result is the returned flag and what is stored through the out parameter.\<close>

definition read_file_to_memory ::
  "'j cjson_lib \<Rightarrow> mem \<Rightarrow> file_system \<Rightarrow> string \<Rightarrow> bool \<times> 'j option" where
  "read_file_to_memory lib mem fs p =
     (case fs p of
        None \<Rightarrow> (False, None)
      | Some text \<Rightarrow>
          if length text = 0 then (False, None)
          else if \<not> mem ReadBuf then (False, None)
          else (True, cj_parse lib text))"

subsection \<open>Owners\<close>

definition config_attach ::
  "mem \<Rightarrow> string option \<Rightarrow> change_cb option \<Rightarrow> 'j config_state \<Rightarrow> bool \<times> 'j config_state" where
  "config_attach mem n cb st =
     (case (n, cb) of
        (Some _, Some cb) \<Rightarrow>
          (case find_config_item (g_config_manage st) (name_add_suffix mem n) of
             None \<Rightarrow> (False, st)
           | Some s \<Rightarrow>
               if \<not> mem OwnerBlk then (False, st)
               else (True, st\<lparr>g_config_manage := upd_item (name s) (\<lambda>s. s\<lparr>owners := owners s @ [cb]\<rparr>) (g_config_manage st)\<rparr>))
      | _ \<Rightarrow> (False, st))"

definition find_owner :: "'j config_manage_t \<Rightarrow> change_cb \<Rightarrow> change_cb option" where
  "find_owner s cb = find (\<lambda>c. c = cb) (owners s)"

definition config_detach ::
  "mem \<Rightarrow> string option \<Rightarrow> change_cb option \<Rightarrow> 'j config_state \<Rightarrow> bool \<times> 'j config_state" where
  "config_detach mem n cb st =
     (case (n, cb) of
        (Some _, Some cb) \<Rightarrow>
          (case find_config_item (g_config_manage st) (name_add_suffix mem n) of
             None \<Rightarrow> (False, st)
           | Some s \<Rightarrow>
               (case find_owner s cb of
                  None \<Rightarrow> (False, st)
                | Some _ \<Rightarrow>
                    (True, st\<lparr>g_config_manage := upd_item (name s) (\<lambda>s. s\<lparr>owners := remove1 cb (owners s)\<rparr>) (g_config_manage st)\<rparr>)))
      | _ \<Rightarrow> (False, st))"

definition notify_owner ::
  "string option \<Rightarrow> 'j option \<Rightarrow> 'j option \<Rightarrow> 'j config_state \<Rightarrow> bool \<times> 'j config_state" where
  "notify_owner config old_value new_value st =
     (case (config, old_value, new_value) of
        (Some c, Some old, Some new) \<Rightarrow>
          (case find (\<lambda>s. name s = c) (g_config_manage st) of
             None \<Rightarrow> (False, st)
           | Some s \<Rightarrow> (True, st\<lparr>notified := notified st @ map (\<lambda>cb. (cb, old, new)) (owners s)\<rparr>))
      | _ \<Rightarrow> (False, st))"

subsection \<open>Setting and reading\<close>

definition set_config ::
  "'j cjson_lib \<Rightarrow> mem \<Rightarrow> file_io \<Rightarrow> string option \<Rightarrow> 'j option \<Rightarrow> 'j config_state \<Rightarrow> bool \<times> 'j config_state" where
  "set_config lib mem io n config st =
     (case (n, config) of
        (Some _, Some v) \<Rightarrow>
          (let config_name = name_add_suffix mem n;
               default_config_name = name_add_prefix mem config_name
           in case (find_config_item (g_config_manage st) config_name,
                    find_config_item (g_default_config_manage st) default_config_name) of
                (None, None) \<Rightarrow> (False, st)
              | (None, Some _) \<Rightarrow>
                  (case config_name of
                     None \<Rightarrow> (False, st)
                   | Some cn \<Rightarrow>
                       (case new_config_item lib mem cn v CFG_CURRENT of
                          None \<Rightarrow> (False, st)
                        | Some s \<Rightarrow>
                            (True, st\<lparr>g_config_manage := g_config_manage st @ [s],
                                      files := snd (write_memory_to_file lib io (cvalue s) (path s) (files st))\<rparr>)))
              | (Some _, None) \<Rightarrow> (False, st)
              | (Some s, Some _) \<Rightarrow>
                  if cj_compare lib (cvalue s) v then (True, st)
                  else
                    (let st1 = snd (notify_owner config_name (cvalue s) config st);
                         v' = cj_duplicate lib v
                     in (True, st1\<lparr>g_config_manage := upd_item (name s) (\<lambda>s. s\<lparr>cvalue := v'\<rparr>) (g_config_manage st1),
                                   files := snd (write_memory_to_file lib io v' (path s) (files st1))\<rparr>)))
      | _ \<Rightarrow> (False, st))"

definition read_item :: "'j cjson_lib \<Rightarrow> 'j config_manage_t \<Rightarrow> 'j option" where
  "read_item lib s = (case cvalue s of None \<Rightarrow> None | Some v \<Rightarrow> cj_duplicate lib v)"

definition get_config :: "'j cjson_lib \<Rightarrow> mem \<Rightarrow> string option \<Rightarrow> 'j config_state \<Rightarrow> 'j option" where
  "get_config lib mem n st =
     (case n of
        None \<Rightarrow> None
      | Some _ \<Rightarrow>
          (case find_config_item (g_config_manage st) (name_add_suffix mem n) of None \<Rightarrow> None | Some s \<Rightarrow> read_item lib s))"

definition get_config_str :: "'j cjson_lib \<Rightarrow> mem \<Rightarrow> string option \<Rightarrow> 'j config_state \<Rightarrow> string option" where
  "get_config_str lib mem n st = cj_print_unformatted lib (get_config lib mem n st)"

definition get_default_config :: "'j cjson_lib \<Rightarrow> mem \<Rightarrow> string option \<Rightarrow> 'j config_state \<Rightarrow> 'j option" where
  "get_default_config lib mem n st =
     (case n of
        None \<Rightarrow> None
      | Some _ \<Rightarrow>
          (case find_config_item (g_default_config_manage st) (name_add_suffix mem (name_add_prefix mem n)) of
             None \<Rightarrow> None | Some s \<Rightarrow> read_item lib s))"

definition get_default_config_str :: "'j cjson_lib \<Rightarrow> mem \<Rightarrow> string option \<Rightarrow> 'j config_state \<Rightarrow> string option" where
  "get_default_config_str lib mem n st = cj_print_unformatted lib (get_default_config lib mem n st)"

text \<open>
  \<^verbatim>\<open>replace_object\<close> takes over the value it is given and writes its file. The name is built in a
  buffer of 128 bytes, so it is cut off after 127 characters.
\<close>

definition replace_object ::
  "'j cjson_lib \<Rightarrow> file_io \<Rightarrow> string option \<Rightarrow> 'j option \<Rightarrow> config_type_e \<Rightarrow> 'j config_state \<Rightarrow> bool \<times> 'j config_state" where
  "replace_object lib io n config config_type st =
     (case (n, config) of
        (Some n, Some v) \<Rightarrow>
          (let config_name = snprintf_text 128 (if config_type = CFG_DEFAULT then ''default_'' @ n @ ''.json'' else n @ ''.json'');
               table = (if config_type = CFG_DEFAULT then g_default_config_manage st else g_config_manage st)
           in case find_config_item table (Some config_name) of
                None \<Rightarrow> (False, st)
              | Some s \<Rightarrow>
                  (let table' = upd_item (name s) (\<lambda>s. s\<lparr>cvalue := Some v\<rparr>) table;
                       fs = snd (write_memory_to_file lib io (Some v) (path s) (files st))
                   in (True, if config_type = CFG_DEFAULT then st\<lparr>g_default_config_manage := table', files := fs\<rparr>
                             else st\<lparr>g_config_manage := table', files := fs\<rparr>)))
      | _ \<Rightarrow> (False, st))"

definition set_default_config ::
  "'j cjson_lib \<Rightarrow> mem \<Rightarrow> file_io \<Rightarrow> string option \<Rightarrow> 'j option \<Rightarrow> 'j config_state \<Rightarrow> bool \<times> 'j config_state" where
  "set_default_config lib mem io n config st =
     (case (n, config) of
        (Some _, Some v) \<Rightarrow>
          (let default_config_name = name_add_suffix mem (name_add_prefix mem n)
           in case find_config_item (g_default_config_manage st) default_config_name of
                None \<Rightarrow>
                  (case default_config_name of
                     None \<Rightarrow> (False, st)
                   | Some dn \<Rightarrow>
                       (case new_config_item lib mem dn v CFG_DEFAULT of
                          None \<Rightarrow> (False, st)
                        | Some s \<Rightarrow>
                            (let st1 = st\<lparr>g_default_config_manage := g_default_config_manage st @ [s],
                                          files := snd (write_memory_to_file lib io (cvalue s) (path s) (files st))\<rparr>
                             in (True, snd (set_config lib mem io n config st1)))))
              | Some s \<Rightarrow>
                  if cj_compare lib (cvalue s) v then
                    (case find_config_item (g_config_manage st) (name_add_suffix mem n) of
                       None \<Rightarrow> (True, snd (set_config lib mem io n config st))
                     | Some _ \<Rightarrow> (True, st))
                  else
                    (let v' = cj_duplicate lib v;
                         st1 = st\<lparr>g_default_config_manage := upd_item (name s) (\<lambda>s. s\<lparr>cvalue := v'\<rparr>) (g_default_config_manage st),
                                  files := snd (write_memory_to_file lib io v' (path s) (files st))\<rparr>
                     in (True, snd (set_config lib mem io n config st1))))
      | _ \<Rightarrow> (False, st))"

subsection \<open>Loading\<close>

definition add_config_item ::
  "'j cjson_lib \<Rightarrow> mem \<Rightarrow> 'j config_manage_t list \<Rightarrow> string \<Rightarrow> 'j option \<Rightarrow> bool \<Rightarrow> bool \<times> 'j config_manage_t list" where
  "add_config_item lib mem table n config path_flag =
     (case config of
        None \<Rightarrow> (False, table)
      | Some v \<Rightarrow>
          (case find (\<lambda>s. name s = n) table of
             None \<Rightarrow>
               (case new_config_item lib mem n v (if path_flag then CFG_DEFAULT else CFG_CURRENT) of
                  None \<Rightarrow> (False, table)
                | Some s \<Rightarrow> (True, table @ [s]))
           | Some s \<Rightarrow> (True, upd_item n (\<lambda>s. s\<lparr>cvalue := cj_duplicate lib v\<rparr>) table)))"

fun has_substring :: "string \<Rightarrow> string \<Rightarrow> bool" where
  "has_substring p [] \<longleftrightarrow> p = []"
| "has_substring p (c # cs) \<longleftrightarrow> take (length p) (c # cs) = p \<or> has_substring p cs"

text \<open>
  The loop over the directory; an entry is its name and whether \<^verbatim>\<open>stat\<close> finds a regular file
  (\<^const>\<open>None\<close>: the call fails). \<open>Inl\<close> is the early return after a failed allocation.
\<close>

fun load_entries ::
  "'j cjson_lib \<Rightarrow> mem \<Rightarrow> file_system \<Rightarrow> string \<Rightarrow> (string \<times> bool option) list \<Rightarrow> 'j config_manage_t list \<Rightarrow>
   'j config_manage_t list + 'j config_manage_t list" where
  "load_entries lib mem fs dir [] table = Inr table"
| "load_entries lib mem fs dir ((d_name, kind) # entries) table =
     (if take 1 d_name = ''.'' then load_entries lib mem fs dir entries table
      else if \<not> mem DestBuf then Inl table
      else
        (let dest_path = dir @ ''/'' @ d_name;
             flag = has_substring ''default'' dest_path
         in if kind = Some True
            then (case read_file_to_memory lib mem fs dest_path of
                    (True, v) \<Rightarrow> load_entries lib mem fs dir entries (snd (add_config_item lib mem table d_name v flag))
                  | (False, _) \<Rightarrow> load_entries lib mem fs dir entries table)
            else load_entries lib mem fs dir entries table))"

text \<open>\<open>listing\<close> is what \<^verbatim>\<open>opendir\<close> and \<^verbatim>\<open>readdir\<close> deliver for the directory.\<close>

definition config_hash_init ::
  "'j cjson_lib \<Rightarrow> mem \<Rightarrow> file_system \<Rightarrow> string \<Rightarrow> (string \<times> bool option) list option \<Rightarrow> 'j config_manage_t list \<Rightarrow>
   int \<times> 'j config_manage_t list" where
  "config_hash_init lib mem fs dir listing table =
     (case listing of
        None \<Rightarrow> (- 1, table)
      | Some entries \<Rightarrow>
          (case load_entries lib mem fs dir entries table of Inl t \<Rightarrow> (- 1, t) | Inr t \<Rightarrow> (0, t)))"

definition config_manage_init ::
  "'j cjson_lib \<Rightarrow> mem \<Rightarrow> (string \<Rightarrow> (string \<times> bool option) list option) \<Rightarrow> 'j config_state \<Rightarrow> bool \<times> 'j config_state" where
  "config_manage_init lib mem listing st =
     (case config_hash_init lib mem (files st) DEFAULT_CONFIG_PATH (listing DEFAULT_CONFIG_PATH) (g_default_config_manage st) of
        (err, t) \<Rightarrow>
          (let st1 = st\<lparr>g_default_config_manage := t\<rparr> in
           if err \<noteq> 0 then (False, st1)
           else
             (case config_hash_init lib mem (files st1) CONFIG_PATH (listing CONFIG_PATH) (g_config_manage st1) of
                (err', t') \<Rightarrow> (err' = 0, st1\<lparr>g_config_manage := t'\<rparr>))))"

subsection \<open>Tables\<close>

text \<open>What the manager relies on: a copy is the value itself, and a value compares equal to itself.\<close>

definition cjson_ok :: "'j cjson_lib \<Rightarrow> bool" where
  "cjson_ok lib \<longleftrightarrow> (\<forall>v. cj_duplicate lib v = Some v) \<and> (\<forall>v. cj_compare lib (Some v) v) \<and> (\<forall>w. \<not> cj_compare lib None w)"

definition all_ok :: "mem \<Rightarrow> bool" where
  "all_ok mem \<longleftrightarrow> (\<forall>site. mem site)"

abbreviation lookup :: "'j config_manage_t list \<Rightarrow> string \<Rightarrow> 'j config_manage_t option" where
  "lookup t n \<equiv> find (\<lambda>s. name s = n) t"

lemma lookup_name: "lookup t n = Some s \<Longrightarrow> name s = n"
  by (simp add: find_Some_iff) blast

lemma lookup_upd [simp]:
  assumes "\<And>s. name (f s) = name s"
  shows "lookup (upd_item n f t) m = (if m = n then map_option f (lookup t n) else lookup t m)"
  using assms by (induction t) auto

lemma lookup_append [simp]: "lookup (t @ [s]) m = (case lookup t m of None \<Rightarrow> if name s = m then Some s else None | Some r \<Rightarrow> Some r)"
  by (induction t) auto

lemma names_ok [simp]:
  assumes "all_ok mem"
  shows "name_add_suffix mem (Some n) = Some (n @ ''.json'')" "name_add_prefix mem (Some n) = Some (''default_'' @ n)"
  using assms by (simp_all add: all_ok_def name_add_suffix_def name_add_prefix_def)

lemma find_config_item_Some [simp]: "find_config_item t (Some n) = lookup t n"
  by (simp add: find_config_item_def)

lemma new_config_item_ok [simp]:
  assumes "all_ok mem" and "cjson_ok lib"
  shows "new_config_item lib mem n v w = Some \<lparr>path = config_dir w @ ''/'' @ n, name = n, cvalue = Some v, owners = []\<rparr>"
  using assms by (simp add: new_config_item_def all_ok_def cjson_ok_def)

lemma duplicate_ok [simp]: "cjson_ok lib \<Longrightarrow> cj_duplicate lib v = Some v"
  by (simp add: cjson_ok_def)

lemma compare_refl [simp]: "cjson_ok lib \<Longrightarrow> cj_compare lib (Some v) v" "cjson_ok lib \<Longrightarrow> \<not> cj_compare lib None v"
  by (simp_all add: cjson_ok_def)

lemma notify_shape [simp]:
  "g_config_manage (snd (notify_owner c old new st)) = g_config_manage st"
  "g_default_config_manage (snd (notify_owner c old new st)) = g_default_config_manage st"
  "files (snd (notify_owner c old new st)) = files st"
  by (simp_all add: notify_owner_def split: option.split)

text \<open>\<open>cfg_value t n\<close> is the value stored under a name; \<open>holds lib t n v\<close>: it compares equal to \<open>v\<close>.\<close>

definition holds :: "'j cjson_lib \<Rightarrow> 'j config_manage_t list \<Rightarrow> string \<Rightarrow> 'j \<Rightarrow> bool" where
  "holds lib t n v = (case lookup t n of None \<Rightarrow> False | Some s \<Rightarrow> cj_compare lib (cvalue s) v)"

lemma set_config_cases:
  assumes ok: "all_ok mem" "cjson_ok lib"
    and r: "set_config lib mem io (Some n) (Some v) st = (b, st')"
  shows "b = (lookup (g_default_config_manage st) (''default_'' @ n @ ''.json'') \<noteq> None) \<and>
     g_default_config_manage st' = g_default_config_manage st \<and>
     (b \<longrightarrow> holds lib (g_config_manage st') (n @ ''.json'') v) \<and>
     (\<not> b \<longrightarrow> st' = st) \<and>
     (\<forall>m. m \<noteq> n @ ''.json'' \<longrightarrow> lookup (g_config_manage st') m = lookup (g_config_manage st) m)"
  using r ok lookup_name [of "n @ ''.json''" "g_config_manage st"]
  by (auto simp: set_config_def holds_def Let_def split: option.splits if_splits)

lemma get_config_holds:
  assumes "all_ok mem" "cjson_ok lib" "holds lib (g_config_manage st) (n @ ''.json'') v"
  shows "\<exists>v'. get_config lib mem (Some n) st = Some v' \<and> cj_compare lib (Some v') v"
  using assms by (auto simp: get_config_def holds_def read_item_def split: option.splits)

subsection \<open>Properties\<close>

text \<open>
  C10. Setting a configuration. When allocations succeed, \<^verbatim>\<open>set_config\<close> returns true exactly when a default
  of that name exists; then \<^verbatim>\<open>get_config\<close> returns a value equal to the one set. A refused call changes
  nothing, the defaults never change, and neither does any other configuration.
\<close>

theorem set_config_spec:
  assumes "all_ok mem" and "cjson_ok lib" and "set_config lib mem io (Some n) (Some v) st = (b, st')"
  shows "(b \<longleftrightarrow> lookup (g_default_config_manage st) (''default_'' @ n @ ''.json'') \<noteq> None) \<and>
     (b \<longrightarrow> (\<exists>v'. get_config lib mem (Some n) st' = Some v' \<and> cj_compare lib (Some v') v)) \<and>
     (\<not> b \<longrightarrow> st' = st) \<and>
     g_default_config_manage st' = g_default_config_manage st \<and>
     (\<forall>m. m \<noteq> n \<longrightarrow> get_config lib mem (Some m) st' = get_config lib mem (Some m) st)"
proof -
  note c = set_config_cases [OF assms]
  have "get_config lib mem (Some m) st' = get_config lib mem (Some m) st" if "m \<noteq> n" for m
    using c that assms(1) by (simp add: get_config_def)
  then show ?thesis using c get_config_holds [OF assms(1,2), of st' n v] by blast
qed

text \<open>
  Setting a default. \<^verbatim>\<open>set_default_config\<close> returns true and stores the default. If the default is new or
  differs from the stored one, the current configuration of that name is overwritten with it, whatever
  it was; if the default is the same, an existing current configuration is left alone and a missing
  one is created from it.
\<close>

theorem set_default_config_spec:
  assumes "all_ok mem" and "cjson_ok lib"
    and "set_default_config lib mem io (Some n) (Some v) st = (b, st')"
  shows "b \<and> holds lib (g_default_config_manage st') (''default_'' @ n @ ''.json'') v \<and>
     (if holds lib (g_default_config_manage st) (''default_'' @ n @ ''.json'') v \<and>
         lookup (g_config_manage st) (n @ ''.json'') \<noteq> None
      then st' = st
      else \<exists>v'. get_config lib mem (Some n) st' = Some v' \<and> cj_compare lib (Some v') v)"
proof -
  let ?d = "''default_'' @ n @ ''.json''"
  have step: "holds lib (g_default_config_manage st1) ?d v \<and>
      g_default_config_manage (snd (set_config lib mem io (Some n) (Some v) st1)) = g_default_config_manage st1 \<and>
      (\<exists>v'. get_config lib mem (Some n) (snd (set_config lib mem io (Some n) (Some v) st1)) = Some v' \<and> cj_compare lib (Some v') v)"
    if "holds lib (g_default_config_manage st1) ?d v" for st1
    using that set_config_cases [OF assms(1,2), of io n v st1] get_config_holds [OF assms(1,2)]
    by (cases "set_config lib mem io (Some n) (Some v) st1") (auto simp: holds_def split: option.splits)
  show ?thesis
  proof (cases "lookup (g_default_config_manage st) ?d")
    case None
    let ?st1 = "st\<lparr>g_default_config_manage := g_default_config_manage st @
        [\<lparr>path = config_dir CFG_DEFAULT @ ''/'' @ ?d, name = ?d, cvalue = Some v, owners = []\<rparr>],
        files := snd (write_memory_to_file lib io (Some v) (config_dir CFG_DEFAULT @ ''/'' @ ?d) (files st))\<rparr>"
    have "holds lib (g_default_config_manage ?st1) ?d v" using None assms(2) by (simp add: holds_def)
    then show ?thesis
      using step [of ?st1] None assms by (auto simp: set_default_config_def holds_def Let_def)
  next
    case (Some s)
    show ?thesis
    proof (cases "cj_compare lib (cvalue s) v")
      case True
      then have "holds lib (g_default_config_manage st) ?d v" using Some by (simp add: holds_def)
      then show ?thesis
        using step [of st] Some True assms by (auto simp: set_default_config_def holds_def Let_def split: option.splits)
    next
      case False
      let ?st1 = "st\<lparr>g_default_config_manage := upd_item (name s) (\<lambda>s. s\<lparr>cvalue := Some v\<rparr>) (g_default_config_manage st),
          files := snd (write_memory_to_file lib io (Some v) (path s) (files st))\<rparr>"
      have "holds lib (g_default_config_manage ?st1) ?d v"
        using Some assms(2) lookup_name [OF Some] by (simp add: holds_def)
      then show ?thesis
        using step [of ?st1] Some False assms by (auto simp: set_default_config_def holds_def Let_def)
    qed
  qed
qed

lemma set_config_notified:
  assumes "all_ok mem" and "cjson_ok lib" and "lookup (g_config_manage st) (n @ ''.json'') = Some s" and "cvalue s = Some old"
    and "lookup (g_default_config_manage st) (''default_'' @ n @ ''.json'') = Some ds"
  shows "\<exists>st'. set_config lib mem io (Some n) (Some v) st = (True, st') \<and>
     notified st' = notified st @ (if cj_compare lib (Some old) v then [] else map (\<lambda>cb. (cb, old, v)) (owners s))"
  using assms by (simp add: set_config_def notify_owner_def Let_def)

text \<open>
  Notification. After a callback was attached to an existing configuration, setting a different
  value calls every attached callback exactly once with the old and the new value, in the order of
  attachment with the new one last; setting an equal value calls none.
\<close>

theorem attached_owner_notified:
  assumes ok: "all_ok mem" "cjson_ok lib"
    and s: "lookup (g_config_manage st) (n @ ''.json'') = Some s" "cvalue s = Some old"
    and d: "lookup (g_default_config_manage st) (''default_'' @ n @ ''.json'') \<noteq> None"
  shows "\<exists>st1 st2. config_attach mem (Some n) (Some f) st = (True, st1) \<and>
     set_config lib mem io (Some n) (Some v) st1 = (True, st2) \<and>
     notified st2 = notified st @ (if cj_compare lib (Some old) v then [] else map (\<lambda>cb. (cb, old, v)) (owners s @ [f]))"
proof -
  have nm: "name s = n @ ''.json''" using lookup_name [OF s(1)] .
  define st1 where "st1 = st\<lparr>g_config_manage := upd_item (name s) (\<lambda>s. s\<lparr>owners := owners s @ [f]\<rparr>) (g_config_manage st)\<rparr>"
  have at: "config_attach mem (Some n) (Some f) st = (True, st1)"
    using ok s by (simp add: config_attach_def all_ok_def [of mem] st1_def)
  have l: "lookup (g_config_manage st1) (n @ ''.json'') = Some (s\<lparr>owners := owners s @ [f]\<rparr>)" using s nm by (simp add: st1_def)
  obtain ds where "lookup (g_default_config_manage st1) (''default_'' @ n @ ''.json'') = Some ds" "notified st1 = notified st"
    using d by (auto simp: st1_def)
  then show ?thesis
    using at set_config_notified [OF ok l, of old ds io v] s(2) by auto
qed

text \<open>
  C11. Persistence. A value that \<^verbatim>\<open>set_config\<close> has stored is read back by the next start: loading a directory
  with that one file into an empty table succeeds and yields exactly one item, with this name and value.
\<close>

theorem stored_config_is_reloaded:
  assumes ok: "all_ok mem" "cjson_ok lib" and json: "cj_print lib v = Some doc" "doc \<noteq> []" "cj_parse lib doc = Some v"
    and io: "can_open io (CONFIG_PATH @ ''/'' @ n @ ''.json'')" and n: "take 1 (n @ ''.json'') \<noteq> ''.''"
    and r: "set_config lib mem io (Some n) (Some v) st = (True, st')"
    and new: "\<not> holds lib (g_config_manage st) (n @ ''.json'') v"
    and p: "list_all (\<lambda>s. path s = CONFIG_PATH @ ''/'' @ name s) (g_config_manage st)"
  shows "\<exists>item. config_hash_init lib mem (files st') CONFIG_PATH (Some [(n @ ''.json'', Some True)]) [] = (0, [item]) \<and>
     name item = n @ ''.json'' \<and> cvalue item = Some v"
proof -
  obtain ds where ds: "lookup (g_default_config_manage st) (''default_'' @ n @ ''.json'') = Some ds"
    using set_config_cases [OF ok r] by auto
  have w: "snd (write_memory_to_file lib io (Some v) (CONFIG_PATH @ ''/'' @ n @ ''.json'') fs)
      (CONFIG_PATH @ ''/'' @ n @ ''.json'') = Some doc" for fs
    using json(1) io by (simp add: write_memory_to_file_def)
  have "files (snd (set_config lib mem io (Some n) (Some v) st)) (CONFIG_PATH @ ''/'' @ n @ ''.json'') = Some doc"
  proof (cases "lookup (g_config_manage st) (n @ ''.json'')")
    case None
    then show ?thesis using ds ok w by (simp add: set_config_def Let_def config_dir_def)
  next
    case (Some s)
    have "path s = CONFIG_PATH @ ''/'' @ n @ ''.json''"
      using p lookup_name [OF Some] Some by (auto simp: list_all_iff find_Some_iff)
    then show ?thesis using Some ds ok w new by (simp add: set_config_def holds_def Let_def)
  qed
  then have "files st' (CONFIG_PATH @ ''/'' @ n @ ''.json'') = Some doc" using r by simp
  then show ?thesis
    using n json ok
    by (simp add: config_hash_init_def read_file_to_memory_def add_config_item_def Let_def all_ok_def [of mem])
qed

subsection \<open>Instances\<close>

text \<open>Numbers as JSON values, printed in unary.\<close>

definition unary_lib :: "nat cjson_lib" where
  "unary_lib =
     \<lparr>cj_compare = (\<lambda>a b. a = Some b), cj_duplicate = Some,
      cj_parse = (\<lambda>s. if s = [] then None else Some (length s - 1)),
      cj_print = (\<lambda>v. Some (replicate (Suc v) (CHR ''1''))),
      cj_print_unformatted = map_option (\<lambda>v. replicate (Suc v) (CHR ''1''))\<rparr>"

definition sample_config :: "nat config_state" where
  "sample_config =
     \<lparr>g_config_manage = [\<lparr>path = CONFIG_PATH @ ''/'' @ ''pcu.json'', name = ''pcu.json'', cvalue = Some 3, owners = [8]\<rparr>],
      g_default_config_manage = [\<lparr>path = DEFAULT_CONFIG_PATH @ ''/'' @ ''default_pcu.json'', name = ''default_pcu.json'', cvalue = Some 3, owners = []\<rparr>],
      files = (\<lambda>_. None), notified = []\<rparr>"

definition good_io :: file_io where
  "good_io = \<lparr>can_open = (\<lambda>_. True), has_fd = (\<lambda>_. True), fsync_ok = (\<lambda>_. True)\<rparr>"

lemma sample_ok: "all_ok (\<lambda>_. True)" "cjson_ok unary_lib"
  by (simp_all add: all_ok_def cjson_ok_def unary_lib_def)

theorem set_config_spec_witness:
  "\<exists>v'. get_config unary_lib (\<lambda>_. True) (Some ''pcu'')
       (snd (set_config unary_lib (\<lambda>_. True) good_io (Some ''pcu'') (Some 5) sample_config)) = Some v' \<and>
     cj_compare unary_lib (Some v') 5"
  using set_config_spec [OF sample_ok prod.collapse [symmetric], of good_io "''pcu''" 5 sample_config]
  by (simp add: sample_config_def)

theorem set_default_config_spec_witness:
  "fst (set_default_config unary_lib (\<lambda>_. True) good_io (Some ''pcu'') (Some 3) sample_config) \<and>
   snd (set_default_config unary_lib (\<lambda>_. True) good_io (Some ''pcu'') (Some 3) sample_config) = sample_config"
  using set_default_config_spec [OF sample_ok prod.collapse [symmetric], of good_io "''pcu''" 3 sample_config]
  by (simp add: sample_config_def holds_def unary_lib_def)

theorem attached_owner_notified_witness:
  "\<exists>st1 st2. config_attach (\<lambda>_. True) (Some ''pcu'') (Some 9) sample_config = (True, st1) \<and>
     set_config unary_lib (\<lambda>_. True) good_io (Some ''pcu'') (Some 5) st1 = (True, st2) \<and> notified st2 = [(8, 3, 5), (9, 3, 5)]"
  using attached_owner_notified [OF sample_ok, of "''pcu''" sample_config _ 3 9 good_io 5]
  by (simp add: sample_config_def unary_lib_def)

theorem stored_config_is_reloaded_witness:
  "\<exists>item. config_hash_init unary_lib (\<lambda>_. True)
       (files (snd (set_config unary_lib (\<lambda>_. True) good_io (Some ''pcu'') (Some 5) sample_config))) CONFIG_PATH
       (Some [(''pcu'' @ ''.json'', Some True)]) [] = (0, [item]) \<and> name item = ''pcu.json'' \<and> cvalue item = Some 5"
proof -
  have r: "set_config unary_lib (\<lambda>_. True) good_io (Some ''pcu'') (Some 5) sample_config =
      (True, snd (set_config unary_lib (\<lambda>_. True) good_io (Some ''pcu'') (Some 5) sample_config))"
    by (simp add: set_config_def name_add_suffix_def name_add_prefix_def sample_config_def unary_lib_def Let_def)
  have "\<exists>item. config_hash_init unary_lib (\<lambda>_. True)
       (files (snd (set_config unary_lib (\<lambda>_. True) good_io (Some ''pcu'') (Some 5) sample_config))) CONFIG_PATH
       (Some [(''pcu'' @ ''.json'', Some True)]) [] = (0, [item]) \<and> name item = ''pcu'' @ ''.json'' \<and> cvalue item = Some 5"
    by (rule stored_config_is_reloaded [where doc = "replicate 6 (CHR ''1'')", OF sample_ok _ _ _ _ _ r])
      (simp_all add: unary_lib_def good_io_def holds_def sample_config_def numeral_eq_Suc)
  then show ?thesis by simp
qed

end
