(* ===== verification/Config_Merge.thy ===== *)
theory Config_Merge
  imports Json_Tree Config
begin

text \<open>
  \<^verbatim>\<open>src/src/config/config_cmp_key.c\<close>: merging a configuration into a template, listing the keys of a value, and
  the defaults of the power control unit. The merge changes only the copy \<open>a1\<close>, which shares no node with the
  template \<open>a\<close> or the value \<open>b\<close>, so it is returned as a new value.
\<close>

subsection \<open>The merge\<close>

fun merge_node :: "'f cjson_tree \<Rightarrow> 'f cJSON \<Rightarrow> 'f cJSON \<Rightarrow> 'f cJSON \<Rightarrow> bool \<times> 'f cJSON"
  and merge_object :: "'f cjson_tree \<Rightarrow> 'f cJSON list \<Rightarrow> 'f cJSON \<Rightarrow> 'f cJSON \<Rightarrow> bool \<times> 'f cJSON"
  and merge_array :: "'f cjson_tree \<Rightarrow> 'f cJSON list \<Rightarrow> 'f cJSON list \<Rightarrow> 'f cJSON list \<Rightarrow> 'f cJSON list" where
  "merge_node lib (CJSON t s n f k as) b a1 =
     (let type = t mod 256
      in if type = cJSON_False \<or> type = cJSON_True \<or> type = cJSON_NULL then (True, set_type (kind b) a1)
         else if type = cJSON_Number then (True, set_type cJSON_Number (set_int (jint b) (set_number lib a1 (jdbl b))))
         else if type = cJSON_String \<or> type = cJSON_Raw then
           (case set_valuestring lib a1 (jstr b) of None \<Rightarrow> (False, a1) | Some x \<Rightarrow> (True, set_type (kind b) x))
         else if type = cJSON_Object then merge_object lib as b a1
         else if type = cJSON_Array then (True, set_children (merge_array lib as (jchild b) (jchild a1)) a1)
         else (True, a1))"
| "merge_object lib [] b a1 = (True, a1)"
| "merge_object lib (a_child # as) b a1 =
     (case jkey a_child of
        None \<Rightarrow> merge_object lib as b a1
      | Some key \<Rightarrow>
          (case get_cs lib b key of
             None \<Rightarrow> merge_object lib as b a1
           | Some j \<Rightarrow>
               (case dup lib (jchild b ! j) of
                  None \<Rightarrow> (False, a1)
                | Some b_copy \<Rightarrow>
                    (let a2 = replace_ptr lib a1 (get_cs lib a1 key) b_copy
                     in case get_cs lib a2 key of
                          None \<Rightarrow> merge_object lib as b a2
                        | Some i \<Rightarrow>
                            merge_object lib as b
                              (set_children ((jchild a2)[i := snd (merge_node lib a_child (jchild b ! j) (jchild a2 ! i))]) a2)))))"
| "merge_array lib (a_child # as) (b_child # bs) (c # cs) = snd (merge_node lib a_child b_child c) # merge_array lib as bs cs"
| "merge_array lib _ _ cs = cs"

definition MergeNode :: "'f cjson_tree \<Rightarrow> 'f cJSON option \<Rightarrow> 'f cJSON option \<Rightarrow> 'f cJSON option \<Rightarrow> bool \<times> 'f cJSON option" where
  "MergeNode lib a b a1 =
     (case (a, b, a1) of
        (Some x, Some y, Some z) \<Rightarrow> (case merge_node lib x y z of (ok, z') \<Rightarrow> (ok, Some z'))
      | _ \<Rightarrow> (False, a1))"

definition is_valid_cjson_type :: "int \<Rightarrow> bool" where
  "is_valid_cjson_type t =
     (t mod 256 \<in> {cJSON_False, cJSON_True, cJSON_NULL, cJSON_Number, cJSON_String, cJSON_Raw, cJSON_Array, cJSON_Object})"

definition cJSON_MergeWithTemplate :: "'f cjson_tree \<Rightarrow> 'f cJSON option \<Rightarrow> 'f cJSON option \<Rightarrow> 'f cJSON option" where
  "cJSON_MergeWithTemplate lib a b =
     (case (a, b) of
        (Some x, Some y) \<Rightarrow>
          if \<not> is_valid_cjson_type (jtype x) \<or> \<not> is_valid_cjson_type (jtype y) then None
          else
            (case dup lib x of
               None \<Rightarrow> None
             | Some a1 \<Rightarrow> snd (MergeNode lib a b (Some a1)))
      | _ \<Rightarrow> None)"

subsection \<open>Listing the keys\<close>

text \<open>
  The keys that are logged, in order. A path is cut to the 255 characters of its buffer (1255 for array items).
  The children of an object have names.
\<close>

lemma size_children: "size_list size (jchild v) < size v"
  by (cases v) simp

function traverse_object :: "'f cJSON list \<Rightarrow> string option \<Rightarrow> string list"
  and traverse_items :: "'f cJSON list \<Rightarrow> string \<Rightarrow> nat \<Rightarrow> string list"
  and traverse_all_keys_recursive :: "'f cJSON \<Rightarrow> string option \<Rightarrow> string list" where
  "traverse_object [] parent_key = []"
| "traverse_object (c # cs) parent_key =
     (let current_key =
        snprintf_text 256 (case parent_key of
            Some p \<Rightarrow> if 0 < length p then p @ ''.'' @ the (jkey c) else the (jkey c) | None \<Rightarrow> the (jkey c))
      in current_key #
         (if kind c = cJSON_Object then traverse_all_keys_recursive c (Some current_key)
          else if kind c = cJSON_Array then traverse_items (jchild c) current_key 0
          else []) @ traverse_object cs parent_key)"
| "traverse_items [] current_key idx = []"
| "traverse_items (c # cs) current_key idx =
     (if kind c = cJSON_Object
      then traverse_all_keys_recursive c (Some (snprintf_text 1256 (current_key @ ''['' @ show_nat idx @ '']'')))
      else []) @ traverse_items cs current_key (Suc idx)"
| "traverse_all_keys_recursive (CJSON t s n f k cs) parent_key =
     (if t mod 256 = cJSON_Object then traverse_object cs parent_key else [])"
  by pat_completeness auto
termination
  by (relation "measure (case_sum (\<lambda>x. size_list size (fst x)) (case_sum (\<lambda>x. size_list size (fst x)) (\<lambda>x. size (fst x))))")
    (auto simp: less_SucI intro: less_trans [OF size_children])

subsection \<open>Defaults and update of a configuration\<close>

text \<open>
  The defaults of the power control unit; \<open>create\<close>, \<open>add_number\<close> and \<open>add_bool\<close> are the library functions that
  build the object.
\<close>

definition PCU_CONFING_NAME :: string where "PCU_CONFING_NAME = ''pcu''"

definition pcu_fields :: "(string \<times> (int + bool)) list" where
  "pcu_fields =
     [(''pcu_id'', Inl 1), (''branch_system'', Inl 2), (''ccu_num'', Inl 4), (''dc_dc_model'', Inl 1), (''meter_model'', Inl 1),
      (''device_control_mode'', Inl 1), (''dcdc_alarm_mode'', Inl 1), (''pdu_alarm_mode'', Inl 1), (''meter_alarm_mode'', Inl 1),
      (''high_vol_input_mode'', Inl 1), (''spd_enable'', Inr True), (''door_access_enable'', Inr True),
      (''waterlogging_enable'', Inr True), (''topple_enable'', Inr True), (''fan_start_temp'', Inl 40), (''work_altitude'', Inl 1000)]"

definition pcu_config_init ::
  "'j cjson_lib \<Rightarrow> 'j option \<Rightarrow> ('j \<Rightarrow> string \<Rightarrow> int \<Rightarrow> 'j) \<Rightarrow> ('j \<Rightarrow> string \<Rightarrow> bool \<Rightarrow> 'j) \<Rightarrow> mem \<Rightarrow> file_io \<Rightarrow> 'j config_state \<Rightarrow>
   bool \<times> 'j config_state" where
  "pcu_config_init lib create add_number add_bool mem io st =
     (let config = map_option (fold (\<lambda>(k, v) c. case v of Inl n \<Rightarrow> add_number c k n | Inr b \<Rightarrow> add_bool c k b) pcu_fields) create
      in set_default_config lib mem io (Some PCU_CONFING_NAME) config st)"

text \<open>Bringing the stored configuration in line with its defaults, as \<^verbatim>\<open>test_config_cmp_key\<close> does.\<close>

definition update_config ::
  "'f cJSON cjson_lib \<Rightarrow> 'f cjson_tree \<Rightarrow> mem \<Rightarrow> file_io \<Rightarrow> string \<Rightarrow> 'f cJSON option \<Rightarrow> 'f cJSON config_state \<Rightarrow> bool \<times> 'f cJSON config_state" where
  "update_config lib tree mem io n template st =
     replace_object lib io (Some n) (cJSON_MergeWithTemplate tree template (get_config lib mem (Some n) st)) CFG_CURRENT st"

subsection \<open>Names are kept\<close>

lemma child_wf: "jwf b \<Longrightarrow> tree_ok lib \<Longrightarrow> get_cs lib b k = Some j \<Longrightarrow> jwf (jchild b ! j)"
  using tree_okD(1) jwfD(5) nth_mem by blast

lemma set_number_key [simp]: "tree_ok lib \<Longrightarrow> jkey (set_number lib v x) = jkey v"
  using tree_okD(7) [of lib v x] by auto

lemma merge_keeps_names:
  "tree_ok lib \<Longrightarrow> jwf b \<Longrightarrow> jkey (snd (merge_node lib a b a1)) = jkey a1"
  "tree_ok lib \<Longrightarrow> jwf b \<Longrightarrow> jkey (snd (merge_object lib as b a1)) = jkey a1 \<and>
     jtype (snd (merge_object lib as b a1)) = jtype a1 \<and> map jkey (jchild (snd (merge_object lib as b a1))) = map jkey (jchild a1)"
  "tree_ok lib \<Longrightarrow> list_all jwf bs \<Longrightarrow> map jkey (merge_array lib as bs cs) = map jkey cs"
proof (induction lib a b a1 and lib as b a1 and lib as bs cs rule: merge_node_merge_object_merge_array.induct)
  case (1 lib t s n f k as b a1)
  then show ?case by (auto simp: Let_def tree_okD(10) split: option.split)
next
  case (3 lib c as b a1)
  show ?case
  proof (cases "jkey c")
    case None
    then show ?thesis using 3 by simp
  next
    case (Some key)
    show ?thesis
    proof (cases "get_cs lib b key")
      case None
      then show ?thesis using 3 Some by simp
    next
      case (Some j)
      let ?bc = "jchild b ! j" and ?a2 = "replace_ptr lib a1 (get_cs lib a1 key) (jchild b ! j)"
      have bc: "jwf ?bc" "jkey ?bc = Some key" using child_wf [OF "3.prems"(2,1)] Some tree_okD(2) [OF "3.prems"(1)] by blast+
      then have d: "dup lib ?bc = Some ?bc" using tree_okD(4) [OF "3.prems"(1)] by blast
      have a2: "jkey ?a2 = jkey a1" "jtype ?a2 = jtype a1" "map jkey (jchild ?a2) = map jkey (jchild a1)"
        using tree_okD(1,2,5,6) [OF "3.prems"(1)] bc(2)
        by (cases "get_cs lib a1 key"; auto simp: map_update list_update_same_conv; fail)+
      show ?thesis
      proof (cases "get_cs lib ?a2 key")
        case None
        then show ?thesis using 3 \<open>jkey c = Some key\<close> Some d a2 by (simp add: Let_def)
      next
        case (Some i)
        let ?m = "snd (merge_node lib c ?bc (jchild ?a2 ! i))"
        have "jkey ?m = jkey (jchild ?a2 ! i)" using 3 \<open>jkey c = Some key\<close> \<open>get_cs lib b key = Some j\<close> d Some bc by (simp add: Let_def)
        then have "map jkey ((jchild ?a2)[i := ?m]) = map jkey (jchild ?a2)"
          using tree_okD(1) [OF "3.prems"(1) Some] by (simp add: map_update list_update_same_conv)
        then show ?thesis using 3 \<open>jkey c = Some key\<close> \<open>get_cs lib b key = Some j\<close> d Some a2 by (simp add: Let_def)
      qed
    qed
  qed
qed auto

subsection \<open>Values are taken over\<close>

text \<open>\<open>fits a b\<close>: wherever the template has a number the value has one too; nothing else is compared.\<close>

fun fits :: "'f cJSON \<Rightarrow> 'f cJSON \<Rightarrow> bool"
  and fits_object :: "'f cJSON list \<Rightarrow> 'f cJSON \<Rightarrow> bool"
  and fits_array :: "'f cJSON list \<Rightarrow> 'f cJSON list \<Rightarrow> bool" where
  "fits (CJSON t s n f k as) b =
     (if t mod 256 = cJSON_Number then jtype b = cJSON_Number
      else if t mod 256 = cJSON_Object then fits_object as b
      else if t mod 256 = cJSON_Array then fits_array as (jchild b)
      else True)"
| "fits_object [] b = True"
| "fits_object (c # as) b \<longleftrightarrow>
     (jkey c = None \<or> (case child_named (jkey c) b of None \<Rightarrow> True | Some x \<Rightarrow> fits c x)) \<and> fits_object as b"
| "fits_array (a # as) (b # bs) \<longleftrightarrow> fits a b \<and> fits_array as bs"
| "fits_array _ _ = True"

lemma set_number_self: "tree_ok lib \<Longrightarrow> set_int (jint b) (set_number lib b (jdbl b)) = b"
  using tree_okD(7) [of lib b "jdbl b"] by (auto simp: set_int_def)

lemma merge_into_copy:
  "tree_ok lib \<Longrightarrow> jwf b \<Longrightarrow> fits a b \<Longrightarrow> a1 = b \<Longrightarrow> snd (merge_node lib a b a1) = b"
  "tree_ok lib \<Longrightarrow> jwf b \<Longrightarrow> fits_object as b \<Longrightarrow> a1 = b \<Longrightarrow> snd (merge_object lib as b a1) = b"
  "tree_ok lib \<Longrightarrow> list_all jwf bs \<Longrightarrow> fits_array as bs \<Longrightarrow> cs = bs \<Longrightarrow> merge_array lib as bs cs = bs"
proof (induction lib a b a1 and lib as b a1 and lib as bs cs rule: merge_node_merge_object_merge_array.induct)
  case (1 lib t s n f k as b a1)
  have ch: "list_all jwf (jchild b)" using jwfD(5) [OF "1.prems"(2)] by (simp add: list_all_iff)
  have str: "set_valuestring lib b (jstr b) = (if jtype b = cJSON_String then Some b else None)"
    using tree_okD(8,9) [OF "1.prems"(1)] jwfD(1) [OF "1.prems"(2)] by (cases b) (auto simp: node_ok_def)
  have num: "set_type 8 (set_int (jint b) (set_number lib b (jdbl b))) = b" if "jtype b = 8"
    unfolding set_number_self [OF "1.prems"(1)] using that by simp
  show ?case
    using 1 jwfD(4) [OF "1.prems"(2)] ch num by (auto simp: Let_def str)
next
  case (3 lib c as b a1)
  show ?case
  proof (cases "jkey c")
    case None
    then show ?thesis using 3 by simp
  next
    case (Some key)
    note key = this
    show ?thesis
    proof (cases "child_named (Some key) b")
      case None
      then show ?thesis using 3 key child_named_None [OF "3.prems"(1) None] by simp
    next
      case (Some x)
      then obtain j where j: "get_cs lib b key = Some j" "j < length (jchild b)" "jchild b ! j = x" "jkey x = Some key"
        using child_named_Some [OF "3.prems"(1) jwfD(1) [OF "3.prems"(2)]] by blast
      have x: "jwf x" "dup lib x = Some x" using child_wf [OF "3.prems"(2,1) j(1)] j(3) tree_okD(4) [OF "3.prems"(1)] by auto
      have a2: "replace_ptr lib b (Some j) x = b" using tree_okD(5) [OF "3.prems"(1) j(2)] j(3) by auto
      have "snd (merge_node lib c x x) = x"
        using "3.IH"(4) [OF key j(1), of x "replace_ptr lib b (Some j) x" j] 3 j x a2 key Some by simp
      then show ?thesis using 3 key j x a2 Some by (auto simp: Let_def)
    qed
  qed
qed auto

text \<open>The child that results for a child of the template.\<close>

definition merged_child :: "'f cjson_tree \<Rightarrow> 'f cJSON \<Rightarrow> 'f cJSON \<Rightarrow> 'f cJSON" where
  "merged_child lib b c = (case child_named (jkey c) b of None \<Rightarrow> c | Some x \<Rightarrow> snd (merge_node lib c x x))"

lemma merged_child_key:
  assumes "tree_ok lib" and "jwf b"
  shows "jkey (merged_child lib b c) = jkey c"
proof (cases "child_named (jkey c) b")
  case (Some x)
  then have "x \<in> set (jchild b)" "jkey x = jkey c" by (auto simp: child_named_def find_Some_iff)
  then show ?thesis using Some merge_keeps_names(1) [OF assms(1) jwfD(5) [OF assms(2)], of x c x] by (simp add: merged_child_def)
qed (simp add: merged_child_def)

lemma merge_object_children:
  assumes "tree_ok lib" and "jwf b" and "list_all (\<lambda>c. jkey c \<noteq> None) (xs @ as)" and "distinct (map jkey (xs @ as))"
    and "jchild a1 = xs @ as"
  shows "merge_object lib as b a1 = (True, set_children (xs @ map (merged_child lib b) as) a1)"
  using assms(3-5)
proof (induction as arbitrary: xs a1)
  case Nil
  then show ?case using set_fields(21) [of a1] by simp
next
  case (Cons c cs)
  obtain key where key: "jkey c = Some key" using Cons.prems(1) by auto
  have next_ok: "list_all (\<lambda>c. jkey c \<noteq> None) ((xs @ [merged_child lib b c]) @ cs)" "distinct (map jkey ((xs @ [merged_child lib b c]) @ cs))"
    using Cons.prems(1,2) merged_child_key [OF assms(1,2), of c] by auto
  show ?case
  proof (cases "child_named (Some key) b")
    case None
    then show ?thesis
      using Cons.IH [OF next_ok, of a1] Cons.prems(3) key child_named_None [OF assms(1) None] by (simp add: merged_child_def)
  next
    case (Some x)
    then obtain j where j: "get_cs lib b key = Some j" "jchild b ! j = x" "jkey x = Some key"
      using child_named_Some [OF assms(1) jwfD(1) [OF assms(2)]] by blast
    have x: "jwf x" "dup lib x = Some x" using child_wf [OF assms(2,1) j(1)] j(2) tree_okD(4) [OF assms(1)] by auto
    have found: "get_cs lib v key = Some (length xs)" if "map jkey (jchild v) = map jkey (xs @ c # cs)" for v
    proof -
      have "list_all (\<lambda>c. jkey c \<noteq> None) (jchild v)" using that Cons.prems(1) unfolding all_named_iff by simp
      moreover have "length xs < length (jchild v)" "jkey (jchild v ! length xs) = Some key"
        using that key by (metis length_map length_append length_Cons less_add_Suc1 add_Suc_right,
            metis length_map length_append length_Cons less_add_Suc1 add_Suc_right nth_map nth_append_length)
      ultimately show ?thesis using get_cs_found [OF assms(1)] Cons.prems(2) that by metis
    qed
    let ?a2 = "set_children (xs @ x # cs) a1"
    have "get_cs lib a1 key = Some (length xs)" using found [of a1] Cons.prems(3) by simp
    then have a2: "replace_ptr lib a1 (get_cs lib a1 key) x = ?a2"
      using tree_okD(5) [OF assms(1), of "length xs" a1 x] Cons.prems(3) by simp
    have "get_cs lib ?a2 key = Some (length xs)" using found [of ?a2] key j(3) by simp
    then have "merge_object lib (c # cs) b a1 = merge_object lib cs b (set_children (xs @ merged_child lib b c # cs) ?a2)"
      using key j(1,2) x a2 Some by (simp add: merged_child_def)
    then show ?thesis using Cons.IH [OF next_ok, of "set_children (xs @ merged_child lib b c # cs) ?a2"] by (simp add: set_children_def)
  qed
qed

subsection \<open>Properties\<close>

lemma merge_object_value:
  assumes "tree_ok lib" and "jwf a" and "jwf b" and "jtype a = cJSON_Object"
  shows "cJSON_MergeWithTemplate lib (Some a) (Some b) = Some (set_children (map (merged_child lib b) (jchild a)) a)"
proof -
  obtain t s n f k as where a: "a = CJSON t s n f k as" by (cases a)
  have ok: "list_all (\<lambda>c. jkey c \<noteq> None) ([] @ as)" "distinct (map jkey ([] @ as))"
    using jwfD(1) [OF assms(2)] assms(4) a by (auto simp: node_ok_def)
  have "merge_node lib a b a = (True, set_children (map (merged_child lib b) as) a)"
    using merge_object_children [OF assms(1,3) ok, of a] assms(4) a by (simp add: Let_def)
  moreover have "is_valid_cjson_type (jtype a)" "is_valid_cjson_type (jtype b)"
    using jwfD(1,4) [OF assms(2)] jwfD(1,4) [OF assms(3)] by (auto simp: is_valid_cjson_type_def node_ok_def kind_def)
  ultimately show ?thesis
    using tree_okD(4) [OF assms(1,2)] a by (simp add: cJSON_MergeWithTemplate_def MergeNode_def)
qed

text \<open>
  C16. The merged value has the keys of the template. For every well-formed value, whatever its type and the types of
  its members, merging it into an object gives an object with exactly the template's keys, in the template's order.
\<close>

theorem merge_keeps_template_keys:
  assumes "tree_ok lib" and "jwf a" and "jwf b" and "jtype a = cJSON_Object"
  shows "\<exists>r. cJSON_MergeWithTemplate lib (Some a) (Some b) = Some r \<and> jtype r = cJSON_Object \<and> map jkey (jchild r) = map jkey (jchild a)"
  using merge_object_value [OF assms] merged_child_key [OF assms(1,3)] assms(4) by simp

text \<open>
  Where the merged values come from. A member of the template that the value does not have keeps the template's
  content. A member that both have is the value's, whole: inside it the keys of the template count for nothing, so a
  nested object may lack keys of the template and have others. Only where the template has a number the result is made
  a number too, with whatever the number field of the value's node holds.
\<close>

theorem merge_takes_values:
  assumes "tree_ok lib" and "jwf a" and "jwf b" and "jtype a = cJSON_Object"
    and "list_all (\<lambda>c. kind c = cJSON_Number \<or> (case child_named (jkey c) b of None \<Rightarrow> True | Some x \<Rightarrow> fits c x)) (jchild a)"
  shows "cJSON_MergeWithTemplate lib (Some a) (Some b) =
     Some (set_children (map (\<lambda>c. case child_named (jkey c) b of
             None \<Rightarrow> c | Some x \<Rightarrow> if kind c = cJSON_Number then set_type cJSON_Number x else x) (jchild a)) a)"
proof -
  have "merged_child lib b c = (case child_named (jkey c) b of None \<Rightarrow> c | Some x \<Rightarrow> if kind c = cJSON_Number then set_type cJSON_Number x else x)"
    if c: "c \<in> set (jchild a)" for c
  proof (cases "child_named (jkey c) b")
    case (Some x)
    then have "jwf x" using jwfD(5) [OF assms(3)] by (auto simp: child_named_def find_Some_iff)
    moreover have "kind c \<noteq> cJSON_Number \<Longrightarrow> fits c x" using assms(5) c Some by (auto simp: list_all_iff)
    moreover have "kind c = cJSON_Number \<Longrightarrow> snd (merge_node lib c x x) = set_type cJSON_Number x"
      by (cases c) (simp add: kind_def Let_def set_number_self [OF assms(1)])
    ultimately show ?thesis using Some merge_into_copy(1) [OF assms(1), of x c x] by (auto simp: merged_child_def)
  qed (simp add: merged_child_def)
  then have "map (merged_child lib b) (jchild a) = map (\<lambda>c. case child_named (jkey c) b of
      None \<Rightarrow> c | Some x \<Rightarrow> if kind c = cJSON_Number then set_type cJSON_Number x else x) (jchild a)"
    by (rule map_cong [OF refl])
  then show ?thesis using merge_object_value [OF assms(1-4)] by (rule back_subst [of "\<lambda>cs. _ = Some (set_children cs a)", rotated])
qed

text \<open>
  Updating a stored configuration. When the current configuration is merged into a new template and put back, the
  call succeeds and the next \<^verbatim>\<open>get_config\<close> returns a value with exactly the keys of the template; the defaults
  do not change.
\<close>

theorem update_config_spec:
  assumes "all_ok mem" and "cjson_ok lib" and "tree_ok tree" and "jwf a" and "jtype a = cJSON_Object"
    and "get_config lib mem (Some n) st = Some b" and "jwf b" and "length n \<le> 122"
  shows "\<exists>st' v. update_config lib tree mem io n (Some a) st = (True, st') \<and> get_config lib mem (Some n) st' = Some v \<and>
     map jkey (jchild v) = map jkey (jchild a) \<and> g_default_config_manage st' = g_default_config_manage st"
proof -
  obtain r where r: "cJSON_MergeWithTemplate tree (Some a) (Some b) = Some r" "map jkey (jchild r) = map jkey (jchild a)"
    using merge_object_value [OF assms(3,4,7,5)] merged_child_key [OF assms(3,7)] by auto
  obtain s where s: "lookup (g_config_manage st) (n @ ''.json'') = Some s"
    using assms(1,6) by (auto simp: get_config_def split: option.splits)
  have "snprintf_text 128 (n @ ''.json'') = n @ ''.json''" using assms(8) by (simp add: snprintf_text_def)
  then show ?thesis
    using r s assms(1,2,6) lookup_name [OF s]
    by (auto simp: update_config_def replace_object_def Let_def get_config_def read_item_def)
qed

text \<open>Starting with the defaults of the unit stores them, and creates the current configuration if there is none.\<close>

lemma pcu_config_init_stores:
  assumes "all_ok mem" and "cjson_ok lib"
  shows "\<exists>v st'. pcu_config_init lib (Some c) add_number add_bool mem io st = (True, st') \<and>
     holds lib (g_default_config_manage st') ''default_pcu.json'' v \<and>
     (lookup (g_config_manage st) ''pcu.json'' = None \<longrightarrow> get_config lib mem (Some ''pcu'') st' \<noteq> None)"
proof -
  let ?v = "fold (\<lambda>(k, v) c. case v of Inl n \<Rightarrow> add_number c k n | Inr b \<Rightarrow> add_bool c k b) pcu_fields c"
  obtain b st' where r: "set_default_config lib mem io (Some ''pcu'') (Some ?v) st = (b, st')" by fastforce
  show ?thesis
    using set_default_config_spec [OF assms r] r assms
    by (auto simp: pcu_config_init_def PCU_CONFING_NAME_def split: if_splits)
qed

lemma logged_keys_fit:
  "list_all (\<lambda>k. length k \<le> 255) (traverse_object (cs :: 'f cJSON list) p)"
  "list_all (\<lambda>k. length k \<le> 255) (traverse_items (cs :: 'f cJSON list) q i)"
  "list_all (\<lambda>k. length k \<le> 255) (traverse_all_keys_recursive (v :: 'f cJSON) p)"
  by (induction cs p and cs q i and v p rule: traverse_object_traverse_items_traverse_all_keys_recursive.induct)
    (auto simp: snprintf_text_def Let_def)

subsection \<open>Instances\<close>

text \<open>A template with a nested object and an older value, which lacks a nested key and has one more.\<close>

definition sample_template :: "int cJSON" where
  "sample_template = jobj None [jnum ''a'' 1, jobj (Some ''n'') [jnum ''x'' 1, jnum ''y'' 2]]"

definition sample_value :: "int cJSON" where
  "sample_value = jobj None [jobj (Some ''n'') [jnum ''x'' 5], jnum ''z'' 3]"

lemmas json_samples = sample_template_def sample_value_def jobj_def jnum_def

lemma json_samples_ok:
  "jwf sample_template" "jwf sample_value" "jtype sample_template = cJSON_Object"
  "list_all (\<lambda>c. kind c = cJSON_Number \<or> (case child_named (jkey c) sample_value of None \<Rightarrow> True | Some x \<Rightarrow> fits c x)) (jchild sample_template)"
  by (simp_all add: json_samples node_ok_def kind_def child_named_def)

theorem merge_keeps_template_keys_witness:
  "\<exists>r. cJSON_MergeWithTemplate list_tree (Some sample_template) (Some sample_value) = Some r \<and> map jkey (jchild r) = [Some ''a'', Some ''n'']"
  using merge_keeps_template_keys [OF list_tree_ok json_samples_ok(1-3)] by (auto simp: json_samples)

theorem merge_takes_values_witness:
  "cJSON_MergeWithTemplate list_tree (Some sample_template) (Some sample_value) =
     Some (jobj None [jnum ''a'' 1, jobj (Some ''n'') [jnum ''x'' 5]])"
  using merge_takes_values [OF list_tree_ok json_samples_ok] by (simp add: json_samples child_named_def set_children_def kind_def)

definition tree_cjson :: "int cJSON cjson_lib" where
  "tree_cjson = \<lparr>cj_compare = (\<lambda>a b. a = Some b), cj_duplicate = Some, cj_parse = (\<lambda>_. None), cj_print = (\<lambda>_. None),
     cj_print_unformatted = (\<lambda>_. None)\<rparr>"

definition stored_state :: "int cJSON config_state" where
  "stored_state = \<lparr>g_config_manage = [\<lparr>path = ''p'', name = ''pcu.json'', cvalue = Some sample_value, owners = []\<rparr>],
     g_default_config_manage = [], files = Map.empty, notified = []\<rparr>"

theorem update_config_spec_witness:
  "\<exists>st' v. update_config tree_cjson list_tree (\<lambda>_. True) \<lparr>can_open = \<lambda>_. True, has_fd = \<lambda>_. True, fsync_ok = \<lambda>_. True\<rparr> ''pcu''
       (Some sample_template) stored_state = (True, st') \<and> get_config tree_cjson (\<lambda>_. True) (Some ''pcu'') st' = Some v \<and>
     map jkey (jchild v) = [Some ''a'', Some ''n'']"
proof -
  have "all_ok (\<lambda>_. True)" "cjson_ok tree_cjson" by (simp_all add: all_ok_def cjson_ok_def tree_cjson_def)
  moreover have "get_config tree_cjson (\<lambda>_. True) (Some ''pcu'') stored_state = Some sample_value"
    by (simp add: get_config_def stored_state_def find_config_item_def name_add_suffix_def read_item_def tree_cjson_def)
  moreover have "map jkey (jchild sample_template) = [Some ''a'', Some ''n'']" by (simp add: json_samples)
  ultimately show ?thesis
    using update_config_spec [OF _ _ list_tree_ok json_samples_ok(1,3) _ json_samples_ok(2), of "\<lambda>_. True" tree_cjson "''pcu''" stored_state
        "\<lparr>can_open = \<lambda>_. True, has_fd = \<lambda>_. True, fsync_ok = \<lambda>_. True\<rparr>"]
    by (auto simp del: map_eq_Cons_conv)
qed

end
