(* ===== verification/Api_Code.thy ===== *)
theory Api_Code
  imports Json_Tree Utils
begin

text \<open>
  \<^verbatim>\<open>src/src/fcgi/errors/api_code.c\<close> and \<^verbatim>\<open>api_code.h\<close>: the result codes of the web interface, their numbers and messages,
  and the response text. A request has its parameters, its body and the text written to it.
\<close>

subsection \<open>Codes and responses\<close>

datatype (plugins only: code size) api_code_e =
  API_ERR_OK | API_ERR_POINTER | API_ERR_DB | API_ERR_INTERNAL | API_ERR_METHOD | API_ERR_URI | API_ERR_JSON | API_ERR_NULL_DATA |
  API_ERR_TOKEN_INVALID | API_ERR_TOKEN_EXPIRED | API_ERR_PERMISSION | API_ERR_CONTENT_TYPE | API_ERR_CONTENT_LENGTH | API_ERR_BOUNDARY |
  API_ERR_FILE_NAME | API_ERR_JSON_TYPE | API_ERR_MISSING_FIELD | API_ERR_ARGS | API_ERR_FIELD_OVERFLOW | API_ERR_TOO_MANY_FIELDS |
  API_ERR_SYS_REBOOT_OR_APP_REBOOT | API_ERR_BUSY | API_ERR_UPGRADE_CREATE | API_ERR_CHARGING | API_ERR_APP_REBOOT | API_ERR_SYS_REBOOT |
  API_ERR_NOT_DEBUG_MODE | API_ERR_NOT_FAULT_INJECTION_MODE | API_ERR_DEVICE_OFFLINE | API_ERR_EXPORTING | API_ERR_NOT_RELEASE_MODE |
  API_ERR_FIELD_ROLES | API_ERR_FIELD_USERNAME | API_ERR_FIELD_PASSWORD | API_ERR_FIELD_ID | API_ERR_FIELD_LEVEL | API_ERR_FIELD_CCU_ID |
  API_ERR_FIELD_CONN_ID | API_ERR_FIELD_CODE | API_ERR_FIELD_NAME | API_ERR_FIELD_DCDC_ID | API_ERR_FIELD_IP_ADDR | API_ERR_FIELD_PDU_ID |
  API_ERR_FIELD_RELAY_ID | API_ERR_FIELD_RELAY_CONTROL | API_ERR_FIELD_HANDSHAKE_RELAY_ID | API_ERR_FIELD_DEVICE_INFO_TYPE |
  API_ERR_FIELD_TRANSACTION_ID | API_ERR_FIELD_DEVICE_ID | API_ERR_FIELD_FAULT | API_ERR_FIELD_DEVICE_TYPE | API_ERR_FIELD_TYPE |
  API_ERR_FIELD_TASK_ID | API_ERR_FIELD_FILE_PATH | API_ERR_FIELD_DATE

definition api_codes :: "api_code_e list" where
  "api_codes =
     [API_ERR_OK, API_ERR_POINTER, API_ERR_DB, API_ERR_INTERNAL, API_ERR_METHOD, API_ERR_URI, API_ERR_JSON, API_ERR_NULL_DATA, API_ERR_TOKEN_INVALID,
      API_ERR_TOKEN_EXPIRED, API_ERR_PERMISSION, API_ERR_CONTENT_TYPE, API_ERR_CONTENT_LENGTH, API_ERR_BOUNDARY, API_ERR_FILE_NAME,
      API_ERR_JSON_TYPE, API_ERR_MISSING_FIELD, API_ERR_ARGS, API_ERR_FIELD_OVERFLOW, API_ERR_TOO_MANY_FIELDS, API_ERR_SYS_REBOOT_OR_APP_REBOOT,
      API_ERR_BUSY, API_ERR_UPGRADE_CREATE, API_ERR_CHARGING, API_ERR_APP_REBOOT, API_ERR_SYS_REBOOT, API_ERR_NOT_DEBUG_MODE,
      API_ERR_NOT_FAULT_INJECTION_MODE, API_ERR_DEVICE_OFFLINE, API_ERR_EXPORTING, API_ERR_NOT_RELEASE_MODE, API_ERR_FIELD_ROLES,
      API_ERR_FIELD_USERNAME, API_ERR_FIELD_PASSWORD, API_ERR_FIELD_ID, API_ERR_FIELD_LEVEL, API_ERR_FIELD_CCU_ID, API_ERR_FIELD_CONN_ID,
      API_ERR_FIELD_CODE, API_ERR_FIELD_NAME, API_ERR_FIELD_DCDC_ID, API_ERR_FIELD_IP_ADDR, API_ERR_FIELD_PDU_ID, API_ERR_FIELD_RELAY_ID,
      API_ERR_FIELD_RELAY_CONTROL, API_ERR_FIELD_HANDSHAKE_RELAY_ID, API_ERR_FIELD_DEVICE_INFO_TYPE, API_ERR_FIELD_TRANSACTION_ID,
      API_ERR_FIELD_DEVICE_ID, API_ERR_FIELD_FAULT, API_ERR_FIELD_DEVICE_TYPE, API_ERR_FIELD_TYPE, API_ERR_FIELD_TASK_ID, API_ERR_FIELD_FILE_PATH,
      API_ERR_FIELD_DATE]"

text \<open>The number of a code, and the table \<^verbatim>\<open>map\<close> with its entries in the order of the source.\<close>

definition api_num :: "api_code_e \<Rightarrow> int" where
  "api_num c = int (the (position c api_codes))"

definition API_ERR_END :: int where
  "API_ERR_END = int (length api_codes)"

definition api_map :: "(api_code_e \<times> int \<times> string) list" where
  "api_map =
     [(API_ERR_OK, 200, ''success''), (API_ERR_POINTER, 500, ''pointer error''), (API_ERR_DB, 500, ''database error''),
      (API_ERR_INTERNAL, 500, ''internal error''), (API_ERR_METHOD, 401, ''method error''), (API_ERR_URI, 401, ''uri error''),
      (API_ERR_JSON, 401, ''json format error''), (API_ERR_NULL_DATA, 401, ''null data''), (API_ERR_CONTENT_TYPE, 401, ''content_type error''),
      (API_ERR_CONTENT_LENGTH, 401, ''content_length error''), (API_ERR_BOUNDARY, 401, ''boundary error''),
      (API_ERR_FILE_NAME, 401, ''file_name error''), (API_ERR_TOKEN_EXPIRED, 40001, ''token expired''),
      (API_ERR_TOKEN_INVALID, 40002, ''token invalid''), (API_ERR_PERMISSION, 40003, ''permission denied''),
      (API_ERR_JSON_TYPE, 401, ''json type error''), (API_ERR_MISSING_FIELD, 401, ''missing field''), (API_ERR_ARGS, 401, ''args error''),
      (API_ERR_FIELD_OVERFLOW, 401, ''value overflow''), (API_ERR_TOO_MANY_FIELDS, 401, ''too many fields''),
      (API_ERR_SYS_REBOOT_OR_APP_REBOOT, 401, ''sys_reboot or app_reboot error''), (API_ERR_BUSY, 401, ''upgrade task is busy''),
      (API_ERR_UPGRADE_CREATE, 401, ''failed create upgrade task''), (API_ERR_CHARGING, 401, ''charging''),
      (API_ERR_APP_REBOOT, 200, ''success and app reboot''), (API_ERR_SYS_REBOOT, 200, ''success and system reboot''),
      (API_ERR_NOT_DEBUG_MODE, 401, ''not currently in debug mode''),
      (API_ERR_NOT_FAULT_INJECTION_MODE, 401, ''not currently in fault injection mode''), (API_ERR_DEVICE_OFFLINE, 401, ''device offline''),
      (API_ERR_EXPORTING, 401, ''exporting other tasks''), (API_ERR_NOT_RELEASE_MODE, 401, ''not currently in release mode''),
      (API_ERR_FIELD_ROLES, 401, ''field roles error''), (API_ERR_FIELD_USERNAME, 401, ''field username error''),
      (API_ERR_FIELD_PASSWORD, 401, ''field password error''), (API_ERR_FIELD_ID, 401, ''field id error''),
      (API_ERR_FIELD_LEVEL, 401, ''field level error''), (API_ERR_FIELD_CCU_ID, 401, ''field ccu_id error''),
      (API_ERR_FIELD_CONN_ID, 401, ''field conn_id error''), (API_ERR_FIELD_CODE, 401, ''field code error''),
      (API_ERR_FIELD_NAME, 401, ''field name error''), (API_ERR_FIELD_DCDC_ID, 401, ''field dcdc_id error''),
      (API_ERR_FIELD_IP_ADDR, 401, ''field ip_addr error''), (API_ERR_FIELD_PDU_ID, 401, ''field pdu_id error''),
      (API_ERR_FIELD_RELAY_ID, 401, ''field relay_id error''), (API_ERR_FIELD_RELAY_CONTROL, 401, ''field relay_control error''),
      (API_ERR_FIELD_HANDSHAKE_RELAY_ID, 401, ''field handshake_relay_id error''),
      (API_ERR_FIELD_DEVICE_INFO_TYPE, 401, ''field device_info_type error''), (API_ERR_FIELD_TRANSACTION_ID, 401, ''field transaction_id error''),
      (API_ERR_FIELD_DEVICE_ID, 401, ''field device_id error''), (API_ERR_FIELD_FAULT, 401, ''field fault error''),
      (API_ERR_FIELD_DEVICE_TYPE, 401, ''field device_type error''), (API_ERR_FIELD_TYPE, 401, ''field type error''),
      (API_ERR_FIELD_TASK_ID, 401, ''field task_id error''), (API_ERR_FIELD_FILE_PATH, 401, ''field file_path error''),
      (API_ERR_FIELD_DATE, 401, ''field date error'')]"

record fcgx_request =
  envp :: "string \<rightharpoonup> string"
  body :: string
  out :: string

definition quoted :: "string \<Rightarrow> string" where
  "quoted s = [CHR 0x22] @ s @ [CHR 0x22]"

text \<open>The text that \<^verbatim>\<open>api_print\<close> writes.\<close>

definition render :: "int \<Rightarrow> string \<Rightarrow> string \<Rightarrow> string" where
  "render code message data =
     ''Content-Type: application/json'' @ [CHR 0x0D, CHR 0x0A, CHR 0x0D, CHR 0x0A] @
     ''{ '' @ quoted ''code'' @ '': '' @ show_int code @ '', '' @ quoted ''message'' @ '': '' @ quoted message @ '', '' @
     quoted ''data'' @ '': '' @ data @ '' }'' @ [CHR 0x0A]"

definition api_response :: "int \<Rightarrow> string option \<Rightarrow> string" where
  "api_response code data =
     (if code < 0 \<or> API_ERR_END \<le> code then render code ''unknown error code'' ''{}''
      else (case the (map_of api_map (api_codes ! nat code)) of
              (n, message) \<Rightarrow> render n message (case data of None \<Rightarrow> ''{}'' | Some s \<Rightarrow> s)))"

definition api_print :: "fcgx_request option \<Rightarrow> int \<Rightarrow> string option \<Rightarrow> fcgx_request option" where
  "api_print req code data = map_option (\<lambda>r. r\<lparr>out := out r @ api_response code data\<rparr>) req"

definition api_code_from_cjsonx :: "int \<Rightarrow> api_code_e" where
  "api_code_from_cjsonx err =
     (if err = 0 then API_ERR_OK
      else if err = - 1 then API_ERR_INTERNAL
      else if err = - 2 then API_ERR_JSON_TYPE
      else if err = - 3 then API_ERR_MISSING_FIELD
      else if err = - 4 then API_ERR_JSON
      else if err = - 5 then API_ERR_ARGS
      else if err = - 6 then API_ERR_FIELD_OVERFLOW
      else API_ERR_INTERNAL)"

subsection \<open>The table is complete\<close>

lemma in_api_codes: "c \<in> set api_codes"
  by (cases c) (simp_all add: api_codes_def)

lemma distinct_api_codes: "distinct api_codes"
  by (simp add: api_codes_def)

lemma api_map_total: "\<exists>n msg. map_of api_map c = Some (n, msg)"
  by (cases c) (simp_all add: api_map_def)

lemma position_nth: "x \<in> set xs \<Longrightarrow> \<exists>i. position x xs = Some i \<and> i < length xs \<and> xs ! i = x"
  by (metis option.exhaust position_None position_Some)

lemma api_code_of_num: "0 \<le> api_num c \<and> api_num c < API_ERR_END \<and> api_codes ! nat (api_num c) = c"
  using position_nth [OF in_api_codes, of c] by (auto simp: api_num_def API_ERR_END_def)

text \<open>
  Responses. For every code the response carries the number and the message of its own entry in the table, which
  exists for each of them although the table lists them in another order, and the data or an empty object. A number
  that is no code is answered with that number and the text for unknown codes, never by reading outside the table.
\<close>

theorem api_response_total:
  "(\<exists>n msg. (c, n, msg) \<in> set api_map \<and>
      api_response (api_num c) data = render n msg (case data of None \<Rightarrow> ''{}'' | Some s \<Rightarrow> s)) \<and>
   (if 0 \<le> k \<and> k < API_ERR_END then \<exists>d. api_num d = k else api_response k data = render k ''unknown error code'' ''{}'')"
proof
  obtain n msg where "map_of api_map c = Some (n, msg)" using api_map_total by blast
  then show "\<exists>n msg. (c, n, msg) \<in> set api_map \<and> api_response (api_num c) data = render n msg (case data of None \<Rightarrow> ''{}'' | Some s \<Rightarrow> s)"
    using api_code_of_num [of c] map_of_SomeD [of api_map c "(n, msg)"] by (auto simp: api_response_def)
  show "if 0 \<le> k \<and> k < API_ERR_END then \<exists>d. api_num d = k else api_response k data = render k ''unknown error code'' ''{}''"
  proof (cases "0 \<le> k \<and> k < API_ERR_END")
    case True
    then have k: "nat k < length api_codes" by (auto simp: API_ERR_END_def)
    let ?d = "api_codes ! nat k"
    have "nat (api_num ?d) < length api_codes" "api_codes ! nat (api_num ?d) = ?d"
      using api_code_of_num [of ?d] by (auto simp: API_ERR_END_def)
    then have "nat (api_num ?d) = nat k" using distinct_api_codes k nth_eq_iff_index_eq by blast
    then have "api_num ?d = k" using True api_code_of_num [of ?d] by (simp add: eq_nat_nat_iff)
    then show ?thesis using True by auto
  qed (auto simp: api_response_def)
qed

end
