(* ===== verification/Prepared_Stmt.thy ===== *)
theory Prepared_Stmt
  imports Complex_Main Lru
begin

text \<open>
  The cache of prepared statements of \<^verbatim>\<open>src/src/database/dao/prepared_stmt.c\<close>. SQLite is the record \<open>'d sqlite3\<close> of
  its functions over an unknown database state \<^typ>\<open>'d\<close>; nothing is assumed of them here. A statement is
  a pointer of 64 bits, and a cache item holds its eight bytes. There is one data source, so the
  handle only matters where it is NULL. \<open>locked\<close> is the mutex: \<^const>\<open>None\<close> as a result says that the call does
  not return (it waits for the mutex its own thread holds) or that the cache followed a NULL pointer.
\<close>

subsection \<open>The database engine\<close>

type_synonym stmt = uint64

datatype sql_value = Int32 int32 | Int64 int64 | Double rat | Text string

record 'd sqlite3 =
  prepare_v2 :: "string \<Rightarrow> 'd \<Rightarrow> int \<times> stmt option \<times> 'd"
  step :: "stmt \<Rightarrow> 'd \<Rightarrow> int \<times> 'd"
  reset :: "stmt \<Rightarrow> 'd \<Rightarrow> int \<times> 'd"
  finalize :: "stmt \<Rightarrow> 'd \<Rightarrow> int \<times> 'd"
  stmt_busy :: "stmt \<Rightarrow> 'd \<Rightarrow> bool"
  stmt_sql :: "stmt \<Rightarrow> 'd \<Rightarrow> string"
  bind :: "stmt \<Rightarrow> nat \<Rightarrow> sql_value \<Rightarrow> 'd \<Rightarrow> int \<times> 'd"
  column_int :: "stmt \<Rightarrow> nat \<Rightarrow> 'd \<Rightarrow> int32"
  column_int64 :: "stmt \<Rightarrow> nat \<Rightarrow> 'd \<Rightarrow> int64"
  changes :: "'d \<Rightarrow> int32"
  last_insert_rowid :: "'d \<Rightarrow> int64"
  exec :: "string \<Rightarrow> 'd \<Rightarrow> int \<times> 'd"
  errmsg :: "'d \<Rightarrow> string"
  next_stmt :: "'d \<Rightarrow> stmt option"
  close :: "'d \<Rightarrow> int \<times> 'd"

subsection \<open>Data\<close>

datatype db_dsn_e = DSN_MAIN

record prepared_stmt_t =
  db :: ptr
  dsn :: db_dsn_e
  cache :: "lru_cache_t option"
  locked :: bool

definition MAX_MEM :: int where "MAX_MEM = 20 * 1000"
definition MAX_KEY_NUM :: int where "MAX_KEY_NUM = 100"

definition ptr_bytes :: "stmt \<Rightarrow> uint8 list" where
  "ptr_bytes p = map (\<lambda>i. word_of_nat (unat p div 256 ^ i mod 256)) [0..<8]"

definition bytes_ptr :: "uint8 list \<Rightarrow> stmt" where
  "bytes_ptr bs = word_of_nat (foldr (\<lambda>b n. unat b + 256 * n) bs 0)"

definition g_icd :: ut_icd where
  "g_icd = \<lparr>sz = 8, ic_init = None, ic_copy = Some 0, ic_dtor = Some 0\<rparr>"

text \<open>
  The copy function stores its source argument itself, not what it points to: the source bytes handed to
  the cache are those of the pointer. The destructor finalises the statement and releases the block;
  \<open>run_dtors\<close> calls it for the items that a cache operation has released, in order.
\<close>

definition copy :: "uint8 list \<Rightarrow> uint8 list \<Rightarrow> uint8 list" where
  "copy d src = take 8 src @ drop 8 d"

definition dtor :: "'d sqlite3 \<Rightarrow> cache_item_t \<Rightarrow> 'd \<Rightarrow> 'd" where
  "dtor api it d = snd (finalize api (bytes_ptr (idata it)) d)"

definition run_dtors :: "'d sqlite3 \<Rightarrow> lru_cache_t \<Rightarrow> lru_cache_t \<Rightarrow> 'd \<Rightarrow> 'd" where
  "run_dtors api c c' d = fold (\<lambda>a. dtor api (items c a)) (destroyed (drop (length (freed c)) (freed c'))) d"

abbreviation stmt_put :: "lru_alloc \<Rightarrow> lru_cache_t \<Rightarrow> string \<Rightarrow> stmt \<Rightarrow> (bool \<times> lru_cache_t option) option" where
  "stmt_put al c k st \<equiv> lru_cache_put (\<lambda>_ b. b) (\<lambda>_. copy) al (Some c) (Some k) (Some g_icd) (Some (ptr_bytes st))"

subsection \<open>Operations\<close>

text \<open>\<open>blk\<close> is the block for the cache, \<^const>\<open>None\<close> when it cannot be had.\<close>

definition new_prepared_stmt ::
  "lru_cache_t option \<Rightarrow> prepared_stmt_t option \<Rightarrow> ptr \<Rightarrow> db_dsn_e \<Rightarrow> bool \<times> prepared_stmt_t option" where
  "new_prepared_stmt blk ps dbp n =
     (case (dbp, ps) of
        (Some _, Some p) \<Rightarrow>
          (case blk of
             None \<Rightarrow> (False, Some (p\<lparr>cache := None\<rparr>))
           | Some _ \<Rightarrow>
               (case new_lru_cache blk MAX_KEY_NUM MAX_MEM of
                  (False, c) \<Rightarrow> (False, Some (p\<lparr>cache := c\<rparr>))
                | (True, c) \<Rightarrow> (True, Some (p\<lparr>cache := c, db := dbp, dsn := n, locked := False\<rparr>))))
      | _ \<Rightarrow> (False, ps))"

definition delete_prepared_stmt :: "'d sqlite3 \<Rightarrow> prepared_stmt_t option \<Rightarrow> 'd \<Rightarrow> (prepared_stmt_t option \<times> 'd) option" where
  "delete_prepared_stmt api ps d =
     (case ps of
        None \<Rightarrow> Some (None, d)
      | Some p \<Rightarrow>
          (case (cache p, delete_lru_cache (cache p)) of
             (Some c, Some (Some c')) \<Rightarrow> Some (Some (p\<lparr>db := None, cache := None\<rparr>), run_dtors api c c' d)
           | (None, _) \<Rightarrow> Some (Some (p\<lparr>db := None\<rparr>), d)
           | _ \<Rightarrow> None))"

text \<open>A NULL handle makes the engine refuse the statement (\<^verbatim>\<open>SQLITE_MISUSE\<close>).\<close>

definition new_pstmt :: "'d sqlite3 \<Rightarrow> ptr \<Rightarrow> string \<Rightarrow> 'd \<Rightarrow> stmt option \<times> 'd" where
  "new_pstmt api dbp sql d =
     (if dbp = None then (None, d)
      else case prepare_v2 api sql d of
             (rc, st, d1) \<Rightarrow> if rc \<noteq> SQLITE_OK \<or> st = None then (None, d1) else (st, d1))"

definition prepared_stmt_get ::
  "'d sqlite3 \<Rightarrow> lru_alloc \<Rightarrow> prepared_stmt_t option \<Rightarrow> string option \<Rightarrow> 'd \<Rightarrow>
   (stmt option \<times> prepared_stmt_t option \<times> 'd) option" where
  "prepared_stmt_get api al ps sql d =
     (case (ps, sql) of
        (Some p, Some k) \<Rightarrow>
          if locked p then None
          else
            (case (cache p, lru_cache_get (cache p) sql) of
               (_, None) \<Rightarrow> None
             | (_, Some (Some it, Some c)) \<Rightarrow>
                 Some (Some (bytes_ptr (idata (items c it))), Some (p\<lparr>cache := Some c, locked := True\<rparr>), d)
             | (None, _) \<Rightarrow>
                 (case new_pstmt api (db p) k d of
                    (None, d1) \<Rightarrow> Some (None, ps, d1)
                  | (Some st, d1) \<Rightarrow> Some (None, ps, snd (finalize api st d1)))
             | (Some c, _) \<Rightarrow>
                 (case new_pstmt api (db p) k d of
                    (None, d1) \<Rightarrow> Some (None, ps, d1)
                  | (Some st, d1) \<Rightarrow>
                      (case stmt_put al c k st of
                         Some (True, Some c1) \<Rightarrow>
                           Some (Some st, Some (p\<lparr>cache := Some c1, locked := True\<rparr>), run_dtors api c c1 d1)
                       | Some (False, Some c1) \<Rightarrow>
                           Some (None, Some (p\<lparr>cache := Some c1\<rparr>), snd (finalize api st (run_dtors api c c1 d1)))
                       | _ \<Rightarrow> None)))
      | _ \<Rightarrow> Some (None, ps, d))"

definition prepared_stmt_put ::
  "'d sqlite3 \<Rightarrow> prepared_stmt_t option \<Rightarrow> stmt option \<Rightarrow> 'd \<Rightarrow> (prepared_stmt_t option \<times> 'd) option" where
  "prepared_stmt_put api ps st d =
     (case (ps, st) of
        (Some p, Some s) \<Rightarrow>
          (let d1 = snd (reset api s d) in
           if stmt_busy api s d1 then
             (case (cache p, lru_cache_remove (cache p) (Some (stmt_sql api s d1))) of
                (Some c, Some (Some c1)) \<Rightarrow> Some (Some (p\<lparr>cache := Some c1, locked := False\<rparr>), run_dtors api c c1 d1)
              | (None, _) \<Rightarrow> Some (Some (p\<lparr>locked := False\<rparr>), d1)
              | _ \<Rightarrow> None)
           else Some (Some (p\<lparr>locked := False\<rparr>), d1))
      | _ \<Rightarrow> Some (ps, d))"

subsection \<open>Pointers as bytes\<close>

lemma base_256_digits:
  "foldr (\<lambda>b n. b + 256 * n) (map (\<lambda>i. n div 256 ^ i mod 256) [0..<k]) 0 = (n :: nat) mod 256 ^ k"
proof (induction k arbitrary: n)
  case (Suc k)
  have "map (\<lambda>i. n div 256 ^ i mod 256) [0..<Suc k] = n mod 256 # map (\<lambda>i. n div 256 div 256 ^ i mod 256) [0..<k]"
    by (simp add: upt_conv_Cons map_Suc_upt [symmetric] comp_def div_mult2_eq [symmetric] del: upt_Suc)
  then show ?case using Suc.IH [of "n div 256"] by (simp add: mod_mult2_eq add.commute del: upt_Suc)
qed simp

lemma bytes_ptr_bytes [simp]: "bytes_ptr (ptr_bytes p) = p"
proof -
  have u: "unat (word_of_nat (n mod 256) :: uint8) = n mod 256" for n :: nat
    by (simp add: unsigned_of_nat take_bit_eq_mod)
  have "foldr (\<lambda>b n. unat b + 256 * n) (ptr_bytes p) 0 =
      foldr (\<lambda>b n. b + 256 * n) (map (\<lambda>i. unat p div 256 ^ i mod 256) [0..<8]) 0"
    unfolding ptr_bytes_def foldr_map by (simp add: comp_def u del: upt_rec_numeral)
  also have "\<dots> = unat p mod 256 ^ 8" by (rule base_256_digits)
  also have "\<dots> = unat p"
  proof -
    have "unat p < 2 ^ 64" using unsigned_less [of p] by simp
    then show ?thesis by simp
  qed
  finally show ?thesis by (simp add: bytes_ptr_def)
qed

lemma length_ptr_bytes [simp]: "length (ptr_bytes p) = 8"
  by (simp add: ptr_bytes_def)

lemma stmt_copied: "copied (\<lambda>_ b. b) (\<lambda>_. copy) g_icd (ptr_bytes st)"
  by (simp add: copied_def g_icd_def copy_bytes_def init_bytes_def copy_def)

subsection \<open>Invariant\<close>

text \<open>
  \<open>ps_inv p xs\<close>: the cache is consistent, keeps its limits and holds statements only. \<open>open_stmts\<close> is the
  abstract cache: SQL text and statement, the most recently used first.
\<close>

definition ps_inv :: "prepared_stmt_t \<Rightarrow> addr list \<Rightarrow> bool" where
  "ps_inv p xs \<longleftrightarrow>
     (case cache p of
        None \<Rightarrow> False
      | Some c \<Rightarrow> lru_inv c xs \<and> max_key_num c = MAX_KEY_NUM \<and> max_mem c = MAX_MEM \<and> length xs \<le> 100 \<and>
          list_all (\<lambda>e. icd (snd e) = g_icd) (entries c xs))"

definition item_stmt :: "string \<times> cache_item_t \<Rightarrow> string \<times> stmt" where
  "item_stmt e = (fst e, bytes_ptr (idata (snd e)))"

definition open_stmts :: "prepared_stmt_t \<Rightarrow> addr list \<Rightarrow> (string \<times> stmt) list" where
  "open_stmts p xs = (case cache p of None \<Rightarrow> [] | Some c \<Rightarrow> map item_stmt (entries c xs))"

definition ps_alloc :: "prepared_stmt_t \<Rightarrow> addr list \<Rightarrow> lru_alloc \<Rightarrow> bool" where
  "ps_alloc p xs al \<longleftrightarrow> (case cache p of None \<Rightarrow> False | Some c \<Rightarrow> safe_alloc c xs al)"

definition ps_full :: "prepared_stmt_t \<Rightarrow> addr list \<Rightarrow> bool" where
  "ps_full p xs \<longleftrightarrow> (case cache p of None \<Rightarrow> False | Some c \<Rightarrow> cache_full c xs)"

lemma map_of_open: "map_of (map item_stmt es) k = map_option (\<lambda>it. bytes_ptr (idata it)) (map_of es k)"
  by (induction es) (auto simp: item_stmt_def)

lemma touch_open: "map item_stmt (touch k v es) = touch k (bytes_ptr (idata v)) (map item_stmt es)"
  by (simp add: touch_def item_stmt_def filter_map comp_def)

lemma length_entries [simp]: "length (entries c xs) = length xs"
  by (simp add: entries_def)

lemma touch_props:
  assumes "map_of es k = Some v"
  shows "length (touch k v es) \<le> length es" "set (touch k v es) \<subseteq> set es"
proof -
  have m: "(k, v) \<in> set es" using assms by (rule map_of_SomeD)
  then have "length (filter (\<lambda>e. fst e \<noteq> k) es) < length es" by (rule length_filter_less) simp
  then show "length (touch k v es) \<le> length es" by (simp add: touch_def)
  show "set (touch k v es) \<subseteq> set es" using m by (auto simp: touch_def)
qed

lemma stmt_stored: "item_stmt (k, stored g_icd (ptr_bytes st)) = (k, st)"
  by (simp add: item_stmt_def stored_def g_icd_def)

lemma evicted_props:
  assumes "lru_inv c xs" and "max_key_num c = MAX_KEY_NUM" and "max_mem c = MAX_MEM" and "length xs \<le> 100"
  shows "length (evicted (cache_full c xs) (entries c xs)) < 100"
    "set (evicted full es) \<subseteq> set es" "map f (evicted full es) = evicted full (map f es)"
proof -
  have "cache_full c xs \<Longrightarrow> xs \<noteq> []" using full_nonempty [OF assms(1)] assms(2,3) by (simp add: MAX_KEY_NUM_def MAX_MEM_def)
  moreover have "\<not> cache_full c xs \<Longrightarrow> length xs < 100" using assms(2) by (simp add: cache_full_def MAX_KEY_NUM_def)
  ultimately show "length (evicted (cache_full c xs) (entries c xs)) < 100"
    using assms(4) by (cases "cache_full c xs") (auto simp: evicted_def neq_Nil_conv)
qed (auto simp: evicted_def map_butlast dest: in_set_butlastD)

lemma run_dtors_evicted:
  assumes "lru_inv c xs" and "list_all (\<lambda>e. icd (snd e) = g_icd) (entries c xs)" and "xs \<noteq> [] \<or> \<not> full"
    and "freed c' = freed c @ fr" and "destroyed fr = (if full then destroyed (entry_blocks c (last xs)) else [])"
  shows "run_dtors api c c' d =
     (if full then snd (finalize api (snd (last (map item_stmt (entries c xs)))) d) else d)"
proof (cases full)
  case True
  then obtain ys n where xs: "xs = ys @ [n]" using assms(3) by (cases xs rule: rev_cases) auto
  then have "icd (items c (item c n)) = g_icd" using assms(2) by (simp add: entries_def)
  then have "destroyed (entry_blocks c n) = [item c n]" by (simp add: entry_blocks_def data_freed_def g_icd_def)
  then show ?thesis
    using True xs assms(4,5) by (simp add: run_dtors_def dtor_def entries_def item_stmt_def)
next
  case False
  then show ?thesis using assms(4,5) by (simp add: run_dtors_def)
qed

subsection \<open>Getting and putting back\<close>

text \<open>The specification of a lookup: statement returned, engine state and abstract cache afterwards.\<close>

definition get_spec ::
  "'d sqlite3 \<Rightarrow> bool \<Rightarrow> bool \<Rightarrow> ptr \<Rightarrow> string \<Rightarrow> 'd \<Rightarrow> (string \<times> stmt) list \<Rightarrow> stmt option \<times> 'd \<times> (string \<times> stmt) list" where
  "get_spec api mem_ok full dbp k d os =
     (case map_of os k of
        Some st \<Rightarrow> (Some st, d, touch k st os)
      | None \<Rightarrow>
          (case new_pstmt api dbp k d of
             (None, d1) \<Rightarrow> (None, d1, os)
           | (Some st, d1) \<Rightarrow>
               (let d2 = (if full then snd (finalize api (snd (last os)) d1) else d1)
                in if mem_ok then (Some st, d2, (k, st) # evicted full os)
                   else (None, snd (finalize api st d2), evicted full os))))"

lemma get_spec_cached: "get_spec api ok full dbp k d os = (Some st, d', os') \<Longrightarrow> map_of os' k = Some st"
  by (auto simp: get_spec_def touch_def Let_def split: option.splits if_splits prod.splits)

lemma get_hit:
  assumes inv: "ps_inv p xs" and unl: "\<not> locked p" and hit: "map_of (open_stmts p xs) k = Some st"
  shows "\<exists>p' ys. prepared_stmt_get api al (Some p) (Some k) d = Some (Some st, Some p', d) \<and> ps_inv p' ys \<and> locked p' \<and>
     db p' = db p \<and> open_stmts p' ys = touch k st (open_stmts p xs)"
proof -
  obtain c where c: "cache p = Some c" "lru_inv c xs" "max_key_num c = MAX_KEY_NUM" "max_mem c = MAX_MEM" "length xs \<le> 100"
    "list_all (\<lambda>e. icd (snd e) = g_icd) (entries c xs)"
    using inv by (auto simp: ps_inv_def split: option.splits)
  obtain it where it: "map_of (entries c xs) k = Some it" "st = bytes_ptr (idata it)"
    using hit c(1) by (auto simp: open_stmts_def map_of_open)
  obtain r c' ys where g: "lru_cache_get (Some c) (Some k) = Some (Some r, Some c')" "lru_inv c' ys" "items c' r = it"
    "entries c' ys = touch k it (entries c xs)" "max_key_num c' = max_key_num c" "max_mem c' = max_mem c"
    using get_refines [OF c(2), of k] it(1) by auto
  have "length ys \<le> 100" "list_all (\<lambda>e. icd (snd e) = g_icd) (entries c' ys)"
    using touch_props [OF it(1)] g(4) c(5,6) length_entries [of c' ys] by (auto simp: list_all_iff)
  then have "ps_inv (p\<lparr>cache := Some c', locked := True\<rparr>) ys" using g c by (simp add: ps_inv_def)
  then show ?thesis
    using g c(1) it(2) unl by (intro exI [of _ "p\<lparr>cache := Some c', locked := True\<rparr>"] exI [of _ ys])
      (simp add: prepared_stmt_get_def open_stmts_def touch_open)
qed

lemma get_miss:
  assumes inv: "ps_inv p xs" and unl: "\<not> locked p" and miss: "map_of (open_stmts p xs) k = None" and al: "ps_alloc p xs al"
  shows "\<exists>r p' d' ys. prepared_stmt_get api al (Some p) (Some k) d = Some (r, Some p', d') \<and> ps_inv p' ys \<and> (locked p' \<longleftrightarrow> r \<noteq> None) \<and>
     db p' = db p \<and> get_spec api (all_alloc al) (ps_full p xs) (db p) k d (open_stmts p xs) = (r, d', open_stmts p' ys)"
proof -
  obtain c where c: "cache p = Some c" "lru_inv c xs" "max_key_num c = MAX_KEY_NUM" "max_mem c = MAX_MEM" "length xs \<le> 100"
    "list_all (\<lambda>e. icd (snd e) = g_icd) (entries c xs)"
    using inv by (auto simp: ps_inv_def split: option.splits)
  have k: "map_of (entries c xs) k = None" using miss c(1) by (simp add: open_stmts_def map_of_open)
  then have absent: "k \<notin> fst ` set (entries c xs)" by (simp add: map_of_eq_None_iff)
  then have get: "lru_cache_get (Some c) (Some k) = Some (None, Some c)"
    using find_absent [OF c(2), of k] by (simp add: lru_cache_get_def)
  note os = open_stmts_def c(1)
  show ?thesis
  proof (cases "fst (new_pstmt api (db p) k d)")
    case None
    then show ?thesis
      using get c(1) unl inv miss
      by (intro exI [of _ None] exI [of _ p] exI [of _ "snd (new_pstmt api (db p) k d)"] exI [of _ xs])
        (simp add: prepared_stmt_get_def get_spec_def split_beta)
  next
    case (Some st)
    let ?d1 = "snd (new_pstmt api (db p) k d)"
    have lim: "0 < max_key_num c" "0 < max_mem c" using c(3,4) by (simp_all add: MAX_KEY_NUM_def MAX_MEM_def)
    have "safe_alloc c xs al" using al c(1) by (simp add: ps_alloc_def)
    from put_absent [OF c(2) lim absent this stmt_copied [of st]] obtain c' ys fr where
      put: "stmt_put al c k st = Some (all_alloc al, Some c')" "lru_inv c' ys" "max_key_num c' = max_key_num c" "max_mem c' = max_mem c"
      "entries c' ys = (if all_alloc al then [(k, stored g_icd (ptr_bytes st))] else []) @ evicted (cache_full c xs) (entries c xs)"
      "freed c' = freed c @ fr" "destroyed fr = (if cache_full c xs then destroyed (entry_blocks c (last xs)) else [])"
      by blast
    have ne: "xs \<noteq> [] \<or> \<not> cache_full c xs" using full_nonempty [OF c(2) lim] by blast
    let ?d2 = "if cache_full c xs then snd (finalize api (snd (last (map item_stmt (entries c xs)))) ?d1) else ?d1"
    have dt: "run_dtors api c c' ?d1 = ?d2" by (rule run_dtors_evicted [OF c(2,6) ne put(6,7)])
    note ev = evicted_props [OF c(2-5)]
    have "length ys \<le> 100" using ev(1) length_entries [of c' ys] put(5) by (simp split: if_splits)
    moreover have "list_all (\<lambda>e. icd (snd e) = g_icd) (entries c' ys)"
      using put(5) ev(2) [of "cache_full c xs" "entries c xs"] c(6) by (auto simp: list_all_iff stored_def)
    ultimately have inv': "ps_inv (p\<lparr>cache := Some c', locked := b\<rparr>) ys" for b using put(2-4) c(3,4) by (simp add: ps_inv_def)
    have os': "map item_stmt (entries c' ys) = (if all_alloc al then [(k, st)] else []) @ evicted (cache_full c xs) (map item_stmt (entries c xs))"
      using put(5) ev(3) [of item_stmt] stmt_stored by simp
    let ?r = "if all_alloc al then Some st else None"
    let ?p' = "p\<lparr>cache := Some c', locked := all_alloc al\<rparr>"
    let ?d' = "if all_alloc al then ?d2 else snd (finalize api st ?d2)"
    have "prepared_stmt_get api al (Some p) (Some k) d = Some (?r, Some ?p', ?d')"
      using get c(1) unl Some put(1) dt by (cases "all_alloc al") (simp_all add: prepared_stmt_get_def split_beta)
    moreover have "get_spec api (all_alloc al) (ps_full p xs) (db p) k d (open_stmts p xs) = (?r, ?d', open_stmts ?p' ys)"
      using Some miss os' by (simp add: get_spec_def ps_full_def os split_beta)
    ultimately show ?thesis using inv' by (intro exI [of _ ?r] exI [of _ ?p'] exI [of _ ?d'] exI [of _ ys]) simp
  qed
qed

lemma stmt_get_refines:
  assumes inv: "ps_inv p xs" and unl: "\<not> locked p" and al: "ps_alloc p xs al"
  shows "\<exists>r p' d' ys. prepared_stmt_get api al (Some p) (Some k) d = Some (r, Some p', d') \<and> ps_inv p' ys \<and> (locked p' \<longleftrightarrow> r \<noteq> None) \<and>
     db p' = db p \<and> get_spec api (all_alloc al) (ps_full p xs) (db p) k d (open_stmts p xs) = (r, d', open_stmts p' ys)"
proof (cases "map_of (open_stmts p xs) k")
  case None
  then show ?thesis by (rule get_miss [OF inv unl _ al])
next
  case (Some st)
  then show ?thesis using get_hit [OF inv unl Some, of api al d] by (fastforce simp: get_spec_def)
qed

lemma stmt_put_refines:
  assumes inv: "ps_inv p xs"
  shows "\<exists>p' d' ys. prepared_stmt_put api (Some p) (Some st) d = Some (Some p', d') \<and> ps_inv p' ys \<and> \<not> locked p' \<and> db p' = db p \<and>
     (let d1 = snd (reset api st d) in
      if stmt_busy api st d1
      then open_stmts p' ys = filter (\<lambda>e. fst e \<noteq> stmt_sql api st d1) (open_stmts p xs)
      else open_stmts p' ys = open_stmts p xs \<and> d' = d1)"
proof -
  obtain c where c: "cache p = Some c" "lru_inv c xs" "max_key_num c = MAX_KEY_NUM" "max_mem c = MAX_MEM" "length xs \<le> 100"
    "list_all (\<lambda>e. icd (snd e) = g_icd) (entries c xs)"
    using inv by (auto simp: ps_inv_def split: option.splits)
  define d1 where "d1 = snd (reset api st d)"
  show ?thesis
  proof (cases "stmt_busy api st d1")
    case True
    let ?k = "stmt_sql api st d1"
    obtain c' ys where r: "lru_cache_remove (Some c) (Some ?k) = Some (Some c')" "lru_inv c' ys"
      "entries c' ys = filter (\<lambda>e. fst e \<noteq> ?k) (entries c xs)" "max_key_num c' = max_key_num c" "max_mem c' = max_mem c"
      using remove_refines [OF c(2), of ?k] by blast
    have "length ys \<le> 100" using r(3) c(5) length_entries [of c' ys] length_filter_le [of _ "entries c xs"] by (metis length_entries order_trans)
    moreover have "list_all (\<lambda>e. icd (snd e) = g_icd) (entries c' ys)" using r(3) c(6) by (auto simp: list_all_iff)
    ultimately have "ps_inv (p\<lparr>cache := Some c', locked := False\<rparr>) ys" using r c(3,4) by (simp add: ps_inv_def)
    moreover have "map item_stmt (filter (\<lambda>e. fst e \<noteq> ?k) es) = filter (\<lambda>e. fst e \<noteq> ?k) (map item_stmt es)" for es
      by (simp add: filter_map comp_def item_stmt_def)
    ultimately show ?thesis
      using True c(1) r(1,3) by (intro exI [of _ "p\<lparr>cache := Some c', locked := False\<rparr>"] exI [of _ "run_dtors api c c' d1"] exI [of _ ys])
        (simp add: prepared_stmt_put_def open_stmts_def flip: d1_def)
  next
    case False
    then show ?thesis
      using inv by (intro exI [of _ "p\<lparr>locked := False\<rparr>"] exI [of _ d1] exI [of _ xs])
        (simp add: prepared_stmt_put_def ps_inv_def open_stmts_def flip: d1_def)
  qed
qed

text \<open>
  C12. The statement cache. On a consistent cache whose mutex is free, a lookup returns: it gives the cached
  statement without calling the engine, or prepares one, finalising exactly the least recently used
  statement when the cache is full, and caches it; a failed preparation or allocation gives NULL and
  leaves nothing open. At most 100 statements stay open, and the mutex is held afterwards exactly if a
  statement was returned.
\<close>

theorem prepared_stmt_get_refines:
  assumes "ps_inv p xs" and "\<not> locked p" and "ps_alloc p xs al"
  shows "\<exists>r p' d' ys. prepared_stmt_get api al (Some p) (Some k) d = Some (r, Some p', d') \<and> ps_inv p' ys \<and>
     length (open_stmts p' ys) \<le> 100 \<and> (locked p' \<longleftrightarrow> r \<noteq> None) \<and>
     get_spec api (all_alloc al) (ps_full p xs) (db p) k d (open_stmts p xs) = (r, d', open_stmts p' ys)"
proof -
  have "length (open_stmts q ys) \<le> 100" if "ps_inv q ys" for q ys
    using that by (auto simp: ps_inv_def open_stmts_def split: option.splits)
  then show ?thesis using stmt_get_refines [OF assms, of api k d] by blast
qed

text \<open>
  Reusing a statement. After a statement was got and put back without being busy, the next lookup of the
  same text returns the same statement, without touching the engine; and while a statement is out, a second
  lookup on the same object never returns, because the mutex is not recursive.
\<close>

theorem prepared_stmt_reuse:
  assumes "ps_inv p xs" and "\<not> locked p" and "ps_alloc p xs al"
    and "prepared_stmt_get api al (Some p) (Some k) d = Some (Some st, Some p1, d1)"
    and "\<not> stmt_busy api st (snd (reset api st d1))"
  shows "prepared_stmt_get api al2 (Some p1) (Some k2) d3 = None \<and>
     (\<exists>p2 d2 p3. prepared_stmt_put api (Some p1) (Some st) d1 = Some (Some p2, d2) \<and>
        prepared_stmt_get api al2 (Some p2) (Some k) d2 = Some (Some st, Some p3, d2))"
proof -
  obtain ys where p1: "ps_inv p1 ys" "locked p1"
    "get_spec api (all_alloc al) (ps_full p xs) (db p) k d (open_stmts p xs) = (Some st, d1, open_stmts p1 ys)"
    using stmt_get_refines [OF assms(1-3), of api k d] assms(4) by auto
  then have "map_of (open_stmts p1 ys) k = Some st" using get_spec_cached by fast
  moreover obtain p2 d2 zs where "prepared_stmt_put api (Some p1) (Some st) d1 = Some (Some p2, d2)" "ps_inv p2 zs" "\<not> locked p2"
    "open_stmts p2 zs = open_stmts p1 ys"
    using stmt_put_refines [OF p1(1), of api st d1] assms(5) by (auto simp: Let_def)
  ultimately show ?thesis
    using p1(2) get_hit [of p2 zs k st api al2 d2] by (auto simp: prepared_stmt_get_def)
qed

end
