(* ===== verification/Template.thy ===== *)
theory Template
  imports Prepared_Stmt
begin

text \<open>
  The templates of \<^verbatim>\<open>src/src/database/dao/template.c\<close> and the options of \<^verbatim>\<open>dao_option.h\<close>. Every template takes a
  statement out of the cache, binds, steps and puts it back. A callback is a function on the engine state
  with its user pointer already applied; \<^const>\<open>None\<close> is a NULL callback. A result \<^const>\<open>None\<close> says that the call does not
  return. Row counts are unbounded.
\<close>

type_synonym 'd bind_cb = "stmt \<Rightarrow> 'd \<Rightarrow> 'd"
type_synonym 'd batch_cb = "stmt \<Rightarrow> int \<Rightarrow> 'd \<Rightarrow> 'd"
type_synonym ('d, 'u) unmarshal_cb = "stmt \<Rightarrow> 'd \<Rightarrow> 'u \<Rightarrow> 'u"

subsection \<open>Transactions and closing\<close>

definition dao_rollback :: "'d sqlite3 \<Rightarrow> ptr \<Rightarrow> 'd \<Rightarrow> 'd" where
  "dao_rollback api dbp d = (if dbp = None then d else snd (exec api ''ROLLBACK'' d))"

definition dao_commit :: "'d sqlite3 \<Rightarrow> ptr \<Rightarrow> 'd \<Rightarrow> 'd" where
  "dao_commit api dbp d = (if dbp = None then d else snd (exec api ''COMMIT'' d))"

definition nested_msg :: string where
  "nested_msg = ''cannot start a transaction within a transaction''"

definition dao_begin :: "'d sqlite3 \<Rightarrow> ptr \<Rightarrow> 'd \<Rightarrow> 'd" where
  "dao_begin api dbp d =
     (if dbp = None then d
      else case exec api ''BEGIN TRANSACTION'' d of
             (rc, d1) \<Rightarrow>
               if rc \<noteq> SQLITE_OK then (if errmsg api d1 = nested_msg then dao_commit api dbp d1 else d1) else d1)"

partial_function (option) close_loop :: "'d sqlite3 \<Rightarrow> int \<Rightarrow> 'd \<Rightarrow> (int \<times> 'd) option" where
  "close_loop api code d =
     (if code = SQLITE_BUSY then
        (case next_stmt api d of
           None \<Rightarrow> Some (SQLITE_OK, d)
         | Some st \<Rightarrow>
             (case finalize api st d of
                (rc, d1) \<Rightarrow>
                  if rc = SQLITE_OK then (case close api d1 of (rc2, d2) \<Rightarrow> close_loop api rc2 d2)
                  else close_loop api rc d1))
      else Some (code, d))"

definition dao_close :: "'d sqlite3 \<Rightarrow> ptr \<Rightarrow> 'd \<Rightarrow> 'd option" where
  "dao_close api dbp d =
     (if dbp = None then Some d
      else case close api d of (code, d1) \<Rightarrow> map_option snd (close_loop api code d1))"

subsection \<open>Stepping through rows\<close>

definition apply_cb :: "('d bind_cb) option \<Rightarrow> stmt \<Rightarrow> 'd \<Rightarrow> 'd" where
  "apply_cb cb st d = (case cb of None \<Rightarrow> d | Some f \<Rightarrow> f st d)"

partial_function (option) step_rows ::
  "'d sqlite3 \<Rightarrow> stmt \<Rightarrow> ('d, 'u) unmarshal_cb \<Rightarrow> int \<Rightarrow> 'u \<Rightarrow> 'd \<Rightarrow> (int \<times> 'u \<times> 'd) option" where
  "step_rows api st um n u d =
     (case step api st d of
        (rc, d1) \<Rightarrow> if rc = SQLITE_ROW then step_rows api st um (n + 1) (um st d1 u) d1 else Some (n, u, d1))"

subsection \<open>The templates\<close>

text \<open>The frame that the templates share: get the statement, run \<open>body\<close>, put it back; \<open>-1\<close> without a statement.\<close>

definition with_stmt ::
  "'d sqlite3 \<Rightarrow> lru_alloc \<Rightarrow> prepared_stmt_t option \<Rightarrow> string option \<Rightarrow> (stmt \<Rightarrow> 'd \<Rightarrow> (int \<times> 'u \<times> 'd) option) \<Rightarrow> 'u \<Rightarrow> 'd \<Rightarrow>
   (int \<times> 'u \<times> prepared_stmt_t option \<times> 'd) option" where
  "with_stmt api al ps sql body u d =
     (case prepared_stmt_get api al ps sql d of
        None \<Rightarrow> None
      | Some (None, ps1, d1) \<Rightarrow> Some (- 1, u, ps1, d1)
      | Some (Some st, ps1, d1) \<Rightarrow>
          (case body st d1 of
             None \<Rightarrow> None
           | Some (n, u1, d2) \<Rightarrow>
               (case prepared_stmt_put api ps1 (Some st) d2 of
                  None \<Rightarrow> None
                | Some (ps2, d3) \<Rightarrow> Some (n, u1, ps2, d3))))"

definition step_once :: "'d sqlite3 \<Rightarrow> stmt \<Rightarrow> 'd \<Rightarrow> int \<times> 'd" where
  "step_once api st d =
     (case step api st d of (rc, d1) \<Rightarrow> (if rc \<noteq> SQLITE_DONE then - 1 else sint (changes api d1), d1))"

definition dao_template_base ::
  "'d sqlite3 \<Rightarrow> lru_alloc \<Rightarrow> prepared_stmt_t option \<Rightarrow> string option \<Rightarrow> ('d bind_cb) option \<Rightarrow> 'd \<Rightarrow>
   (int \<times> unit \<times> prepared_stmt_t option \<times> 'd) option" where
  "dao_template_base api al ps sql cb d =
     (if ps = None \<or> sql = None then Some (- 1, (), ps, d)
      else with_stmt api al ps sql
             (\<lambda>st d1. case step_once api st (apply_cb cb st d1) of (change, d2) \<Rightarrow> Some (change, (), d2)) () d)"

text \<open>The key is stored in \<open>pk\<close>, cut to 32 bits, only when the step succeeded.\<close>

definition dao_template_create_pk_backfill ::
  "'d sqlite3 \<Rightarrow> lru_alloc \<Rightarrow> prepared_stmt_t option \<Rightarrow> string option \<Rightarrow> ('d bind_cb) option \<Rightarrow> int32 option \<Rightarrow> 'd \<Rightarrow>
   (int \<times> int32 option \<times> prepared_stmt_t option \<times> 'd) option" where
  "dao_template_create_pk_backfill api al ps sql cb pk d =
     (if ps = None \<or> sql = None \<or> pk = None then Some (- 1, pk, ps, d)
      else with_stmt api al ps sql
             (\<lambda>st d1. case step api st (apply_cb cb st d1) of
                (rc, d2) \<Rightarrow>
                  if rc \<noteq> SQLITE_DONE then Some (- 1, pk, d2)
                  else Some (sint (changes api d2), Some (ucast (last_insert_rowid api d2)), d2)) pk d)"

definition dao_template_select ::
  "'d sqlite3 \<Rightarrow> lru_alloc \<Rightarrow> prepared_stmt_t option \<Rightarrow> string option \<Rightarrow> ('d bind_cb) option \<Rightarrow> ptr \<Rightarrow> 'd \<Rightarrow>
   (int \<times> unit \<times> prepared_stmt_t option \<times> 'd) option" where
  "dao_template_select api al ps sql cb userp d =
     (if ps = None \<or> sql = None \<or> userp = None then Some (- 1, (), ps, d)
      else with_stmt api al ps sql
             (\<lambda>st d1. step_rows api st (\<lambda>_ _ u. u) 0 () (apply_cb cb st d1)) () d)"

definition dao_template_create ::
  "'d sqlite3 \<Rightarrow> lru_alloc \<Rightarrow> prepared_stmt_t option \<Rightarrow> string option \<Rightarrow> ('d bind_cb) option \<Rightarrow> 'd \<Rightarrow>
   (int \<times> unit \<times> prepared_stmt_t option \<times> 'd) option" where
  "dao_template_create api al ps sql cb d = dao_template_base api al ps sql cb d"

definition dao_template_delete ::
  "'d sqlite3 \<Rightarrow> lru_alloc \<Rightarrow> prepared_stmt_t option \<Rightarrow> string option \<Rightarrow> ('d bind_cb) option \<Rightarrow> 'd \<Rightarrow>
   (int \<times> unit \<times> prepared_stmt_t option \<times> 'd) option" where
  "dao_template_delete api al ps sql cb d = dao_template_base api al ps sql cb d"

definition dao_template_update ::
  "'d sqlite3 \<Rightarrow> lru_alloc \<Rightarrow> prepared_stmt_t option \<Rightarrow> string option \<Rightarrow> ('d bind_cb) option \<Rightarrow> 'd \<Rightarrow>
   (int \<times> unit \<times> prepared_stmt_t option \<times> 'd) option" where
  "dao_template_update api al ps sql cb d = dao_template_base api al ps sql cb d"

definition dao_template_drop ::
  "'d sqlite3 \<Rightarrow> lru_alloc \<Rightarrow> prepared_stmt_t option \<Rightarrow> string option \<Rightarrow> 'd \<Rightarrow> (bool \<times> prepared_stmt_t option \<times> 'd) option" where
  "dao_template_drop api al ps sql d =
     (case dao_template_base api al ps sql None d of None \<Rightarrow> None | Some (ret, _, ps1, d1) \<Rightarrow> Some (ret \<noteq> - 1, ps1, d1))"

definition dao_template_get ::
  "'d sqlite3 \<Rightarrow> lru_alloc \<Rightarrow> prepared_stmt_t option \<Rightarrow> string option \<Rightarrow> ('d bind_cb) option \<Rightarrow> (('d, 'u) unmarshal_cb) option \<Rightarrow>
   'u option \<Rightarrow> 'd \<Rightarrow> (int \<times> 'u option \<times> prepared_stmt_t option \<times> 'd) option" where
  "dao_template_get api al ps sql bind_cb um up d =
     (case (ps, sql, um, up) of
        (Some _, Some _, Some f, Some u) \<Rightarrow>
          (case with_stmt api al ps sql (\<lambda>st d1. step_rows api st f 0 u (apply_cb bind_cb st d1)) u d of
             None \<Rightarrow> None
           | Some (n, u1, ps1, d1) \<Rightarrow> Some (n, Some u1, ps1, d1))
      | _ \<Rightarrow> Some (- 1, up, ps, d))"

subsection \<open>Batches\<close>

fun batch_loop :: "'d sqlite3 \<Rightarrow> stmt \<Rightarrow> ('d batch_cb) option \<Rightarrow> int list \<Rightarrow> int \<Rightarrow> 'd \<Rightarrow> int \<times> 'd" where
  "batch_loop api st cb [] n d = (n, d)"
| "batch_loop api st cb (i # is) n d =
     (let d1 = (case cb of None \<Rightarrow> d | Some f \<Rightarrow> f st i d)
      in case step api st d1 of
           (rc, d2) \<Rightarrow> batch_loop api st cb is (if rc \<noteq> SQLITE_DONE then n else n + 1) (snd (reset api st d2)))"

text \<open>The handle of a statement is that of the engine, never NULL.\<close>

definition dao_template_batch_base ::
  "'d sqlite3 \<Rightarrow> lru_alloc \<Rightarrow> prepared_stmt_t option \<Rightarrow> string option \<Rightarrow> int \<Rightarrow> ('d batch_cb) option \<Rightarrow> 'd \<Rightarrow>
   (int \<times> unit \<times> prepared_stmt_t option \<times> 'd) option" where
  "dao_template_batch_base api al ps sql batch_size cb d =
     (if ps = None \<or> sql = None then Some (- 1, (), ps, d)
      else with_stmt api al ps sql
             (\<lambda>st d1. case batch_loop api st cb [0..batch_size - 1] 0 (dao_begin api (Some 0) d1) of
                (n, d2) \<Rightarrow> Some (n, (), dao_commit api (Some 0) d2)) () d)"

definition dao_template_batch_create ::
  "'d sqlite3 \<Rightarrow> lru_alloc \<Rightarrow> prepared_stmt_t option \<Rightarrow> string option \<Rightarrow> int \<Rightarrow> ('d batch_cb) option \<Rightarrow> 'd \<Rightarrow>
   (int \<times> unit \<times> prepared_stmt_t option \<times> 'd) option" where
  "dao_template_batch_create api al ps sql batch_size cb d = dao_template_batch_base api al ps sql batch_size cb d"

subsection \<open>Options\<close>

text \<open>\<open>DAO_TYPE_INVALID\<close> stands for a value outside the enumeration.\<close>

datatype dao_type_e =
  DAO_TYPE_INT32 | DAO_TYPE_INT64 | DAO_TYPE_FLOAT32 | DAO_TYPE_FLOAT64 | DAO_TYPE_TEXT | DAO_TYPE_NULL | DAO_TYPE_INVALID

record dao_option_t =
  userp :: int64
  sql_part :: string
  opt_type :: dao_type_e

text \<open>
  \<^verbatim>\<open>utstring_printf\<close> with the text as its format and no arguments: a doubled percent sign gives one, any
  other conversion would read an argument that is not there (\<^const>\<open>None\<close>).
\<close>

fun format_plain :: "string \<Rightarrow> string option" where
  "format_plain [] = Some []"
| "format_plain (c # cs) =
     (if c \<noteq> CHR ''%'' then map_option (Cons c) (format_plain cs)
      else case cs of
             [] \<Rightarrow> None
           | c2 # cs2 \<Rightarrow> if c2 = CHR ''%'' then map_option (Cons c) (format_plain cs2) else None)"

fun build_sql :: "string \<Rightarrow> dao_option_t list \<Rightarrow> string option" where
  "build_sql s [] = Some s"
| "build_sql s (p # ps) = (case format_plain (sql_part p) of None \<Rightarrow> None | Some t \<Rightarrow> build_sql (s @ t) ps)"

text \<open>Converting an integer to a floating-point number with \<open>p\<close> bits of precision, to nearest, ties to even.\<close>

fun bit_len :: "nat \<Rightarrow> nat" where
  "bit_len n = (if n = 0 then 0 else Suc (bit_len (n div 2)))"

declare bit_len.simps [simp del]

definition round_float :: "nat \<Rightarrow> int \<Rightarrow> rat" where
  "round_float p x =
     (let a = nat \<bar>x\<bar>; k = bit_len a - p; q = a div 2 ^ k; r = 2 * (a mod 2 ^ k);
          q' = (if r > 2 ^ k \<or> r = 2 ^ k \<and> 0 < k \<and> odd q then q + 1 else q)
      in rat_of_int (sgn x * int (q' * 2 ^ k)))"

text \<open>
  The switch that binds one option. The floating-point cases convert the pointer value as an integer.
  \<open>str_at\<close> reads the string at an address.
\<close>

definition option_value :: "(int64 \<Rightarrow> string) \<Rightarrow> dao_option_t \<Rightarrow> sql_value option" where
  "option_value str_at p =
     (case opt_type p of
        DAO_TYPE_INT32 \<Rightarrow> Some (Int32 (ucast (userp p)))
      | DAO_TYPE_INT64 \<Rightarrow> Some (Int64 (userp p))
      | DAO_TYPE_FLOAT32 \<Rightarrow> Some (Double (round_float 24 (sint (userp p))))
      | DAO_TYPE_FLOAT64 \<Rightarrow> Some (Double (round_float 53 (sint (userp p))))
      | DAO_TYPE_TEXT \<Rightarrow> Some (Text (str_at (userp p)))
      | DAO_TYPE_NULL \<Rightarrow> None
      | DAO_TYPE_INVALID \<Rightarrow> None)"

fun bind_options :: "'d sqlite3 \<Rightarrow> (int64 \<Rightarrow> string) \<Rightarrow> stmt \<Rightarrow> nat \<Rightarrow> dao_option_t list \<Rightarrow> 'd \<Rightarrow> 'd" where
  "bind_options api str_at st i [] d = d"
| "bind_options api str_at st i (p # ps) d =
     (case option_value str_at p of
        Some v \<Rightarrow> bind_options api str_at st (i + 1) ps (snd (bind api st i v d))
      | None \<Rightarrow> bind_options api str_at st i ps d)"

text \<open>The outer \<^const>\<open>None\<close> also stands for a format that reads missing arguments.\<close>

definition dao_template_base_with_option ::
  "'d sqlite3 \<Rightarrow> (int64 \<Rightarrow> string) \<Rightarrow> lru_alloc \<Rightarrow> prepared_stmt_t option \<Rightarrow> string option \<Rightarrow> dao_option_t list option \<Rightarrow>
   (('d, 'u) unmarshal_cb) option \<Rightarrow> 'u \<Rightarrow> 'd \<Rightarrow> (int \<times> 'u \<times> prepared_stmt_t option \<times> 'd) option" where
  "dao_template_base_with_option api str_at al ps part opts um up d =
     (case (ps, part, opts) of
        (Some _, Some s, Some os) \<Rightarrow>
          (case format_plain s of
             None \<Rightarrow> None
           | Some s1 \<Rightarrow>
          (case build_sql s1 os of
             None \<Rightarrow> None
           | Some sql \<Rightarrow>
               with_stmt api al ps (Some sql)
                 (\<lambda>st d1. case step_rows api st (case um of None \<Rightarrow> (\<lambda>_ _ u. u) | Some f \<Rightarrow> f) 0 up (bind_options api str_at st 1 os d1) of
                    None \<Rightarrow> None
                  | Some (n, u, d2) \<Rightarrow> Some (if n = 0 then sint (changes api d2) else n, u, d2)) up d))
      | _ \<Rightarrow> Some (- 1, up, ps, d))"

definition dao_template_get_with_option ::
  "'d sqlite3 \<Rightarrow> (int64 \<Rightarrow> string) \<Rightarrow> lru_alloc \<Rightarrow> prepared_stmt_t option \<Rightarrow> string option \<Rightarrow> dao_option_t list option \<Rightarrow>
   (('d, 'u) unmarshal_cb) option \<Rightarrow> 'u \<Rightarrow> 'd \<Rightarrow> (int \<times> 'u \<times> prepared_stmt_t option \<times> 'd) option" where
  "dao_template_get_with_option api str_at al ps sql opts um up d =
     (if ps = None \<or> sql = None \<or> opts = None \<or> um = None then Some (- 1, up, ps, d)
      else dao_template_base_with_option api str_at al ps sql opts um up d)"

definition dao_template_delete_with_option ::
  "'d sqlite3 \<Rightarrow> (int64 \<Rightarrow> string) \<Rightarrow> lru_alloc \<Rightarrow> prepared_stmt_t option \<Rightarrow> string option \<Rightarrow> dao_option_t list option \<Rightarrow> 'd \<Rightarrow>
   (int \<times> unit \<times> prepared_stmt_t option \<times> 'd) option" where
  "dao_template_delete_with_option api str_at al ps sql opts d =
     (if ps = None \<or> sql = None \<or> opts = None then Some (- 1, (), ps, d)
      else dao_template_base_with_option api str_at al ps sql opts None () d)"

definition dao_template_update_with_option ::
  "'d sqlite3 \<Rightarrow> (int64 \<Rightarrow> string) \<Rightarrow> lru_alloc \<Rightarrow> prepared_stmt_t option \<Rightarrow> string option \<Rightarrow> dao_option_t list option \<Rightarrow> 'd \<Rightarrow>
   (int \<times> unit \<times> prepared_stmt_t option \<times> 'd) option" where
  "dao_template_update_with_option api str_at al ps sql opts d =
     (if ps = None \<or> sql = None \<or> opts = None then Some (- 1, (), ps, d)
      else dao_template_base_with_option api str_at al ps sql opts None () d)"

subsection \<open>Every template gives the statement back\<close>

text \<open>
  \<open>rows_end\<close> is what the documentation of SQLite promises of stepping: a result set is finite, so some
  call does not return another row. \<open>rows\<close> counts the rows that are left.
\<close>

definition after_steps :: "'d sqlite3 \<Rightarrow> stmt \<Rightarrow> nat \<Rightarrow> 'd \<Rightarrow> 'd" where
  "after_steps api st n d = ((\<lambda>d. snd (step api st d)) ^^ n) d"

definition rows_end :: "'d sqlite3 \<Rightarrow> bool" where
  "rows_end api \<longleftrightarrow> (\<forall>st d. \<exists>n. fst (step api st (after_steps api st n d)) \<noteq> SQLITE_ROW)"

definition row_count :: "'d sqlite3 \<Rightarrow> stmt \<Rightarrow> 'd \<Rightarrow> nat" where
  "row_count api st d = (LEAST n. fst (step api st (after_steps api st n d)) \<noteq> SQLITE_ROW)"

lemma after_steps_Suc: "after_steps api st (Suc n) d = after_steps api st n (snd (step api st d))"
  by (simp add: after_steps_def funpow_Suc_right del: funpow.simps)

lemma row_count_Suc:
  assumes "rows_end api" and "fst (step api st d) = SQLITE_ROW"
  shows "row_count api st d = Suc (row_count api st (snd (step api st d)))"
proof -
  obtain n where n: "fst (step api st (after_steps api st n d)) \<noteq> SQLITE_ROW" using assms(1) by (auto simp: rows_end_def)
  have "fst (step api st (after_steps api st 0 d)) = SQLITE_ROW" using assms(2) by (simp add: after_steps_def)
  then show ?thesis
    unfolding row_count_def using Least_Suc [of "\<lambda>n. fst (step api st (after_steps api st n d)) \<noteq> SQLITE_ROW", OF n]
    by (simp add: after_steps_Suc)
qed

lemma row_count_0: "fst (step api st d) \<noteq> SQLITE_ROW \<Longrightarrow> row_count api st d = 0"
  unfolding row_count_def by (rule Least_eq_0) (simp add: after_steps_def)

lemma step_rows_counts:
  assumes "rows_end api"
  shows "\<exists>u'. step_rows api st um n u d = Some (n + int (row_count api st d), u', after_steps api st (Suc (row_count api st d)) d)"
proof (induction "row_count api st d" arbitrary: n u d)
  case 0
  then have "fst (step api st d) \<noteq> SQLITE_ROW" using row_count_Suc [OF assms, of st d] by auto
  then show ?case using 0 by (subst step_rows.simps) (simp add: after_steps_def split_beta)
next
  case (Suc m)
  then have row: "fst (step api st d) = SQLITE_ROW" using row_count_0 by fastforce
  note c = row_count_Suc [OF assms row]
  then have "m = row_count api st (snd (step api st d))" using Suc.hyps(2) by simp
  from Suc.hyps(1) [OF this, of "n + 1" "um st (snd (step api st d)) u"] show ?case
    using row c by (subst step_rows.simps) (auto simp: split_beta after_steps_Suc)
qed

text \<open>The frame of the templates: it returns when its body does, and the mutex is free again.\<close>

lemma with_stmt_cases:
  assumes inv: "ps_inv p xs" and unl: "\<not> locked p" and al: "ps_alloc p xs al"
    and body: "\<And>st d. \<exists>n u' d'. body st d = Some (n, u', d')"
  obtains (refused) d1 os p' ys where
      "get_spec api (all_alloc al) (ps_full p xs) (db p) k d (open_stmts p xs) = (None, d1, os)"
      "with_stmt api al (Some p) (Some k) body u d = Some (- 1, u, Some p', d1)" "ps_inv p' ys" "\<not> locked p'" "db p' = db p"
  | (ran) st d1 os n u' d2 p' d' ys where
      "get_spec api (all_alloc al) (ps_full p xs) (db p) k d (open_stmts p xs) = (Some st, d1, os)"
      "body st d1 = Some (n, u', d2)"
      "with_stmt api al (Some p) (Some k) body u d = Some (n, u', Some p', d')" "ps_inv p' ys" "\<not> locked p'" "db p' = db p"
proof -
  obtain r p1 d1 ys where g: "prepared_stmt_get api al (Some p) (Some k) d = Some (r, Some p1, d1)" "ps_inv p1 ys"
    "locked p1 \<longleftrightarrow> r \<noteq> None" "db p1 = db p"
    "get_spec api (all_alloc al) (ps_full p xs) (db p) k d (open_stmts p xs) = (r, d1, open_stmts p1 ys)"
    using stmt_get_refines [OF inv unl al, of api k d] by blast
  show thesis
  proof (cases r)
    case None
    then show thesis using g by (intro refused [where p' = p1 and ys = ys]) (auto simp: with_stmt_def)
  next
    case (Some st)
    obtain n u' d2 where b: "body st d1 = Some (n, u', d2)" using body by blast
    obtain p2 d3 zs where "prepared_stmt_put api (Some p1) (Some st) d2 = Some (Some p2, d3)" "ps_inv p2 zs" "\<not> locked p2" "db p2 = db p1"
      using stmt_put_refines [OF g(2), of api st d2] by blast
    then show thesis using g b Some by (intro ran [where p' = p2 and ys = zs and st = st and n = n]) (auto simp: with_stmt_def)
  qed
qed

text \<open>
  C13. The writing templates. On a consistent statement cache whose mutex is free, \<^verbatim>\<open>dao_template_base\<close>
  returns whatever the engine does, the cache is consistent and the mutex free again. The result is \<open>-1\<close> if
  there is no statement or its step does not end with \<^verbatim>\<open>SQLITE_DONE\<close>, and the number of changed rows
  otherwise.
\<close>

theorem dao_template_base_spec:
  assumes "ps_inv p xs" and "\<not> locked p" and "ps_alloc p xs al"
  shows "\<exists>n p' d' ys. dao_template_base api al (Some p) (Some k) cb d = Some (n, (), Some p', d') \<and>
     ps_inv p' ys \<and> \<not> locked p' \<and>
     (case get_spec api (all_alloc al) (ps_full p xs) (db p) k d (open_stmts p xs) of
        (None, d1, _) \<Rightarrow> n = - 1 \<and> d' = d1
      | (Some st, d1, _) \<Rightarrow>
          n = (case step api st (apply_cb cb st d1) of
                 (rc, d2) \<Rightarrow> if rc = SQLITE_DONE then sint (changes api d2) else - 1))"
proof -
  let ?body = "\<lambda>st d1. case step_once api st (apply_cb cb st d1) of (change, d2) \<Rightarrow> Some (change, (), d2)"
  have "\<exists>n u' d'. ?body st d = Some (n, u', d')" for st d by (simp add: split_beta)
  then show ?thesis
    by (rule with_stmt_cases [OF assms, of ?body api k d "()"])
      (auto simp: dao_template_base_def step_once_def split_beta split: if_splits)
qed

text \<open>
  C15. The reading template. If result sets are finite, \<^verbatim>\<open>dao_template_get\<close> returns: \<open>-1\<close> without a statement,
  and otherwise the number of rows that the engine yields before its first other answer. The cache is consistent
  and the mutex is free again.
\<close>

theorem dao_template_get_spec:
  assumes "ps_inv p xs" and "\<not> locked p" and "ps_alloc p xs al" and "rows_end api"
  shows "\<exists>n u' p' d' ys. dao_template_get api al (Some p) (Some k) cb (Some um) (Some u) d = Some (n, Some u', Some p', d') \<and>
     ps_inv p' ys \<and> \<not> locked p' \<and>
     n = (case get_spec api (all_alloc al) (ps_full p xs) (db p) k d (open_stmts p xs) of
            (None, d1, _) \<Rightarrow> - 1
          | (Some st, d1, _) \<Rightarrow> int (row_count api st (apply_cb cb st d1)))"
proof -
  let ?body = "\<lambda>st d1. step_rows api st um 0 u (apply_cb cb st d1)"
  have b: "\<exists>u' d'. ?body st d = Some (int (row_count api st (apply_cb cb st d)), u', d')" for st d
    using step_rows_counts [OF assms(4), of st um 0 u "apply_cb cb st d"] by auto
  then have "\<exists>n u' d'. ?body st d = Some (n, u', d')" for st d by blast
  then show ?thesis
  proof (rule with_stmt_cases [OF assms(1-3), of ?body api k d u])
    fix st d1 os n u' d2 p' d' ys
    assume "?body st d1 = Some (n, u', d2)"
      "get_spec api (all_alloc al) (ps_full p xs) (db p) k d (open_stmts p xs) = (Some st, d1, os)"
      "with_stmt api al (Some p) (Some k) ?body u d = Some (n, u', Some p', d')" "ps_inv p' ys" "\<not> locked p'"
    then show ?thesis using b [of st d1] by (auto simp: dao_template_get_def)
  qed (auto simp: dao_template_get_def)
qed

text \<open>
  A query with options that finds nothing. When the statement yields no row,
  \<^verbatim>\<open>dao_template_get_with_option\<close> does not return 0 but the number of rows changed by the last
  writing statement on the connection, so that an empty result looks like a match.
\<close>

theorem get_with_option_stale_count:
  assumes "ps_inv p xs" and "\<not> locked p" and "ps_alloc p xs al" and "rows_end api"
    and "format_plain s = Some s1" and "build_sql s1 os = Some sql"
    and "get_spec api (all_alloc al) (ps_full p xs) (db p) sql d (open_stmts p xs) = (Some st, d1, os')"
    and "row_count api st (bind_options api str_at st 1 os d1) = 0"
  shows "\<exists>p' d'. dao_template_get_with_option api str_at al (Some p) (Some s) (Some os) (Some um) u d =
     Some (sint (changes api (snd (step api st (bind_options api str_at st 1 os d1)))), u, Some p', d')"
proof -
  let ?body = "\<lambda>st d1. case step_rows api st um 0 u (bind_options api str_at st 1 os d1) of
      None \<Rightarrow> None | Some (n, u, d2) \<Rightarrow> Some (if n = 0 then sint (changes api d2) else n, u, d2)"
  have b: "\<exists>n u' d'. ?body st d = Some (n, u', d')" for st d
    using step_rows_counts [OF assms(4), of st um 0 u "bind_options api str_at st 1 os d"] by auto
  have "fst (step api st (bind_options api str_at st 1 os d1)) \<noteq> SQLITE_ROW"
    using assms(8) row_count_Suc [OF assms(4), of st "bind_options api str_at st 1 os d1"] by auto
  then have "?body st d1 = (case step api st (bind_options api str_at st 1 os d1) of (rc, d2) \<Rightarrow> Some (sint (changes api d2), u, d2))"
    by (subst step_rows.simps) (simp add: split_beta)
  then show ?thesis
    using assms(5-7) by (cases rule: with_stmt_cases [OF assms(1-3), of ?body api sql d u, OF b])
      (auto simp: dao_template_get_with_option_def dao_template_base_with_option_def split_beta)
qed

definition plain_text :: "string \<Rightarrow> bool" where
  "plain_text s = list_all (\<lambda>c. c \<noteq> CHR ''%'') s"

lemma format_plain_id: "plain_text s \<Longrightarrow> format_plain s = Some s"
  by (induction s rule: format_plain.induct) (auto simp: plain_text_def)

definition option_values :: "(int64 \<Rightarrow> string) \<Rightarrow> dao_option_t list \<Rightarrow> sql_value list" where
  "option_values str_at os = List.map_filter (option_value str_at) os"

lemma bind_options_fold:
  "bind_options api str_at st i os d =
     fold (\<lambda>(j, v) d. snd (bind api st j v d)) (zip [i..<i + length (option_values str_at os)] (option_values str_at os)) d"
  by (induction os arbitrary: i d)
    (simp_all add: option_values_def List.map_filter_simps upt_conv_Cons split: option.split del: upt_Suc)

text \<open>
  Options and parameters. If no part contains a percent sign, the SQL text is the concatenation of the
  parts, and the values of the options that have one are bound to the parameters 1, 2, \<open>\<dots>\<close> in order; an
  option of type NULL takes no parameter.
\<close>

theorem options_build_and_bind:
  assumes "list_all (\<lambda>p. plain_text (sql_part p)) os"
  shows "build_sql s os = Some (s @ concat (map sql_part os)) \<and>
     bind_options api str_at st 1 os d =
       fold (\<lambda>(j, v) d. snd (bind api st j v d)) (zip [1..<1 + length (option_values str_at os)] (option_values str_at os)) d"
proof
  show "build_sql s os = Some (s @ concat (map sql_part os))"
    using assms by (induction os arbitrary: s) (simp_all add: format_plain_id)
qed (rule bind_options_fold)

subsection \<open>What a batch does\<close>

text \<open>The engine before row \<open>i\<close> of a batch that begins with \<open>d\<close>, and whether the step of the row is done.\<close>

definition bind_row :: "('d batch_cb) option \<Rightarrow> stmt \<Rightarrow> nat \<Rightarrow> 'd \<Rightarrow> 'd" where
  "bind_row cb st i d = (case cb of None \<Rightarrow> d | Some f \<Rightarrow> f st (int i) d)"

primrec before_row :: "'d sqlite3 \<Rightarrow> stmt \<Rightarrow> ('d batch_cb) option \<Rightarrow> 'd \<Rightarrow> nat \<Rightarrow> 'd" where
  "before_row api st cb d 0 = d"
| "before_row api st cb d (Suc i) = snd (reset api st (snd (step api st (bind_row cb st i (before_row api st cb d i)))))"






text \<open>
  A batch inside a transaction. If the engine reports that BEGIN was refused because there is a transaction, and COMMIT then succeeds and ends it, the
  caller's transaction is committed, and no row is inserted inside a transaction, since the callback and the statement of the
  batch do not begin one. \<open>in_tx\<close> tells whether there is a transaction.
\<close>

theorem nested_batch_without_transaction:
  assumes refused: "exec api ''BEGIN TRANSACTION'' d = (rc, d1)" "rc \<noteq> SQLITE_OK" "errmsg api d1 = nested_msg"
    and ended: "exec api ''COMMIT'' d1 = (SQLITE_OK, d2)" "\<not> in_tx d2"
    and rows: "\<And>i d. \<not> in_tx d \<Longrightarrow> \<not> in_tx (bind_row cb st i d)" "\<And>d. \<not> in_tx d \<Longrightarrow> \<not> in_tx (snd (step api st d))"
      "\<And>d. \<not> in_tx d \<Longrightarrow> \<not> in_tx (snd (reset api st d))"
  shows "\<not> in_tx (before_row api st cb (dao_begin api (Some a) d) i)"
  by (induction i) (use assms in \<open>simp_all add: dao_begin_def dao_commit_def\<close>)

subsection \<open>Closing the connection\<close>

text \<open>
  Documented behaviour of closing: it is refused exactly while statements are open; the next statement exists
  exactly then, and finalising it leaves one statement less, whatever code it returns.
\<close>

definition close_engine :: "'d sqlite3 \<Rightarrow> ('d \<Rightarrow> nat) \<Rightarrow> ('d \<Rightarrow> bool) \<Rightarrow> bool" where
  "close_engine api open_cnt is_closed \<longleftrightarrow>
     (\<forall>d. if open_cnt d = 0 then fst (close api d) = SQLITE_OK \<and> is_closed (snd (close api d))
          else fst (close api d) = SQLITE_BUSY \<and> open_cnt (snd (close api d)) = open_cnt d) \<and>
     (\<forall>d. next_stmt api d = None \<longleftrightarrow> open_cnt d = 0) \<and>
     (\<forall>d st. next_stmt api d = Some st \<longrightarrow> open_cnt (snd (finalize api st d)) = open_cnt d - 1)"

definition finalize_ok :: "'d sqlite3 \<Rightarrow> bool" where
  "finalize_ok api \<longleftrightarrow> (\<forall>st d. fst (finalize api st d) = SQLITE_OK)"

lemma close_engineD:
  assumes "close_engine api open_cnt is_closed"
  shows "open_cnt d = 0 \<Longrightarrow> fst (close api d) = SQLITE_OK \<and> is_closed (snd (close api d))"
    "open_cnt d \<noteq> 0 \<Longrightarrow> fst (close api d) = SQLITE_BUSY \<and> open_cnt (snd (close api d)) = open_cnt d"
    "next_stmt api d = None \<longleftrightarrow> open_cnt d = 0"
    "next_stmt api d = Some st \<Longrightarrow> Suc (open_cnt (snd (finalize api st d))) = open_cnt d"
proof -
  show *: "next_stmt api d = None \<longleftrightarrow> open_cnt d = 0" using assms by (simp add: close_engine_def)
  assume "next_stmt api d = Some st"
  moreover from this have "open_cnt (snd (finalize api st d)) = open_cnt d - 1" using assms by (simp add: close_engine_def)
  ultimately show "Suc (open_cnt (snd (finalize api st d))) = open_cnt d" using * by auto
qed (use assms in \<open>auto simp: close_engine_def\<close>)

lemma close_loop_returns:
  assumes "close_engine api open_cnt is_closed"
  shows "\<exists>code' d'. close_loop api code d = Some (code', d')"
proof (induction "open_cnt d" arbitrary: code d rule: less_induct)
  case less
  show ?case
  proof (cases "code = SQLITE_BUSY \<and> next_stmt api d \<noteq> None")
    case True
    then obtain st where st: "next_stmt api d = Some st" by auto
    let ?d1 = "snd (finalize api st d)"
    have dec: "open_cnt ?d1 < open_cnt d" using close_engineD(4) [OF assms st] by simp
    show ?thesis
    proof (cases "open_cnt ?d1 = 0 \<and> fst (finalize api st d) = SQLITE_OK")
      case True
      then have "fst (close api ?d1) = SQLITE_OK" using close_engineD(1) [OF assms] by blast
      then have "close_loop api (fst (close api ?d1)) (snd (close api ?d1)) = Some (SQLITE_OK, snd (close api ?d1))"
        by (subst close_loop.simps) simp
      then show ?thesis using True st \<open>code = SQLITE_BUSY \<and> _\<close> by (subst close_loop.simps) (simp add: split_beta)
    next
      case False
      then have "fst (finalize api st d) = SQLITE_OK \<Longrightarrow> open_cnt (snd (close api ?d1)) = open_cnt ?d1"
        using close_engineD(2) [OF assms, of ?d1] by blast
      then show ?thesis
        using less [of "snd (close api ?d1)" "fst (close api ?d1)"] less [of ?d1 "fst (finalize api st d)"] dec st True
        by (subst close_loop.simps) (auto simp: split_beta)
    qed
  next
    case False
    then show ?thesis by (subst close_loop.simps) auto
  qed
qed

lemma close_loop_closes:
  assumes "close_engine api open_cnt is_closed" and "finalize_ok api"
  shows "0 < open_cnt d \<Longrightarrow> \<exists>d'. close_loop api SQLITE_BUSY d = Some (SQLITE_OK, d') \<and> is_closed d'"
proof (induction "open_cnt d" arbitrary: d rule: less_induct)
  case less
  have "next_stmt api d \<noteq> None" using close_engineD(3) [OF assms(1)] less.prems by simp
  then obtain st where st: "next_stmt api d = Some st" by blast
  let ?d1 = "snd (finalize api st d)"
  have d1: "Suc (open_cnt ?d1) = open_cnt d" "fst (finalize api st d) = SQLITE_OK"
    using close_engineD(4) [OF assms(1) st] assms(2) by (auto simp: finalize_ok_def)
  have step: "close_loop api SQLITE_BUSY d = close_loop api (fst (close api ?d1)) (snd (close api ?d1))"
    using st d1(2) by (subst close_loop.simps) (simp add: split_beta)
  show ?case
  proof (cases "open_cnt ?d1 = 0")
    case True
    then have "fst (close api ?d1) = SQLITE_OK" "is_closed (snd (close api ?d1))" using close_engineD(1) [OF assms(1)] by blast+
    then show ?thesis using step by (simp add: close_loop.simps)
  next
    case False
    then have "fst (close api ?d1) = SQLITE_BUSY" "open_cnt (snd (close api ?d1)) = open_cnt ?d1"
      using close_engineD(2) [OF assms(1)] by blast+
    then show ?thesis using less.hyps [of "snd (close api ?d1)"] False less.prems d1(1) step by auto
  qed
qed

text \<open>
  Closing ends. \<^verbatim>\<open>dao_close\<close> returns on every engine with the documented closing behaviour, also when
  finalising a statement reports an error; when no statement reports one, the connection is closed.
\<close>

theorem dao_close_returns:
  assumes "close_engine api open_cnt is_closed"
  shows "\<exists>d'. dao_close api (Some a) d = Some d' \<and> (finalize_ok api \<longrightarrow> is_closed d')"
proof (cases "open_cnt d = 0")
  case True
  then have "fst (close api d) = SQLITE_OK" "is_closed (snd (close api d))" using close_engineD(1) [OF assms] by blast+
  then show ?thesis by (auto simp: dao_close_def split_beta close_loop.simps)
next
  case False
  then have "fst (close api d) = SQLITE_BUSY" "open_cnt (snd (close api d)) = open_cnt d" using close_engineD(2) [OF assms] by blast+
  then show ?thesis
    using close_loop_returns [OF assms, of SQLITE_BUSY "snd (close api d)"] close_loop_closes [OF assms, of "snd (close api d)"] False
    by (auto simp: dao_close_def split_beta)
qed

end
