(* ===== verification/Sql_View.thy ===== *)
theory Sql_View
  imports Template
begin

text \<open>
  What the data access objects rely on of SQLite, beyond the calls themselves. A view of the database state
  shows the data of the tables in question, the text, the parameters and the result set of every open statement,
  and the change counter. \<open>sem\<close> gives the meaning of the statement texts a client uses: from the parameters and
  the data to result rows, new data and, for a writing statement, the number of changed rows. \<open>sql_engine\<close> says
  that the engine's calls act on the view as their documentation states. The lemmas lift this through the
  statement cache and the templates, so that a client reasons about \<open>sem\<close> alone.
\<close>

subsection \<open>Views and the engine's laws\<close>

record 'x sql_view =
  tables :: 'x
  text_of :: "stmt \<Rightarrow> string option"
  params :: "stmt \<Rightarrow> nat \<Rightarrow> sql_value option"
  cursor :: "stmt \<Rightarrow> int list list option"
  current :: "stmt \<Rightarrow> int list"
  n_changes :: int

type_synonym 'x sql_sem = "string \<Rightarrow> (nat \<Rightarrow> sql_value option) \<Rightarrow> 'x \<Rightarrow> int list list \<times> 'x \<times> int option"

definition deliver :: "stmt \<Rightarrow> int list list \<Rightarrow> 'x sql_view \<Rightarrow> int \<times> 'x sql_view" where
  "deliver st res v =
     (case res of
        [] \<Rightarrow> (SQLITE_DONE, v\<lparr>cursor := (cursor v)(st := None)\<rparr>)
      | r # rs \<Rightarrow> (SQLITE_ROW, v\<lparr>cursor := (cursor v)(st := Some rs), current := (current v)(st := r)\<rparr>))"

definition view_step :: "'x sql_sem \<Rightarrow> stmt \<Rightarrow> string \<Rightarrow> 'x sql_view \<Rightarrow> int \<times> 'x sql_view" where
  "view_step sem st k v =
     (case cursor v st of
        Some rs \<Rightarrow> deliver st rs v
      | None \<Rightarrow>
          (case sem k (params v st) (tables v) of
             (res, x, ch) \<Rightarrow>
               deliver st res (v\<lparr>tables := x, n_changes := (case ch of None \<Rightarrow> n_changes v | Some n \<Rightarrow> n)\<rparr>)))"

definition live :: "'x sql_view \<Rightarrow> stmt set" where
  "live v = {st. text_of v st \<noteq> None}"

definition opened :: "stmt \<Rightarrow> string \<Rightarrow> 'x sql_view \<Rightarrow> 'x sql_view" where
  "opened st k v = v\<lparr>text_of := (text_of v)(st := Some k), params := (params v)(st := Map.empty), cursor := (cursor v)(st := None)\<rparr>"

definition bound :: "stmt \<Rightarrow> nat \<Rightarrow> sql_value \<Rightarrow> 'x sql_view \<Rightarrow> 'x sql_view" where
  "bound st i x v = v\<lparr>params := (params v)(st := (params v st)(i := Some x))\<rparr>"

text \<open>
  Preparing a known text succeeds with a fresh statement while at most 100 are open. Stepping is described when
  the statement is open and its \<open>np\<close> parameters are bound.
\<close>

definition sql_engine :: "'d sqlite3 \<Rightarrow> ('d \<Rightarrow> 'x sql_view) \<Rightarrow> 'x sql_sem \<Rightarrow> (string \<rightharpoonup> nat) \<Rightarrow> bool" where
  "sql_engine api view sem np \<longleftrightarrow>
     (\<forall>k d. k \<in> dom np \<longrightarrow> card (live (view d)) \<le> 100 \<longrightarrow>
        (\<exists>st d'. prepare_v2 api k d = (SQLITE_OK, Some st, d') \<and> st \<notin> live (view d) \<and> view d' = opened st k (view d))) \<and>
     (\<forall>st i x d. st \<in> live (view d) \<longrightarrow> cursor (view d) st = None \<longrightarrow> view (snd (bind api st i x d)) = bound st i x (view d)) \<and>
     (\<forall>st k d. text_of (view d) st = Some k \<longrightarrow> k \<in> dom np \<longrightarrow> (\<forall>i. 0 < i \<and> i \<le> the (np k) \<longrightarrow> params (view d) st i \<noteq> None) \<longrightarrow>
        fst (step api st d) = fst (view_step sem st k (view d)) \<and> view (snd (step api st d)) = snd (view_step sem st k (view d))) \<and>
     (\<forall>st d. view (snd (reset api st d)) = (view d)\<lparr>cursor := (cursor (view d))(st := None)\<rparr> \<and> \<not> stmt_busy api st (snd (reset api st d))) \<and>
     (\<forall>st d. view (snd (finalize api st d)) = (view d)\<lparr>text_of := (text_of (view d))(st := None)\<rparr>) \<and>
     (\<forall>st d. column_int64 api st 0 d = word_of_int (current (view d) st ! 0)) \<and>
     (\<forall>st i d. column_int api st i d = word_of_int (current (view d) st ! i)) \<and>
     (\<forall>d. changes api d = word_of_int (n_changes (view d)))"

lemma sql_engineD:
  assumes "sql_engine api view sem np"
  shows "k \<in> dom np \<Longrightarrow> card (live (view d)) \<le> 100 \<Longrightarrow>
      \<exists>st d'. prepare_v2 api k d = (SQLITE_OK, Some st, d') \<and> st \<notin> live (view d) \<and> view d' = opened st k (view d)"
    "st \<in> live (view d) \<Longrightarrow> cursor (view d) st = None \<Longrightarrow> view (snd (bind api st i x d)) = bound st i x (view d)"
    "text_of (view d) st = Some k \<Longrightarrow> k \<in> dom np \<Longrightarrow> \<forall>i. 0 < i \<and> i \<le> the (np k) \<longrightarrow> params (view d) st i \<noteq> None \<Longrightarrow>
      fst (step api st d) = fst (view_step sem st k (view d)) \<and> view (snd (step api st d)) = snd (view_step sem st k (view d))"
    "view (snd (reset api st d)) = (view d)\<lparr>cursor := (cursor (view d))(st := None)\<rparr>"
    "\<not> stmt_busy api st (snd (reset api st d))"
    "view (snd (finalize api st d)) = (view d)\<lparr>text_of := (text_of (view d))(st := None)\<rparr>"
    "column_int64 api st 0 d = word_of_int (current (view d) st ! 0)"
    "column_int api st i d = word_of_int (current (view d) st ! i)"
    "changes api d = word_of_int (n_changes (view d))"
  using assms by (simp_all add: sql_engine_def)

subsection \<open>The cache owns the open statements\<close>

definition stmts_ok :: "'x sql_view \<Rightarrow> (string \<times> stmt) list \<Rightarrow> bool" where
  "stmts_ok v os \<longleftrightarrow>
     distinct (map fst os) \<and> distinct (map snd os) \<and> live v = snd ` set os \<and>
     list_all (\<lambda>e. text_of v (snd e) = Some (fst e) \<and> cursor v (snd e) = None) os"

lemma touch_set:
  assumes "distinct (map fst os)" and "map_of os k = Some st"
  shows "set (touch k st os) = set os" "distinct (map fst (touch k st os))"
    "distinct (map snd os) \<Longrightarrow> distinct (map snd (touch k st os))"
proof -
  have kst: "(k, st) \<in> set os" using assms(2) by (rule map_of_SomeD)
  show set: "set (touch k st os) = set os"
    using assms(1) kst by (auto simp: touch_def) (metis assms(1) eq_key_imp_eq_value)
  show f: "distinct (map fst (touch k st os))"
    using assms(1) by (auto simp: touch_def distinct_map inj_on_def)
  assume d: "distinct (map snd os)"
  have "distinct (touch k st os)" using f by (simp add: distinct_map)
  then show "distinct (map snd (touch k st os))" using d unfolding distinct_map set by blast
qed

lemma stmts_ok_card: "stmts_ok v os \<Longrightarrow> card (live v) = length os"
  using distinct_card [of "map snd os"] by (simp add: stmts_ok_def)

lemma stmts_ok_opened:
  assumes "stmts_ok v os" and "st \<notin> live v" and "k \<notin> fst ` set os"
  shows "stmts_ok (opened st k v) ((k, st) # os)"
proof -
  have "live (opened st k v) = insert st (live v)" by (auto simp: live_def opened_def)
  moreover have "st \<notin> snd ` set os" using assms(1,2) by (simp add: stmts_ok_def)
  moreover have "list_all (\<lambda>e. text_of (opened st k v) (snd e) = Some (fst e) \<and> cursor (opened st k v) (snd e) = None) os"
    using assms(1) calculation(2) by (auto simp: stmts_ok_def list_all_iff opened_def)
  ultimately show ?thesis using assms(1,3) by (simp add: stmts_ok_def) (simp add: opened_def)
qed

lemma stmts_ok_closed:
  assumes "stmts_ok v (os @ [e])"
  shows "stmts_ok (v\<lparr>text_of := (text_of v)(snd e := None)\<rparr>) os"
proof -
  have "live (v\<lparr>text_of := (text_of v)(snd e := None)\<rparr>) = live v - {snd e}" by (auto simp: live_def)
  moreover have "snd e \<notin> snd ` set os" using assms by (simp add: stmts_ok_def)
  then have "snd x \<noteq> snd e" if "x \<in> set os" for x using that by (metis image_eqI)
  ultimately show ?thesis using assms by (force simp: stmts_ok_def list_all_iff)
qed

text \<open>A lookup with memory available returns a statement of the text, ready to run, and keeps the data.\<close>

lemma get_ready:
  assumes eng: "sql_engine api view sem np" and ok: "stmts_ok (view d) os" and k: "k \<in> dom np"
    and len: "length os \<le> 100" and full: "full \<Longrightarrow> os \<noteq> []" and dbp: "dbp \<noteq> None"
  obtains st d1 os' where "get_spec api True full dbp k d os = (Some st, d1, os')" "stmts_ok (view d1) os'" "(k, st) \<in> set os'"
    "tables (view d1) = tables (view d)" "n_changes (view d1) = n_changes (view d)"
proof (cases "map_of os k")
  case (Some st)
  note t = touch_set [OF _ Some]
  have "stmts_ok (view d) (touch k st os)"
    using ok t unfolding stmts_ok_def list_all_iff by metis
  then show thesis using that [of st d "touch k st os"] Some by (simp add: get_spec_def touch_def)
next
  case None
  have card: "card (live (view d)) \<le> 100" using stmts_ok_card [OF ok] len by simp
  obtain st d1 where p: "prepare_v2 api k d = (SQLITE_OK, Some st, d1)" "st \<notin> live (view d)" "view d1 = opened st k (view d)"
    using sql_engineD(1) [OF eng k card] by blast
  have np: "new_pstmt api dbp k d = (Some st, d1)" using p(1) dbp by (simp add: new_pstmt_def)
  have absent: "k \<notin> fst ` set os" using None by (simp add: map_of_eq_None_iff)
  have ok1: "stmts_ok (view d1) ((k, st) # os)" using stmts_ok_opened [OF ok p(2) absent] p(3) by simp
  show thesis
  proof (cases full)
    case True
    then obtain os0 e where os: "os = os0 @ [e]" using full by (cases os rule: rev_cases) auto
    let ?d2 = "snd (finalize api (snd e) d1)"
    have v: "view ?d2 = (view d1)\<lparr>text_of := (text_of (view d1))(snd e := None)\<rparr>" by (rule sql_engineD(6) [OF eng])
    have "stmts_ok (view ?d2) ((k, st) # os0)" unfolding v using stmts_ok_closed [of "view d1" "(k, st) # os0" e] ok1 os by simp
    moreover have "tables (view ?d2) = tables (view d)" "n_changes (view ?d2) = n_changes (view d)"
      unfolding v p(3) by (simp_all add: opened_def)
    moreover have "get_spec api True full dbp k d os = (Some st, ?d2, (k, st) # os0)"
      using None np True os by (simp add: get_spec_def evicted_def map_add_def split: if_splits)
    ultimately show thesis using that [of st ?d2 "(k, st) # os0"] by simp
  next
    case False
    then show thesis using that [of st d1 "(k, st) # os"] None np ok1 p(3) by (simp add: get_spec_def evicted_def opened_def)
  qed
qed

subsection \<open>Running a statement through the templates\<close>

definition ready :: "('d \<Rightarrow> 'x sql_view) \<Rightarrow> prepared_stmt_t \<Rightarrow> 'd \<Rightarrow> bool" where
  "ready view p d \<longleftrightarrow> \<not> locked p \<and> db p \<noteq> None \<and> (\<exists>xs. ps_inv p xs \<and> stmts_ok (view d) (open_stmts p xs))"

text \<open>Memory is available: every allocation succeeds with blocks that are not in use.\<close>

definition good_mem :: "(prepared_stmt_t \<Rightarrow> lru_alloc) \<Rightarrow> bool" where
  "good_mem mem \<longleftrightarrow> (\<forall>p xs. ps_inv p xs \<longrightarrow> ps_alloc p xs (mem p) \<and> all_alloc (mem p))"

definition same_stmts :: "stmt \<Rightarrow> 'x sql_view \<Rightarrow> 'x sql_view \<Rightarrow> bool" where
  "same_stmts st v w \<longleftrightarrow> text_of w = text_of v \<and> (\<forall>s. s \<noteq> st \<longrightarrow> cursor w s = cursor v s)"

lemma stmts_ok_after:
  assumes "stmts_ok v os" and "same_stmts st v w"
  shows "stmts_ok (w\<lparr>cursor := (cursor w)(st := None)\<rparr>) os"
  using assms by (auto simp: stmts_ok_def same_stmts_def live_def list_all_iff)

lemma with_stmt_runs:
  assumes eng: "sql_engine api view sem np" and mem: "good_mem mem" and rd: "ready view p d" and k: "k \<in> dom np"
    and body: "\<And>st d1. text_of (view d1) st = Some k \<Longrightarrow> cursor (view d1) st = None \<Longrightarrow> tables (view d1) = tables (view d) \<Longrightarrow>
      n_changes (view d1) = n_changes (view d) \<Longrightarrow>
      \<exists>d2. body st d1 = Some (n, u', d2) \<and> tables (view d2) = x' \<and> same_stmts st (view d1) (view d2)"
  shows "\<exists>p' d'. with_stmt api (mem p) (Some p) (Some k) body u d = Some (n, u', Some p', d') \<and> ready view p' d' \<and> tables (view d') = x'"
proof -
  obtain xs where xs: "ps_inv p xs" "stmts_ok (view d) (open_stmts p xs)" and p: "\<not> locked p" "db p \<noteq> None"
    using rd by (auto simp: ready_def)
  have al: "ps_alloc p xs (mem p)" "all_alloc (mem p)" using mem xs(1) by (auto simp: good_mem_def)
  obtain c where c: "cache p = Some c" "lru_inv c xs" "max_key_num c = MAX_KEY_NUM" "max_mem c = MAX_MEM" "length xs \<le> 100"
    using xs(1) by (auto simp: ps_inv_def split: option.splits)
  have len: "length (open_stmts p xs) \<le> 100" using c by (simp add: open_stmts_def)
  have full: "ps_full p xs \<Longrightarrow> open_stmts p xs \<noteq> []"
    using c full_nonempty [OF c(2)] by (auto simp: ps_full_def open_stmts_def entries_def MAX_KEY_NUM_def MAX_MEM_def)
  obtain st d1 os' where g: "get_spec api True (ps_full p xs) (db p) k d (open_stmts p xs) = (Some st, d1, os')"
    "stmts_ok (view d1) os'" "(k, st) \<in> set os'" "tables (view d1) = tables (view d)" "n_changes (view d1) = n_changes (view d)"
    using get_ready [OF eng xs(2) k len full p(2)] by blast
  obtain p1 ys where g1: "prepared_stmt_get api (mem p) (Some p) (Some k) d = Some (Some st, Some p1, d1)" "ps_inv p1 ys"
    "db p1 = db p" "os' = open_stmts p1 ys"
    using stmt_get_refines [OF xs(1) p(1) al(1), of api k d] al(2) g(1) by auto
  have "text_of (view d1) st = Some k" "cursor (view d1) st = None" using g(2,3) by (auto simp: stmts_ok_def list_all_iff)
  from body [OF this g(4,5)] obtain d2 where
    b: "body st d1 = Some (n, u', d2)" "tables (view d2) = x'" "same_stmts st (view d1) (view d2)"
    by blast
  let ?d3 = "snd (reset api st d2)"
  obtain p2 zs where p2: "prepared_stmt_put api (Some p1) (Some st) d2 = Some (Some p2, ?d3)" "ps_inv p2 zs" "\<not> locked p2" "db p2 = db p1"
    "open_stmts p2 zs = open_stmts p1 ys"
    using stmt_put_refines [OF g1(2), of api st d2] sql_engineD(5) [OF eng, of st d2] by (auto simp: Let_def)
  have v: "view ?d3 = (view d2)\<lparr>cursor := (cursor (view d2))(st := None)\<rparr>" by (rule sql_engineD(4) [OF eng])
  have "ready view p2 ?d3"
    unfolding ready_def v using p2(2-5) g1(3,4) p(2) stmts_ok_after [OF g(2) b(3)] by auto
  then show ?thesis using g1(1) b(1,2) p2(1) v by (auto simp: with_stmt_def)
qed

text \<open>Binding a list of parameters.\<close>

definition bind_all :: "'d sqlite3 \<Rightarrow> (nat \<times> sql_value) list \<Rightarrow> stmt \<Rightarrow> 'd \<Rightarrow> 'd" where
  "bind_all api bs st d = fold (\<lambda>(i, x) d. snd (bind api st i x d)) bs d"

fun bind_view :: "stmt \<Rightarrow> (nat \<times> sql_value) list \<Rightarrow> 'x sql_view \<Rightarrow> 'x sql_view" where
  "bind_view st [] v = v"
| "bind_view st ((i, x) # bs) v = bind_view st bs (bound st i x v)"

lemma view_bind_all:
  assumes eng: "sql_engine api view sem np" and "st \<in> live (view d)" and "cursor (view d) st = None"
  shows "view (bind_all api bs st d) = bind_view st bs (view d)"
  using assms(2,3)
proof (induction bs arbitrary: d)
  case (Cons b bs)
  obtain i x where b: "b = (i, x)" by fastforce
  have v: "view (snd (bind api st i x d)) = bound st i x (view d)" by (rule sql_engineD(2) [OF eng Cons.prems])
  have "st \<in> live (view (snd (bind api st i x d)))" "cursor (view (snd (bind api st i x d))) st = None"
    using Cons.prems v by (simp_all add: bound_def live_def)
  from Cons.IH [OF this] show ?case using b v by (simp add: bind_all_def)
qed (simp add: bind_all_def)

lemma fold_bound:
  "tables (bind_view st bs v) = tables v" "text_of (bind_view st bs v) = text_of v"
  "cursor (bind_view st bs v) = cursor v" "n_changes (bind_view st bs v) = n_changes v"
  "current (bind_view st bs v) = current v"
  "distinct (map fst bs) \<Longrightarrow> (i, x) \<in> set bs \<Longrightarrow> params (bind_view st bs v) st i = Some x"
proof -
  show "tables (bind_view st bs v) = tables v" "text_of (bind_view st bs v) = text_of v"
    "cursor (bind_view st bs v) = cursor v" "n_changes (bind_view st bs v) = n_changes v"
    "current (bind_view st bs v) = current v"
    by (induction st bs v rule: bind_view.induct) (auto simp: bound_def)
  have other: "i \<notin> fst ` set bs \<Longrightarrow> params (bind_view st bs v) st i = params v st i" for v :: "'a sql_view" and i bs
    by (induction st bs v rule: bind_view.induct) (auto simp: bound_def)
  assume "distinct (map fst bs)" "(i, x) \<in> set bs"
  then show "params (bind_view st bs v) st i = Some x"
  proof (induction bs arbitrary: v)
    case (Cons b bs)
    show ?case
    proof (cases "b = (i, x)")
      case True
      then have "i \<notin> fst ` set bs" using Cons.prems(1) by auto
      moreover have "params (bound st i x v) st i = Some x" by (simp add: bound_def)
      ultimately show ?thesis using other [of i bs "bound st i x v"] True by simp
    next
      case False
      then show ?thesis using Cons by (cases b) auto
    qed
  qed simp
qed

lemma bound_stmt:
  assumes eng: "sql_engine api view sem np" and st: "text_of (view d) st = Some k" "cursor (view d) st = None"
    and m: "np k = Some m" and bs: "map fst bs = [1..<Suc m]"
  defines "d1 \<equiv> bind_all api bs st d"
  shows "text_of (view d1) = text_of (view d)" "cursor (view d1) = cursor (view d)" "tables (view d1) = tables (view d)"
    "n_changes (view d1) = n_changes (view d)"
    "\<forall>(i, x)\<in>set bs. params (view d1) st i = Some x" "\<forall>i. 0 < i \<and> i \<le> the (np k) \<longrightarrow> params (view d1) st i \<noteq> None"
proof -
  have "st \<in> live (view d)" using st(1) by (simp add: live_def)
  from view_bind_all [OF eng this st(2), of bs] have v: "view d1 = bind_view st bs (view d)" by (simp add: d1_def)
  show "text_of (view d1) = text_of (view d)" "cursor (view d1) = cursor (view d)" "tables (view d1) = tables (view d)"
    "n_changes (view d1) = n_changes (view d)"
    by (simp_all add: v fold_bound)
  have "distinct (map fst bs)" unfolding bs by simp
  then have *: "params (view d1) st i = Some x" if "(i, x) \<in> set bs" for i x using that by (simp add: v fold_bound(6))
  then show "\<forall>(i, x)\<in>set bs. params (view d1) st i = Some x" by blast
  show "\<forall>i. 0 < i \<and> i \<le> the (np k) \<longrightarrow> params (view d1) st i \<noteq> None"
  proof (intro allI impI notI)
    fix i assume "0 < i \<and> i \<le> the (np k)" "params (view d1) st i = None"
    then have "i \<in> set (map fst bs)" unfolding bs using m by auto
    then obtain x where "(i, x) \<in> set bs" by auto
    then show False using * \<open>params (view d1) st i = None\<close> by simp
  qed
qed

lemma base_runs:
  assumes eng: "sql_engine api view sem np" and mem: "good_mem mem" and rd: "ready view p d"
    and m: "np k = Some m" and bs: "map fst bs = [1..<Suc m]" and cb: "\<And>st d. apply_cb cb st d = bind_all api bs st d"
    and sem: "\<And>f. \<forall>(i, x)\<in>set bs. f i = Some x \<Longrightarrow> sem k f (tables (view d)) = ([], x', Some ch)"
  shows "\<exists>p' d'. dao_template_base api (mem p) (Some p) (Some k) cb d = Some (sint (word_of_int ch :: int32), (), Some p', d') \<and>
     ready view p' d' \<and> tables (view d') = x'"
proof -
  let ?body = "\<lambda>st d1. case step_once api st (apply_cb cb st d1) of (change, d2) \<Rightarrow> Some (change, (), d2)"
  have "\<exists>d2. ?body st d1 = Some (sint (word_of_int ch :: int32), (), d2) \<and> tables (view d2) = x' \<and> same_stmts st (view d1) (view d2)"
    if st: "text_of (view d1) st = Some k" "cursor (view d1) st = None" and x: "tables (view d1) = tables (view d)" for st d1
  proof -
    note b = bound_stmt [OF eng st m bs]
    let ?d1 = "bind_all api bs st d1"
    have "sem k (params (view ?d1) st) (tables (view d)) = ([], x', Some ch)" by (rule sem [OF b(5)])
    then have vs: "view_step sem st k (view ?d1) = (SQLITE_DONE, (view ?d1)\<lparr>tables := x', n_changes := ch, cursor := (cursor (view ?d1))(st := None)\<rparr>)"
      using b(2,3) st(2) x by (simp add: view_step_def deliver_def)
    have "fst (step api st ?d1) = fst (view_step sem st k (view ?d1)) \<and> view (snd (step api st ?d1)) = snd (view_step sem st k (view ?d1))"
      by (rule sql_engineD(3) [OF eng _ _ b(6)]) (use b(1) st(1) m in auto)
    then show ?thesis
      using vs b(1,2) sql_engineD(9) [OF eng] cb by (simp add: step_once_def split_beta same_stmts_def)
  qed
  then show ?thesis
    using with_stmt_runs [OF eng mem rd, of k ?body] m by (simp add: dao_template_base_def) blast
qed

lemma step_rows_delivers:
  assumes eng: "sql_engine api view sem np" and k: "text_of (view d) st = Some k" "k \<in> dom np"
    and par: "\<forall>i. 0 < i \<and> i \<le> the (np k) \<longrightarrow> params (view d) st i \<noteq> None"
    and um: "\<And>d u. um st d u = g (current (view d) st) u" and rs: "cursor (view d) st = Some rs"
  shows "\<exists>d'. step_rows api st um n u d = Some (n + int (length rs), fold g rs u, d') \<and>
     tables (view d') = tables (view d) \<and> same_stmts st (view d) (view d')"
  using k(1) par rs
proof (induction rs arbitrary: n u d)
  case Nil
  note s = sql_engineD(3) [OF eng Nil.prems(1) k(2) Nil.prems(2)]
  have "view_step sem st k (view d) = (SQLITE_DONE, (view d)\<lparr>cursor := (cursor (view d))(st := None)\<rparr>)"
    using Nil.prems(3) by (simp add: view_step_def deliver_def)
  then show ?case using s by (subst step_rows.simps) (simp add: split_beta same_stmts_def)
next
  case (Cons r rs)
  note s = sql_engineD(3) [OF eng Cons.prems(1) k(2) Cons.prems(2)]
  let ?d1 = "snd (step api st d)"
  have vs: "view_step sem st k (view d) = (SQLITE_ROW, (view d)\<lparr>cursor := (cursor (view d))(st := Some rs), current := (current (view d))(st := r)\<rparr>)"
    using Cons.prems(3) by (simp add: view_step_def deliver_def)
  have v1: "view ?d1 = (view d)\<lparr>cursor := (cursor (view d))(st := Some rs), current := (current (view d))(st := r)\<rparr>" using s vs by simp
  have "\<exists>d'. step_rows api st um (n + 1) (g r u) ?d1 = Some (n + 1 + int (length rs), fold g rs (g r u), d') \<and>
     tables (view d') = tables (view ?d1) \<and> same_stmts st (view ?d1) (view d')"
    by (rule Cons.IH) (use Cons.prems(1,2) v1 in simp_all)
  then show ?case
    using s vs v1 um [of ?d1 u] by (subst step_rows.simps) (auto simp: split_beta same_stmts_def)
qed

lemma get_runs:
  assumes eng: "sql_engine api view sem np" and mem: "good_mem mem" and rd: "ready view p d"
    and m: "np k = Some m" and bs: "map fst bs = [1..<Suc m]" and cb: "\<And>st d. apply_cb cb st d = bind_all api bs st d"
    and sem: "\<And>f. \<forall>(i, x)\<in>set bs. f i = Some x \<Longrightarrow> sem k f (tables (view d)) = (res, tables (view d), None)"
    and um: "\<And>st d u. um st d u = g (current (view d) st) u"
  shows "\<exists>p' d'. with_stmt api (mem p) (Some p) (Some k) (\<lambda>st d1. step_rows api st um 0 u (apply_cb cb st d1)) u d =
       Some (int (length res), fold g res u, Some p', d') \<and> ready view p' d' \<and> tables (view d') = tables (view d)"
proof -
  have "\<exists>d2. step_rows api st um 0 u (apply_cb cb st d1) = Some (int (length res), fold g res u, d2) \<and>
      tables (view d2) = tables (view d) \<and> same_stmts st (view d1) (view d2)"
    if st: "text_of (view d1) st = Some k" "cursor (view d1) st = None" and x: "tables (view d1) = tables (view d)" for st d1
  proof -
    note b = bound_stmt [OF eng st m bs]
    let ?d1 = "bind_all api bs st d1"
    have "sem k (params (view ?d1) st) (tables (view ?d1)) = (res, tables (view ?d1), None)" using sem [OF b(5)] b(3) x by simp
    then have vs: "view_step sem st k (view ?d1) = deliver st res (view ?d1)"
      using b(2) st(2) by (simp add: view_step_def)
    have s: "fst (step api st ?d1) = fst (view_step sem st k (view ?d1)) \<and> view (snd (step api st ?d1)) = snd (view_step sem st k (view ?d1))"
      by (rule sql_engineD(3) [OF eng _ _ b(6)]) (use b(1) st(1) m in auto)
    show ?thesis
    proof (cases res)
      case Nil
      then show ?thesis
        using s vs b(1-3) x cb by (subst step_rows.simps) (simp add: split_beta deliver_def same_stmts_def)
    next
      case (Cons r rs)
      let ?d2 = "snd (step api st ?d1)"
      have v2: "view ?d2 = (view ?d1)\<lparr>cursor := (cursor (view ?d1))(st := Some rs), current := (current (view ?d1))(st := r)\<rparr>"
        using s vs Cons by (simp add: deliver_def)
      have "\<exists>d'. step_rows api st um 1 (g r u) ?d2 = Some (1 + int (length rs), fold g rs (g r u), d') \<and>
          tables (view d') = tables (view ?d2) \<and> same_stmts st (view ?d2) (view d')"
        by (rule step_rows_delivers [OF eng, of ?d2 st k]) (use v2 b m st um in auto)
      then show ?thesis
        using s vs v2 b(1-3) x Cons um [of st ?d2 u] cb by (subst step_rows.simps) (auto simp: split_beta deliver_def same_stmts_def)
    qed
  qed
  then show ?thesis by (intro with_stmt_runs [OF eng mem rd]) (use m in auto)
qed

subsection \<open>An engine with these laws\<close>

text \<open>
  The laws can hold: an engine whose state is the view itself, for any meaning of the statements. It opens a
  statement at the first of 101 pointers that is free.
\<close>

definition view_engine :: "'x sql_sem \<Rightarrow> 'x sql_view sqlite3" where
  "view_engine sem =
     \<lparr>prepare_v2 = (\<lambda>k v. case find (\<lambda>st. text_of v st = None) (map word_of_nat [0..<101]) of
          None \<Rightarrow> (7, None, v) | Some st \<Rightarrow> (0, Some st, opened st k v)),
      step = (\<lambda>st v. case text_of v st of None \<Rightarrow> (21, v) | Some k \<Rightarrow> view_step sem st k v),
      reset = (\<lambda>st v. (0, v\<lparr>cursor := (cursor v)(st := None)\<rparr>)),
      finalize = (\<lambda>st v. (0, v\<lparr>text_of := (text_of v)(st := None)\<rparr>)),
      stmt_busy = (\<lambda>st v. False), stmt_sql = (\<lambda>st v. the (text_of v st)),
      bind = (\<lambda>st i x v. (0, bound st i x v)),
      column_int = (\<lambda>st i v. word_of_int (current v st ! i)), column_int64 = (\<lambda>st i v. word_of_int (current v st ! i)),
      changes = (\<lambda>v. word_of_int (n_changes v)), last_insert_rowid = (\<lambda>v. 0),
      exec = (\<lambda>k v. (0, v)), errmsg = (\<lambda>v. []), next_stmt = (\<lambda>v. None), close = (\<lambda>v. (0, v))\<rparr>"

lemma free_pointer:
  assumes "card (live v) \<le> 100"
  shows "\<exists>st. find (\<lambda>st. text_of v st = None) (map word_of_nat [0..<101]) = Some st \<and> st \<notin> live v"
proof -
  let ?ps = "map word_of_nat [0..<101] :: stmt list"
  have u: "unat (word_of_nat n :: stmt) = n" if "n < 101" for n using that by (simp add: unsigned_of_nat take_bit_nat_eq_self)
  have "inj_on (word_of_nat :: nat \<Rightarrow> stmt) {0..<101}" using u by (intro inj_on_inverseI [of _ unat]) auto
  then have "card (set ?ps) = 101" by (simp add: card_image)
  then have "\<not> set ?ps \<subseteq> live v" using assms card_mono [of "live v" "set ?ps"] by auto
  then obtain q where "q \<in> set ?ps" "text_of v q = None" by (auto simp: live_def)
  then have "find (\<lambda>st. text_of v st = None) ?ps \<noteq> None" by (auto simp: find_None_iff)
  then obtain st where "find (\<lambda>st. text_of v st = None) ?ps = Some st" by blast
  then show ?thesis by (auto simp: find_Some_iff live_def)
qed

lemma view_engine_laws: "sql_engine (view_engine sem) (\<lambda>v. v) sem np"
  unfolding sql_engine_def
proof (intro conjI allI impI)
  fix k and v :: "'a sql_view"
  assume "card (live v) \<le> 100"
  then show "\<exists>st d'. prepare_v2 (view_engine sem) k v = (SQLITE_OK, Some st, d') \<and> st \<notin> live v \<and> d' = opened st k v"
    using free_pointer [of v] by (auto simp: view_engine_def)
qed (simp_all add: view_engine_def)

text \<open>An allocator that hands out addresses beyond those in use, an empty cache and an empty view.\<close>

definition beyond :: "nat list \<Rightarrow> nat" where
  "beyond ns = Suc (sum_list ns)"

lemma beyond_fresh: "beyond ns \<notin> set ns"
  using member_le_sum_list [of "beyond ns" ns] by (auto simp: beyond_def)

definition fresh_mem :: "prepared_stmt_t \<Rightarrow> lru_alloc" where
  "fresh_mem p =
     (case cache p of
        None \<Rightarrow> sample_alloc 1
      | Some c \<Rightarrow>
          (let ns = map (\<lambda>h. list_node (hnode c h)) (hash c)
           in \<lparr>list_blk = Some (beyond ns), hash_blk = Some (beyond (hash c)), key_ok = True,
               item_blk = Some (beyond (map (item c) ns)), data_blk = Some []\<rparr>))"

lemma fresh_mem_good: "good_mem fresh_mem"
  unfolding good_mem_def
proof (intro allI impI)
  fix p xs assume "ps_inv p xs"
  then obtain c where c: "cache p = Some c" "lru_inv c xs" by (auto simp: ps_inv_def split: option.splits)
  let ?ns = "map (\<lambda>h. list_node (hnode c h)) (hash c)"
  have ns: "set ?ns = set xs" using c(2) by (force simp: lru_inv_def linked_def)
  have "beyond ?ns \<notin> set xs" "beyond (map (item c) ?ns) \<notin> item c ` set xs"
    using beyond_fresh [of ?ns] beyond_fresh [of "map (item c) ?ns"] unfolding set_map [of "item c"] ns by blast+
  then show "ps_alloc p xs (fresh_mem p) \<and> all_alloc (fresh_mem p)"
    using c(1) beyond_fresh [of "hash c"] by (auto simp: ps_alloc_def safe_alloc_def all_alloc_def fresh_mem_def Let_def)
qed

definition fresh_ps :: prepared_stmt_t where
  "fresh_ps = \<lparr>db = Some 0, dsn = DSN_MAIN, cache = Some (sample_cache\<lparr>max_key_num := MAX_KEY_NUM, max_mem := MAX_MEM\<rparr>), locked = False\<rparr>"

definition fresh_view :: "'x \<Rightarrow> 'x sql_view" where
  "fresh_view x =
     \<lparr>tables = x, text_of = (\<lambda>_. None), params = (\<lambda>_ _. None), cursor = (\<lambda>_. None), current = (\<lambda>_. []), n_changes = 0\<rparr>"

lemma tables_fresh_view [simp]: "tables (fresh_view x) = x"
  by (simp add: fresh_view_def)

lemma fresh_ps_inv: "ps_inv fresh_ps []" "\<not> locked fresh_ps" "open_stmts fresh_ps [] = []" "ps_alloc fresh_ps [] (fresh_mem fresh_ps)"
proof -
  show inv: "ps_inv fresh_ps []"
    using sample_cache_inv(1) by (simp add: ps_inv_def fresh_ps_def lru_inv_def linked_def entry_cost_def [abs_def] entries_def)
  show "ps_alloc fresh_ps [] (fresh_mem fresh_ps)" using fresh_mem_good inv by (simp add: good_mem_def)
qed (simp_all add: fresh_ps_def open_stmts_def entries_def)

lemma fresh_ready: "ready (\<lambda>v. v) fresh_ps (fresh_view x)"
proof -
  have "stmts_ok (fresh_view x) (open_stmts fresh_ps [])" by (simp add: fresh_ps_inv(3) stmts_ok_def live_def fresh_view_def)
  moreover have "db fresh_ps \<noteq> None" by (simp add: fresh_ps_def)
  ultimately show ?thesis using fresh_ps_inv(1,2) unfolding ready_def by blast
qed

lemma view_engine_rows_end: "rows_end (view_engine sem)"
  unfolding rows_end_def
proof (intro allI)
  fix st and v :: "'a sql_view"
  show "\<exists>n. fst (step (view_engine sem) st (after_steps (view_engine sem) st n v)) \<noteq> SQLITE_ROW"
  proof (cases "text_of v st")
    case None
    then show ?thesis by (intro exI [of _ 0]) (simp add: after_steps_def view_engine_def)
  next
    case (Some k)
    have rest: "\<exists>n. fst (step (view_engine sem) st (after_steps (view_engine sem) st n w)) \<noteq> SQLITE_ROW"
      if "text_of w st = Some k" "cursor w st = Some rs" for w rs
      using that
    proof (induction rs arbitrary: w)
      case Nil
      then show ?case by (intro exI [of _ 0]) (simp add: after_steps_def view_engine_def view_step_def deliver_def)
    next
      case (Cons r rs)
      let ?w = "snd (step (view_engine sem) st w)"
      have "text_of ?w st = Some k" "cursor ?w st = Some rs"
        using Cons.prems by (simp_all add: view_engine_def view_step_def deliver_def)
      from Cons.IH [OF this] show ?case using after_steps_Suc by metis
    qed
    let ?w = "snd (step (view_engine sem) st v)"
    show ?thesis
    proof (cases "fst (step (view_engine sem) st v) = SQLITE_ROW")
      case True
      then have "text_of ?w st = Some k" "\<exists>rs. cursor ?w st = Some rs"
        using Some by (auto simp: view_engine_def view_step_def deliver_def split: option.splits list.splits prod.splits)
      then show ?thesis using rest [of ?w] after_steps_Suc by metis
    next
      case False
      then show ?thesis by (intro exI [of _ 0]) (simp add: after_steps_def)
    qed
  qed
qed

subsection \<open>Instances\<close>

definition echo_sem :: "nat sql_sem" where
  "echo_sem k f x = (if k = ''select'' then (replicate x [7], x, None) else ([], Suc x, Some 1))"

abbreviation echo_engine :: "nat sql_view sqlite3" where
  "echo_engine \<equiv> view_engine echo_sem"

lemma prepare_fresh: "prepare_v2 (view_engine sem) k (fresh_view x) = (SQLITE_OK, Some 0, opened 0 k (fresh_view x))"
  by (simp add: view_engine_def fresh_view_def upt_conv_Cons)

lemma get_spec_fresh:
  "get_spec (view_engine sem) True False (db fresh_ps) k (fresh_view x) [] = (Some 0, opened 0 k (fresh_view x), [(k, 0)])"
  using prepare_fresh [of sem k x] by (simp add: get_spec_def new_pstmt_def fresh_ps_def evicted_def)

lemma fresh_facts: "all_alloc (fresh_mem fresh_ps)" "\<not> ps_full fresh_ps []"
  by (simp_all add: all_alloc_def fresh_mem_def fresh_ps_def ps_full_def cache_full_def sample_cache_def MAX_KEY_NUM_def MAX_MEM_def)

theorem prepared_stmt_get_refines_witness:
  "\<exists>p' d' ys. prepared_stmt_get echo_engine (fresh_mem fresh_ps) (Some fresh_ps) (Some ''select'') (fresh_view 2) = Some (Some 0, Some p', d') \<and>
     locked p' \<and> open_stmts p' ys = [(''select'', 0)]"
  using prepared_stmt_get_refines [OF fresh_ps_inv(1,2,4), of echo_engine "''select''" "fresh_view 2"]
    get_spec_fresh [of echo_sem "''select''" 2] fresh_facts
  by (auto simp: fresh_ps_inv(3))

theorem prepared_stmt_reuse_witness:
  "\<exists>p1 p2 d2 p3. prepared_stmt_get echo_engine (fresh_mem p1) (Some p1) (Some ''x'') (fresh_view 2) = None \<and>
     prepared_stmt_get echo_engine (fresh_mem p2) (Some p2) (Some ''select'') d2 = Some (Some 0, Some p3, d2)"
proof -
  obtain p1 d1 where g: "prepared_stmt_get echo_engine (fresh_mem fresh_ps) (Some fresh_ps) (Some ''select'') (fresh_view 2) =
      Some (Some 0, Some p1, d1)"
    using stmt_get_refines [OF fresh_ps_inv(1,2,4), of echo_engine "''select''" "fresh_view 2"]
      get_spec_fresh [of echo_sem "''select''" 2] fresh_facts
    by (auto simp: fresh_ps_inv(3))
  have nb: "\<not> stmt_busy echo_engine 0 (snd (reset echo_engine 0 d1))" by (simp add: view_engine_def)
  note r = prepared_stmt_reuse [OF fresh_ps_inv(1,2,4) g nb]
  obtain p2 d2 where p2: "prepared_stmt_put echo_engine (Some p1) (Some 0) d1 = Some (Some p2, d2)"
    using r [of "fresh_mem fresh_ps" "''x''" d1] by blast
  show ?thesis using r [of "fresh_mem p1" "''x''" "fresh_view 2"] r [of "fresh_mem p2" "''x''" d1] p2 by auto
qed

theorem dao_template_base_spec_witness:
  "\<exists>p' d'. dao_template_base echo_engine (fresh_mem fresh_ps) (Some fresh_ps) (Some ''insert'') None (fresh_view 2) = Some (1, (), Some p', d') \<and>
     \<not> locked p'"
proof -
  have "step echo_engine 0 (opened 0 ''insert'' (fresh_view 2)) = (SQLITE_DONE, (opened 0 ''insert'' (fresh_view 2))\<lparr>tables := 3, n_changes := 1\<rparr>)"
    by (simp add: view_engine_def view_step_def opened_def fresh_view_def echo_sem_def deliver_def fun_upd_idem)
  then show ?thesis
    using dao_template_base_spec [OF fresh_ps_inv(1,2,4), of echo_engine "''insert''" None "fresh_view 2"]
      get_spec_fresh [of echo_sem "''insert''" 2] fresh_facts
    by (auto simp: fresh_ps_inv(3) apply_cb_def view_engine_def)
qed

lemma echo_rows: "row_count echo_engine 0 (opened 0 ''select'' (fresh_view n)) = n"
proof -
  have "\<exists>d'. step_rows echo_engine 0 (\<lambda>_ _ u. u) 0 () (apply_cb None 0 (opened 0 ''select'' (fresh_view n))) = Some (int n, (), d')"
  proof -
    let ?v = "opened 0 ''select'' (fresh_view n)"
    have s: "step echo_engine 0 ?v = deliver 0 (replicate n [7]) ?v"
      by (simp add: view_engine_def view_step_def opened_def fresh_view_def echo_sem_def)
    show ?thesis
    proof (cases n)
      case 0
      then show ?thesis using s by (subst step_rows.simps) (simp add: apply_cb_def deliver_def)
    next
      case (Suc m)
      let ?w = "snd (step echo_engine 0 ?v)"
      have "\<exists>d'. step_rows echo_engine 0 (\<lambda>_ _ u. u) 1 () ?w = Some (1 + int (length (replicate m [7 :: int])), fold (\<lambda>_ u. u) (replicate m [7 :: int]) (), d') \<and>
          tables d' = tables ?w \<and> same_stmts 0 ?w d'"
        by (rule step_rows_delivers [OF view_engine_laws [of echo_sem "[''select'' \<mapsto> 0]"], of ?w 0 "''select''"])
          (use s Suc in \<open>auto simp: deliver_def opened_def\<close>)
      then show ?thesis using s Suc by (subst step_rows.simps) (auto simp: apply_cb_def deliver_def)
    qed
  qed
  then show ?thesis
    using step_rows_counts [OF view_engine_rows_end, of echo_sem 0 "\<lambda>_ _ u. u" 0 "()" "opened 0 ''select'' (fresh_view n)"]
    by (auto simp: apply_cb_def)
qed

theorem dao_template_get_spec_witness:
  "\<exists>u' p' d'. dao_template_get echo_engine (fresh_mem fresh_ps) (Some fresh_ps) (Some ''select'') None (Some (\<lambda>_ _ u. u)) (Some ()) (fresh_view 2) =
     Some (2, Some u', Some p', d')"
  using dao_template_get_spec [OF fresh_ps_inv(1,2,4) view_engine_rows_end, of echo_sem "''select''" None "\<lambda>_ _ u. u" "()" "fresh_view 2"]
    get_spec_fresh [of echo_sem "''select''" 2] fresh_facts echo_rows [of 2]
  by (auto simp: fresh_ps_inv(3) apply_cb_def)

text \<open>No row is found, yet the result is the 5 rows that an earlier statement changed.\<close>

theorem get_with_option_stale_count_witness:
  "\<exists>p' d'. dao_template_get_with_option echo_engine (\<lambda>_. []) (fresh_mem fresh_ps) (Some fresh_ps) (Some ''select'') (Some []) (Some (\<lambda>_ _ u. u)) ()
       ((fresh_view 0)\<lparr>n_changes := 5\<rparr>) = Some (5, (), Some p', d')"
proof -
  let ?v = "(fresh_view 0)\<lparr>n_changes := 5\<rparr> :: nat sql_view" and ?w = "opened 0 ''select'' ((fresh_view 0)\<lparr>n_changes := 5\<rparr>) :: nat sql_view"
  have "prepare_v2 echo_engine ''select'' ?v = (SQLITE_OK, Some 0, ?w)"
    by (simp add: view_engine_def fresh_view_def upt_conv_Cons)
  then have g: "get_spec echo_engine (all_alloc (fresh_mem fresh_ps)) (ps_full fresh_ps []) (db fresh_ps) ''select'' ?v (open_stmts fresh_ps []) =
      (Some 0, ?w, [(''select'', 0)])"
    using fresh_facts by (simp add: get_spec_def new_pstmt_def fresh_ps_inv(3) evicted_def) (simp add: fresh_ps_def)
  have s: "step echo_engine 0 ?w = (SQLITE_DONE, ?w\<lparr>cursor := (cursor ?w)(0 := None)\<rparr>)"
    by (simp add: view_engine_def view_step_def opened_def fresh_view_def echo_sem_def deliver_def)
  have "row_count echo_engine 0 ?w = 0" using s by (intro row_count_0) simp
  then show ?thesis
    using get_with_option_stale_count [OF fresh_ps_inv(1,2,4) view_engine_rows_end, of "''select''" "''select''" "[]" "''select''" echo_sem
        ?v 0 ?w "[(''select'', 0)]" "\<lambda>_. []" "\<lambda>_ _ u. u" "()"] g s
    by (auto simp: view_engine_def opened_def)
qed

theorem options_build_and_bind_witness:
  "build_sql ''select'' [\<lparr>userp = 3, sql_part = '' where a=?'', opt_type = DAO_TYPE_INT64\<rparr>] = Some ''select where a=?''"
  using options_build_and_bind [of "[\<lparr>userp = 3, sql_part = '' where a=?'', opt_type = DAO_TYPE_INT64\<rparr>]" "''select''" echo_engine "\<lambda>_. []" 0 "fresh_view 0"]
  by (simp add: plain_text_def)


definition close_sample :: "(nat \<times> bool) sqlite3" where
  "close_sample =
     \<lparr>prepare_v2 = (\<lambda>k d. (0, Some 0, d)), step = (\<lambda>st d. (101, d)), reset = (\<lambda>st d. (0, d)), finalize = (\<lambda>st d. (0, (fst d - 1, snd d))),
      stmt_busy = (\<lambda>st d. False), stmt_sql = (\<lambda>st d. []), bind = (\<lambda>st i x d. (0, d)), column_int = (\<lambda>st i d. 0), column_int64 = (\<lambda>st i d. 0),
      changes = (\<lambda>d. 0), last_insert_rowid = (\<lambda>d. 0), exec = (\<lambda>k d. (0, d)), errmsg = (\<lambda>d. []),
      next_stmt = (\<lambda>d. if fst d = 0 then None else Some 0), close = (\<lambda>d. if fst d = 0 then (0, (0, True)) else (5, d))\<rparr>"

theorem dao_close_returns_witness: "\<exists>d'. dao_close close_sample (Some 0) (3, False) = Some d' \<and> snd d'"
proof -
  have "close_engine close_sample fst snd" "finalize_ok close_sample" by (auto simp: close_engine_def finalize_ok_def close_sample_def)
  then show ?thesis using dao_close_returns [of close_sample fst snd 0 "(3, False)"] by blast
qed

end
