(* ===== verification/Retention.thy ===== *)
theory Retention
  imports Sql_View
begin

text \<open>
  The retention policies of \<^verbatim>\<open>src/src/database/dao/retention_policy.c\<close> and the periodic deleter of
  \<^verbatim>\<open>auto_delete.c\<close>. A policy is a tagged block with a function; the statement cache it uses is an argument of its
  run. \<open>mem\<close> gives the outcome of the allocations of a template call. The constructors return the blocks
  that stay allocated, so that a leak is visible.
\<close>

subsection \<open>Data\<close>

record rp_by_timestamp_t =
  bt_table :: "string option"
  where_field :: "string option"
  expire_s :: int64

record rp_by_line_t =
  bl_table :: "string option"
  max_num :: int32
  percent :: int32

datatype rp_policy = LinePolicy rp_by_line_t | TimePolicy rp_by_timestamp_t

datatype rp_func = By_line | By_timestamp | Always

record retention_policy_t =
  policy :: "rp_policy option"
  policy_func :: "rp_func option"

datatype rp_block = PolicyBlock | TableCopy | FieldCopy

text \<open>The formats; \<^verbatim>\<open>printf\<close> shows a NULL string as \<open>(null)\<close>.\<close>

definition c_str :: "string option \<Rightarrow> string" where
  "c_str s = (case s of None \<Rightarrow> ''(null)'' | Some t \<Rightarrow> t)"

definition BY_TIMESTAMP_DELETE :: "string \<Rightarrow> string \<Rightarrow> string" where
  "BY_TIMESTAMP_DELETE t w = ''delete from '' @ t @ '' where '' @ w @ '' < ?''"

definition BY_LINE_GET_NUM :: "string \<Rightarrow> string" where
  "BY_LINE_GET_NUM t = ''select count(*) from '' @ t"

definition BY_LINE_DELETE :: "string \<Rightarrow> string" where
  "BY_LINE_DELETE t = ''delete from '' @ t @ '' where id < (select id from '' @ t @ '' limit 1 offset ?)''"

subsection \<open>Retention by number of lines\<close>

definition get_line_num ::
  "'d sqlite3 \<Rightarrow> (prepared_stmt_t option \<Rightarrow> lru_alloc) \<Rightarrow> prepared_stmt_t option \<Rightarrow> string \<Rightarrow> int32 \<Rightarrow> 'd \<Rightarrow>
   (int \<times> int32 option \<times> prepared_stmt_t option \<times> 'd) option" where
  "get_line_num api mem ps t line_num d =
     dao_template_get api (mem ps) ps (Some (BY_LINE_GET_NUM t)) None (Some (\<lambda>st d _. column_int api st 0 d)) (Some line_num) d"

definition by_line_bind_cb :: "'d sqlite3 \<Rightarrow> int32 \<Rightarrow> stmt \<Rightarrow> 'd \<Rightarrow> 'd" where
  "by_line_bind_cb api n st d = snd (bind api st 1 (Int32 n) d)"

text \<open>The product is one of 32-bit integers; the division truncates towards zero.\<close>

definition try_delete :: "int32 \<Rightarrow> rp_by_line_t \<Rightarrow> int32" where
  "try_delete cur r = (let m = sint (max_num r * percent r) in cur - word_of_int (sgn m * (\<bar>m\<bar> div 100)))"

text \<open>The block of another policy read as one by lines would be a type confusion: no result.\<close>

definition by_line ::
  "'d sqlite3 \<Rightarrow> (prepared_stmt_t option \<Rightarrow> lru_alloc) \<Rightarrow> retention_policy_t option \<Rightarrow> prepared_stmt_t option \<Rightarrow> 'd \<Rightarrow>
   (bool \<times> prepared_stmt_t option \<times> 'd) option" where
  "by_line api mem r ps d =
     (case r of
        None \<Rightarrow> Some (False, ps, d)
      | Some rp \<Rightarrow>
     (case policy rp of
        Some (LinePolicy bl) \<Rightarrow>
          (let table = c_str (bl_table bl) in
           case get_line_num api mem ps table 0 d of
             None \<Rightarrow> None
           | Some (ret, cur, ps1, d1) \<Rightarrow>
               if ret \<le> 0 then Some (False, ps1, d1)
               else if sint (the cur) \<le> sint (max_num bl) then Some (True, ps1, d1)
               else
                 (let try_num = try_delete (the cur) bl in
                  case dao_template_delete api (mem ps1) ps1 (Some (BY_LINE_DELETE table)) (Some (by_line_bind_cb api try_num)) d1 of
                    None \<Rightarrow> None
                  | Some (real_num, _, ps2, d2) \<Rightarrow>
                      if real_num = - 1 then Some (False, ps2, d2)
                      else if real_num \<noteq> sint try_num then Some (False, ps2, d2)
                      else Some (True, ps2, d2)))
      | _ \<Rightarrow> None))"

definition new_retention_policy_by_line ::
  "bool \<Rightarrow> bool \<Rightarrow> retention_policy_t option \<Rightarrow> bool \<Rightarrow> string option \<Rightarrow> int32 \<Rightarrow> int32 \<Rightarrow>
   bool \<times> retention_policy_t option \<times> rp_block list" where
  "new_retention_policy_by_line obj_ok dup_ok r has_ps table mx pc =
     (case (r, table) of
        (Some rp, Some t) \<Rightarrow>
          if \<not> has_ps \<or> sint pc < 0 \<or> 100 < sint pc then (False, r, [])
          else if \<not> obj_ok then (False, r, [])
          else if \<not> dup_ok then (False, r, [PolicyBlock])
          else (True, Some (rp\<lparr>policy := Some (LinePolicy \<lparr>bl_table = Some t, max_num = mx, percent = pc\<rparr>), policy_func := Some By_line\<rparr>),
                [PolicyBlock, TableCopy])
      | _ \<Rightarrow> (False, r, []))"

definition delete_retention_policy_by_line :: "retention_policy_t option \<Rightarrow> retention_policy_t option \<times> rp_block list" where
  "delete_retention_policy_by_line r =
     (case r of
        None \<Rightarrow> (None, [])
      | Some rp \<Rightarrow>
          (case policy rp of
             Some (LinePolicy bl) \<Rightarrow>
               (Some (rp\<lparr>policy := None, policy_func := None\<rparr>), (if bl_table bl \<noteq> None then [TableCopy] else []) @ [PolicyBlock])
           | _ \<Rightarrow> (Some (rp\<lparr>policy_func := None\<rparr>), [])))"

subsection \<open>Retention by age\<close>

definition by_timestamp_bind_cb :: "'d sqlite3 \<Rightarrow> int64 \<Rightarrow> stmt \<Rightarrow> 'd \<Rightarrow> 'd" where
  "by_timestamp_bind_cb api n st d = snd (bind api st 1 (Int64 n) d)"

definition by_timestamp ::
  "'d sqlite3 \<Rightarrow> (prepared_stmt_t option \<Rightarrow> lru_alloc) \<Rightarrow> int64 \<Rightarrow> retention_policy_t option \<Rightarrow> prepared_stmt_t option \<Rightarrow> 'd \<Rightarrow>
   (bool \<times> prepared_stmt_t option \<times> 'd) option" where
  "by_timestamp api mem now r ps d =
     (case r of
        None \<Rightarrow> Some (False, ps, d)
      | Some rp \<Rightarrow>
     (case policy rp of
        Some (TimePolicy bt) \<Rightarrow>
          (let when = now - expire_s bt in
           case dao_template_delete api (mem ps) ps (Some (BY_TIMESTAMP_DELETE (c_str (bt_table bt)) (c_str (where_field bt))))
                  (Some (by_timestamp_bind_cb api when)) d of
             None \<Rightarrow> None
           | Some (real_num, _, ps1, d1) \<Rightarrow> Some (real_num \<noteq> - 1, ps1, d1))
      | _ \<Rightarrow> None))"

text \<open>After copying the field name the code tests the table name again.\<close>

definition new_retention_policy_by_timestamp ::
  "bool \<Rightarrow> bool \<Rightarrow> bool \<Rightarrow> retention_policy_t option \<Rightarrow> bool \<Rightarrow> string option \<Rightarrow> string option \<Rightarrow> int64 \<Rightarrow>
   bool \<times> retention_policy_t option \<times> rp_block list" where
  "new_retention_policy_by_timestamp obj_ok dup_ok dup2_ok r has_ps table field ex =
     (case (r, table, field) of
        (Some rp, Some t, Some w) \<Rightarrow>
          if \<not> has_ps then (False, r, [])
          else if \<not> obj_ok then (False, r, [])
          else if \<not> dup_ok then (False, r, [])
          else
            (let f = (if dup2_ok then Some w else None)
             in (True, Some (rp\<lparr>policy := Some (TimePolicy \<lparr>bt_table = Some t, where_field = f, expire_s = ex\<rparr>),
                                policy_func := Some By_timestamp\<rparr>),
                 [PolicyBlock, TableCopy] @ (if dup2_ok then [FieldCopy] else [])))
      | _ \<Rightarrow> (False, r, []))"

definition delete_retention_policy_by_timestamp :: "retention_policy_t option \<Rightarrow> retention_policy_t option \<times> rp_block list" where
  "delete_retention_policy_by_timestamp r =
     (case r of
        None \<Rightarrow> (None, [])
      | Some rp \<Rightarrow>
          (case policy rp of
             Some (TimePolicy bt) \<Rightarrow>
               (Some (rp\<lparr>policy := None, policy_func := None\<rparr>),
                (if bt_table bt \<noteq> None then [TableCopy] else []) @ (if where_field bt \<noteq> None then [FieldCopy] else []) @ [PolicyBlock])
           | _ \<Rightarrow> (Some (rp\<lparr>policy_func := None\<rparr>), [])))"

subsection \<open>No retention\<close>

definition always :: "retention_policy_t option \<Rightarrow> bool" where
  "always r = True"

definition new_retention_policy_always :: "retention_policy_t option \<Rightarrow> bool \<times> retention_policy_t option" where
  "new_retention_policy_always r =
     (case r of None \<Rightarrow> (False, None) | Some rp \<Rightarrow> (True, Some (rp\<lparr>policy := None, policy_func := Some Always\<rparr>)))"

definition delete_retention_policy_always :: "retention_policy_t option \<Rightarrow> retention_policy_t option" where
  "delete_retention_policy_always r = (case r of None \<Rightarrow> None | Some rp \<Rightarrow> Some (rp\<lparr>policy_func := None\<rparr>))"

subsection \<open>The periodic deleter\<close>

text \<open>One run of a policy; calling a NULL function has no result.\<close>

definition run_policy ::
  "'d sqlite3 \<Rightarrow> (prepared_stmt_t option \<Rightarrow> lru_alloc) \<Rightarrow> int64 \<Rightarrow> retention_policy_t \<Rightarrow> prepared_stmt_t option \<Rightarrow> 'd \<Rightarrow>
   (bool \<times> prepared_stmt_t option \<times> 'd) option" where
  "run_policy api mem now r ps d =
     (case policy_func r of
        None \<Rightarrow> None
      | Some By_line \<Rightarrow> by_line api mem (Some r) ps d
      | Some By_timestamp \<Rightarrow> by_timestamp api mem now (Some r) ps d
      | Some Always \<Rightarrow> Some (always (Some r), ps, d))"

text \<open>The timer callback runs every policy, also after one has failed; the result lists their outcomes.\<close>

fun on_timer ::
  "'d sqlite3 \<Rightarrow> (prepared_stmt_t option \<Rightarrow> lru_alloc) \<Rightarrow> int64 \<Rightarrow> retention_policy_t list \<Rightarrow> prepared_stmt_t option \<Rightarrow> 'd \<Rightarrow>
   (bool list \<times> prepared_stmt_t option \<times> 'd) option" where
  "on_timer api mem now [] ps d = Some ([], ps, d)"
| "on_timer api mem now (p # rps) ps d =
     (case run_policy api mem now p ps d of
        None \<Rightarrow> None
      | Some (ret, ps1, d1) \<Rightarrow>
          (case on_timer api mem now rps ps1 d1 of
             None \<Rightarrow> None
           | Some (rets, ps2, d2) \<Rightarrow> Some (ret # rets, ps2, d2)))"

record dao_deleter_t =
  rps :: "retention_policy_t list option"
  dl_loop :: ptr

definition new_dao_deleter :: "dao_deleter_t option \<Rightarrow> ptr \<Rightarrow> retention_policy_t list option \<Rightarrow> bool \<times> dao_deleter_t option" where
  "new_dao_deleter d loop rs =
     (case d of
        None \<Rightarrow> (False, None)
      | Some x \<Rightarrow> if loop = None \<or> rs = None then (False, d) else (True, Some (x\<lparr>dl_loop := loop, rps := rs\<rparr>)))"

definition delete_dao_deleter :: "dao_deleter_t option \<Rightarrow> dao_deleter_t option" where
  "delete_dao_deleter d = (case d of None \<Rightarrow> None | Some x \<Rightarrow> Some (x\<lparr>rps := None, dl_loop := None\<rparr>))"

subsection \<open>What a run by lines does\<close>

text \<open>
  The meaning of the two statements on a table, given by its identifiers in the order of a scan: counting, and
  deleting what comes before the row at an offset. An offset behind the last row selects nothing, and a
  comparison with nothing holds for no row. A negative offset counts as 0.
\<close>

definition line_sem :: "string \<Rightarrow> int list sql_sem" where
  "line_sem t k f ids =
     (if k = BY_LINE_GET_NUM t then ([[int (length ids)]], ids, None)
      else if k = BY_LINE_DELETE t then
        (case f 1 of
           Some (Int32 n) \<Rightarrow>
             if 0 \<le> sint n \<and> sint n < int (length ids) then
               (let lim = ids ! nat (sint n)
                in ([], filter (\<lambda>i. \<not> i < lim) ids, Some (int (length (filter (\<lambda>i. i < lim) ids)))))
             else ([], ids, Some 0)
         | _ \<Rightarrow> ([], ids, Some 0))
      else ([], ids, None))"

definition line_np :: "string \<Rightarrow> string \<rightharpoonup> nat" where
  "line_np t = [BY_LINE_GET_NUM t \<mapsto> 0, BY_LINE_DELETE t \<mapsto> 1]"

lemma line_texts: "BY_LINE_GET_NUM t \<noteq> BY_LINE_DELETE t"
  by (simp add: BY_LINE_GET_NUM_def BY_LINE_DELETE_def)

lemma sorted_split_at:
  assumes "sorted_wrt (<) (ids :: int list)" and "n < length ids"
  shows "filter (\<lambda>i. i < ids ! n) ids = take n ids" "filter (\<lambda>i. \<not> i < ids ! n) ids = drop n ids"
proof -
  have ids: "ids = take n ids @ ids ! n # drop (Suc n) ids" using assms(2) by (rule id_take_nth_drop)
  have "sorted_wrt (<) (take n ids @ ids ! n # drop (Suc n) ids)" using assms(1) ids by simp
  then have lt: "\<forall>i\<in>set (take n ids). i < ids ! n" and ge: "\<forall>i\<in>set (drop (Suc n) ids). \<not> i < ids ! n"
    by (auto simp: sorted_wrt_append dest: less_asym)
  have d: "drop n ids = ids ! n # drop (Suc n) ids" using assms(2) by (simp add: Cons_nth_drop_Suc)
  have "filter P ids = filter P (take n ids) @ filter P (drop n ids)" for P by (metis append_take_drop_id filter_append)
  then show "filter (\<lambda>i. i < ids ! n) ids = take n ids" "filter (\<lambda>i. \<not> i < ids ! n) ids = drop n ids"
    using lt ge d by (auto simp: filter_empty_conv intro: filter_True filter_False)
qed

lemma get_line_num_runs:
  assumes eng: "sql_engine api view (line_sem t) (line_np t)" and mem: "good_mem (\<lambda>p. mem (Some p))" and rd: "ready view p d"
  shows "\<exists>p' d'. get_line_num api mem (Some p) t n d = Some (1, Some (word_of_int (int (length (tables (view d))))), Some p', d') \<and>
     ready view p' d' \<and> tables (view d') = tables (view d)"
proof -
  have np: "line_np t (BY_LINE_GET_NUM t) = Some 0" using line_texts by (simp add: line_np_def)
  have sem: "line_sem t (BY_LINE_GET_NUM t) f (tables (view d)) = ([[int (length (tables (view d)))]], tables (view d), None)" for f
    by (simp add: line_sem_def)
  have "\<exists>p' d'. with_stmt api (mem (Some p)) (Some p) (Some (BY_LINE_GET_NUM t))
        (\<lambda>st d1. step_rows api st (\<lambda>st d _. column_int api st 0 d) 0 n (apply_cb None st d1)) n d =
      Some (int (length [[int (length (tables (view d)))]]), fold (\<lambda>r _. word_of_int (r ! 0)) [[int (length (tables (view d)))]] n, Some p', d') \<and>
      ready view p' d' \<and> tables (view d') = tables (view d)"
    by (rule get_runs [OF eng mem rd np, where bs = "[]"]) (simp_all add: sem apply_cb_def bind_all_def sql_engineD(8) [OF eng])
  then show ?thesis by (auto simp: get_line_num_def dao_template_get_def)
qed

lemma line_delete_sem:
  assumes "sorted_wrt (<) ids" and "0 \<le> k" "k \<le> int (length ids)" and "sint n = int (length ids) - k" and "f 1 = Some (Int32 n)"
  shows "line_sem t (BY_LINE_DELETE t) f ids =
     ([], if k = 0 then ids else drop (length ids - nat k) ids, Some (if k = 0 then 0 else int (length ids - nat k)))"
proof (cases "k = 0")
  case True
  then show ?thesis using assms(4,5) line_texts [of t] by (simp add: line_sem_def)
next
  case False
  then have n: "length ids - nat k < length ids" "nat (sint n) = length ids - nat k" "0 \<le> sint n" "sint n < int (length ids)"
    using assms(2-4) by auto
  then show ?thesis
    using assms(5) False line_texts [of t] sorted_split_at [OF assms(1) n(1)] by (simp add: line_sem_def Let_def)
qed

lemma line_delete_runs:
  assumes eng: "sql_engine api view (line_sem t) (line_np t)" and mem: "good_mem (\<lambda>p. mem (Some p))" and rd: "ready view p d"
    and sem: "\<And>f. f 1 = Some (Int32 n) \<Longrightarrow> line_sem t (BY_LINE_DELETE t) f (tables (view d)) = ([], x', Some ch)"
  shows "\<exists>p' d'. dao_template_delete api (mem (Some p)) (Some p) (Some (BY_LINE_DELETE t)) (Some (by_line_bind_cb api n)) d =
       Some (sint (word_of_int ch :: int32), (), Some p', d') \<and> ready view p' d' \<and> tables (view d') = x'"
  unfolding dao_template_delete_def
  by (rule base_runs [OF eng mem rd, of _ 1 "[(1, Int32 n)]"])
    (auto simp: line_np_def apply_cb_def bind_all_def by_line_bind_cb_def sem)

lemma try_delete_exact:
  assumes "0 \<le> sint (max_num bl)" and "0 \<le> sint (percent bl)" and "sint (max_num bl) * sint (percent bl) < 2 ^ 31"
    and "sint (max_num bl) * sint (percent bl) div 100 \<le> int n" and "int n < 2 ^ 31"
  shows "sint (try_delete (word_of_int (int n)) bl) = int n - sint (max_num bl) * sint (percent bl) div 100"
proof -
  let ?m = "sint (max_num bl) * sint (percent bl)"
  have pos: "0 \<le> ?m" using assms(1,2) by simp
  have "max_num bl * percent bl = word_of_int ?m" by (simp add: of_int_sint)
  then have m: "sint (max_num bl * percent bl) = ?m" using sint_eq_of_int_32 [of ?m] pos assms(3) by simp
  have trunc: "sgn z * (\<bar>z\<bar> div 100) = z div 100" if "0 \<le> z" for z :: int using that by (auto simp: sgn_if)
  have "try_delete (word_of_int (int n)) bl = word_of_int (int n - ?m div 100)"
    unfolding try_delete_def Let_def m trunc [OF pos] by simp
  moreover have "0 \<le> ?m div 100" using pos by (simp add: pos_imp_zdiv_nonneg_iff)
  then have "- (2 ^ 31) \<le> int n - ?m div 100" "int n - ?m div 100 < 2 ^ 31" using assms(4,5) by linarith+
  ultimately show ?thesis using sint_eq_of_int_32 [of "int n - ?m div 100"] by simp
qed

text \<open>
  Retention by lines. With an engine that gives the two statements their meaning, a run of the policy
  returns. A table within its limit is left alone. Otherwise exactly the oldest rows are deleted, so that the
  newest \<open>max_num * percent / 100\<close> rows stay, and the run reports success. But when that number is 0 the offset lies behind
  the table: nothing is deleted, however long the table is, and the run reports a failure.
\<close>

theorem by_line_spec:
  assumes "sql_engine api view (line_sem t) (line_np t)" and "good_mem (\<lambda>p. mem (Some p))" and "ready view p d"
    and "sorted_wrt (<) (tables (view d))" and "int (length (tables (view d))) < 2 ^ 31"
    and "policy r = Some (LinePolicy bl)" and "bl_table bl = Some t"
    and "0 \<le> sint (max_num bl)" and "0 \<le> sint (percent bl)" and "sint (percent bl) \<le> 100"
    and "sint (max_num bl) * sint (percent bl) < 2 ^ 31"
  shows "\<exists>ret p' d'. by_line api mem (Some r) (Some p) d = Some (ret, Some p', d') \<and> ready view p' d' \<and>
     (let ids = tables (view d); keep = nat (sint (max_num bl) * sint (percent bl) div 100)
      in if int (length ids) \<le> sint (max_num bl) then ret \<and> tables (view d') = ids
         else if keep = 0 then \<not> ret \<and> tables (view d') = ids
         else ret \<and> tables (view d') = drop (length ids - keep) ids \<and> length (tables (view d')) = keep)"
proof -
  let ?ids = "tables (view d)" and ?k = "sint (max_num bl) * sint (percent bl) div 100"
  let ?cur = "word_of_int (int (length ?ids)) :: int32"
  obtain p1 d1 where g: "get_line_num api mem (Some p) t 0 d = Some (1, Some ?cur, Some p1, d1)" "ready view p1 d1"
    "tables (view d1) = ?ids"
    using get_line_num_runs [OF assms(1-3)] by blast
  have cur: "sint ?cur = int (length ?ids)" using sint_eq_of_int_32 [of "int (length ?ids)"] assms(5) by simp
  have str: "c_str (bl_table bl) = t" using assms(7) by (simp add: c_str_def)
  show ?thesis
  proof (cases "int (length ?ids) \<le> sint (max_num bl)")
    case True
    then show ?thesis using g cur str assms(6) by (auto simp: by_line_def Let_def)
  next
    case False
    have k0: "0 \<le> ?k" using assms(8,9) by (simp add: pos_imp_zdiv_nonneg_iff)
    have "sint (max_num bl) * sint (percent bl) \<le> sint (max_num bl) * 100" using assms(8,10) by (intro mult_left_mono) auto
    then have kmax: "?k \<le> sint (max_num bl)" by (metis zdiv_mono1 nonzero_mult_div_cancel_right zero_less_numeral zero_neq_numeral)
    then have klen: "?k \<le> int (length ?ids)" using False by simp
    let ?del = "try_delete ?cur bl"
    have tn: "sint ?del = int (length ?ids) - ?k" by (rule try_delete_exact [OF assms(8,9,11) klen assms(5)])
    let ?n = "length ?ids - nat ?k"
    have sem: "line_sem t (BY_LINE_DELETE t) f (tables (view d1)) =
        ([], if ?k = 0 then ?ids else drop ?n ?ids, Some (if ?k = 0 then 0 else int ?n))" if "f 1 = Some (Int32 ?del)" for f
      using line_delete_sem [OF assms(4) k0 klen tn, of f t] that g(3) by simp
    obtain p2 d2 where del: "dao_template_delete api (mem (Some p1)) (Some p1) (Some (BY_LINE_DELETE t)) (Some (by_line_bind_cb api ?del)) d1 =
        Some (sint (word_of_int (if ?k = 0 then 0 else int ?n) :: int32), (), Some p2, d2)" "ready view p2 d2"
      "tables (view d2) = (if ?k = 0 then ?ids else drop ?n ?ids)"
      using line_delete_runs [OF assms(1,2) g(2) sem] by blast
    have real: "sint (word_of_int (if ?k = 0 then 0 else int ?n) :: int32) = (if ?k = 0 then 0 else int ?n)"
      using assms(5) by (intro sint_eq_of_int_32) auto
    have "by_line api mem (Some r) (Some p) d = Some (?k \<noteq> 0, Some p2, d2)"
      using g(1) cur False str assms(6) del(1) tn real klen k0 assms(8) by (auto simp: by_line_def Let_def)
    then show ?thesis using del(2,3) False k0 klen by (auto simp: Let_def)
  qed
qed

subsection \<open>Instances\<close>

definition sample_line_policy :: "int32 \<Rightarrow> retention_policy_t" where
  "sample_line_policy pc = \<lparr>policy = Some (LinePolicy \<lparr>bl_table = Some ''t'', max_num = 4, percent = pc\<rparr>), policy_func = Some By_line\<rparr>"

theorem by_line_spec_witness:
  "\<exists>p' d'. by_line (view_engine (line_sem ''t'')) (\<lambda>ps. fresh_mem (the ps)) (Some (sample_line_policy 50)) (Some fresh_ps) (fresh_view [1, 2, 3, 5, 8]) =
     Some (True, Some p', d') \<and> tables d' = [5, 8]"
proof -
  let ?bl = "\<lparr>bl_table = Some ''t'', max_num = 4, percent = 50\<rparr> :: rp_by_line_t"
  have "\<exists>ret p' d'. by_line (view_engine (line_sem ''t'')) (\<lambda>ps. fresh_mem (the ps)) (Some (sample_line_policy 50)) (Some fresh_ps)
        (fresh_view [1, 2, 3, 5, 8]) = Some (ret, Some p', d') \<and> ready (\<lambda>v. v) p' d' \<and>
      (let ids = tables (fresh_view [1, 2, 3, 5, 8]); keep = nat (sint (max_num ?bl) * sint (percent ?bl) div 100)
       in if int (length ids) \<le> sint (max_num ?bl) then ret \<and> tables d' = ids
          else if keep = 0 then \<not> ret \<and> tables d' = ids
          else ret \<and> tables d' = drop (length ids - keep) ids \<and> length (tables d') = keep)"
    by (rule by_line_spec [OF view_engine_laws, where t = "''t''"])
      (simp_all add: fresh_mem_good fresh_ready sample_line_policy_def)
  then show ?thesis by auto
qed

end
