(* ===== verification/Relay_Dao.thy ===== *)
theory Relay_Dao
  imports Retention
begin

text \<open>
  The relay counter table: \<^verbatim>\<open>src/src/database/dao/pcu_relay_cnt/pcu_relay_cnt.c\<close>, its record
  (\<^verbatim>\<open>pcu_relay_cnt_model.h\<close>), the collection of data access objects (\<^verbatim>\<open>dao.c\<close>) and the counters kept in memory
  (\<^verbatim>\<open>src/src/relay/relay.c\<close>). The statement cache that a data access object points to is passed along with it.
  A relay identifier is a 32-bit unsigned number, as the compiler stores the enumeration.
\<close>

subsection \<open>Data\<close>

definition DO_DC_INPUT1_POS :: uint32 where "DO_DC_INPUT1_POS = 427"
definition DO_DC_INPUT1_NEG :: uint32 where "DO_DC_INPUT1_NEG = 428"
definition DO_DC_INPUT1_PRE :: uint32 where "DO_DC_INPUT1_PRE = 411"
definition DO_DC_INPUT2_POS :: uint32 where "DO_DC_INPUT2_POS = 455"
definition DO_DC_INPUT2_NEG :: uint32 where "DO_DC_INPUT2_NEG = 454"
definition DO_DC_INPUT2_PRE :: uint32 where "DO_DC_INPUT2_PRE = 412"

record pcu_relay_cnt_t =
  cnt_id :: int32
  relay_id :: uint32
  close_cnt :: int32

definition relay_rec :: "int32 \<Rightarrow> uint32 \<Rightarrow> int32 \<Rightarrow> pcu_relay_cnt_t" where
  "relay_rec i r c = \<lparr>cnt_id = i, relay_id = r, close_cnt = c\<rparr>"

lemma relay_rec_simps [simp]: "relay_id (relay_rec i r c) = r" "close_cnt (relay_rec i r c) = c" "cnt_id (relay_rec i r c) = i"
  by (simp_all add: relay_rec_def)

definition g_relay_cnt :: "pcu_relay_cnt_t list" where
  "g_relay_cnt =
     [relay_rec 1 DO_DC_INPUT1_POS 20, relay_rec 2 DO_DC_INPUT1_NEG 21, relay_rec 3 DO_DC_INPUT1_PRE 22,
      relay_rec 4 DO_DC_INPUT2_POS 23, relay_rec 5 DO_DC_INPUT2_NEG 24, relay_rec 6 DO_DC_INPUT2_PRE 25]"

record pcu_relay_cnt_dao_t =
  rp :: retention_policy_t
  dao_ps :: ptr

record dao_t =
  pcu_relay_cnt_dao :: pcu_relay_cnt_dao_t

definition SQL_CREATE :: string where "SQL_CREATE = ''insert into pcu_relay_cnt(relay_id,close_cnt) values(?,?)''"
definition SQL_SELECT :: string where "SQL_SELECT = ''select relay_id from pcu_relay_cnt where relay_id = ?''"
definition SQL_GET_BY_RELAY_ID :: string where "SQL_GET_BY_RELAY_ID = ''select relay_id,close_cnt from pcu_relay_cnt where relay_id=?''"
definition SQL_UPDATE_BY_RELAY_ID :: string where "SQL_UPDATE_BY_RELAY_ID = ''update pcu_relay_cnt set close_cnt=? where relay_id=?''"
definition SQL_DELETE_BY_RELAY_ID :: string where "SQL_DELETE_BY_RELAY_ID = ''delete from pcu_relay_cnt where relay_id=?''"

lemmas relay_sql_defs = SQL_CREATE_def SQL_SELECT_def SQL_GET_BY_RELAY_ID_def SQL_UPDATE_BY_RELAY_ID_def SQL_DELETE_BY_RELAY_ID_def

subsection \<open>Life cycle\<close>

definition new_pcu_relay_cnt_dao :: "pcu_relay_cnt_dao_t option \<Rightarrow> ptr \<Rightarrow> bool \<times> pcu_relay_cnt_dao_t option" where
  "new_pcu_relay_cnt_dao dao ps =
     (case dao of
        None \<Rightarrow> (False, None)
      | Some x \<Rightarrow>
          if ps = None then (False, dao)
          else (True, Some (x\<lparr>dao_ps := ps, rp := the (snd (new_retention_policy_always (Some (rp x))))\<rparr>)))"

definition delete_pcu_relay_cnt_dao :: "pcu_relay_cnt_dao_t option \<Rightarrow> pcu_relay_cnt_dao_t option" where
  "delete_pcu_relay_cnt_dao dao =
     (case dao of
        None \<Rightarrow> None
      | Some x \<Rightarrow> Some (x\<lparr>dao_ps := None, rp := the (delete_retention_policy_always (Some (rp x)))\<rparr>))"

definition new_dao :: "dao_t option \<Rightarrow> ptr \<Rightarrow> ptr \<Rightarrow> bool \<times> dao_t option" where
  "new_dao dao pstmts loop =
     (case dao of
        None \<Rightarrow> (False, None)
      | Some x \<Rightarrow>
          if pstmts = None \<or> loop = None then (False, dao)
          else (True, Some (x\<lparr>pcu_relay_cnt_dao := the (snd (new_pcu_relay_cnt_dao (Some (pcu_relay_cnt_dao x)) pstmts))\<rparr>)))"

definition delete_dao :: "dao_t option \<Rightarrow> dao_t option" where
  "delete_dao dao =
     (case dao of
        None \<Rightarrow> None
      | Some x \<Rightarrow> Some (x\<lparr>pcu_relay_cnt_dao := the (delete_pcu_relay_cnt_dao (Some (pcu_relay_cnt_dao x)))\<rparr>))"

definition new_retention_policy_array :: "dao_t \<Rightarrow> retention_policy_t list" where
  "new_retention_policy_array dao = [rp (pcu_relay_cnt_dao dao)]"

subsection \<open>Operations\<close>

definition create_bind_cb :: "'d sqlite3 \<Rightarrow> pcu_relay_cnt_t \<Rightarrow> stmt \<Rightarrow> 'd \<Rightarrow> 'd" where
  "create_bind_cb api p st d =
     snd (bind api st 2 (Int32 (close_cnt p)) (snd (bind api st 1 (Int64 (ucast (relay_id p))) d)))"

definition already_exit_in_table :: "'d sqlite3 \<Rightarrow> pcu_relay_cnt_t \<Rightarrow> stmt \<Rightarrow> 'd \<Rightarrow> 'd" where
  "already_exit_in_table api p st d = snd (bind api st 1 (Int64 (ucast (relay_id p))) d)"

text \<open>Without a statement cache every template returns \<open>-1\<close> at once.\<close>

definition pcu_relay_cnt_dao_create ::
  "'d sqlite3 \<Rightarrow> (prepared_stmt_t option \<Rightarrow> lru_alloc) \<Rightarrow> pcu_relay_cnt_dao_t option \<Rightarrow> pcu_relay_cnt_t option \<Rightarrow> prepared_stmt_t option \<Rightarrow> 'd \<Rightarrow>
   (int \<times> prepared_stmt_t option \<times> 'd) option" where
  "pcu_relay_cnt_dao_create api mem dao p ps d =
     (case (dao, p) of
        (Some dao, Some p) \<Rightarrow>
          if dao_ps dao = None then Some (- 1, ps, d)
          else
            (case dao_template_select api (mem ps) ps (Some SQL_SELECT) (Some (already_exit_in_table api p)) (Some 0) d of
               None \<Rightarrow> None
             | Some (ret, _, ps1, d1) \<Rightarrow>
                 if ret < 0 then Some (ret, ps1, d1)
                 else if ret = 0 then
                   map_option (\<lambda>(n, _, ps2, d2). (n, ps2, d2))
                     (dao_template_create api (mem ps1) ps1 (Some SQL_CREATE) (Some (create_bind_cb api p)) d1)
                 else Some (0, ps1, d1))
      | _ \<Rightarrow> Some (- 1, ps, d))"

definition get_bind_cb :: "'d sqlite3 \<Rightarrow> uint32 \<Rightarrow> stmt \<Rightarrow> 'd \<Rightarrow> 'd" where
  "get_bind_cb api r st d = snd (bind api st 1 (Int64 (ucast r)) d)"

definition get_unmarshal_cb :: "'d sqlite3 \<Rightarrow> stmt \<Rightarrow> 'd \<Rightarrow> pcu_relay_cnt_t \<Rightarrow> pcu_relay_cnt_t" where
  "get_unmarshal_cb api st d res = res\<lparr>relay_id := ucast (column_int64 api st 0 d), close_cnt := column_int api st 1 d\<rparr>"

definition pcu_relay_cnt_dao_get_by_relay_id ::
  "'d sqlite3 \<Rightarrow> (prepared_stmt_t option \<Rightarrow> lru_alloc) \<Rightarrow> pcu_relay_cnt_dao_t option \<Rightarrow> uint32 \<Rightarrow> pcu_relay_cnt_t option \<Rightarrow> prepared_stmt_t option \<Rightarrow> 'd \<Rightarrow>
   (int \<times> pcu_relay_cnt_t option \<times> prepared_stmt_t option \<times> 'd) option" where
  "pcu_relay_cnt_dao_get_by_relay_id api mem dao r res ps d =
     (case (dao, res) of
        (Some dao, Some _) \<Rightarrow>
          if dao_ps dao = None then Some (- 1, res, ps, d)
          else dao_template_get api (mem ps) ps (Some SQL_GET_BY_RELAY_ID) (Some (get_bind_cb api r)) (Some (get_unmarshal_cb api)) res d
      | _ \<Rightarrow> Some (- 1, res, ps, d))"

definition update_bind_cb :: "'d sqlite3 \<Rightarrow> uint32 \<Rightarrow> pcu_relay_cnt_t \<Rightarrow> stmt \<Rightarrow> 'd \<Rightarrow> 'd" where
  "update_bind_cb api r p st d = snd (bind api st 2 (Int64 (ucast r)) (snd (bind api st 1 (Int32 (close_cnt p)) d)))"

definition pcu_relay_cnt_dao_update_by_relay_id ::
  "'d sqlite3 \<Rightarrow> (prepared_stmt_t option \<Rightarrow> lru_alloc) \<Rightarrow> pcu_relay_cnt_dao_t option \<Rightarrow> uint32 \<Rightarrow> pcu_relay_cnt_t option \<Rightarrow> prepared_stmt_t option \<Rightarrow> 'd \<Rightarrow>
   (int \<times> prepared_stmt_t option \<times> 'd) option" where
  "pcu_relay_cnt_dao_update_by_relay_id api mem dao r p ps d =
     (case (dao, p) of
        (Some dao, Some p) \<Rightarrow>
          if dao_ps dao = None then Some (- 1, ps, d)
          else map_option (\<lambda>(n, _, ps2, d2). (n, ps2, d2))
                 (dao_template_update api (mem ps) ps (Some SQL_UPDATE_BY_RELAY_ID) (Some (update_bind_cb api r p)) d)
      | _ \<Rightarrow> Some (- 1, ps, d))"

text \<open>The identifier to delete is bound as a 32-bit integer.\<close>

definition delete_bind_cb :: "'d sqlite3 \<Rightarrow> uint32 \<Rightarrow> stmt \<Rightarrow> 'd \<Rightarrow> 'd" where
  "delete_bind_cb api r st d = snd (bind api st 1 (Int32 r) d)"

definition pcu_relay_cnt_dao_delete_by_relay_id ::
  "'d sqlite3 \<Rightarrow> (prepared_stmt_t option \<Rightarrow> lru_alloc) \<Rightarrow> pcu_relay_cnt_dao_t option \<Rightarrow> uint32 \<Rightarrow> prepared_stmt_t option \<Rightarrow> 'd \<Rightarrow>
   (int \<times> prepared_stmt_t option \<times> 'd) option" where
  "pcu_relay_cnt_dao_delete_by_relay_id api mem dao r ps d =
     (case dao of
        None \<Rightarrow> Some (- 1, ps, d)
      | Some dao \<Rightarrow>
          if dao_ps dao = None then Some (- 1, ps, d)
          else map_option (\<lambda>(n, _, ps2, d2). (n, ps2, d2))
                 (dao_template_delete api (mem ps) ps (Some SQL_DELETE_BY_RELAY_ID) (Some (delete_bind_cb api r)) d))"

subsection \<open>The meaning of the statements\<close>

text \<open>The table is the list of its rows in insertion order: relay identifier and counter.\<close>

definition arg :: "(nat \<Rightarrow> sql_value option) \<Rightarrow> nat \<Rightarrow> int" where
  "arg f i = (case f i of Some (Int32 w) \<Rightarrow> sint w | Some (Int64 w) \<Rightarrow> sint w | _ \<Rightarrow> 0)"

definition set_cnt :: "int \<Rightarrow> int \<Rightarrow> (int \<times> int) list \<Rightarrow> (int \<times> int) list" where
  "set_cnt r c rows = map (\<lambda>x. if fst x = r then (r, c) else x) rows"

definition relay_sem :: "(int \<times> int) list sql_sem" where
  "relay_sem k f rows =
     (if k = SQL_CREATE then ([], rows @ [(arg f 1, arg f 2)], Some 1)
      else if k = SQL_SELECT then (map (\<lambda>x. [fst x]) (filter (\<lambda>x. fst x = arg f 1) rows), rows, None)
      else if k = SQL_GET_BY_RELAY_ID then (map (\<lambda>x. [fst x, snd x]) (filter (\<lambda>x. fst x = arg f 1) rows), rows, None)
      else if k = SQL_UPDATE_BY_RELAY_ID then
        ([], set_cnt (arg f 2) (arg f 1) rows, Some (int (length (filter (\<lambda>x. fst x = arg f 2) rows))))
      else if k = SQL_DELETE_BY_RELAY_ID then
        ([], filter (\<lambda>x. fst x \<noteq> arg f 1) rows, Some (int (length (filter (\<lambda>x. fst x = arg f 1) rows))))
      else ([], rows, None))"

definition relay_np :: "string \<rightharpoonup> nat" where
  "relay_np = [SQL_CREATE \<mapsto> 2, SQL_SELECT \<mapsto> 1, SQL_GET_BY_RELAY_ID \<mapsto> 1, SQL_UPDATE_BY_RELAY_ID \<mapsto> 2, SQL_DELETE_BY_RELAY_ID \<mapsto> 1]"

lemma relay_np_simps:
  "relay_np SQL_CREATE = Some 2" "relay_np SQL_SELECT = Some 1" "relay_np SQL_GET_BY_RELAY_ID = Some 1"
  "relay_np SQL_UPDATE_BY_RELAY_ID = Some 2" "relay_np SQL_DELETE_BY_RELAY_ID = Some 1"
  by (simp_all add: relay_np_def relay_sql_defs)

lemma relay_sem_simps:
  "relay_sem SQL_CREATE f rows = ([], rows @ [(arg f 1, arg f 2)], Some 1)"
  "relay_sem SQL_SELECT f rows = (map (\<lambda>x. [fst x]) (filter (\<lambda>x. fst x = arg f 1) rows), rows, None)"
  "relay_sem SQL_GET_BY_RELAY_ID f rows = (map (\<lambda>x. [fst x, snd x]) (filter (\<lambda>x. fst x = arg f 1) rows), rows, None)"
  "relay_sem SQL_UPDATE_BY_RELAY_ID f rows =
     ([], set_cnt (arg f 2) (arg f 1) rows, Some (int (length (filter (\<lambda>x. fst x = arg f 2) rows))))"
  "relay_sem SQL_DELETE_BY_RELAY_ID f rows =
     ([], filter (\<lambda>x. fst x \<noteq> arg f 1) rows, Some (int (length (filter (\<lambda>x. fst x = arg f 1) rows))))"
  by (simp_all add: relay_sem_def relay_sql_defs)

lemma sint_extended: "sint (ucast (r :: uint32) :: int64) = uint r"
proof -
  have "uint r < 2 ^ 32" using uint_bounded [of r] by simp
  then have "uint (ucast r :: int64) = uint r" "uint r < 2 ^ 63" by (simp_all add: unsigned_ucast_eq take_bit_int_eq_self)
  moreover have "- (2 ^ 63) \<le> uint r" by (rule order_trans [OF _ uint_ge_0]) simp
  ultimately show ?thesis using signed_take_bit_int_eq_self [of 63 "uint r"] by (simp add: sint_uint)
qed

lemma relay_read_back [simp]: "ucast (ucast (r :: uint32) :: int64) = r"
  by (rule bit_word_eqI) (auto simp: bit_simps dest: bit_imp_le_length)

subsection \<open>Single statements\<close>

lemma select_runs:
  assumes eng: "sql_engine api view relay_sem relay_np" and mem: "good_mem (\<lambda>p. mem (Some p))" and rd: "ready view p d"
  shows "\<exists>p' d'. dao_template_select api (mem (Some p)) (Some p) (Some SQL_SELECT) (Some (already_exit_in_table api x)) (Some 0) d =
       Some (int (length (filter (\<lambda>y. fst y = uint (relay_id x)) (tables (view d)))), (), Some p', d') \<and>
     ready view p' d' \<and> tables (view d') = tables (view d)"
proof -
  let ?res = "map (\<lambda>y. [fst y]) (filter (\<lambda>y. fst y = uint (relay_id x)) (tables (view d)))"
  have "\<exists>p' d'. with_stmt api (mem (Some p)) (Some p) (Some SQL_SELECT)
        (\<lambda>st d1. step_rows api st (\<lambda>_ _ u. u) 0 () (apply_cb (Some (already_exit_in_table api x)) st d1)) () d =
      Some (int (length ?res), fold (\<lambda>r u. u) ?res (), Some p', d') \<and> ready view p' d' \<and> tables (view d') = tables (view d)"
    by (rule get_runs [OF eng mem rd relay_np_simps(2), where bs = "[(1, Int64 (ucast (relay_id x)))]"])
      (simp_all add: relay_sem_simps arg_def sint_extended apply_cb_def bind_all_def already_exit_in_table_def)
  then show ?thesis by (simp add: dao_template_select_def)
qed

lemma insert_runs:
  assumes eng: "sql_engine api view relay_sem relay_np" and mem: "good_mem (\<lambda>p. mem (Some p))" and rd: "ready view p d"
  shows "\<exists>p' d'. dao_template_create api (mem (Some p)) (Some p) (Some SQL_CREATE) (Some (create_bind_cb api x)) d =
       Some (1, (), Some p', d') \<and> ready view p' d' \<and> tables (view d') = tables (view d) @ [(uint (relay_id x), sint (close_cnt x))]"
proof -
  have "\<exists>p' d'. dao_template_base api (mem (Some p)) (Some p) (Some SQL_CREATE) (Some (create_bind_cb api x)) d =
      Some (sint (word_of_int 1 :: int32), (), Some p', d') \<and> ready view p' d' \<and>
      tables (view d') = tables (view d) @ [(uint (relay_id x), sint (close_cnt x))]"
    by (rule base_runs [OF eng mem rd relay_np_simps(1), where bs = "[(1, Int64 (ucast (relay_id x))), (2, Int32 (close_cnt x))]"])
      (simp_all add: relay_sem_simps arg_def sint_extended apply_cb_def bind_all_def create_bind_cb_def upt_rec)
  then show ?thesis by (simp add: dao_template_create_def)
qed

lemma get_by_id_runs:
  assumes eng: "sql_engine api view relay_sem relay_np" and mem: "good_mem (\<lambda>p. mem (Some p))" and rd: "ready view p d"
  shows "\<exists>p' d'. dao_template_get api (mem (Some p)) (Some p) (Some SQL_GET_BY_RELAY_ID) (Some (get_bind_cb api r)) (Some (get_unmarshal_cb api)) (Some x) d =
       Some (int (length (filter (\<lambda>y. fst y = uint r) (tables (view d)))),
         Some (fold (\<lambda>y u. u\<lparr>relay_id := ucast (word_of_int (fst y) :: int64), close_cnt := word_of_int (snd y)\<rparr>)
           (filter (\<lambda>y. fst y = uint r) (tables (view d))) x), Some p', d') \<and>
     ready view p' d' \<and> tables (view d') = tables (view d)"
proof -
  let ?res = "map (\<lambda>y. [fst y, snd y]) (filter (\<lambda>y. fst y = uint r) (tables (view d)))"
  let ?g = "\<lambda>y u. u\<lparr>relay_id := ucast (word_of_int (y ! 0) :: int64), close_cnt := word_of_int (y ! 1)\<rparr>"
  have "\<exists>p' d'. with_stmt api (mem (Some p)) (Some p) (Some SQL_GET_BY_RELAY_ID)
        (\<lambda>st d1. step_rows api st (get_unmarshal_cb api) 0 x (apply_cb (Some (get_bind_cb api r)) st d1)) x d =
      Some (int (length ?res), fold ?g ?res x, Some p', d') \<and> ready view p' d' \<and> tables (view d') = tables (view d)"
    by (rule get_runs [OF eng mem rd relay_np_simps(3), where bs = "[(1, Int64 (ucast r))]"])
      (simp_all add: relay_sem_simps arg_def sint_extended apply_cb_def bind_all_def get_bind_cb_def get_unmarshal_cb_def
        sql_engineD(7,8) [OF eng])
  then show ?thesis by (auto simp: dao_template_get_def fold_map comp_def)
qed

lemma update_runs:
  assumes eng: "sql_engine api view relay_sem relay_np" and mem: "good_mem (\<lambda>p. mem (Some p))" and rd: "ready view p d"
  shows "\<exists>p' d'. dao_template_update api (mem (Some p)) (Some p) (Some SQL_UPDATE_BY_RELAY_ID) (Some (update_bind_cb api r x)) d =
       Some (sint (word_of_int (int (length (filter (\<lambda>y. fst y = uint r) (tables (view d))))) :: int32), (), Some p', d') \<and>
     ready view p' d' \<and> tables (view d') = set_cnt (uint r) (sint (close_cnt x)) (tables (view d))"
  unfolding dao_template_update_def
  by (rule base_runs [OF eng mem rd relay_np_simps(4), where bs = "[(1, Int32 (close_cnt x)), (2, Int64 (ucast r))]"])
    (simp_all add: relay_sem_simps arg_def sint_extended apply_cb_def bind_all_def update_bind_cb_def upt_rec)

lemma delete_runs:
  assumes eng: "sql_engine api view relay_sem relay_np" and mem: "good_mem (\<lambda>p. mem (Some p))" and rd: "ready view p d"
  shows "\<exists>p' d'. dao_template_delete api (mem (Some p)) (Some p) (Some SQL_DELETE_BY_RELAY_ID) (Some (delete_bind_cb api r)) d =
       Some (sint (word_of_int (int (length (filter (\<lambda>y. fst y = sint r) (tables (view d))))) :: int32), (), Some p', d') \<and>
     ready view p' d' \<and> tables (view d') = filter (\<lambda>y. fst y \<noteq> sint r) (tables (view d))"
  unfolding dao_template_delete_def
  by (rule base_runs [OF eng mem rd relay_np_simps(5), where bs = "[(1, Int32 r)]"])
    (simp_all add: relay_sem_simps arg_def apply_cb_def bind_all_def delete_bind_cb_def)

subsection \<open>The table as a map\<close>

text \<open>With unique relay identifiers the table is a finite map from identifiers to counters.\<close>

lemma rows_of_key:
  assumes "distinct (map fst rows)"
  shows "filter (\<lambda>y. fst y = r) rows = (case map_of rows r of None \<Rightarrow> [] | Some c \<Rightarrow> [(r, c)])"
  using assms
proof (induction rows)
  case (Cons x rows)
  have "map_of rows (fst x) = None" using Cons.prems by (simp add: map_of_eq_None_iff)
  then show ?case using Cons by (cases x) (auto split: option.splits)
qed simp

lemma set_cnt_map:
  "map fst (set_cnt r c rows) = map fst rows" "map_of (set_cnt r c rows) = (if r \<in> fst ` set rows then (map_of rows)(r \<mapsto> c) else map_of rows)"
  by (induction rows) (auto simp: set_cnt_def fun_eq_iff)

text \<open>
  Creating and reading back a relay counter. On a table with unique relay identifiers,
  \<^verbatim>\<open>pcu_relay_cnt_dao_create\<close> adds a row and returns 1 if the identifier is new, and returns 0 and changes nothing
  otherwise, so identifiers stay unique. A following \<^verbatim>\<open>pcu_relay_cnt_dao_get_by_relay_id\<close> returns 1 and the
  counter that the table held before, or else the one just created.
\<close>

theorem relay_create_get:
  assumes "sql_engine api view relay_sem relay_np" and "good_mem (\<lambda>p. mem (Some p))" and "ready view p d"
    and "dao_ps dao \<noteq> None" and "distinct (map fst (tables (view d)))"
  shows "\<exists>n p' d' res p'' d''.
     pcu_relay_cnt_dao_create api mem (Some dao) (Some x) (Some p) d = Some (n, Some p', d') \<and> ready view p' d' \<and>
     distinct (map fst (tables (view d'))) \<and>
     (case map_of (tables (view d)) (uint (relay_id x)) of
        None \<Rightarrow> n = 1 \<and> map_of (tables (view d')) = (map_of (tables (view d)))(uint (relay_id x) \<mapsto> sint (close_cnt x))
      | Some c \<Rightarrow> n = 0 \<and> tables (view d') = tables (view d)) \<and>
     pcu_relay_cnt_dao_get_by_relay_id api mem (Some dao) (relay_id x) (Some y) (Some p') d' = Some (1, Some res, Some p'', d'') \<and>
     ready view p'' d'' \<and> relay_id res = relay_id x \<and>
     close_cnt res = (case map_of (tables (view d)) (uint (relay_id x)) of None \<Rightarrow> close_cnt x | Some c \<Rightarrow> word_of_int c)"
proof -
  let ?r = "uint (relay_id x)" and ?T = "tables (view d)"
  obtain p1 d1 where s: "dao_template_select api (mem (Some p)) (Some p) (Some SQL_SELECT) (Some (already_exit_in_table api x)) (Some 0) d =
      Some (int (length (filter (\<lambda>y. fst y = ?r) ?T)), (), Some p1, d1)" "ready view p1 d1" "tables (view d1) = ?T"
    using select_runs [OF assms(1-3)] by blast
  obtain n p' d' where c: "pcu_relay_cnt_dao_create api mem (Some dao) (Some x) (Some p) d = Some (n, Some p', d')" "ready view p' d'"
    "tables (view d') = (if map_of ?T ?r = None then ?T @ [(?r, sint (close_cnt x))] else ?T)" "n = (if map_of ?T ?r = None then 1 else 0)"
  proof (cases "map_of ?T ?r")
    case None
    obtain p2 d2 where "dao_template_create api (mem (Some p1)) (Some p1) (Some SQL_CREATE) (Some (create_bind_cb api x)) d1 = Some (1, (), Some p2, d2)"
      "ready view p2 d2" "tables (view d2) = ?T @ [(?r, sint (close_cnt x))]"
      using insert_runs [OF assms(1,2) s(2), of x] s(3) by auto
    then show thesis using that [of 1 p2 d2] s(1) None rows_of_key [OF assms(5), of ?r] assms(4)
      by (simp add: pcu_relay_cnt_dao_create_def)
  next
    case (Some c)
    then show thesis using that [of 0 p1 d1] s rows_of_key [OF assms(5), of ?r] assms(4) by (simp add: pcu_relay_cnt_dao_create_def)
  qed
  have uniq: "distinct (map fst (tables (view d')))" using c(3) assms(5) by (auto simp: map_of_eq_None_iff)
  have m: "map_of (tables (view d')) = (if map_of ?T ?r = None then (map_of ?T)(?r \<mapsto> sint (close_cnt x)) else map_of ?T)"
    using c(3) by (auto simp: map_add_def fun_eq_iff split: option.splits)
  obtain cnt where cnt: "map_of (tables (view d')) ?r = Some cnt"
    "word_of_int cnt = (case map_of ?T ?r of None \<Rightarrow> close_cnt x | Some c \<Rightarrow> word_of_int c)"
    using m by (cases "map_of ?T ?r") (auto simp: of_int_sint)
  obtain p'' d'' where "pcu_relay_cnt_dao_get_by_relay_id api mem (Some dao) (relay_id x) (Some y) (Some p') d' =
      Some (1, Some (y\<lparr>relay_id := relay_id x, close_cnt := word_of_int cnt\<rparr>), Some p'', d'')" "ready view p'' d''"
    using get_by_id_runs [OF assms(1,2) c(2), of "relay_id x" y] rows_of_key [OF uniq, of ?r] cnt(1) assms(4)
    by (auto simp: pcu_relay_cnt_dao_get_by_relay_id_def)
  then show ?thesis using c(1,2,4) m uniq cnt(2) c(3) by (cases "map_of ?T ?r") auto
qed

text \<open>
  Updating a relay counter. On a table with unique relay identifiers the update returns 1 and sets the counter
  of an existing identifier, or returns 0 and changes nothing; identifiers stay unique. Deleting removes the rows
  of the identifier, read as a signed 32-bit number, and nothing else.
\<close>

theorem relay_update_delete:
  assumes "sql_engine api view relay_sem relay_np" and "good_mem (\<lambda>p. mem (Some p))" and "ready view p d"
    and "dao_ps dao \<noteq> None" and "distinct (map fst (tables (view d)))"
  shows "(\<exists>n p' d'. pcu_relay_cnt_dao_update_by_relay_id api mem (Some dao) r (Some x) (Some p) d = Some (n, Some p', d') \<and> ready view p' d' \<and>
       distinct (map fst (tables (view d'))) \<and>
       (case map_of (tables (view d)) (uint r) of
          None \<Rightarrow> n = 0 \<and> tables (view d') = tables (view d)
        | Some _ \<Rightarrow> n = 1 \<and> map_of (tables (view d')) = (map_of (tables (view d)))(uint r \<mapsto> sint (close_cnt x)))) \<and>
     (\<exists>n p' d'. pcu_relay_cnt_dao_delete_by_relay_id api mem (Some dao) r (Some p) d = Some (n, Some p', d') \<and> ready view p' d' \<and>
       tables (view d') = filter (\<lambda>y. fst y \<noteq> sint r) (tables (view d)))"
proof (rule conjI)
  let ?T = "tables (view d)"
  obtain p' d' where u: "dao_template_update api (mem (Some p)) (Some p) (Some SQL_UPDATE_BY_RELAY_ID) (Some (update_bind_cb api r x)) d =
       Some (sint (word_of_int (int (length (filter (\<lambda>y. fst y = uint r) ?T))) :: int32), (), Some p', d')" "ready view p' d'"
     "tables (view d') = set_cnt (uint r) (sint (close_cnt x)) ?T"
    using update_runs [OF assms(1-3)] by blast
  have same: "set_cnt (uint r) c ?T = ?T" if "map_of ?T (uint r) = None" for c
    unfolding set_cnt_def using that by (intro map_idI) (metis map_of_eq_None_iff image_eqI)
  show "\<exists>n p' d'. pcu_relay_cnt_dao_update_by_relay_id api mem (Some dao) r (Some x) (Some p) d = Some (n, Some p', d') \<and> ready view p' d' \<and>
       distinct (map fst (tables (view d'))) \<and>
       (case map_of ?T (uint r) of
          None \<Rightarrow> n = 0 \<and> tables (view d') = ?T
        | Some _ \<Rightarrow> n = 1 \<and> map_of (tables (view d')) = (map_of ?T)(uint r \<mapsto> sint (close_cnt x)))"
    using u assms(4,5) rows_of_key [OF assms(5), of "uint r"] same [of "sint (close_cnt x)"]
      set_cnt_map [of "uint r" "sint (close_cnt x)" ?T] map_of_SomeD [of ?T "uint r"]
    by (cases "map_of ?T (uint r)") (force simp: pcu_relay_cnt_dao_update_by_relay_id_def)+
  show "\<exists>n p' d'. pcu_relay_cnt_dao_delete_by_relay_id api mem (Some dao) r (Some p) d = Some (n, Some p', d') \<and> ready view p' d' \<and>
       tables (view d') = filter (\<lambda>y. fst y \<noteq> sint r) ?T"
    using delete_runs [OF assms(1-3), of r] assms(4) by (auto simp: pcu_relay_cnt_dao_delete_by_relay_id_def)
qed

subsection \<open>Instances\<close>

definition sample_dao :: pcu_relay_cnt_dao_t where
  "sample_dao = \<lparr>rp = \<lparr>policy = None, policy_func = Some Always\<rparr>, dao_ps = Some 0\<rparr>"

abbreviation relay_engine :: "(int \<times> int) list sql_view sqlite3" where
  "relay_engine \<equiv> view_engine relay_sem"

theorem relay_create_get_witness:
  "\<exists>p' d' res p'' d''.
     pcu_relay_cnt_dao_create relay_engine (\<lambda>ps. fresh_mem (the ps)) (Some sample_dao) (Some (relay_rec 1 427 20)) (Some fresh_ps) (fresh_view [(411, 9)]) =
       Some (1, Some p', d') \<and>
     pcu_relay_cnt_dao_get_by_relay_id relay_engine (\<lambda>ps. fresh_mem (the ps)) (Some sample_dao) 427 (Some (relay_rec 0 0 0)) (Some p') d' =
       Some (1, Some res, Some p'', d'') \<and> close_cnt res = 20"
proof -
  have "dao_ps sample_dao \<noteq> None" "distinct (map fst (tables (fresh_view [(411 :: int, 9 :: int)])))" by (simp_all add: sample_dao_def)
  then show ?thesis
    using relay_create_get [OF view_engine_laws, of "\<lambda>ps. fresh_mem (the ps)" fresh_ps "fresh_view [(411, 9)]" sample_dao "relay_rec 1 427 20" "relay_rec 0 0 0"]
    by (auto simp: fresh_mem_good fresh_ready)
qed

theorem relay_update_delete_witness:
  "\<exists>p' d'. pcu_relay_cnt_dao_update_by_relay_id relay_engine (\<lambda>ps. fresh_mem (the ps)) (Some sample_dao) 411 (Some (relay_rec 1 427 20)) (Some fresh_ps)
     (fresh_view [(411, 9)]) = Some (1, Some p', d') \<and> map_of (tables d') 411 = Some 20"
proof -
  have "dao_ps sample_dao \<noteq> None" "distinct (map fst (tables (fresh_view [(411 :: int, 9 :: int)])))" by (simp_all add: sample_dao_def)
  then show ?thesis
    using relay_update_delete [OF view_engine_laws, of "\<lambda>ps. fresh_mem (the ps)" fresh_ps "fresh_view [(411, 9)]" sample_dao 411 "relay_rec 1 427 20"]
    by (auto simp: fresh_mem_good fresh_ready)
qed

end
