(* ===== verification/Dal.thy ===== *)
theory Dal
  imports Relay_Dao
begin

text \<open>
  The schema and the data access layer: \<^verbatim>\<open>src/src/database/dao/sqlite_master/sqlite_master_dao.c\<close>,
  \<^verbatim>\<open>dao/create_database.c\<close>, \<^verbatim>\<open>model/table.c\<close>, \<^verbatim>\<open>dao/dsn.c\<close> and \<^verbatim>\<open>dal.c\<close>. There is one data source, so every array over
  the data sources has one element. Opening the connection and the event loop are outcomes given to the
  operations; the loop's thread is not modelled.
\<close>

subsection \<open>The system table\<close>

record sqlite_master_dao_t =
  sm_ps :: ptr

text \<open>The word \<open>table\<close> stands between apostrophes (character 27 hexadecimal).\<close>

definition COUNT_BY_NAME :: string where
  "COUNT_BY_NAME =
     ''select count(*) from sqlite_master where type='' @ [CHR 0x27] @ ''table'' @ [CHR 0x27] @ '' and name=?''"

definition new_sqlite_master_dao :: "sqlite_master_dao_t option \<Rightarrow> ptr \<Rightarrow> bool \<times> sqlite_master_dao_t option" where
  "new_sqlite_master_dao dao ps =
     (case dao of None \<Rightarrow> (False, None) | Some x \<Rightarrow> if ps = None then (False, dao) else (True, Some (x\<lparr>sm_ps := ps\<rparr>)))"

definition delete_sqlite_master_dao :: "sqlite_master_dao_t option \<Rightarrow> sqlite_master_dao_t option" where
  "delete_sqlite_master_dao dao = (case dao of None \<Rightarrow> None | Some x \<Rightarrow> Some (x\<lparr>sm_ps := None\<rparr>))"

definition count_by_name_bind_cb :: "'d sqlite3 \<Rightarrow> string \<Rightarrow> stmt \<Rightarrow> 'd \<Rightarrow> 'd" where
  "count_by_name_bind_cb api name st d = snd (bind api st 1 (Text name) d)"

definition count_by_name_unmarshal_cb :: "'d sqlite3 \<Rightarrow> stmt \<Rightarrow> 'd \<Rightarrow> int32 \<Rightarrow> int32" where
  "count_by_name_unmarshal_cb api st d c = column_int api st 0 d"

definition sqlite_master_dao_count_by_name ::
  "'d sqlite3 \<Rightarrow> (prepared_stmt_t option \<Rightarrow> lru_alloc) \<Rightarrow> sqlite_master_dao_t option \<Rightarrow> string option \<Rightarrow> int32 option \<Rightarrow>
   prepared_stmt_t option \<Rightarrow> 'd \<Rightarrow> (int \<times> int32 option \<times> prepared_stmt_t option \<times> 'd) option" where
  "sqlite_master_dao_count_by_name api mem dao name cnt ps d =
     (case (dao, name, cnt) of
        (Some x, Some n, Some _) \<Rightarrow>
          if sm_ps x = None then Some (- 1, cnt, ps, d)
          else dao_template_get api (mem ps) ps (Some COUNT_BY_NAME) (Some (count_by_name_bind_cb api n))
                 (Some (count_by_name_unmarshal_cb api)) cnt d
      | _ \<Rightarrow> Some (- 1, cnt, ps, d))"

subsection \<open>Tables\<close>

record table_t =
  table_name :: string
  table_dsn :: db_dsn_e
  create_table_stmt :: string

definition table_pcu_relay_cnt :: table_t where
  "table_pcu_relay_cnt =
     \<lparr>table_name = ''pcu_relay_cnt'', table_dsn = DSN_MAIN,
      create_table_stmt =
        ''CREATE TABLE IF NOT EXISTS pcu_relay_cnt ('' @ ''id INTEGER PRIMARY KEY AUTOINCREMENT,'' @ ''relay_id INTEGER,'' @
        ''close_cnt INTEGER'' @ '');''\<rparr>"

definition get_tables :: "table_t list" where
  "get_tables = [table_pcu_relay_cnt]"

text \<open>Reading the handle through a NULL statement cache has no result.\<close>

definition create_table ::
  "'d sqlite3 \<Rightarrow> (prepared_stmt_t option \<Rightarrow> lru_alloc) \<Rightarrow> sqlite_master_dao_t \<Rightarrow> table_t \<Rightarrow> prepared_stmt_t option \<Rightarrow> 'd \<Rightarrow>
   (bool \<times> prepared_stmt_t option \<times> 'd) option" where
  "create_table api mem dao table ps d =
     (case sqlite_master_dao_count_by_name api mem (Some dao) (Some (table_name table)) (Some 0) ps d of
        None \<Rightarrow> None
      | Some (line_num, cnt, ps1, d1) \<Rightarrow>
          if line_num \<noteq> 1 then Some (False, ps1, d1)
          else if 0 < sint (the cnt) then Some (True, ps1, d1)
          else
            (case ps1 of
               None \<Rightarrow> None
             | Some p \<Rightarrow>
                 (case exec api (create_table_stmt table) (dao_begin api (db p) d1) of
                    (rc, d2) \<Rightarrow>
                      if rc \<noteq> SQLITE_OK then Some (False, ps1, dao_rollback api (db p) d2)
                      else Some (True, ps1, dao_commit api (db p) d2))))"

fun create_tables ::
  "'d sqlite3 \<Rightarrow> (prepared_stmt_t option \<Rightarrow> lru_alloc) \<Rightarrow> sqlite_master_dao_t \<Rightarrow> table_t list \<Rightarrow> prepared_stmt_t option \<Rightarrow> 'd \<Rightarrow>
   (prepared_stmt_t option \<times> 'd) option" where
  "create_tables api mem dao [] ps d = Some (ps, d)"
| "create_tables api mem dao (t # ts) ps d =
     (case ps of
        None \<Rightarrow> None
      | Some p \<Rightarrow>
          if table_dsn t = dsn p then
            (case create_table api mem dao t ps d of
               None \<Rightarrow> None
             | Some (_, ps1, d1) \<Rightarrow> create_tables api mem dao ts ps1 d1)
          else create_tables api mem dao ts ps d)"

definition create_database ::
  "'d sqlite3 \<Rightarrow> (prepared_stmt_t option \<Rightarrow> lru_alloc) \<Rightarrow> sqlite_master_dao_t option \<Rightarrow> table_t list option \<Rightarrow> prepared_stmt_t option \<Rightarrow> 'd \<Rightarrow>
   (bool \<times> prepared_stmt_t option \<times> 'd) option" where
  "create_database api mem dao ts ps d =
     (case (ts, dao) of
        (Some ts, Some x) \<Rightarrow> map_option (\<lambda>(ps1, d1). (True, ps1, d1)) (create_tables api mem x ts ps d)
      | _ \<Rightarrow> Some (False, ps, d))"

subsection \<open>The layer\<close>

definition dsn_to_string :: "db_dsn_e \<Rightarrow> string" where
  "dsn_to_string n = (case n of DSN_MAIN \<Rightarrow> ''../../db/main.db'')"

record dal_t =
  pstmts :: prepared_stmt_t
  sqlite_master_dao_array :: sqlite_master_dao_t
  dao :: dao_t
  deleter :: dao_deleter_t
  loop :: ptr

text \<open>\<open>handle\<close> is the opened connection, \<^const>\<open>None\<close> when opening fails; \<open>blk\<close> is the block for the cache.\<close>

definition init_pstmts :: "ptr \<Rightarrow> lru_cache_t option \<Rightarrow> prepared_stmt_t \<Rightarrow> prepared_stmt_t" where
  "init_pstmts handle blk p =
     (case handle of None \<Rightarrow> p | Some _ \<Rightarrow> the (snd (new_prepared_stmt blk (Some p) handle DSN_MAIN)))"

definition new_dal ::
  "'d sqlite3 \<Rightarrow> (prepared_stmt_t option \<Rightarrow> lru_alloc) \<Rightarrow> ptr \<Rightarrow> lru_cache_t option \<Rightarrow> ptr \<Rightarrow> dal_t option \<Rightarrow> 'd \<Rightarrow>
   (bool \<times> dal_t option \<times> 'd) option" where
  "new_dal api mem handle blk hloop dal d =
     (case dal of
        None \<Rightarrow> Some (False, None, d)
      | Some x \<Rightarrow>
          (let p = init_pstmts handle blk (pstmts x);
               m = the (snd (new_sqlite_master_dao (Some (sqlite_master_dao_array x)) (Some 0)))
           in case create_database api mem (Some m) (Some get_tables) (Some p) d of
                Some (_, Some p1, d1) \<Rightarrow>
                  (let da = the (snd (new_dao (Some (dao x)) (Some 0) hloop));
                       de = the (snd (new_dao_deleter (Some (deleter x)) hloop (Some (new_retention_policy_array da))))
                   in Some (True, Some \<lparr>pstmts = p1, sqlite_master_dao_array = m, dao = da, deleter = de, loop = hloop\<rparr>, d1))
              | _ \<Rightarrow> None))"

definition delete_dal :: "'d sqlite3 \<Rightarrow> dal_t option \<Rightarrow> 'd \<Rightarrow> (dal_t option \<times> 'd) option" where
  "delete_dal api dal d =
     (case dal of
        None \<Rightarrow> Some (None, d)
      | Some x \<Rightarrow>
          (let de = the (delete_dao_deleter (Some (deleter x)));
               da = the (delete_dao (Some (dao x)));
               m = the (delete_sqlite_master_dao (Some (sqlite_master_dao_array x)))
           in case delete_prepared_stmt api (Some (pstmts x)) d of
                Some (Some p, d1) \<Rightarrow>
                  map_option (\<lambda>d2. (Some (x\<lparr>deleter := de, dao := da, sqlite_master_dao_array := m, pstmts := p\<rparr>), d2))
                    (dao_close api (db (pstmts x)) d1)
              | _ \<Rightarrow> None))"

subsection \<open>Creating the schema\<close>

text \<open>
  The meaning of the count, on the list of the names of the tables, and what executing the statements of
  \<^verbatim>\<open>create_table\<close> does to the view: transaction control does not show, and a create statement for a table
  that does not exist adds its name.
\<close>

definition schema_sem :: "string list sql_sem" where
  "schema_sem k f names =
     (if k = COUNT_BY_NAME then
        (case f 1 of Some (Text n) \<Rightarrow> ([[int (length (filter (\<lambda>x. x = n) names))]], names, None) | _ \<Rightarrow> ([[0]], names, None))
      else ([], names, None))"

definition schema_np :: "string \<rightharpoonup> nat" where
  "schema_np = [COUNT_BY_NAME \<mapsto> 1]"

definition ddl_engine :: "'d sqlite3 \<Rightarrow> ('d \<Rightarrow> string list sql_view) \<Rightarrow> table_t list \<Rightarrow> bool" where
  "ddl_engine api view ts \<longleftrightarrow>
     (\<forall>k d. k \<in> {''BEGIN TRANSACTION'', ''COMMIT'', ''ROLLBACK''} \<longrightarrow> view (snd (exec api k d)) = view d) \<and>
     (\<forall>t d. t \<in> set ts \<longrightarrow> table_name t \<notin> set (tables (view d)) \<longrightarrow>
        fst (exec api (create_table_stmt t) d) = SQLITE_OK \<and>
        view (snd (exec api (create_table_stmt t) d)) = (view d)\<lparr>tables := tables (view d) @ [table_name t]\<rparr>)"

lemma count_runs:
  assumes eng: "sql_engine api view schema_sem schema_np" and mem: "good_mem (\<lambda>p. mem (Some p))" and rd: "ready view p d"
    and "sm_ps m \<noteq> None"
  shows "\<exists>p' d'. sqlite_master_dao_count_by_name api mem (Some m) (Some n) (Some c) (Some p) d =
       Some (1, Some (word_of_int (int (length (filter (\<lambda>x. x = n) (tables (view d)))))), Some p', d') \<and>
     ready view p' d' \<and> tables (view d') = tables (view d)"
proof -
  let ?res = "[[int (length (filter (\<lambda>x. x = n) (tables (view d))))]]"
  have "\<exists>p' d'. with_stmt api (mem (Some p)) (Some p) (Some COUNT_BY_NAME)
        (\<lambda>st d1. step_rows api st (count_by_name_unmarshal_cb api) 0 c (apply_cb (Some (count_by_name_bind_cb api n)) st d1)) c d =
      Some (int (length ?res), fold (\<lambda>r _. word_of_int (r ! 0)) ?res c, Some p', d') \<and> ready view p' d' \<and> tables (view d') = tables (view d)"
    by (rule get_runs [OF eng mem rd, where m = 1 and bs = "[(1, Text n)]"])
      (simp_all add: schema_np_def schema_sem_def apply_cb_def bind_all_def count_by_name_bind_cb_def count_by_name_unmarshal_cb_def
        sql_engineD(8) [OF eng])
  then show ?thesis using assms(4) by (auto simp: sqlite_master_dao_count_by_name_def dao_template_get_def)
qed

lemma ready_tables: "ready view p d \<Longrightarrow> view d' = (view d)\<lparr>tables := x\<rparr> \<Longrightarrow> ready view p d'"
  by (simp add: ready_def stmts_ok_def live_def)

lemma create_table_runs:
  assumes eng: "sql_engine api view schema_sem schema_np" and mem: "good_mem (\<lambda>p. mem (Some p))" and rd: "ready view p d"
    and ddl: "ddl_engine api view ts" and t: "t \<in> set ts" and m: "sm_ps m \<noteq> None" and len: "int (length (tables (view d))) < 2 ^ 31"
  shows "\<exists>p' d'. create_table api mem m t (Some p) d = Some (True, Some p', d') \<and> ready view p' d' \<and>
     tables (view d') = (if table_name t \<in> set (tables (view d)) then tables (view d) else tables (view d) @ [table_name t])"
proof -
  let ?T = "tables (view d)" and ?n = "table_name t"
  let ?c = "length (filter (\<lambda>x. x = ?n) ?T)"
  obtain p1 d1 where c: "sqlite_master_dao_count_by_name api mem (Some m) (Some ?n) (Some 0) (Some p) d =
      Some (1, Some (word_of_int (int ?c)), Some p1, d1)" "ready view p1 d1" "tables (view d1) = ?T"
    using count_runs [OF eng mem rd m] by blast
  have "int ?c < 2 ^ 31" using length_filter_le [of "\<lambda>x. x = ?n" ?T] len by linarith
  then have cnt: "sint (word_of_int (int ?c) :: int32) = int ?c" by (intro sint_eq_of_int_32) auto
  show ?thesis
  proof (cases "?n \<in> set ?T")
    case True
    then have "0 < ?c" by (metis (mono_tags, lifting) filter_empty_conv length_greater_0_conv)
    then show ?thesis using c cnt True by (simp add: create_table_def)
  next
    case False
    then have "?c = 0" by (auto simp: filter_empty_conv)
    have keep: "view (snd (exec api k d)) = view d" if "k \<in> {''BEGIN TRANSACTION'', ''COMMIT'', ''ROLLBACK''}" for k d
      using ddl that unfolding ddl_engine_def by blast
    let ?d2 = "dao_begin api (db p1) d1"
    have v2: "view ?d2 = view d1" by (simp add: dao_begin_def dao_commit_def keep split_beta)
    have "?n \<notin> set (tables (view ?d2))" using False c(3) v2 by simp
    then have ex: "fst (exec api (create_table_stmt t) ?d2) = SQLITE_OK"
      "view (snd (exec api (create_table_stmt t) ?d2)) = (view ?d2)\<lparr>tables := tables (view ?d2) @ [?n]\<rparr>"
      using ddl t unfolding ddl_engine_def by blast+
    let ?d3 = "dao_commit api (db p1) (snd (exec api (create_table_stmt t) ?d2))"
    have "view (dao_commit api x y) = view y" for x y by (simp add: dao_commit_def keep)
    then have v3: "view ?d3 = (view d1)\<lparr>tables := ?T @ [?n]\<rparr>" using ex(2) v2 c(3) by simp
    have "create_table api mem m t (Some p) d = Some (True, Some p1, ?d3)"
      using c(1) cnt \<open>?c = 0\<close> ex(1) by (simp add: create_table_def split_beta)
    moreover have "ready view p1 ?d3" by (rule ready_tables [OF c(2) v3])
    ultimately show ?thesis using v3 False by auto
  qed
qed

text \<open>
  Starting the data access layer. With an engine that gives the schema statements their meaning, opening
  and memory succeeding, \<^verbatim>\<open>new_dal\<close> returns true; the relay counter table exists afterwards, created exactly if it
  was missing, all other tables stay; the data access object points to a statement cache that is consistent and
  not locked, and the deleter holds the one policy, which keeps everything.
\<close>

theorem new_dal_creates_schema:
  assumes "sql_engine api view schema_sem schema_np" and "good_mem (\<lambda>p. mem (Some p))" and "ddl_engine api view get_tables"
    and "live (view d) = {}" and "int (length (tables (view d))) < 2 ^ 31"
  shows "\<exists>dal' d'. new_dal api mem (Some h) (Some blk) (Some l) (Some dal) d = Some (True, Some dal', d') \<and>
     tables (view d') = (if ''pcu_relay_cnt'' \<in> set (tables (view d)) then tables (view d) else tables (view d) @ [''pcu_relay_cnt'']) \<and>
     ready view (pstmts dal') d' \<and> dao_ps (pcu_relay_cnt_dao (dao dal')) \<noteq> None \<and>
     map_option (map policy_func) (rps (deleter dal')) = Some [Some Always]"
proof -
  let ?p = "init_pstmts (Some h) (Some blk) (pstmts dal)"
  let ?m = "the (snd (new_sqlite_master_dao (Some (sqlite_master_dao_array dal)) (Some 0)))"
  have "dl_list (lru_list (c\<lparr>lru_list := (lru_list blk)\<lparr>dl_head := None\<rparr>\<rparr>)) []" for c by (simp add: dl_list_def)
  then have inv: "ps_inv ?p []"
    by (simp add: init_pstmts_def new_prepared_stmt_def new_lru_cache_def ps_inv_def lru_inv_def entries_def MAX_KEY_NUM_def MAX_MEM_def)
  have p: "\<not> locked ?p" "db ?p = Some h" "dsn ?p = DSN_MAIN" "open_stmts ?p [] = []"
    by (simp_all add: init_pstmts_def new_prepared_stmt_def new_lru_cache_def open_stmts_def entries_def MAX_KEY_NUM_def MAX_MEM_def)
  have "stmts_ok (view d) (open_stmts ?p [])" using assms(4) p(4) by (simp add: stmts_ok_def)
  then have rd: "ready view ?p d" using inv p(1,2) unfolding ready_def by blast
  have m: "sm_ps ?m \<noteq> None" by (simp add: new_sqlite_master_dao_def)
  obtain p' d' where "create_table api mem ?m table_pcu_relay_cnt (Some ?p) d = Some (True, Some p', d')" "ready view p' d'"
    "tables (view d') = (if table_name table_pcu_relay_cnt \<in> set (tables (view d)) then tables (view d)
       else tables (view d) @ [table_name table_pcu_relay_cnt])"
    using create_table_runs [OF assms(1,2) rd assms(3) _ m assms(5), of table_pcu_relay_cnt] by (auto simp: get_tables_def)
  then show ?thesis
    using p(3) by (simp add: new_dal_def create_database_def get_tables_def Let_def new_dao_def new_dao_deleter_def
        new_pcu_relay_cnt_dao_def new_retention_policy_array_def new_retention_policy_always_def)
      (simp add: table_pcu_relay_cnt_def)
qed

definition schema_engine :: "string list sql_view sqlite3" where
  "schema_engine = (view_engine schema_sem)
     \<lparr>exec := \<lambda>k v. (0, if k = create_table_stmt table_pcu_relay_cnt then v\<lparr>tables := tables v @ [''pcu_relay_cnt'']\<rparr> else v)\<rparr>"

lemma sql_engine_exec: "sql_engine (api\<lparr>exec := e\<rparr>) view sem np = sql_engine api view sem np"
  by (simp add: sql_engine_def)

lemma schema_engine_laws: "sql_engine schema_engine (\<lambda>v. v) schema_sem schema_np" "ddl_engine schema_engine (\<lambda>v. v) get_tables"
proof -
  show "sql_engine schema_engine (\<lambda>v. v) schema_sem schema_np"
    using view_engine_laws [of schema_sem schema_np] by (simp add: schema_engine_def sql_engine_exec)
  show "ddl_engine schema_engine (\<lambda>v. v) get_tables"
    by (auto simp: ddl_engine_def schema_engine_def get_tables_def table_pcu_relay_cnt_def)
qed

definition blank_dal :: dal_t where
  "blank_dal = \<lparr>pstmts = fresh_ps, sqlite_master_dao_array = \<lparr>sm_ps = None\<rparr>,
     dao = \<lparr>pcu_relay_cnt_dao = sample_dao\<lparr>dao_ps := None\<rparr>\<rparr>, deleter = \<lparr>rps = None, dl_loop = None\<rparr>, loop = None\<rparr>"

theorem new_dal_creates_schema_witness:
  "\<exists>dal' d'. new_dal schema_engine (\<lambda>ps. fresh_mem (the ps)) (Some 7) (Some sample_cache) (Some 9) (Some blank_dal) (fresh_view [''x'']) =
     Some (True, Some dal', d') \<and> tables d' = [''x'', ''pcu_relay_cnt'']"
  using new_dal_creates_schema [OF schema_engine_laws(1) _ schema_engine_laws(2), of "\<lambda>ps. fresh_mem (the ps)" "fresh_view [''x'']"
      7 sample_cache 9 blank_dal]
  by (auto simp: fresh_mem_good fresh_view_def live_def)

end
