(* ===== verification/Fcgi.thy ===== *)
theory Fcgi
  imports Api_Code Dal
begin

text \<open>
  The web interface: \<^verbatim>\<open>src/src/fcgi/controller/relay_cnt.c\<close> and \<^verbatim>\<open>src/src/fcgi/fcgi.c\<close>. The FastCGI library and the two JSON libraries are parameters: reading
  the body, parsing, and printing the answer of a query. Reading through a NULL pointer ends the process; it is the fault
  \<open>NullDereference\<close>. \<open>None\<close> stands for a call that does not return.
\<close>

subsection \<open>The relay counter handlers\<close>

text \<open>What the handlers call, and the state they change: the table of counters in memory and the database.\<close>

record ('d, 'f) web_env =
  w_api :: "'d sqlite3"
  w_mem :: "prepared_stmt_t option \<Rightarrow> lru_alloc"
  w_dao :: dao_t
  w_tree :: "'f cjson_tree"
  w_parse :: "string \<Rightarrow> 'f cJSON option"
  w_get_str :: "nat \<Rightarrow> string \<Rightarrow> int \<times> string"
  w_struct2str :: "pcu_relay_cnt_t list \<Rightarrow> int \<times> string"

record 'd web_state =
  relay_arr :: "pcu_relay_cnt_t list"
  w_ps :: "prepared_stmt_t option"
  w_db :: 'd

datatype fault = NullDereference

abbreviation answer :: "api_code_e \<Rightarrow> string option \<Rightarrow> fcgx_request \<Rightarrow> fcgx_request" where
  "answer c data r \<equiv> the (api_print (Some r) (api_num c) data)"

definition query_relay_cnt :: "('d, 'f) web_env \<Rightarrow> fcgx_request \<Rightarrow> 'd web_state \<Rightarrow> fcgx_request" where
  "query_relay_cnt env req st =
     (case w_struct2str env (take 6 (relay_arr st)) of
        (ret, json_str) \<Rightarrow> if ret \<noteq> 0 then answer (api_code_from_cjsonx ret) None req else answer API_ERR_OK (Some json_str) req)"

text \<open>Reading a field through the pointer that the lookup returns.\<close>

definition field_int :: "'f cjson_tree \<Rightarrow> 'f cJSON option \<Rightarrow> string \<Rightarrow> fault + int32" where
  "field_int lib v k =
     (case v of
        None \<Rightarrow> Inl NullDereference
      | Some v \<Rightarrow> (case get_ci lib v k of None \<Rightarrow> Inl NullDereference | Some i \<Rightarrow> Inr (jint (jchild v ! i))))"

definition read_entry :: "'f cjson_tree \<Rightarrow> 'f cJSON \<Rightarrow> nat \<Rightarrow> fault + pcu_relay_cnt_t" where
  "read_entry lib list_array i =
     (let v = map_option ((!) (jchild list_array)) (array_item lib list_array (int i))
      in case field_int lib v ''id'' of
           Inl e \<Rightarrow> Inl e
         | Inr n \<Rightarrow>
             (case field_int lib v ''relay_id'' of
                Inl e \<Rightarrow> Inl e
              | Inr r \<Rightarrow> (case field_int lib v ''close_cnt'' of Inl e \<Rightarrow> Inl e | Inr c \<Rightarrow> Inr (relay_rec n r c))))"

fun read_entries :: "'f cjson_tree \<Rightarrow> 'f cJSON \<Rightarrow> nat list \<Rightarrow> fault + pcu_relay_cnt_t list" where
  "read_entries lib list_array [] = Inr []"
| "read_entries lib list_array (i # is) =
     (case read_entry lib list_array i of
        Inl e \<Rightarrow> Inl e
      | Inr x \<Rightarrow> (case read_entries lib list_array is of Inl e \<Rightarrow> Inl e | Inr xs \<Rightarrow> Inr (x # xs)))"

fun store_entries :: "('d, 'f) web_env \<Rightarrow> nat \<Rightarrow> pcu_relay_cnt_t list \<Rightarrow> 'd web_state \<Rightarrow> 'd web_state option" where
  "store_entries env i [] st = Some st"
| "store_entries env i (x # xs) st =
     (case pcu_relay_cnt_dao_update_by_relay_id (w_api env) (w_mem env) (Some (pcu_relay_cnt_dao (w_dao env))) (relay_id x) (Some x)
             (w_ps st) (w_db st) of
        None \<Rightarrow> None
      | Some (_, ps, d) \<Rightarrow> store_entries env (Suc i) xs (st\<lparr>relay_arr := (relay_arr st)[i := x], w_ps := ps, w_db := d\<rparr>))"

definition JSON_STR_SIZE :: nat where "JSON_STR_SIZE = 2048"

text \<open>What the handler finds in the body: a reason to reject it, a fault, or the six entries.\<close>

datatype body_result = Reject string | Fault fault | Entries "pcu_relay_cnt_t list"

definition parse_body :: "('d, 'f) web_env \<Rightarrow> fcgx_request \<Rightarrow> body_result" where
  "parse_body env req =
     (case w_get_str env (JSON_STR_SIZE - 1) (body req) of
        (len, bytes) \<Rightarrow>
          if len < 0 then Reject ''Failed to read input''
          else
            (case w_parse env (takeWhile (\<lambda>c. c \<noteq> CHR 0x00) (take (nat len) bytes)) of
               None \<Rightarrow> Reject ''Failed to parse JSON''
             | Some rt \<Rightarrow>
                 (case get_cs (w_tree env) rt ''data'' of
                    None \<Rightarrow> Reject (''Missing '' @ [CHR 0x27] @ ''data'' @ [CHR 0x27] @ '' field in JSON'')
                  | Some i \<Rightarrow>
                      (let data_obj = jchild rt ! i;
                           list_ptr = map_option ((!) (jchild data_obj)) (get_cs (w_tree env) data_obj ''list'')
                       in if \<not> is_array (w_tree env) list_ptr then
                            Reject (''Invalid '' @ [CHR 0x27] @ ''list'' @ [CHR 0x27] @ '' field in JSON'')
                          else if array_size (w_tree env) (the list_ptr) \<noteq> 6 then Reject ''Relay count must be exactly 6 items''
                          else
                            (case read_entries (w_tree env) (the list_ptr) [0..<6] of Inl e \<Rightarrow> Fault e | Inr xs \<Rightarrow> Entries xs)))))"

definition success_data :: string where
  "success_data = ''{'' @ quoted ''status'' @ '': '' @ quoted ''success'' @ ''}''"

definition set_relay_cnt :: "('d, 'f) web_env \<Rightarrow> fcgx_request \<Rightarrow> 'd web_state \<Rightarrow> (fault + fcgx_request \<times> 'd web_state) option" where
  "set_relay_cnt env req st =
     (case parse_body env req of
        Reject msg \<Rightarrow> Some (Inr (answer API_ERR_JSON_TYPE (Some msg) req, st))
      | Fault e \<Rightarrow> Some (Inl e)
      | Entries xs \<Rightarrow> map_option (\<lambda>st'. Inr (answer API_ERR_OK (Some success_data) req, st')) (store_entries env 0 xs st))"

subsection \<open>Routing\<close>

datatype http_method = METHOD_ERR | METHOD_GET | METHOD_POST

datatype handler = Query_relay_cnt | Set_relay_cnt

record api_router_t =
  rt_path :: string
  rt_func :: handler

record api_router_group_t =
  gr_router :: "api_router_t list"
  gr_method :: http_method

definition router_group :: "api_router_group_t list" where
  "router_group =
     [\<lparr>gr_router = [\<lparr>rt_path = ''/relay_cnt'', rt_func = Query_relay_cnt\<rparr>], gr_method = METHOD_GET\<rparr>,
      \<lparr>gr_router = [\<lparr>rt_path = ''/relay_cnt'', rt_func = Set_relay_cnt\<rparr>], gr_method = METHOD_POST\<rparr>]"

definition method_string_to_enum :: "string option \<Rightarrow> http_method" where
  "method_string_to_enum str =
     (case str of None \<Rightarrow> METHOD_ERR
      | Some s \<Rightarrow> if s = ''GET'' then METHOD_GET else if s = ''POST'' then METHOD_POST else METHOD_ERR)"

fun find_in_groups :: "api_router_group_t list \<Rightarrow> http_method \<Rightarrow> string \<Rightarrow> api_router_t option" where
  "find_in_groups [] mt path_info = None"
| "find_in_groups (g # gs) mt path_info =
     (if mt = gr_method g then
        (case find (\<lambda>r. rt_path r = path_info) (gr_router g) of None \<Rightarrow> find_in_groups gs mt path_info | Some r \<Rightarrow> Some r)
      else find_in_groups gs mt path_info)"

definition find_router :: "http_method \<Rightarrow> string \<Rightarrow> api_router_t option" where
  "find_router mt path_info = find_in_groups router_group mt path_info"

text \<open>One round of the loop of \<^verbatim>\<open>fcgi_main\<close>, and the loop over the requests that are accepted.\<close>

definition serve :: "('d, 'f) web_env \<Rightarrow> fcgx_request \<Rightarrow> 'd web_state \<Rightarrow> (fault + fcgx_request \<times> 'd web_state) option" where
  "serve env req st =
     (let mt = method_string_to_enum (envp req ''REQUEST_METHOD'')
      in if mt = METHOD_ERR then Some (Inr (answer API_ERR_METHOD None req, st))
         else
           (case envp req ''PATH_INFO'' of
              None \<Rightarrow> Some (Inr (answer API_ERR_URI None req, st))
            | Some path_info \<Rightarrow>
                (case find_router mt path_info of
                   None \<Rightarrow> Some (Inr (answer API_ERR_URI None req, st))
                 | Some router \<Rightarrow>
                     (case rt_func router of
                        Query_relay_cnt \<Rightarrow> Some (Inr (query_relay_cnt env req st, st))
                      | Set_relay_cnt \<Rightarrow> set_relay_cnt env req st))))"

fun fcgi_main :: "('d, 'f) web_env \<Rightarrow> fcgx_request list \<Rightarrow> 'd web_state \<Rightarrow> (fault + fcgx_request list \<times> 'd web_state) option" where
  "fcgi_main env [] st = Some (Inr ([], st))"
| "fcgi_main env (req # reqs) st =
     (case serve env req st of
        None \<Rightarrow> None
      | Some (Inl e) \<Rightarrow> Some (Inl e)
      | Some (Inr (r, st1)) \<Rightarrow>
          (case fcgi_main env reqs st1 of
             None \<Rightarrow> None
           | Some (Inl e) \<Rightarrow> Some (Inl e)
           | Some (Inr (rs, st2)) \<Rightarrow> Some (Inr (r # rs, st2))))"

subsection \<open>The handlers return\<close>

text \<open>The engine gives the relay statements their meaning, and the statement cache is consistent and not locked.\<close>

definition web_ok :: "('d, 'f) web_env \<Rightarrow> ('d \<Rightarrow> (int \<times> int) list sql_view) \<Rightarrow> 'd web_state \<Rightarrow> bool" where
  "web_ok env view st \<longleftrightarrow>
     sql_engine (w_api env) view relay_sem relay_np \<and> good_mem (\<lambda>p. w_mem env (Some p)) \<and>
     dao_ps (pcu_relay_cnt_dao (w_dao env)) \<noteq> None \<and>
     (case w_ps st of None \<Rightarrow> False | Some p \<Rightarrow> ready view p (w_db st))"

abbreviation rows :: "('d \<Rightarrow> (int \<times> int) list sql_view) \<Rightarrow> 'd web_state \<Rightarrow> (int \<times> int) list" where
  "rows view st \<equiv> tables (view (w_db st))"

definition set_cnts :: "pcu_relay_cnt_t list \<Rightarrow> (int \<times> int) list \<Rightarrow> (int \<times> int) list" where
  "set_cnts xs = fold (\<lambda>x. set_cnt (uint (relay_id x)) (sint (close_cnt x))) xs"

lemma set_cnts_ids [simp]: "map fst (set_cnts xs t) = map fst t"
  by (induction xs arbitrary: t) (simp_all add: set_cnts_def set_cnt_map)

lemma store_entries_runs:
  assumes "web_ok env view st" and "i + length xs \<le> length (relay_arr st)"
  shows "\<exists>st'. store_entries env i xs st = Some st' \<and> web_ok env view st' \<and> rows view st' = set_cnts xs (rows view st) \<and>
     relay_arr st' = take i (relay_arr st) @ xs @ drop (i + length xs) (relay_arr st)"
  using assms
proof (induction xs arbitrary: i st)
  case Nil
  then show ?case by (simp add: set_cnts_def)
next
  case (Cons x xs)
  obtain p where p: "w_ps st = Some p" "ready view p (w_db st)" using Cons.prems(1) by (auto simp: web_ok_def split: option.splits)
  have env: "sql_engine (w_api env) view relay_sem relay_np" "good_mem (\<lambda>p. w_mem env (Some p))"
    "dao_ps (pcu_relay_cnt_dao (w_dao env)) \<noteq> None" using Cons.prems(1) by (simp_all add: web_ok_def)
  obtain n p' d' where u: "pcu_relay_cnt_dao_update_by_relay_id (w_api env) (w_mem env) (Some (pcu_relay_cnt_dao (w_dao env))) (relay_id x) (Some x)
      (Some p) (w_db st) = Some (n, Some p', d')" "ready view p' d'"
    "tables (view d') = set_cnt (uint (relay_id x)) (sint (close_cnt x)) (rows view st)"
    using update_runs [OF env(1,2) p(2), of "relay_id x" x] env(3) by (auto simp: pcu_relay_cnt_dao_update_by_relay_id_def)
  let ?st1 = "st\<lparr>relay_arr := (relay_arr st)[i := x], w_ps := Some p', w_db := d'\<rparr>"
  have ok1: "web_ok env view ?st1" using env u(2) by (simp add: web_ok_def)
  have "Suc i + length xs \<le> length (relay_arr ?st1)" using Cons.prems(2) by simp
  then obtain st' where st': "store_entries env (Suc i) xs ?st1 = Some st'" "web_ok env view st'" "rows view st' = set_cnts xs (rows view ?st1)"
    "relay_arr st' = take (Suc i) (relay_arr ?st1) @ xs @ drop (Suc i + length xs) (relay_arr ?st1)"
    using Cons.IH [OF ok1] by blast
  have "take (Suc i) ((relay_arr st)[i := x]) = take i (relay_arr st) @ [x]" using Cons.prems(2) by (simp add: take_Suc_conv_app_nth)
  then show ?case using st' u p(1) by (auto simp: set_cnts_def)
qed

lemma read_entries_length: "read_entries lib v is = Inr xs \<Longrightarrow> length xs = length is"
  by (induction "is" arbitrary: xs) (auto split: sum.splits)

lemma parse_body_six: "parse_body env req = Entries xs \<Longrightarrow> length xs = 6"
  using read_entries_length [of "w_tree env" _ "[0..<6]"]
  by (force simp: parse_body_def Let_def split: prod.splits if_splits option.splits sum.splits)

lemma answer_out: "answer c data req = req\<lparr>out := out req @ api_response (api_num c) data\<rparr>"
  by (simp add: api_print_def)

definition answered :: "fcgx_request \<Rightarrow> fcgx_request \<Rightarrow> bool" where
  "answered req r \<longleftrightarrow> (\<exists>c data. r = req\<lparr>out := out req @ api_response (api_num c) data\<rparr>)"

lemma answeredI [intro]: "answered req (answer c data req)"
  unfolding answered_def answer_out by blast

lemma query_answered: "answered req (query_relay_cnt env req st)"
  by (auto simp: query_relay_cnt_def split: prod.splits)

lemma serve_answers:
  assumes "web_ok env view st" and "length (relay_arr st) = 6" and "parse_body env req \<noteq> Fault NullDereference"
  shows "\<exists>r st'. serve env req st = Some (Inr (r, st')) \<and> answered req r \<and> web_ok env view st' \<and> length (relay_arr st') = 6 \<and>
     map fst (rows view st') = map fst (rows view st)"
proof -
  have set: "\<exists>r st'. set_relay_cnt env req st = Some (Inr (r, st')) \<and> answered req r \<and> web_ok env view st' \<and> length (relay_arr st') = 6 \<and>
      map fst (rows view st') = map fst (rows view st)"
  proof (cases "parse_body env req")
    case (Reject msg)
    then show ?thesis using assms(1,2) by (auto simp: set_relay_cnt_def)
  next
    case (Fault e)
    then show ?thesis using assms(3) by (cases e) simp
  next
    case (Entries xs)
    then obtain st' where "store_entries env 0 xs st = Some st'" "web_ok env view st'" "rows view st' = set_cnts xs (rows view st)"
      "relay_arr st' = xs @ drop (length xs) (relay_arr st)"
      using store_entries_runs [OF assms(1), of 0 xs] parse_body_six [OF Entries] assms(2) by auto
    then show ?thesis using Entries parse_body_six [OF Entries] assms(2) by (auto simp: set_relay_cnt_def)
  qed
  then show ?thesis
    using assms(1,2) query_answered [of req env st]
    by (auto simp: serve_def Let_def split: option.splits handler.splits intro: answeredI)
qed

text \<open>
  C17. Every request is answered. If no body lacks a field, \<^verbatim>\<open>fcgi_main\<close> serves any sequence of requests: each one gets
  exactly one response, with the result code of the table, after which the statement cache is consistent and not locked; the
  requests never add or remove a relay in the database.
\<close>

theorem fcgi_main_answers:
  assumes "web_ok env view st" and "length (relay_arr st) = 6"
    and "list_all (\<lambda>req. parse_body env req \<noteq> Fault NullDereference) reqs"
  shows "\<exists>rs st'. fcgi_main env reqs st = Some (Inr (rs, st')) \<and> list_all2 answered reqs rs \<and> web_ok env view st' \<and>
     length (relay_arr st') = 6 \<and> map fst (rows view st') = map fst (rows view st)"
  using assms
proof (induction reqs arbitrary: st)
  case (Cons req reqs)
  obtain r st1 where "serve env req st = Some (Inr (r, st1))" "answered req r" "web_ok env view st1" "length (relay_arr st1) = 6"
    "map fst (rows view st1) = map fst (rows view st)"
    using serve_answers [OF Cons.prems(1,2), of req] Cons.prems(3) by auto
  moreover from this obtain rs st' where "fcgi_main env reqs st1 = Some (Inr (rs, st'))" "list_all2 answered reqs rs" "web_ok env view st'"
    "length (relay_arr st') = 6" "map fst (rows view st') = map fst (rows view st1)"
    using Cons.IH [of st1] Cons.prems(3) by auto
  ultimately show ?case by auto
qed auto

subsection \<open>What a body means\<close>

text \<open>\<open>has_int v k n\<close>: the named children of \<open>v\<close> contain exactly one of the name \<open>k\<close>, up to case, with the number \<open>n\<close>.\<close>

definition has_int :: "'f cJSON \<Rightarrow> string \<Rightarrow> int32 \<Rightarrow> bool" where
  "has_int v k n \<longleftrightarrow> list_all (\<lambda>c. jkey c \<noteq> None) (jchild v) \<and>
     map jint (filter (\<lambda>c. map_option lower (jkey c) = Some (lower k)) (jchild v)) = [n]"

definition entry_of :: "'f cJSON \<Rightarrow> pcu_relay_cnt_t \<Rightarrow> bool" where
  "entry_of v x \<longleftrightarrow> has_int v ''id'' (cnt_id x) \<and> has_int v ''relay_id'' (relay_id x) \<and> has_int v ''close_cnt'' (close_cnt x)"

lemma field_int_found:
  assumes "read_ok lib" and "has_int v k n"
  shows "field_int lib (Some v) k = Inr n"
proof -
  let ?P = "\<lambda>c. map_option lower (jkey c) = Some (lower k)"
  obtain c where c: "filter ?P (jchild v) = [c]" "jint c = n" using assms(2) by (auto simp: has_int_def map_eq_Cons_conv)
  have "c \<in> set (filter ?P (jchild v))" unfolding c(1) by simp
  then have "Some (lower k) \<in> (\<lambda>c. map_option lower (jkey c)) ` set (jchild v)" by (auto intro: rev_image_eqI)
  then obtain i where i: "get_ci lib v k = Some i" using assms unfolding read_ok_def has_int_def by blast
  then have "i < length (jchild v)" "?P (jchild v ! i)" using assms(1) unfolding read_ok_def by blast+
  then have "jchild v ! i \<in> set (filter ?P (jchild v))" by simp
  then have "jchild v ! i = c" unfolding c(1) by simp
  then show ?thesis using i c(2) by (simp add: field_int_def)
qed

lemma read_entry_found:
  assumes "read_ok lib" and "i < length (jchild arr)" and "entry_of (jchild arr ! i) x"
  shows "read_entry lib arr i = Inr x"
proof -
  have "array_item lib arr (int i) = Some i" using assms(1,2) unfolding read_ok_def by blast
  moreover have "field_int lib (Some (jchild arr ! i)) ''id'' = Inr (cnt_id x)"
    "field_int lib (Some (jchild arr ! i)) ''relay_id'' = Inr (relay_id x)"
    "field_int lib (Some (jchild arr ! i)) ''close_cnt'' = Inr (close_cnt x)"
    using assms(3) by (auto simp: entry_of_def intro: field_int_found [OF assms(1)])
  ultimately show ?thesis by (simp add: read_entry_def Let_def relay_rec_def)
qed

lemma read_entries_found:
  assumes "read_ok lib" and "list_all2 entry_of (jchild arr) xs"
  shows "k + m = length xs \<Longrightarrow> read_entries lib arr [k..<k + m] = Inr (drop k xs)"
proof (induction m arbitrary: k)
  case (Suc m)
  have len: "length (jchild arr) = length xs" using assms(2) by (rule list_all2_lengthD)
  have "read_entry lib arr k = Inr (xs ! k)"
    using read_entry_found [OF assms(1)] list_all2_nthD [OF assms(2), of k] Suc.prems len by simp
  then show ?case using Suc.IH [of "Suc k"] Suc.prems by (simp add: upt_conv_Cons Cons_nth_drop_Suc del: upt_Suc)
qed simp

text \<open>A POST whose body is a well-formed JSON object with a member \<open>data\<close> that has the array \<open>arr\<close> as its member \<open>list\<close>.\<close>

definition posts_list :: "('d, 'f) web_env \<Rightarrow> fcgx_request \<Rightarrow> 'f cJSON \<Rightarrow> bool" where
  "posts_list env req arr \<longleftrightarrow>
     envp req ''REQUEST_METHOD'' = Some ''POST'' \<and> envp req ''PATH_INFO'' = Some ''/relay_cnt'' \<and>
     (case w_get_str env 2047 (body req) of
        (len, bytes) \<Rightarrow> 0 \<le> len \<and>
          (case w_parse env (takeWhile (\<lambda>c. c \<noteq> CHR 0x00) (take (nat len) bytes)) of
             None \<Rightarrow> False
           | Some rt \<Rightarrow> jwf rt \<and>
               (case child_named (Some ''data'') rt of None \<Rightarrow> False | Some obj \<Rightarrow> child_named (Some ''list'') obj = Some arr))) \<and>
     kind arr = cJSON_Array \<and> length (jchild arr) = 6"

lemma posts_list_parse:
  assumes "tree_ok (w_tree env)" and "read_ok (w_tree env)" and "posts_list env req arr"
  shows "parse_body env req = (case read_entries (w_tree env) arr [0..<6] of Inl e \<Rightarrow> Fault e | Inr xs \<Rightarrow> Entries xs)"
    "serve env req st = set_relay_cnt env req st"
proof -
  obtain len bytes rt obj where b: "w_get_str env 2047 (body req) = (len, bytes)" "0 \<le> len"
    "w_parse env (takeWhile (\<lambda>c. c \<noteq> CHR 0x00) (take (nat len) bytes)) = Some rt" "jwf rt"
    "child_named (Some ''data'') rt = Some obj" "child_named (Some ''list'') obj = Some arr"
    using assms(3) by (auto simp: posts_list_def split: prod.splits option.splits)
  obtain i where i: "get_cs (w_tree env) rt ''data'' = Some i" "jchild rt ! i = obj" "i < length (jchild rt)"
    using child_named_Some [OF assms(1) jwfD(1) [OF b(4)] b(5)] by blast
  then have "jwf obj" using jwfD(5) [OF b(4)] nth_mem by blast
  then obtain j where j: "get_cs (w_tree env) obj ''list'' = Some j" "jchild obj ! j = arr"
    using child_named_Some [OF assms(1) jwfD(1) b(6)] by blast
  have "is_array (w_tree env) (Some arr)" "array_size (w_tree env) arr = 6"
    using assms(2,3) unfolding read_ok_def posts_list_def by auto
  then show "parse_body env req = (case read_entries (w_tree env) arr [0..<6] of Inl e \<Rightarrow> Fault e | Inr xs \<Rightarrow> Entries xs)"
    using b i j by (simp add: parse_body_def JSON_STR_SIZE_def Let_def)
  show "serve env req st = set_relay_cnt env req st"
    using assms(3) by (simp add: posts_list_def serve_def method_string_to_enum_def find_router_def router_group_def)
qed

text \<open>
  C18. Setting the counters. A POST to \<^verbatim>\<open>/relay_cnt\<close> whose body is a JSON object with a member \<open>data\<close>, in it an array
  \<open>list\<close> of six objects with the three integer fields, is answered with success. The table in memory then holds exactly these
  six entries, which a following GET prints; in the database the counter of every listed relay that has a row is set, in the
  order of the list, and no other row changes.
\<close>

theorem post_sets_counters:
  assumes "web_ok env view st" and "length (relay_arr st) = 6" and "tree_ok (w_tree env)" and "read_ok (w_tree env)"
    and "posts_list env req arr" and "list_all2 entry_of (jchild arr) xs"
  shows "\<exists>st'. serve env req st = Some (Inr (answer API_ERR_OK (Some success_data) req, st')) \<and> web_ok env view st' \<and>
     relay_arr st' = xs \<and> rows view st' = set_cnts xs (rows view st) \<and>
     query_relay_cnt env get st' =
       (case w_struct2str env xs of
          (ret, text_json) \<Rightarrow> if ret \<noteq> 0 then answer (api_code_from_cjsonx ret) None get else answer API_ERR_OK (Some text_json) get)"
proof -
  have six: "length xs = 6" using list_all2_lengthD [OF assms(6)] assms(5) by (simp add: posts_list_def)
  then have "parse_body env req = Entries xs"
    using posts_list_parse(1) [OF assms(3-5)] read_entries_found [OF assms(4,6), of 0 6] by simp
  moreover obtain st' where "store_entries env 0 xs st = Some st'" "web_ok env view st'" "rows view st' = set_cnts xs (rows view st)"
      "relay_arr st' = xs"
    using store_entries_runs [OF assms(1), of 0 xs] assms(2) six by auto
  ultimately show ?thesis
    using posts_list_parse(2) [OF assms(3-5)] six by (simp add: set_relay_cnt_def query_relay_cnt_def)
qed

lemma fault_unique [simp]: "(e :: fault) = NullDereference"
  by (cases e) simp

lemma read_entries_fault: "i \<in> set is \<Longrightarrow> read_entry lib arr i = Inl e \<Longrightarrow> read_entries lib arr is = Inl NullDereference"
  by (induction "is") (auto split: sum.split)

lemma read_entry_fault:
  assumes "read_ok lib" and "i < length (jchild arr)" and "k \<in> {''id'', ''relay_id'', ''close_cnt''}"
    and "list_all (\<lambda>c. map_option lower (jkey c) \<noteq> Some (lower k)) (jchild (jchild arr ! i))"
  shows "read_entry lib arr i = Inl NullDereference"
proof -
  have "array_item lib arr (int i) = Some i" using assms(1,2) unfolding read_ok_def by blast
  moreover have "get_ci lib (jchild arr ! i) k = None"
  proof (rule ccontr)
    assume "get_ci lib (jchild arr ! i) k \<noteq> None"
    then show False using assms(1,4) unfolding read_ok_def list_all_length by blast
  qed
  then have "field_int lib (Some (jchild arr ! i)) k = Inl NullDereference" by (simp add: field_int_def)
  ultimately show ?thesis using assms(3) by (auto simp: read_entry_def Let_def split: sum.split)
qed

text \<open>
  A missing field ends the server. If one of the six objects in the body of such a POST has no child of the name of
  one of the three fields, the handler reads through the NULL pointer that the lookup returns: neither this request nor any
  later one is answered.
\<close>

theorem missing_field_ends_server:
  assumes "tree_ok (w_tree env)" and "read_ok (w_tree env)" and "posts_list env req arr"
    and "i < 6" and "k \<in> {''id'', ''relay_id'', ''close_cnt''}"
    and "list_all (\<lambda>c. map_option lower (jkey c) \<noteq> Some (lower k)) (jchild (jchild arr ! i))"
  shows "fcgi_main env (req # reqs) st = Some (Inl NullDereference)"
proof -
  have fault: "read_entry (w_tree env) arr i = Inl NullDereference"
    using read_entry_fault [OF assms(2) _ assms(5,6)] assms(3,4) by (simp add: posts_list_def)
  have "parse_body env req = Fault NullDereference"
    using posts_list_parse(1) [OF assms(1-3)] read_entries_fault [OF _ fault, of "[0..<6]"] assms(4) by simp
  then show ?thesis using posts_list_parse(2) [OF assms(1-3), of st] by (simp add: set_relay_cnt_def)
qed

subsection \<open>Instances\<close>

definition entry_json :: "pcu_relay_cnt_t \<Rightarrow> int cJSON" where
  "entry_json x = jobj None [jnum ''id'' (sint (cnt_id x)), jnum ''relay_id'' (uint (relay_id x)), jnum ''close_cnt'' (sint (close_cnt x))]"

definition list_json :: "int cJSON list \<Rightarrow> int cJSON" where
  "list_json vs = CJSON cJSON_Array None 0 0 (Some ''list'') vs"

definition body_json :: "int cJSON list \<Rightarrow> int cJSON" where
  "body_json vs = jobj None [jobj (Some ''data'') [list_json vs]]"

definition sample_env :: "int cJSON \<Rightarrow> ((int \<times> int) list sql_view, int) web_env" where
  "sample_env v =
     \<lparr>w_api = relay_engine, w_mem = \<lambda>ps. fresh_mem (the ps), w_dao = \<lparr>pcu_relay_cnt_dao = sample_dao\<rparr>, w_tree = list_tree,
      w_parse = \<lambda>_. Some v, w_get_str = \<lambda>n s. (int (length (take n s)), take n s), w_struct2str = \<lambda>_. (0, ''[]'')\<rparr>"

definition sample_state :: "(int \<times> int) list sql_view web_state" where
  "sample_state = \<lparr>relay_arr = g_relay_cnt, w_ps = Some fresh_ps, w_db = fresh_view [(411, 9)]\<rparr>"

definition sample_post :: fcgx_request where
  "sample_post = \<lparr>envp = [''REQUEST_METHOD'' \<mapsto> ''POST'', ''PATH_INFO'' \<mapsto> ''/relay_cnt''], body = ''{}'', out = []\<rparr>"

definition sample_entries :: "pcu_relay_cnt_t list" where
  "sample_entries = [relay_rec 1 427 3, relay_rec 2 428 3, relay_rec 3 412 3, relay_rec 4 455 3, relay_rec 5 454 3, relay_rec 6 411 30]"

lemma sample_web_ok: "web_ok (sample_env v) (\<lambda>v. v) sample_state" "length (relay_arr sample_state) = 6"
  by (simp_all add: web_ok_def sample_env_def sample_state_def view_engine_laws fresh_mem_good fresh_ready sample_dao_def g_relay_cnt_def)

lemma sample_body_wf:
  assumes "list_all (\<lambda>v. jwf v \<and> jkey v = None) vs"
  shows "jwf (body_json vs)" "child_named (Some ''data'') (body_json vs) = Some (jobj (Some ''data'') [list_json vs])"
    "child_named (Some ''list'') (jobj (Some ''data'') [list_json vs]) = Some (list_json vs)"
  using assms by (simp_all add: body_json_def jobj_def list_json_def node_ok_def child_named_def list_all_iff)

lemma sample_posts:
  assumes "list_all (\<lambda>v. jwf v \<and> jkey v = None) vs" and "length vs = 6"
  shows "posts_list (sample_env (body_json vs)) sample_post (list_json vs)"
  using sample_body_wf [OF assms(1)] assms(2) by (simp add: posts_list_def sample_post_def sample_env_def kind_def list_json_def)

lemma entry_json_ok: "jwf (entry_json x) \<and> jkey (entry_json x) = None" "entry_of (entry_json x) x"
  by (simp_all add: entry_json_def jobj_def jnum_def node_ok_def entry_of_def has_int_def lower_def)

lemma entries_json_ok: "list_all (\<lambda>v. jwf v \<and> jkey v = None) (map entry_json xs)" "list_all2 entry_of (map entry_json xs) xs"
  by (simp_all add: list.pred_map list_all_iff list_all2_conv_all_nth entry_json_ok)

lemma length_sample_entries [simp]: "length sample_entries = 6"
  by (simp add: sample_entries_def)

lemma sample_env_simps [simp]: "w_tree (sample_env v) = list_tree"
  by (simp add: sample_env_def)

theorem post_sets_counters_witness:
  "\<exists>st'. serve (sample_env (body_json (map entry_json sample_entries))) sample_post sample_state =
       Some (Inr (answer API_ERR_OK (Some success_data) sample_post, st')) \<and>
     relay_arr st' = sample_entries \<and> tables (w_db st') = [(411, 30)]"
proof -
  let ?vs = "map entry_json sample_entries"
  note vs = entries_json_ok [of sample_entries]
  have "set_cnts sample_entries [(411, 9)] = [(411, 30)]" by (simp add: sample_entries_def set_cnts_def set_cnt_def)
  then show ?thesis
    using post_sets_counters [OF sample_web_ok _ _ sample_posts [OF vs(1)], of sample_entries] vs(2)
    by (auto simp: list_tree_ok list_tree_read_ok list_json_def sample_state_def)
qed

theorem fcgi_main_answers_witness:
  "\<exists>rs st'. fcgi_main (sample_env (body_json (map entry_json sample_entries))) [sample_post, sample_post\<lparr>envp := Map.empty\<rparr>] sample_state =
     Some (Inr (rs, st')) \<and> length rs = 2"
proof -
  let ?vs = "map entry_json sample_entries" and ?env = "sample_env (body_json (map entry_json sample_entries))"
  note vs = entries_json_ok [of sample_entries]
  have "parse_body ?env sample_post = Entries sample_entries"
    using posts_list_parse(1) [OF _ _ sample_posts [OF vs(1)]] read_entries_found [OF list_tree_read_ok, of "list_json ?vs" sample_entries 0 6] vs(2)
    by (simp add: list_tree_ok list_tree_read_ok list_json_def sample_entries_def)
  then have "list_all (\<lambda>req. parse_body ?env req \<noteq> Fault NullDereference) [sample_post, sample_post\<lparr>envp := Map.empty\<rparr>]"
    by (simp add: parse_body_def)
  then show ?thesis using fcgi_main_answers [OF sample_web_ok] by (fastforce dest: list_all2_lengthD)
qed

theorem missing_field_ends_server_witness:
  "fcgi_main (sample_env (body_json (replicate 6 (jobj None [jnum ''id'' 1])))) [sample_post] sample_state = Some (Inl NullDereference)"
proof -
  let ?vs = "replicate 6 (jobj None [jnum ''id'' 1])"
  have "list_all (\<lambda>v. jwf v \<and> jkey v = None) ?vs" by (simp add: list_all_iff jobj_def jnum_def node_ok_def)
  then show ?thesis
    by (intro missing_field_ends_server [OF _ _ sample_posts, where i = 0 and k = "''close_cnt''"])
      (simp_all add: list_tree_ok list_tree_read_ok list_json_def jobj_def jnum_def lower_def)
qed

end
