(* ===== verification/Event_Loop.thy ===== *)
theory Event_Loop
  imports Prelude
begin

unbundle bit_operations_syntax

text \<open>
  The event loop of \<^verbatim>\<open>src/src/peventloop\<close>: creating and resizing it (\<^verbatim>\<open>peventloop.c\<close>, \<^verbatim>\<open>p_epoll.c\<close>), marking its descriptor as
  close-on-exec (\<^verbatim>\<open>anet.c\<close>) and the monotonic clock (\<^verbatim>\<open>monotonic.c\<close>). The outcome of an allocation is given by its site and
  the number of elements asked for; the log of released blocks is part of the result.
\<close>

subsection \<open>Data\<close>

type_synonym block = nat

datatype loop_site = LoopBlk | EventsBlk | FiredBlk | StateBlk | EpollBlk

type_synonym loop_alloc = "loop_site \<Rightarrow> int \<Rightarrow> block option"

record pEventLoop_t =
  maxfd :: int
  setsize :: int
  timeEventNextId :: int
  nevents :: int
  events :: "block option"
  fired :: "block option"
  timeEventHead :: "block option"
  stop :: int
  apidata :: "block option"
  beforesleep :: "block option"
  aftersleep :: "block option"
  flags :: int32
  privdata :: "block option list"

record pApiState_t =
  epfd :: int
  ep_events :: "block option"

definition INITIAL_EVENT :: int where "INITIAL_EVENT = 1024"
definition P_OK :: int where "P_OK = 0"
definition P_ERR :: int where "P_ERR = - 1"
definition P_DONT_WAIT :: int32 where "P_DONT_WAIT = push_bit 2 1"

subsection \<open>The monotonic clock\<close>

datatype clock_fn = GetMonotonicUs_posix

datatype monotonic_clock_e = MONOTONIC_CLOCK_POSIX | MONOTONIC_CLOCK_HW

record monotonic_state =
  getMonotonicUs :: "clock_fn option"
  monotonic_info_string :: string

definition getMonotonicUs_posix :: "int64 \<Rightarrow> int64 \<Rightarrow> uint64" where
  "getMonotonicUs_posix tv_sec tv_nsec = ucast tv_sec * 1000000 + word_of_int (sgn (sint tv_nsec) * (\<bar>sint tv_nsec\<bar> div 1000))"

definition monotonicInit_posix :: "monotonic_state \<Rightarrow> monotonic_state" where
  "monotonicInit_posix s = s\<lparr>monotonic_info_string := ''POSIX clock_gettime'', getMonotonicUs := Some GetMonotonicUs_posix\<rparr>"

definition monotonicInit :: "monotonic_state \<Rightarrow> string \<times> monotonic_state" where
  "monotonicInit s =
     (let s' = (if getMonotonicUs s = None then monotonicInit_posix s else s) in (monotonic_info_string s', s'))"

definition monotonicInfoString :: "monotonic_state \<Rightarrow> string" where
  "monotonicInfoString s = monotonic_info_string s"

definition monotonicGetType :: "monotonic_state \<Rightarrow> monotonic_clock_e" where
  "monotonicGetType s = (if getMonotonicUs s = Some GetMonotonicUs_posix then MONOTONIC_CLOCK_POSIX else MONOTONIC_CLOCK_HW)"

text \<open>\<open>now\<close> is what the clock reads when it is called.\<close>

definition elapsedStart :: "uint64 \<Rightarrow> uint64" where
  "elapsedStart now = now"

definition elaspedUs :: "uint64 \<Rightarrow> uint64 \<Rightarrow> uint64" where
  "elaspedUs now start_time = now - start_time"

definition elapsedMS :: "uint64 \<Rightarrow> uint64 \<Rightarrow> uint64" where
  "elapsedMS now start_time = elaspedUs now start_time div 1000"

subsection \<open>Close-on-exec\<close>

text \<open>
  \<open>fcntl\<close> answers the \<open>n\<close>-th repetition of a call with its result and whether the error is EINTR. A loop that is never
  answered otherwise does not return.
\<close>

type_synonym answers = "nat \<Rightarrow> int32 \<times> bool"

definition FD_CLOEXEC :: int32 where "FD_CLOEXEC = 1"

definition interrupted :: "answers \<Rightarrow> nat \<Rightarrow> bool" where
  "interrupted f n \<longleftrightarrow> fst (f n) = - 1 \<and> snd (f n)"

partial_function (option) retry :: "answers \<Rightarrow> nat \<Rightarrow> int32 option" where
  "retry f n = (if interrupted f n then retry f (Suc n) else Some (fst (f n)))"

definition anetCloexec :: "answers \<Rightarrow> (int32 \<Rightarrow> answers) \<Rightarrow> int32 option" where
  "anetCloexec getfd setfd =
     (case retry getfd 0 of
        None \<Rightarrow> None
      | Some r \<Rightarrow> if r = - 1 \<or> r AND FD_CLOEXEC \<noteq> 0 then Some r else retry (setfd (r OR FD_CLOEXEC)) 0)"

subsection \<open>Creation and resizing\<close>

definition blk :: "block option \<Rightarrow> block list" where
  "blk b = (case b of None \<Rightarrow> [] | Some a \<Rightarrow> [a])"

text \<open>The log lists the events, the fired events and the loop itself.\<close>

definition free_eventloop :: "(block \<times> pEventLoop_t) option \<Rightarrow> block list" where
  "free_eventloop l = (case l of None \<Rightarrow> [] | Some (a, e) \<Rightarrow> blk (events e) @ blk (fired e) @ [a])"

definition pApiCreate :: "loop_alloc \<Rightarrow> int \<Rightarrow> pEventLoop_t \<Rightarrow> int \<times> (block \<times> pApiState_t) option \<times> block list \<times> pEventLoop_t" where
  "pApiCreate al epoll_fd e =
     (case al StateBlk 1 of
        None \<Rightarrow> (- 1, None, [], e)
      | Some s \<Rightarrow>
          (case al EpollBlk (setsize e) of
             None \<Rightarrow> (- 1, None, [s], e)
           | Some ev \<Rightarrow>
               if epoll_fd = - 1 then (- 1, None, [ev, s], e)
               else (0, Some (s, \<lparr>epfd = epoll_fd, ep_events = Some ev\<rparr>), [], e\<lparr>apidata := Some s\<rparr>)))"

text \<open>Members that are not set before a failing return are those of the fresh block \<open>e0\<close>.\<close>

definition pCreateEventLoop ::
  "loop_alloc \<Rightarrow> int \<Rightarrow> pEventLoop_t \<Rightarrow> int \<Rightarrow> (block \<times> pEventLoop_t \<times> block \<times> pApiState_t) option \<times> block list" where
  "pCreateEventLoop al epoll_fd e0 size_arg =
     (case al LoopBlk 1 of
        None \<Rightarrow> (None, free_eventloop None)
      | Some a \<Rightarrow>
          (let n = (if size_arg < INITIAL_EVENT then size_arg else INITIAL_EVENT);
               e1 = e0\<lparr>nevents := n, events := al EventsBlk n, fired := al FiredBlk n\<rparr>
           in if events e1 = None \<or> fired e1 = None then (None, free_eventloop (Some (a, e1)))
              else
                (let e2 = e1\<lparr>setsize := size_arg, timeEventHead := None, timeEventNextId := 0, stop := 0, maxfd := 0,
                             beforesleep := None, aftersleep := None, flags := 0, privdata := [None, None]\<rparr>
                 in case pApiCreate al epoll_fd e2 of
                      (rc, state, fr, e3) \<Rightarrow>
                        if rc = - 1 then (None, fr @ free_eventloop (Some (a, e3)))
                        else (map_option (\<lambda>(s, st). (a, e3, s, st)) state, fr))))"

definition pGetSetSize :: "pEventLoop_t \<Rightarrow> int" where
  "pGetSetSize e = setsize e"

definition pSetDontWait :: "pEventLoop_t \<Rightarrow> bool \<Rightarrow> pEventLoop_t" where
  "pSetDontWait e noWait = (if noWait then e\<lparr>flags := flags e OR P_DONT_WAIT\<rparr> else e\<lparr>flags := flags e AND NOT P_DONT_WAIT\<rparr>)"

text \<open>The function ends without a return statement when both tests fail: its value is then not defined.\<close>

definition pResizeSetSize :: "pEventLoop_t \<Rightarrow> int \<Rightarrow> int option" where
  "pResizeSetSize e size_arg =
     (if size_arg = setsize e then Some P_OK else if size_arg \<le> maxfd e then Some P_ERR else None)"

text \<open>\<open>moved\<close> is the block that \<^verbatim>\<open>realloc\<close> returns for the loop's array; the old one is released by it.\<close>

definition pApiResize :: "block option \<Rightarrow> pEventLoop_t \<Rightarrow> pApiState_t \<Rightarrow> int \<times> pApiState_t \<times> block list" where
  "pApiResize moved e s = (0, s\<lparr>ep_events := moved\<rparr>, (if moved = None then [] else blk (events e)))"

subsection \<open>Properties\<close>

lemma retry_answered: "retry f n = Some r \<Longrightarrow> \<exists>m\<ge>n. \<not> interrupted f m"
proof (rule retry.raw_induct [of "\<lambda>f n r. \<exists>m\<ge>n. \<not> interrupted f m"])
  fix rec f n r
  assume IH: "\<And>f n r. rec f n = Some r \<Longrightarrow> \<exists>m\<ge>n. \<not> interrupted f m"
    and r: "(if interrupted f n then rec f (Suc n) else Some (fst (f n))) = Some r"
  show "\<exists>m\<ge>n. \<not> interrupted f m"
  proof (cases "interrupted f n")
    case True
    then have "\<exists>m\<ge>Suc n. \<not> interrupted f m" using r IH [of f "Suc n" r] by simp
    then show ?thesis by (meson Suc_leD)
  qed auto
qed

lemma retry_None: "\<forall>m\<ge>n. interrupted f m \<Longrightarrow> retry f n = None"
  using retry_answered [of f n] by (cases "retry f n") auto

lemma retry_Some: "\<forall>i. n \<le> i \<and> i < n + k \<longrightarrow> interrupted f i \<Longrightarrow> \<not> interrupted f (n + k) \<Longrightarrow> retry f n = Some (fst (f (n + k)))"
proof (induction k arbitrary: n)
  case 0
  then show ?case by (subst retry.simps) simp
next
  case (Suc k)
  then have "interrupted f n" by simp
  moreover have "retry f (Suc n) = Some (fst (f (Suc n + k)))" using Suc.prems by (intro Suc.IH) auto
  ultimately show ?case by (subst retry.simps) simp
qed

definition forever :: "answers \<Rightarrow> bool" where
  "forever f \<longleftrightarrow> (\<forall>n. interrupted f n)"

definition first_answer :: "answers \<Rightarrow> int32" where
  "first_answer f = fst (f (LEAST n. \<not> interrupted f n))"

lemma retry_eq: "retry f 0 = (if forever f then None else Some (first_answer f))"
proof (cases "forever f")
  case True
  then show ?thesis using retry_None [of 0 f] by (simp add: forever_def)
next
  case False
  then obtain n where n: "\<not> interrupted f n" by (auto simp: forever_def)
  define k where "k = (LEAST n. \<not> interrupted f n)"
  have "\<not> interrupted f k" using LeastI [of "\<lambda>n. \<not> interrupted f n", OF n] by (simp add: k_def)
  moreover have "interrupted f i" if "i < k" for i using that not_less_Least [of i "\<lambda>n. \<not> interrupted f n"] by (simp add: k_def)
  ultimately have "retry f 0 = Some (fst (f k))" using retry_Some [of 0 k f] by simp
  then show ?thesis using False by (simp add: first_answer_def k_def)
qed

text \<open>
  Close-on-exec ends unless it is interrupted forever. \<^verbatim>\<open>anetCloexec\<close> does not return exactly if one of its two calls is
  answered with EINTR every time; otherwise it returns the first other answer of the call that reads the flags, if that is an
  error or has the flag set already, and else the first other answer of the call that sets the flag and keeps the others.
\<close>

theorem anetCloexec_returns:
  "anetCloexec getfd setfd =
     (if forever getfd then None
      else let r = first_answer getfd; s = setfd (r OR FD_CLOEXEC)
           in if r = - 1 then Some r
              else if r AND FD_CLOEXEC = 0 then (if forever s then None else Some (first_answer s)) else Some r)"
  unfolding anetCloexec_def retry_eq by (simp add: Let_def)

text \<open>The blocks that a call obtains: a later allocation is only tried when the earlier ones succeeded.\<close>

definition obtained :: "loop_alloc \<Rightarrow> int \<Rightarrow> block list" where
  "obtained al n =
     (case al LoopBlk 1 of
        None \<Rightarrow> []
      | Some a \<Rightarrow>
          (let ev = al EventsBlk (min n INITIAL_EVENT); fi = al FiredBlk (min n INITIAL_EVENT)
           in a # blk ev @ blk fi @
              (if ev = None \<or> fi = None then []
               else case al StateBlk 1 of None \<Rightarrow> [] | Some s \<Rightarrow> s # blk (al EpollBlk n))))"

text \<open>
  Creating an event loop. The call gives NULL exactly if one of the five allocations or the creation of the epoll
  descriptor fails, and then every block it obtained has been released exactly once. Otherwise nothing is released and the loop
  is ready: its size as requested, arrays for at most 1024 events, no timer, no flag, not stopped, attached to its epoll state.
\<close>

theorem create_event_loop_spec:
  "case pCreateEventLoop al fd e0 n of
     (None, fr) \<Rightarrow> mset fr = mset (obtained al n) \<and> (fd = - 1 \<or> length (obtained al n) < 5)
   | (Some (a, e, s, st), fr) \<Rightarrow>
       fr = [] \<and> fd \<noteq> - 1 \<and> mset (obtained al n) = mset ([a, s] @ blk (events e) @ blk (fired e) @ blk (ep_events st)) \<and>
       length (obtained al n) = 5 \<and> setsize e = n \<and> nevents e = min n INITIAL_EVENT \<and> maxfd e = 0 \<and> stop e = 0 \<and> flags e = 0 \<and>
       timeEventHead e = None \<and> timeEventNextId e = 0 \<and> apidata e = Some s \<and> epfd st = fd"
proof -
  have m: "(if n < INITIAL_EVENT then n else INITIAL_EVENT) = min n INITIAL_EVENT" by (simp add: min_def)
  show ?thesis
    unfolding pCreateEventLoop_def m obtained_def pApiCreate_def free_eventloop_def blk_def Let_def
    by (auto split: option.splits)
qed

lemma set_dont_wait_bit:
  assumes "i < 32"
  shows "bit (flags (pSetDontWait e b)) i = (if i = 2 then b else bit (flags e) i)"
proof -
  have "bit P_DONT_WAIT i = (i = 2)" unfolding P_DONT_WAIT_def bit_push_bit_iff using assms by (auto simp: bit_1_iff)
  then show ?thesis using assms by (auto simp: pSetDontWait_def bit_or_iff bit_and_iff bit_not_iff)
qed

text \<open>
  Resizing the epoll array with the loop's own array: the loop keeps pointing to a block that is released, and the state's
  former array is neither released nor referenced any more.
\<close>

lemma api_resize_dangles:
  assumes "events e = Some ev" and "ep_events s = Some old" and "old \<noteq> ev" and "pApiResize (Some new) e s = (rc, s', fr)"
  shows "ev \<in> set fr \<and> events e = Some ev \<and> ep_events s' = Some new \<and> old \<notin> set fr"
  using assms by (auto simp: pApiResize_def blk_def)

lemma monotonic_init_idempotent: "monotonicInit (snd (monotonicInit s)) = monotonicInit s"
  by (simp add: monotonicInit_def monotonicInit_posix_def Let_def)

text \<open>The counter counts microseconds as long as it does not overflow.\<close>

lemma monotonic_us_value:
  assumes "0 \<le> sint sec" and "0 \<le> sint ns" and "sint sec * 1000000 + sint ns div 1000 < 2 ^ 64"
  shows "uint (getMonotonicUs_posix sec ns) = sint sec * 1000000 + sint ns div 1000"
proof -
  have "uint sec = sint sec" using assms(1) sint_lt [of sec] by (simp add: uint_sint take_bit_int_eq_self)
  then have "getMonotonicUs_posix sec ns = word_of_int (sint sec * 1000000 + sint ns div 1000)"
    using assms(2) by (cases "sint ns = 0") (simp_all add: getMonotonicUs_posix_def sgn_if ucast_eq)
  moreover have "0 \<le> sint ns div 1000" using assms(2) by (simp add: pos_imp_zdiv_nonneg_iff)
  ultimately show ?thesis using assms(1,3) by (simp only: uint_word_of_int) (simp add: take_bit_int_eq_self flip: take_bit_eq_mod)
qed

end
