(* ===== verification/Timer_Pool.thy ===== *)
theory Timer_Pool
  imports Prelude
begin

text \<open>
  The timer pool of the charge point (\<^verbatim>\<open>src/src/ocpp/tool/timer/\<close>): \<^verbatim>\<open>TimerPool\<close> keeps the
  registered and the active timers and runs \<^verbatim>\<open>threadLoop\<close>, \<^verbatim>\<open>Timer\<close> is the handle that the
  rest of the charge point starts and stops.
  \<^item> A \<^verbatim>\<open>Timer *\<close> is an address of the heap \<^verbatim>\<open>tp_heap\<close>; an operation on an address that holds
    no timer, and \<^verbatim>\<open>front()\<close> of an empty list, are undefined behaviour: the result is \<^const>\<open>None\<close>.
  \<^item> Time points of the steady clock are integers in nanoseconds, as libstdc++ has them, without
    the wrap-around after 292 years; \<^verbatim>\<open>steady_clock::now()\<close> is an argument of the operation that reads it.
  \<^item> What a thread does while it holds \<^verbatim>\<open>m_wakeup_mutex\<close> is one step. The phase of the timer thread
    says where it is between two such steps, so that the point between the evaluation of the wait
    predicate and the wait itself is visible.
\<close>

section \<open>Timers and the pool\<close>

type_synonym time_point = int

record 'c timer_obj =
  t_name :: string
  t_single_shot :: bool
  t_interval :: int
  t_wake :: time_point
  t_started :: bool
  t_callback :: "'c option"

datatype pool_phase = Looping | Checked | Sleeping | Woken | Calling addr | Finished | Crashed

record 'c timer_pool =
  tp_stop :: bool
  tp_update :: bool
  tp_wake :: time_point
  tp_timers :: "addr list"
  tp_active :: "addr list"
  tp_heap :: "addr \<Rightarrow> 'c timer_obj option"
  tp_phase :: pool_phase
  tp_fired :: "'c list"

definition time_min :: time_point where
  "time_min = - (2 ^ 63)"

definition ns_of_ms :: "int \<Rightarrow> int" where
  "ns_of_ms i = i * 1000000"

definition idle_period :: int where
  "idle_period = 2400 * 3600 * 1000000000"

text \<open>\<^verbatim>\<open>TimerPool::TimerPool\<close>: the pool wakes up in a hundred days unless a timer is added.\<close>

definition TimerPool :: "time_point \<Rightarrow> 'c timer_pool" where
  "TimerPool now = \<lparr>tp_stop = False, tp_update = False, tp_wake = now + idle_period, tp_timers = [],
     tp_active = [], tp_heap = (\<lambda>_. None), tp_phase = Looping, tp_fired = []\<rparr>"

definition wake_of :: "'c timer_pool \<Rightarrow> addr \<Rightarrow> time_point" where
  "wake_of s t = (case tp_heap s t of None \<Rightarrow> time_min | Some tm \<Rightarrow> t_wake tm)"

definition set_timer :: "addr \<Rightarrow> 'c timer_obj \<Rightarrow> 'c timer_pool \<Rightarrow> 'c timer_pool" where
  "set_timer t tm s = s\<lparr>tp_heap := (tp_heap s)(t := Some tm)\<rparr>"

text \<open>\<^verbatim>\<open>notify_one\<close> of the wake-up condition: it reaches the thread only while the thread sleeps.\<close>

definition notify_pool :: "'c timer_pool \<Rightarrow> 'c timer_pool" where
  "notify_pool s = (if tp_phase s = Sleeping then s\<lparr>tp_phase := Woken\<rparr> else s)"

definition computeNextWakeupTimepoint :: "time_point \<Rightarrow> 'c timer_pool \<Rightarrow> 'c timer_pool" where
  "computeNextWakeupTimepoint now s =
     (case sort_key (wake_of s) (tp_active s) of
        [] \<Rightarrow> s\<lparr>tp_wake := now + idle_period\<rparr>
      | t # ts \<Rightarrow> s\<lparr>tp_active := t # ts, tp_wake := wake_of s t\<rparr>)"

definition registerTimer :: "addr \<Rightarrow> 'c timer_pool \<Rightarrow> 'c timer_pool" where
  "registerTimer t s = s\<lparr>tp_timers := tp_timers s @ [t]\<rparr>"

definition addTimer :: "addr \<Rightarrow> 'c timer_pool \<Rightarrow> 'c timer_pool" where
  "addTimer t s =
     (let s1 = (if wake_of s t < tp_wake s then notify_pool (s\<lparr>tp_update := True\<rparr>) else s)
      in s1\<lparr>tp_active := tp_active s1 @ [t]\<rparr>)"

definition removeTimer :: "addr \<Rightarrow> 'c timer_pool \<Rightarrow> 'c timer_pool option" where
  "removeTimer t s =
     (case tp_active s of
        [] \<Rightarrow> None
      | f # _ \<Rightarrow>
          let s1 = (if t = f then notify_pool (s\<lparr>tp_update := True\<rparr>) else s)
          in Some (s1\<lparr>tp_active := removeAll t (tp_active s1)\<rparr>))"

section \<open>Operations of a timer\<close>

definition new_timer :: "string \<Rightarrow> 'c timer_obj" where
  "new_timer name = \<lparr>t_name = name, t_single_shot = False, t_interval = 0, t_wake = time_min,
     t_started = False, t_callback = None\<rparr>"

text \<open>\<^verbatim>\<open>createTimer\<close> and the constructor of \<^verbatim>\<open>Timer\<close>; \<open>t\<close> is the address that \<^verbatim>\<open>new\<close> returned.\<close>

definition createTimer :: "string \<Rightarrow> addr \<Rightarrow> 'c timer_pool \<Rightarrow> 'c timer_pool" where
  "createTimer name t s = registerTimer t (set_timer t (new_timer name) s)"

definition configure :: "time_point \<Rightarrow> int \<Rightarrow> bool \<Rightarrow> bool \<Rightarrow> 'c timer_obj \<Rightarrow> 'c timer_obj" where
  "configure now interval single_shot immediately tm =
     tm\<lparr>t_interval := interval, t_single_shot := single_shot,
        t_wake := (if immediately then now else now + ns_of_ms interval)\<rparr>"

definition mark_started :: "bool \<Rightarrow> addr \<Rightarrow> 'c timer_pool \<Rightarrow> 'c timer_pool" where
  "mark_started b t s = s\<lparr>tp_heap := (tp_heap s)(t := map_option (\<lambda>tm. tm\<lparr>t_started := b\<rparr>) (tp_heap s t))\<rparr>"

definition timer_start ::
  "time_point \<Rightarrow> int \<Rightarrow> bool \<Rightarrow> bool \<Rightarrow> addr \<Rightarrow> 'c timer_pool \<Rightarrow> (bool \<times> 'c timer_pool) option" where
  "timer_start now interval single_shot immediately t s =
     (case tp_heap s t of
        None \<Rightarrow> None
      | Some tm \<Rightarrow>
          if \<not> t_started tm
          then Some (True, mark_started True t
                             (addTimer t (set_timer t (configure now interval single_shot immediately tm) s)))
          else Some (False, s))"

definition timer_restart ::
  "time_point \<Rightarrow> int \<Rightarrow> bool \<Rightarrow> bool \<Rightarrow> addr \<Rightarrow> 'c timer_pool \<Rightarrow> (bool \<times> 'c timer_pool) option" where
  "timer_restart now interval single_shot immediately t s =
     (case tp_heap s t of
        None \<Rightarrow> None
      | Some tm \<Rightarrow>
          (case (if t_started tm then removeTimer t s else Some s) of
             None \<Rightarrow> None
           | Some s1 \<Rightarrow>
               Some (True, mark_started True t
                             (addTimer t (set_timer t (configure now interval single_shot immediately tm) s1)))))"

definition timer_stop :: "addr \<Rightarrow> 'c timer_pool \<Rightarrow> (bool \<times> 'c timer_pool) option" where
  "timer_stop t s =
     (case tp_heap s t of
        None \<Rightarrow> None
      | Some tm \<Rightarrow>
          if t_started tm
          then (case removeTimer t s of
                  None \<Rightarrow> None
                | Some s1 \<Rightarrow> Some (True, mark_started False t s1))
          else Some (False, s))"

definition setCallback :: "'c option \<Rightarrow> addr \<Rightarrow> 'c timer_pool \<Rightarrow> 'c timer_pool option" where
  "setCallback cb t s =
     (case tp_heap s t of
        None \<Rightarrow> None
      | Some tm \<Rightarrow> Some (set_timer t (tm\<lparr>t_callback := cb\<rparr>) s))"

text \<open>
  The destructor stops the timer and gives its memory back. It does not take the timer out of
  \<^verbatim>\<open>m_timers\<close>.
\<close>

definition destroy_timer :: "addr \<Rightarrow> 'c timer_pool \<Rightarrow> 'c timer_pool option" where
  "destroy_timer t s =
     (case timer_stop t s of
        None \<Rightarrow> None
      | Some (_, s1) \<Rightarrow> Some (s1\<lparr>tp_heap := (tp_heap s1)(t := None)\<rparr>))"

text \<open>\<^verbatim>\<open>getTimer\<close>: the outer option is definedness, the inner one the returned pointer.\<close>

fun find_timer :: "(addr \<Rightarrow> 'c timer_obj option) \<Rightarrow> string \<Rightarrow> addr list \<Rightarrow> ptr option" where
  "find_timer h name [] = Some None"
| "find_timer h name (t # ts) =
     (case h t of
        None \<Rightarrow> None
      | Some tm \<Rightarrow> if t_name tm = name then Some (Some t) else find_timer h name ts)"

definition getTimer :: "string \<Rightarrow> 'c timer_pool \<Rightarrow> ptr option" where
  "getTimer name s = find_timer (tp_heap s) name (tp_timers s)"

section \<open>The timer thread\<close>

text \<open>The branch of \<^verbatim>\<open>threadLoop\<close> in which the wait predicate holds.\<close>

definition loop_notified :: "time_point \<Rightarrow> 'c timer_pool \<Rightarrow> 'c timer_pool" where
  "loop_notified now s =
     (if tp_update s
      then (computeNextWakeupTimepoint now s)\<lparr>tp_update := False, tp_phase := Looping\<rparr>
      else s\<lparr>tp_phase := Looping\<rparr>)"

text \<open>
  The branch in which the wait timed out: the first active timer is taken to be the one that is
  due. Calling an empty \<^verbatim>\<open>std::function\<close> throws, which ends the process since nothing catches it.
\<close>

definition fire_timer :: "addr \<Rightarrow> 'c timer_obj \<Rightarrow> 'c timer_pool \<Rightarrow> 'c timer_pool" where
  "fire_timer t tm s =
     (if t_single_shot tm
      then set_timer t (tm\<lparr>t_started := False\<rparr>) (s\<lparr>tp_active := tl (tp_active s)\<rparr>)
      else set_timer t (tm\<lparr>t_wake := t_wake tm + ns_of_ms (t_interval tm)\<rparr>) s)"

definition loop_expired :: "time_point \<Rightarrow> 'c timer_pool \<Rightarrow> 'c timer_pool option" where
  "loop_expired now s =
     (case tp_active s of
        [] \<Rightarrow> None
      | t # _ \<Rightarrow>
          (case tp_heap s t of
             None \<Rightarrow> None
           | Some tm \<Rightarrow>
               let s1 = computeNextWakeupTimepoint now (fire_timer t tm s)
               in (case t_callback tm of
                     None \<Rightarrow> Some (s1\<lparr>tp_phase := Crashed\<rparr>)
                   | Some cb \<Rightarrow> Some (s1\<lparr>tp_phase := Calling t, tp_fired := tp_fired s1 @ [cb]\<rparr>))))"

text \<open>Evaluation of the wait predicate with the mutex held.\<close>

definition loop_check :: "time_point \<Rightarrow> 'c timer_pool \<Rightarrow> 'c timer_pool" where
  "loop_check now s = (if tp_stop s \<or> tp_update s then loop_notified now s else s\<lparr>tp_phase := Checked\<rparr>)"

definition loop_top :: "time_point \<Rightarrow> 'c timer_pool \<Rightarrow> 'c timer_pool" where
  "loop_top now s = (if tp_stop s then s\<lparr>tp_phase := Finished\<rparr> else loop_check now s)"

definition loop_timeout :: "time_point \<Rightarrow> 'c timer_pool \<Rightarrow> 'c timer_pool option" where
  "loop_timeout now s =
     (if tp_stop s \<or> tp_update s then Some (loop_notified now s) else loop_expired now s)"

text \<open>\<^verbatim>\<open>stopAllTimers\<close>: a copy of the active list, one \<^verbatim>\<open>stop\<close> per timer, then the list is cleared.\<close>

fun stop_each :: "addr list \<Rightarrow> 'c timer_pool \<Rightarrow> 'c timer_pool option" where
  "stop_each [] s = Some s"
| "stop_each (t # ts) s =
     (case timer_stop t s of None \<Rightarrow> None | Some (_, s1) \<Rightarrow> stop_each ts s1)"

definition clear_active :: "time_point \<Rightarrow> 'c timer_pool \<Rightarrow> 'c timer_pool" where
  "clear_active now s =
     notify_pool ((computeNextWakeupTimepoint now (s\<lparr>tp_active := []\<rparr>))\<lparr>tp_update := True\<rparr>)"

definition stopAllTimers :: "time_point \<Rightarrow> 'c timer_pool \<Rightarrow> 'c timer_pool option" where
  "stopAllTimers now s = map_option (clear_active now) (stop_each (tp_active s) s)"

text \<open>\<^verbatim>\<open>TimerPool::~TimerPool\<close> up to the join; it does not take the mutex.\<close>

definition stop_pool :: "'c timer_pool \<Rightarrow> 'c timer_pool" where
  "stop_pool s = notify_pool (s\<lparr>tp_stop := True\<rparr>)"

section \<open>Steps and invariant\<close>

text \<open>
  A step of the timer thread, or an operation of another thread or of a callback on the pool.
  The mutex keeps the other threads out while the timer thread is between the evaluation of its
  predicate and the wait (\<^const>\<open>Checked\<close>). A wait may also end spuriously. A callback runs on the timer thread, where \<^verbatim>\<open>lock\<close> does
  nothing: its operations are steps as long as no other thread uses the pool in the same moment, which would be undefined.
  \<^verbatim>\<open>stopAllTimers\<close> gives the mutex back between the copy, each \<^verbatim>\<open>stop\<close> and the clearing, so its parts are steps of their own.
\<close>

inductive pool_step :: "time_point \<Rightarrow> 'c timer_pool \<Rightarrow> 'c timer_pool \<Rightarrow> bool" for now where
  create: "\<lbrakk>tp_phase s \<noteq> Checked; tp_heap s t = None\<rbrakk> \<Longrightarrow> pool_step now s (createTimer name t s)"
| start: "\<lbrakk>tp_phase s \<noteq> Checked; timer_start now i ss im t s = Some (r, s')\<rbrakk> \<Longrightarrow> pool_step now s s'"
| restart: "\<lbrakk>tp_phase s \<noteq> Checked; timer_restart now i ss im t s = Some (r, s')\<rbrakk> \<Longrightarrow> pool_step now s s'"
| stop: "\<lbrakk>tp_phase s \<noteq> Checked; timer_stop t s = Some (r, s')\<rbrakk> \<Longrightarrow> pool_step now s s'"
| callback: "\<lbrakk>tp_phase s \<noteq> Checked; setCallback cb t s = Some s'\<rbrakk> \<Longrightarrow> pool_step now s s'"
| destroy: "\<lbrakk>tp_phase s \<noteq> Checked; destroy_timer t s = Some s'\<rbrakk> \<Longrightarrow> pool_step now s s'"
| loop_top: "tp_phase s = Looping \<Longrightarrow> pool_step now s (loop_top now s)"
| block: "tp_phase s = Checked \<Longrightarrow> pool_step now s (s\<lparr>tp_phase := Sleeping\<rparr>)"
| spurious: "tp_phase s = Sleeping \<Longrightarrow> pool_step now s (s\<lparr>tp_phase := Woken\<rparr>)"
| wake: "tp_phase s = Woken \<Longrightarrow> pool_step now s (loop_check now s)"
| timeout: "\<lbrakk>tp_phase s = Sleeping; tp_wake s \<le> now; loop_timeout now s = Some s'\<rbrakk> \<Longrightarrow> pool_step now s s'"
| returned: "tp_phase s = Calling t \<Longrightarrow> pool_step now s (s\<lparr>tp_phase := Looping\<rparr>)"

text \<open>
  The runs of a pool. \<open>lost\<close> are the timers that were in the list when a \<^verbatim>\<open>stopAllTimers\<close> cleared it, which may have been started since
  its copy was made. The destructor announces the end at any time, without the mutex.
\<close>

inductive pool_run :: "addr set \<Rightarrow> 'c timer_pool \<Rightarrow> bool" where
  init: "pool_run {} (TimerPool now)"
| step: "\<lbrakk>pool_run lost s; pool_step now s s'\<rbrakk> \<Longrightarrow> pool_run lost s'"
| clear: "\<lbrakk>pool_run lost s; tp_phase s \<noteq> Checked\<rbrakk> \<Longrightarrow> pool_run (lost \<union> set (tp_active s)) (clear_active now s)"
| shutdown: "pool_run lost s \<Longrightarrow> pool_run lost (stop_pool s)"

definition started :: "'c timer_pool \<Rightarrow> addr \<Rightarrow> bool" where
  "started s t = (case tp_heap s t of None \<Rightarrow> False | Some tm \<Rightarrow> t_started tm)"

text \<open>
  The invariant: the active list holds started timers, once each, and all of them but those that were lost; the pool never plans
  to wake up after a timer is due unless it has been told to compute again; and it never sleeps
  when it has been told so.
\<close>

definition active_ok :: "addr set \<Rightarrow> 'c timer_pool \<Rightarrow> bool" where
  "active_ok lost s \<longleftrightarrow> distinct (tp_active s) \<and> (\<forall>t \<in> set (tp_active s). started s t) \<and>
     (\<forall>t. started s t \<longrightarrow> t \<in> set (tp_active s) \<or> t \<in> lost)"

definition never_late :: "'c timer_pool \<Rightarrow> bool" where
  "never_late s \<longleftrightarrow> tp_update s \<or> (\<forall>t \<in> set (tp_active s). tp_wake s \<le> wake_of s t)"

definition attentive :: "'c timer_pool \<Rightarrow> bool" where
  "attentive s \<longleftrightarrow> (tp_phase s = Sleeping \<or> tp_phase s = Checked \<longrightarrow> \<not> tp_update s)"

definition pool_inv :: "addr set \<Rightarrow> 'c timer_pool \<Rightarrow> bool" where
  "pool_inv lost s \<longleftrightarrow> active_ok lost s \<and> never_late s \<and> attentive s"

lemmas pool_inv_defs = pool_inv_def active_ok_def never_late_def attentive_def

subsection \<open>What the operations change\<close>

lemma notify_pool_fields [simp]:
  "tp_stop (notify_pool s) = tp_stop s" "tp_update (notify_pool s) = tp_update s"
  "tp_wake (notify_pool s) = tp_wake s" "tp_timers (notify_pool s) = tp_timers s"
  "tp_active (notify_pool s) = tp_active s" "tp_heap (notify_pool s) = tp_heap s"
  "tp_fired (notify_pool s) = tp_fired s"
  by (simp_all add: notify_pool_def)

lemma notify_pool_phase:
  "tp_phase (notify_pool s) = (if tp_phase s = Sleeping then Woken else tp_phase s)"
  by (simp add: notify_pool_def)

lemma wake_of_upd [simp]:
  "wake_of (s\<lparr>tp_update := b\<rparr>) = wake_of s" "wake_of (s\<lparr>tp_active := a\<rparr>) = wake_of s"
  "wake_of (s\<lparr>tp_wake := w\<rparr>) = wake_of s" "wake_of (s\<lparr>tp_phase := p\<rparr>) = wake_of s"
  "wake_of (s\<lparr>tp_stop := b\<rparr>) = wake_of s" "wake_of (s\<lparr>tp_fired := f\<rparr>) = wake_of s"
  "wake_of (s\<lparr>tp_timers := l\<rparr>) = wake_of s" "wake_of (notify_pool s) = wake_of s"
  by (simp_all add: wake_of_def fun_eq_iff)

lemma started_upd [simp]:
  "started (s\<lparr>tp_update := b\<rparr>) = started s" "started (s\<lparr>tp_active := a\<rparr>) = started s"
  "started (s\<lparr>tp_wake := w\<rparr>) = started s" "started (s\<lparr>tp_phase := p\<rparr>) = started s"
  "started (s\<lparr>tp_stop := b\<rparr>) = started s" "started (s\<lparr>tp_fired := f\<rparr>) = started s"
  "started (s\<lparr>tp_timers := l\<rparr>) = started s" "started (notify_pool s) = started s"
  by (simp_all add: started_def fun_eq_iff)

lemma set_timer_fields [simp]:
  "tp_stop (set_timer t tm s) = tp_stop s" "tp_update (set_timer t tm s) = tp_update s"
  "tp_wake (set_timer t tm s) = tp_wake s" "tp_timers (set_timer t tm s) = tp_timers s"
  "tp_active (set_timer t tm s) = tp_active s" "tp_phase (set_timer t tm s) = tp_phase s"
  "tp_fired (set_timer t tm s) = tp_fired s" "tp_heap (set_timer t tm s) = (tp_heap s)(t := Some tm)"
  by (simp_all add: set_timer_def)

lemma wake_of_set_timer [simp]: "wake_of (set_timer t tm s) = (wake_of s)(t := t_wake tm)"
  by (simp add: wake_of_def fun_eq_iff)

lemma started_set_timer [simp]: "started (set_timer t tm s) = (started s)(t := t_started tm)"
  by (simp add: started_def fun_eq_iff)

lemma mark_started_fields [simp]:
  "tp_stop (mark_started b t s) = tp_stop s" "tp_update (mark_started b t s) = tp_update s"
  "tp_wake (mark_started b t s) = tp_wake s" "tp_timers (mark_started b t s) = tp_timers s"
  "tp_active (mark_started b t s) = tp_active s" "tp_phase (mark_started b t s) = tp_phase s"
  "tp_fired (mark_started b t s) = tp_fired s" "wake_of (mark_started b t s) = wake_of s"
  by (auto simp: mark_started_def wake_of_def fun_eq_iff split: option.splits)

lemma started_mark_started:
  "tp_heap s t \<noteq> None \<Longrightarrow> started (mark_started b t s) = (started s)(t := b)"
  by (auto simp: mark_started_def started_def fun_eq_iff split: option.splits)

lemma addTimer_fields [simp]:
  "tp_stop (addTimer t s) = tp_stop s" "tp_wake (addTimer t s) = tp_wake s"
  "tp_timers (addTimer t s) = tp_timers s" "tp_active (addTimer t s) = tp_active s @ [t]"
  "tp_heap (addTimer t s) = tp_heap s" "tp_fired (addTimer t s) = tp_fired s"
  "tp_update (addTimer t s) = (tp_update s \<or> wake_of s t < tp_wake s)"
  "wake_of (addTimer t s) = wake_of s" "started (addTimer t s) = started s"
  by (simp_all add: addTimer_def Let_def)

lemma addTimer_phase:
  "tp_phase (addTimer t s) =
     (if wake_of s t < tp_wake s \<and> tp_phase s = Sleeping then Woken else tp_phase s)"
  by (simp add: addTimer_def Let_def notify_pool_phase)

lemma removeTimer_fields:
  assumes "removeTimer t s = Some s'"
  shows "tp_stop s' = tp_stop s" "tp_wake s' = tp_wake s" "tp_timers s' = tp_timers s"
    "tp_active s' = removeAll t (tp_active s)" "tp_heap s' = tp_heap s" "tp_fired s' = tp_fired s"
    "tp_update s' = (tp_update s \<or> t = hd (tp_active s))" "tp_active s \<noteq> []"
    "wake_of s' = wake_of s" "started s' = started s"
    "tp_phase s' = (if t = hd (tp_active s) \<and> tp_phase s = Sleeping then Woken else tp_phase s)"
  using assms by (auto simp: removeTimer_def Let_def notify_pool_phase split: list.splits if_splits)

lemma compute_fields [simp]:
  "tp_stop (computeNextWakeupTimepoint now s) = tp_stop s"
  "tp_update (computeNextWakeupTimepoint now s) = tp_update s"
  "tp_timers (computeNextWakeupTimepoint now s) = tp_timers s"
  "tp_heap (computeNextWakeupTimepoint now s) = tp_heap s"
  "tp_phase (computeNextWakeupTimepoint now s) = tp_phase s"
  "tp_fired (computeNextWakeupTimepoint now s) = tp_fired s"
  "wake_of (computeNextWakeupTimepoint now s) = wake_of s"
  "started (computeNextWakeupTimepoint now s) = started s"
  by (simp_all add: computeNextWakeupTimepoint_def split: list.split)

lemma sort_key_eq_Nil [simp]: "sort_key f xs = [] \<longleftrightarrow> xs = []"
  by (metis length_0_conv length_sort)

lemma compute_active: "tp_active (computeNextWakeupTimepoint now s) = sort_key (wake_of s) (tp_active s)"
  by (simp add: computeNextWakeupTimepoint_def split: list.split)

lemma compute_wake:
  "tp_wake (computeNextWakeupTimepoint now s) =
     (if tp_active s = [] then now + idle_period else wake_of s (hd (sort_key (wake_of s) (tp_active s))))"
  by (simp add: computeNextWakeupTimepoint_def split: list.split)

lemma sorted_hd_le: "sorted (map f xs) \<Longrightarrow> x \<in> set xs \<Longrightarrow> f (hd xs) \<le> f x"
  by (cases xs) auto

lemma compute_wake_le:
  assumes "t \<in> set (tp_active s)"
  shows "tp_wake (computeNextWakeupTimepoint now s) \<le> wake_of s t"
proof -
  have "wake_of s (hd (sort_key (wake_of s) (tp_active s))) \<le> wake_of s t"
    by (rule sorted_hd_le) (simp_all add: assms)
  moreover have "tp_active s \<noteq> []"
    using assms by auto
  ultimately show ?thesis
    by (simp add: compute_wake)
qed

text \<open>The operations on the list that \<^verbatim>\<open>start\<close>, \<^verbatim>\<open>restart\<close> and \<^verbatim>\<open>stop\<close> are made of.\<close>

lemma enter_inv:
  fixes s :: "'c timer_pool" and tm :: "'c timer_obj"
  assumes s: "distinct (tp_active s)" "\<And>u. u \<in> set (tp_active s) \<Longrightarrow> u \<noteq> t \<and> started s u" "\<And>u. \<lbrakk>started s u; u \<noteq> t\<rbrakk> \<Longrightarrow> u \<in> set (tp_active s) \<or> u \<in> lost"
    and late: "never_late s" and att: "attentive s" and ph: "tp_phase s \<noteq> Checked"
  defines "s' \<equiv> mark_started True t (addTimer t (set_timer t tm s))"
  shows "pool_inv lost s'"
proof -
  have "started s' = (started s)(t := True)"
    unfolding s'_def by (subst started_mark_started) (auto simp: fun_eq_iff)
  moreover have act: "tp_active s' = tp_active s @ [t]" "tp_wake s' = tp_wake s"
    "wake_of s' = (wake_of s)(t := t_wake tm)"
    "tp_update s' \<longleftrightarrow> tp_update s \<or> t_wake tm < tp_wake s"
    by (simp_all add: s'_def)
  ultimately have "active_ok lost s'"
    using s by (auto simp: active_ok_def)
  moreover have "never_late s'"
    using late s(2) by (auto simp: never_late_def act)
  moreover have "attentive s'"
    using att ph by (auto simp: attentive_def s'_def addTimer_phase)
  ultimately show ?thesis
    by (simp add: pool_inv_def)
qed

lemma leave_inv:
  assumes inv: "pool_inv lost s" and ph: "tp_phase s \<noteq> Checked" and rm: "removeTimer t s = Some s'"
  shows "distinct (tp_active s')" "never_late s'" "attentive s'" "tp_phase s' \<noteq> Checked"
    "u \<in> set (tp_active s') \<Longrightarrow> u \<noteq> t \<and> started s u" "\<lbrakk>started s u; u \<noteq> t\<rbrakk> \<Longrightarrow> u \<in> set (tp_active s') \<or> u \<in> lost"
  using inv ph
  by (auto simp: removeTimer_fields [OF rm] pool_inv_defs distinct_removeAll)

lemma start_inv:
  assumes "pool_inv lost s" "tp_phase s \<noteq> Checked" "timer_start now i ss im t s = Some (r, s')"
  shows "pool_inv lost s'"
proof (cases "tp_heap s t")
  case (Some tm)
  show ?thesis
  proof (cases "t_started tm")
    case False
    then have "\<not> started s t"
      using Some by (simp add: started_def)
    then have "pool_inv lost (mark_started True t (addTimer t (set_timer t (configure now i ss im tm) s)))"
      using assms(1,2) by (intro enter_inv) (auto simp: pool_inv_def active_ok_def)
    then show ?thesis
      using assms(3) Some False by (simp add: timer_start_def)
  qed (use assms Some in \<open>auto simp: timer_start_def\<close>)
qed (use assms in \<open>simp add: timer_start_def\<close>)

lemma restart_inv:
  assumes "pool_inv lost s" "tp_phase s \<noteq> Checked" "timer_restart now i ss im t s = Some (r, s')"
  shows "pool_inv lost s'"
proof -
  obtain tm s1 where tm: "tp_heap s t = Some tm"
    and s1: "(if t_started tm then removeTimer t s else Some s) = Some s1"
    and s': "s' = mark_started True t (addTimer t (set_timer t (configure now i ss im tm) s1))"
    using assms(3) by (auto simp: timer_restart_def split: option.splits)
  have "distinct (tp_active s1) \<and> never_late s1 \<and> attentive s1 \<and> tp_phase s1 \<noteq> Checked \<and> started s1 = started s \<and>
    (\<forall>u \<in> set (tp_active s1). u \<noteq> t \<and> started s u) \<and> (\<forall>u. started s u \<and> u \<noteq> t \<longrightarrow> u \<in> set (tp_active s1) \<or> u \<in> lost)"
  proof (cases "t_started tm")
    case True
    then have "removeTimer t s = Some s1" using s1 by simp
    then show ?thesis
      using leave_inv [OF assms(1,2)] by (simp add: removeTimer_fields(10))
  next
    case False
    then have "\<not> started s t" "s1 = s" using s1 tm by (auto simp: started_def)
    then show ?thesis
      using assms(1,2) by (auto simp: pool_inv_def active_ok_def)
  qed
  then show ?thesis
    unfolding s' by (intro enter_inv) auto
qed

lemma stop_inv:
  assumes "pool_inv lost s" "tp_phase s \<noteq> Checked" "timer_stop t s = Some (r, s')"
  shows "pool_inv lost s' \<and> \<not> started s' t \<and> tp_phase s' \<noteq> Checked"
proof -
  obtain tm where tm: "tp_heap s t = Some tm"
    using assms(3) by (auto simp: timer_stop_def split: option.splits)
  show ?thesis
  proof (cases "t_started tm")
    case True
    then obtain s1 where s1: "removeTimer t s = Some s1" and s': "s' = mark_started False t s1"
      using assms(3) tm by (auto simp: timer_stop_def split: option.splits)
    have st: "started s' = (started s)(t := False)"
      using tm by (simp add: s' started_mark_started removeTimer_fields [OF s1])
    note l = leave_inv [OF assms(1,2) s1]
    have "tp_active s' = tp_active s1"
      by (simp add: s')
    then have "active_ok lost s'"
      unfolding active_ok_def st using l(1,5,6) by auto
    moreover have "never_late s'" "attentive s'" "tp_phase s' \<noteq> Checked"
      using l(2,3,4) by (auto simp: never_late_def attentive_def s')
    ultimately show ?thesis
      by (simp add: pool_inv_def st)
  next
    case False
    then show ?thesis
      using assms tm by (auto simp: timer_stop_def started_def)
  qed
qed

lemma destroy_inv:
  assumes "pool_inv lost s" "tp_phase s \<noteq> Checked" "destroy_timer t s = Some s'"
  shows "pool_inv lost s'"
proof -
  obtain r s1 where s1: "timer_stop t s = Some (r, s1)" and s': "s' = s1\<lparr>tp_heap := (tp_heap s1)(t := None)\<rparr>"
    using assms(3) by (auto simp: destroy_timer_def split: option.splits)
  have inv: "pool_inv lost s1" and n: "\<not> started s1 t" and "tp_phase s1 \<noteq> Checked"
    using stop_inv [OF assms(1,2) s1] by auto
  have "t \<notin> set (tp_active s1)"
    using inv n by (auto simp: pool_inv_def active_ok_def)
  moreover have "started s' = started s1"
    using n by (auto simp: s' started_def fun_eq_iff)
  moreover have "wake_of s' = (wake_of s1)(t := time_min)"
    by (auto simp: s' wake_of_def fun_eq_iff)
  ultimately show ?thesis
    using inv by (auto simp: s' pool_inv_defs)
qed

lemma callback_inv:
  assumes "pool_inv lost s" "setCallback cb t s = Some s'"
  shows "pool_inv lost s'"
proof -
  obtain tm where tm: "tp_heap s t = Some tm" and s': "s' = set_timer t (tm\<lparr>t_callback := cb\<rparr>) s"
    using assms(2) by (auto simp: setCallback_def split: option.splits)
  have "started s' = started s" "wake_of s' = wake_of s"
    using tm by (auto simp: s' started_def wake_of_def fun_eq_iff)
  then show ?thesis
    using assms(1) by (simp add: s' pool_inv_defs)
qed

lemma compute_inv:
  assumes "active_ok lost s" "p \<noteq> Sleeping" "p \<noteq> Checked"
  shows "pool_inv lost ((computeNextWakeupTimepoint now s)\<lparr>tp_update := b, tp_phase := p\<rparr>)"
    "pool_inv lost ((computeNextWakeupTimepoint now s)\<lparr>tp_phase := p\<rparr>)"
  using assms by (auto simp: pool_inv_defs compute_active
      intro: compute_wake_le)

lemma loop_check_inv: "pool_inv lost s \<Longrightarrow> pool_inv lost (loop_check now s)"
  using compute_inv(1) [where lost = lost and s = s and p = Looping and now = now and b = False]
  by (auto simp: loop_check_def loop_notified_def pool_inv_defs)

lemma fire_ok:
  assumes "active_ok lost s" "tp_active s = t # ts" "tp_heap s t = Some tm"
  shows "active_ok lost (fire_timer t tm s)"
proof -
  have "started s t"
    using assms by (simp add: active_ok_def)
  then show ?thesis
    using assms by (auto simp: active_ok_def fire_timer_def started_def)
qed

lemma loop_expired_eq:
  assumes "tp_active s = t # ts" "tp_heap s t = Some tm"
  shows "loop_expired now s = Some ((computeNextWakeupTimepoint now (fire_timer t tm s))
      \<lparr>tp_phase := (case t_callback tm of None \<Rightarrow> Crashed | Some _ \<Rightarrow> Calling t),
       tp_fired := tp_fired s @ (case t_callback tm of None \<Rightarrow> [] | Some cb \<Rightarrow> [cb])\<rparr>)"
  using assms by (simp add: loop_expired_def Let_def fire_timer_def split: option.split)

lemma pool_inv_fired [simp]: "pool_inv lost (s\<lparr>tp_fired := f\<rparr>) = pool_inv lost s"
  by (auto simp: pool_inv_defs)

lemma loop_expired_inv:
  assumes "pool_inv lost s" "loop_expired now s = Some s'"
  shows "pool_inv lost s'"
proof -
  obtain t ts tm where t: "tp_active s = t # ts" "tp_heap s t = Some tm"
    using assms(2) by (auto simp: loop_expired_def split: list.splits option.splits)
  have "pool_inv lost ((computeNextWakeupTimepoint now (fire_timer t tm s))
      \<lparr>tp_phase := (case t_callback tm of None \<Rightarrow> Crashed | Some _ \<Rightarrow> Calling t)\<rparr>)"
    using assms(1) t by (intro compute_inv fire_ok) (auto simp: pool_inv_def split: option.split)
  then show ?thesis
    using assms(2) by (auto simp: loop_expired_eq [OF t])
qed

lemma stop_each_inv:
  "\<lbrakk>pool_inv lost s; tp_phase s \<noteq> Checked; stop_each ts s = Some s'\<rbrakk> \<Longrightarrow> pool_inv lost s' \<and> tp_phase s' \<noteq> Checked"
proof (induction ts arbitrary: s)
  case (Cons t ts)
  then show ?case
    using stop_inv [OF Cons.prems(1,2)] by (auto split: option.splits)
qed simp

lemma timer_stop_started:
  assumes "timer_stop t s = Some (r, s')"
  shows "started s' = (started s)(t := False) \<and> r = started s t"
proof -
  obtain tm where "tp_heap s t = Some tm"
    using assms by (auto simp: timer_stop_def split: option.splits)
  then show ?thesis
    using assms by (auto simp: timer_stop_def started_def mark_started_def fun_eq_iff removeTimer_fields
        split: if_splits option.splits)
qed

lemma stop_each_started:
  "stop_each ts s = Some s' \<Longrightarrow> started s' u \<longleftrightarrow> started s u \<and> u \<notin> set ts"
proof (induction ts arbitrary: s)
  case (Cons t ts)
  then obtain r s1 where s1: "timer_stop t s = Some (r, s1)" "stop_each ts s1 = Some s'"
    by (auto split: option.splits)
  show ?case
    using Cons.IH [OF s1(2)] timer_stop_started [OF s1(1)] by auto
qed simp

text \<open>The clearing at the end of \<^verbatim>\<open>stopAllTimers\<close>; if no other thread comes in between, nothing is lost by it.\<close>

lemma clear_inv:
  assumes "pool_inv lost s" "tp_phase s \<noteq> Checked"
  shows "pool_inv (lost \<union> set (tp_active s)) (clear_active now s)"
  using assms by (auto simp: clear_active_def pool_inv_defs compute_active notify_pool_phase)

lemma stop_each_empties:
  assumes "pool_inv {} s" "tp_phase s \<noteq> Checked" "stop_each (tp_active s) s = Some s'"
  shows "tp_active s' = [] \<and> \<not> started s' u \<and> tp_phase s' \<noteq> Checked"
proof -
  have n: "\<not> started s' v" for v
    using stop_each_started [OF assms(3), of v] assms(1) by (auto simp: pool_inv_def active_ok_def)
  then have "set (tp_active s') = {}"
    using stop_each_inv [OF assms] by (auto simp: pool_inv_def active_ok_def)
  then show ?thesis using n stop_each_inv [OF assms] by simp
qed

lemma shutdown_inv: "pool_inv lost s \<Longrightarrow> pool_inv lost (stop_pool s)"
  by (auto simp: stop_pool_def pool_inv_defs notify_pool_phase)

lemma create_inv:
  assumes "pool_inv lost s" "tp_heap s t = None"
  shows "pool_inv lost (createTimer name t s)"
proof -
  have "\<not> started s t"
    using assms(2) by (simp add: started_def)
  then have "t \<notin> set (tp_active s)" "started (createTimer name t s) = started s"
    using assms(1) by (auto simp: pool_inv_def active_ok_def createTimer_def registerTimer_def new_timer_def fun_eq_iff)
  then show ?thesis
    using assms(1) by (auto simp: createTimer_def registerTimer_def pool_inv_defs)
qed

lemma pool_step_inv: "pool_step now s s' \<Longrightarrow> pool_inv lost s \<Longrightarrow> pool_inv lost s'"
proof (induction rule: pool_step.induct)
  case (loop_top s)
  then show ?case
    by (simp add: loop_top_def loop_check_inv)
       (auto simp: pool_inv_defs)
next
  case (timeout s s')
  then show ?case
    using loop_check_inv [of lost s now] by (auto simp: loop_timeout_def loop_check_def intro: loop_expired_inv split: if_splits)
next
  case (stop s t r s')
  then show ?case using stop_inv by blast
next
  case (returned s t)
  then show ?case by (auto simp: pool_inv_defs)
next
  case (block s)
  then show ?case by (auto simp: pool_inv_defs)
next
  case (spurious s)
  then show ?case by (auto simp: pool_inv_defs)
qed (auto intro: create_inv start_inv restart_inv callback_inv destroy_inv loop_check_inv)

lemma init_inv: "pool_inv {} (TimerPool now)"
  by (simp add: TimerPool_def pool_inv_defs started_def)

lemma run_inv: "pool_run lost s \<Longrightarrow> pool_inv lost s"
  by (induction rule: pool_run.induct) (auto intro: init_inv pool_step_inv clear_inv shutdown_inv)

text \<open>Only the destructor tells the thread to stop.\<close>

lemma step_keeps_stop: "pool_step now s s' \<Longrightarrow> tp_stop s' = tp_stop s"
  by (induction rule: pool_step.induct)
     (auto simp: createTimer_def registerTimer_def timer_start_def timer_restart_def timer_stop_def setCallback_def destroy_timer_def
        loop_top_def loop_check_def loop_notified_def loop_timeout_def loop_expired_def fire_timer_def Let_def removeTimer_fields
        split: option.splits if_splits list.splits)

section \<open>When the pool wakes up on time\<close>

text \<open>
  The pool is exact if it will wake up when the first timer of its list is due. It is not exact
  after a timer has been started in a pool without active timers whose hundred days end before
  the timer is due: \<^verbatim>\<open>addTimer\<close> compares with the end of the idle period.
\<close>

definition exact :: "'c timer_pool \<Rightarrow> bool" where
  "exact s \<longleftrightarrow> tp_update s \<or> tp_active s = [] \<or> tp_wake s = wake_of s (hd (tp_active s))"

definition late_alarm :: "'c timer_pool \<Rightarrow> bool" where
  "late_alarm s = (case tp_active s of [t] \<Rightarrow> \<not> tp_update s \<and> tp_wake s < wake_of s t | _ \<Rightarrow> False)"

inductive timely_reach :: "'c timer_pool \<Rightarrow> bool" where
  init: "timely_reach (TimerPool now)"
| step: "\<lbrakk>timely_reach s; pool_step now s s'; \<not> late_alarm s'\<rbrakk> \<Longrightarrow> timely_reach s'"
| clear: "\<lbrakk>timely_reach s; tp_phase s \<noteq> Checked\<rbrakk> \<Longrightarrow> timely_reach (clear_active now s)"

lemma timely_is_run: "timely_reach s \<Longrightarrow> \<exists>lost. pool_run lost s"
  by (induction rule: timely_reach.induct) (blast intro: pool_run.intros)+

lemma timely_not_stopped: "timely_reach s \<Longrightarrow> \<not> tp_stop s"
  by (induction rule: timely_reach.induct) (simp_all add: TimerPool_def step_keeps_stop clear_active_def)

lemma enter_exact:
  assumes "exact s" "t \<notin> set (tp_active s)"
  shows "exact (mark_started True t (addTimer t (set_timer t tm s))) \<or>
         late_alarm (mark_started True t (addTimer t (set_timer t tm s)))"
  using assms by (cases "tp_active s") (auto simp: exact_def late_alarm_def)

lemma leave_exact:
  assumes "exact s" "removeTimer t s = Some s'"
  shows "exact s'"
  using assms by (cases "tp_active s") (auto simp: exact_def removeTimer_fields [OF assms(2)])

lemma stop_exact:
  assumes "exact s" "timer_stop t s = Some (r, s')"
  shows "exact s'"
proof -
  have "exact (mark_started False t s1) = exact s1" for s1 :: "'a timer_pool"
    by (simp add: exact_def)
  then show ?thesis
    using assms leave_exact [OF assms(1)] by (auto simp: timer_stop_def split: option.splits if_splits)
qed

lemma compute_exact: "exact (computeNextWakeupTimepoint now s)"
  by (cases "tp_active s = []") (simp_all add: exact_def compute_active compute_wake)

lemma exact_upd [simp]:
  "exact (s\<lparr>tp_phase := p\<rparr>) = exact s" "exact (s\<lparr>tp_fired := f\<rparr>) = exact s"
  by (simp_all add: exact_def)

lemma loop_notified_exact: "exact s \<Longrightarrow> exact (loop_notified now s)"
  using compute_exact [of now s] by (auto simp: loop_notified_def exact_def compute_active compute_wake)

lemma step_exact:
  assumes "pool_step now s s'" "pool_inv lost s" "exact s"
  shows "exact s' \<or> late_alarm s'"
  using assms
proof (induction rule: pool_step.induct)
  case (create s t name)
  then have "t \<notin> set (tp_active s)"
    by (auto simp: pool_inv_def active_ok_def started_def)
  then show ?case
    using create.prems by (cases "tp_active s") (auto simp: exact_def createTimer_def registerTimer_def)
next
  case (start s i ss im t r s')
  then have "started s t \<or> t \<notin> set (tp_active s)"
    by (auto simp: pool_inv_def active_ok_def)
  then show ?case
    using start.hyps start.prems enter_exact [OF start.prems(2)]
    by (auto simp: timer_start_def started_def split: option.splits if_splits)
next
  case (restart s i ss im t r s')
  then obtain tm s1 where tm: "tp_heap s t = Some tm"
    and s1: "(if t_started tm then removeTimer t s else Some s) = Some s1"
    and s': "s' = mark_started True t (addTimer t (set_timer t (configure now i ss im tm) s1))"
    by (auto simp: timer_restart_def split: option.splits)
  have "exact s1" "t \<notin> set (tp_active s1)"
    using restart.prems s1 tm
    by (auto simp: pool_inv_def active_ok_def started_def removeTimer_fields intro: leave_exact split: if_splits)
  then show ?case
    unfolding s' by (rule enter_exact)
next
  case (stop s t r s')
  then show ?case using stop_exact by blast
next
  case (callback s cb t s')
  then obtain tm where "tp_heap s t = Some tm" "s' = set_timer t (tm\<lparr>t_callback := cb\<rparr>) s"
    by (auto simp: setCallback_def split: option.splits)
  then show ?case
    using callback.prems(2) by (auto simp: exact_def wake_of_def)
next
  case (destroy s t s')
  then obtain r s1 where s1: "timer_stop t s = Some (r, s1)" "s' = s1\<lparr>tp_heap := (tp_heap s1)(t := None)\<rparr>"
    by (auto simp: destroy_timer_def split: option.splits)
  then have "\<not> started s1 t" "pool_inv lost s1"
    using stop_inv [OF destroy.prems(1) destroy.hyps(1)] by auto
  then have "t \<notin> set (tp_active s1)"
    by (auto simp: pool_inv_def active_ok_def)
  then show ?case
    using stop_exact [OF destroy.prems(2) s1(1)] s1(2)
    by (cases "tp_active s1") (auto simp: exact_def wake_of_def)
next
  case (timeout s s')
  then show ?case
    using compute_exact by (auto simp: loop_timeout_def loop_expired_def Let_def loop_notified_exact
        split: if_splits list.splits option.splits)
qed (auto simp: loop_top_def loop_check_def loop_notified_exact)

lemma timely_exact: "timely_reach s \<Longrightarrow> exact s"
proof (induction rule: timely_reach.induct)
  case (init now)
  then show ?case by (simp add: TimerPool_def exact_def)
next
  case (step s now s')
  then show ?case
    using step_exact run_inv timely_is_run by blast
next
  case (clear s now)
  then show ?case by (simp add: exact_def clear_active_def)
qed

text \<open>The head of the list is the timer that is due first: the list is only appended to while it is not sorted again.\<close>

lemma head_is_min:
  assumes "pool_inv lost s" "exact s" "\<not> tp_update s" "tp_active s = t # ts"
  shows "wake_of s t = tp_wake s" "\<forall>u \<in> set (tp_active s). wake_of s t \<le> wake_of s u"
  using assms by (auto simp: pool_inv_def never_late_def exact_def)

section \<open>Properties of the timer pool\<close>

text \<open>
  A run for the examples: a periodic timer of five milliseconds is created, gets a callback and is
  started at time zero; the thread takes note of it and goes to sleep.
\<close>

definition demo_started :: "nat timer_pool" where
  "demo_started = snd (the (timer_start 0 5 False False 7 (the (setCallback (Some 1) 7 (createTimer ''hb'' 7 (TimerPool 0))))))"

definition demo_asleep :: "nat timer_pool" where
  "demo_asleep = (loop_top 0 (loop_top 0 demo_started))\<lparr>tp_phase := Sleeping\<rparr>"

lemmas demo_simps = demo_started_def demo_asleep_def TimerPool_def createTimer_def registerTimer_def set_timer_def
  new_timer_def setCallback_def timer_start_def configure_def addTimer_def wake_of_def ns_of_ms_def idle_period_def
  notify_pool_def mark_started_def loop_top_def loop_check_def loop_notified_def computeNextWakeupTimepoint_def Let_def

lemma demo_timely: "timely_reach demo_asleep"
proof -
  let ?s1 = "createTimer ''hb'' 7 (TimerPool 0) :: nat timer_pool"
  let ?s2 = "the (setCallback (Some 1) 7 ?s1)"
  have 1: "timely_reach ?s1"
    by (rule timely_reach.step [OF timely_reach.init [of 0] pool_step.create [of _ 7 0]])
       (simp_all add: demo_simps late_alarm_def)
  have 2: "timely_reach ?s2"
    by (rule timely_reach.step [OF 1 pool_step.callback [of _ "Some 1" 7 _ 0]]) (simp_all add: demo_simps late_alarm_def)
  have 3: "timely_reach demo_started"
    by (rule timely_reach.step [OF 2 pool_step.start [of _ 0 5 False False 7 True]]) (simp_all add: demo_simps late_alarm_def)
  have 4: "timely_reach (loop_top 0 demo_started)"
    by (rule timely_reach.step [OF 3 pool_step.loop_top [of _ 0]]) (simp_all add: demo_simps late_alarm_def)
  have 5: "timely_reach (loop_top 0 (loop_top 0 demo_started))"
    by (rule timely_reach.step [OF 4 pool_step.loop_top [of _ 0]]) (simp_all add: demo_simps late_alarm_def)
  show ?thesis
    unfolding demo_asleep_def
    by (rule timely_reach.step [OF 5 pool_step.block [of _ 0]]) (simp_all add: demo_simps late_alarm_def)
qed

text \<open>
  C19. Whatever the threads do, and in whatever order, until the pool is gone: the active list holds started timers only, each of them once, and
  all the started ones except those that were in the list when a \<^verbatim>\<open>stopAllTimers\<close> cleared it; the pool never plans to wake up after an active timer is due
  unless it has been told to compute its wake-up time again; and it neither sleeps nor goes to sleep while it has been told so.
  (Callbacks use the pool only while no other thread does.)
\<close>

theorem timer_pool_invariant:
  assumes "pool_run lost s"
  shows "distinct (tp_active s) \<and> (\<forall>t. (t \<in> set (tp_active s) \<longrightarrow> started s t) \<and> (started s t \<longrightarrow> t \<in> set (tp_active s) \<union> lost)) \<and>
         (if tp_update s then tp_phase s \<noteq> Sleeping \<and> tp_phase s \<noteq> Checked
          else list_all (\<lambda>t. tp_wake s \<le> wake_of s t) (tp_active s))"
  using run_inv [OF assms] by (auto simp: pool_inv_defs list_all_iff)

theorem timer_pool_invariant_witness:
  "\<exists>lost. pool_run lost demo_asleep \<and> tp_active demo_asleep = [7] \<and> started demo_asleep 7 \<and> tp_phase demo_asleep = Sleeping \<and>
     tp_wake demo_asleep \<le> wake_of demo_asleep 7"
proof -
  obtain lost where r: "pool_run lost demo_asleep" using timely_is_run [OF demo_timely] by blast
  moreover have "tp_active demo_asleep = [7]" "tp_phase demo_asleep = Sleeping"
    by (simp_all add: demo_simps)
  ultimately show ?thesis
    using timer_pool_invariant [OF r] by (intro exI [of _ lost]) (auto split: if_splits)
qed

text \<open>
  An active timer is served in time. While the thread sleeps, has not been told to stop, and an active timer is due, the
  wait has timed out, the step that follows it is defined, and it serves the first timer of the
  list: it runs its callback, or ends the process if the timer has none.
\<close>

theorem due_timer_is_served:
  assumes "pool_run lost s" "tp_phase s = Sleeping" "\<not> tp_stop s" "t \<in> set (tp_active s)" "wake_of s t \<le> now"
  shows "tp_wake s \<le> now \<and>
    (\<exists>s' h tm. loop_timeout now s = Some s' \<and> h = hd (tp_active s) \<and> tp_heap s h = Some tm \<and> t_started tm \<and>
       (case t_callback tm of None \<Rightarrow> tp_phase s' = Crashed
        | Some cb \<Rightarrow> tp_phase s' = Calling h \<and> tp_fired s' = tp_fired s @ [cb]))"
proof -
  have inv: "pool_inv lost s" by (rule run_inv [OF assms(1)])
  then have quiet: "\<not> tp_update s"
    using assms(2) by (auto simp: pool_inv_defs)
  then have "tp_wake s \<le> wake_of s t"
    using inv assms(4) by (auto simp: pool_inv_def never_late_def)
  then have "tp_wake s \<le> now"
    using assms(5) by simp
  moreover obtain h hs where act: "tp_active s = h # hs"
    using assms(4) by (cases "tp_active s") auto
  moreover have "started s h"
    using inv act by (auto simp: pool_inv_def active_ok_def)
  then obtain tm where "tp_heap s h = Some tm" "t_started tm"
    by (auto simp: started_def split: option.splits)
  ultimately show ?thesis
    using quiet assms(3) by (simp add: loop_timeout_def loop_expired_eq split: option.split)
qed

theorem due_timer_is_served_witness: "tp_wake demo_asleep \<le> 5000000 \<and> \<not> tp_wake demo_asleep \<le> 4999999"
proof -
  have "7 \<in> set (tp_active demo_asleep)" "wake_of demo_asleep 7 \<le> 5000000" "tp_phase demo_asleep = Sleeping" "\<not> tp_stop demo_asleep"
    by (simp_all add: demo_simps)
  moreover obtain lost where "pool_run lost demo_asleep" using timely_is_run [OF demo_timely] by blast
  ultimately show ?thesis
    using due_timer_is_served by (simp add: demo_simps)
qed

text \<open>
  C20. Timers fire in the order of their deadlines, and never before them, in every run in which no
  timer is started into an idle pool beyond the end of the idle period. The timer that is served
  when the wait times out is started, is due, and no active timer is due before it. A
  single-shot timer is stopped; a periodic one stays started and its next deadline is one interval
  after this one, however late it was served. No other timer changes.
\<close>

theorem pool_fires_earliest:
  assumes "timely_reach s" "tp_phase s = Sleeping" "tp_wake s \<le> now" "tp_active s \<noteq> []"
  shows "\<exists>s' t tm. loop_timeout now s = Some s' \<and> tp_heap s t = Some tm \<and> t_started tm \<and> t_wake tm \<le> now \<and>
    list_all (\<lambda>u. t_wake tm \<le> wake_of s u) (tp_active s) \<and>
    tp_heap s' = (tp_heap s)(t := Some (if t_single_shot tm then tm\<lparr>t_started := False\<rparr>
                                       else tm\<lparr>t_wake := t_wake tm + ns_of_ms (t_interval tm)\<rparr>)) \<and>
    mset (tp_active s') = (if t_single_shot tm then mset (tp_active s) - {#t#} else mset (tp_active s)) \<and>
    exact s'"
proof -
  obtain lost where inv: "pool_inv lost s" and ex: "exact s"
    using timely_is_run [OF assms(1)] run_inv timely_exact [OF assms(1)] by blast
  then have quiet: "\<not> tp_update s" "\<not> tp_stop s"
    using assms(2) timely_not_stopped [OF assms(1)] by (auto simp: pool_inv_defs)
  obtain t ts where act: "tp_active s = t # ts"
    using assms(4) by (cases "tp_active s") auto
  then have "started s t"
    using inv by (auto simp: pool_inv_def active_ok_def)
  then obtain tm where tm: "tp_heap s t = Some tm" "t_started tm"
    by (auto simp: started_def split: option.splits)
  have w: "wake_of s t = t_wake tm"
    using tm by (simp add: wake_of_def)
  note m = head_is_min [OF inv ex quiet(1) act]
  show ?thesis
    using tm act assms(3) m quiet compute_exact w
    by (intro exI [of _ "the (loop_timeout now s)"] exI [of _ t] exI [of _ tm])
       (auto simp: loop_timeout_def loop_expired_eq list_all_iff fire_timer_def compute_active)
qed

theorem pool_fires_earliest_witness:
  "\<exists>s'. loop_timeout 6000000 demo_asleep = Some s' \<and> wake_of s' 7 = 10000000"
proof -
  have "tp_phase demo_asleep = Sleeping" "tp_wake demo_asleep \<le> 6000000" "tp_active demo_asleep \<noteq> []"
    by (simp_all add: demo_simps)
  from pool_fires_earliest [OF demo_timely this] obtain s' t tm where
    s': "loop_timeout 6000000 demo_asleep = Some s'" "tp_heap demo_asleep t = Some tm"
    "tp_heap s' = (tp_heap demo_asleep)(t := Some (if t_single_shot tm then tm\<lparr>t_started := False\<rparr>
                                       else tm\<lparr>t_wake := t_wake tm + ns_of_ms (t_interval tm)\<rparr>))"
    by blast
  have "t = 7" "t_wake tm = 5000000" "t_interval tm = 5" "\<not> t_single_shot tm"
    using s'(2) by (auto simp: demo_simps split: if_splits)
  then show ?thesis
    using s'(1,3) by (simp add: wake_of_def ns_of_ms_def)
qed

text \<open>
  Stopping all timers, while no timer is lost and no other thread comes in between, leaves no timer started and the list
  empty, loses none, and tells the thread to compute again.
\<close>

lemma timer_stop_defined:
  assumes "pool_inv {} s" "tp_heap s t \<noteq> None"
  shows "\<exists>r s'. timer_stop t s = Some (r, s') \<and> (\<forall>u. tp_heap s' u = None \<longleftrightarrow> tp_heap s u = None)"
proof -
  obtain tm where tm: "tp_heap s t = Some tm" using assms(2) by auto
  have "tp_active s \<noteq> []" if "t_started tm"
  proof -
    have "started s t" using tm that by (simp add: started_def)
    then have "t \<in> set (tp_active s)" using assms(1) by (auto simp: pool_inv_def active_ok_def)
    then show ?thesis by auto
  qed
  then show ?thesis
    using tm by (cases "tp_active s") (auto simp: timer_stop_def removeTimer_def Let_def mark_started_def)
qed

lemma stop_each_defined:
  "\<lbrakk>pool_inv {} s; tp_phase s \<noteq> Checked; \<forall>t \<in> set ts. tp_heap s t \<noteq> None\<rbrakk> \<Longrightarrow> \<exists>s'. stop_each ts s = Some s'"
proof (induction ts arbitrary: s)
  case (Cons t ts)
  have "tp_heap s t \<noteq> None" using Cons.prems(3) by simp
  then obtain r s1 where s1: "timer_stop t s = Some (r, s1)" "\<forall>u. tp_heap s1 u = None \<longleftrightarrow> tp_heap s u = None"
    using timer_stop_defined [OF Cons.prems(1)] by blast
  moreover have "\<exists>s'. stop_each ts s1 = Some s'"
    using stop_inv [OF Cons.prems(1,2) s1(1)] Cons.prems(3) s1(2) by (intro Cons.IH) simp_all
  ultimately show ?case by simp
qed simp

lemma stop_each_run:
  "\<lbrakk>pool_run lost s; tp_phase s \<noteq> Checked; stop_each ts s = Some s'\<rbrakk> \<Longrightarrow> pool_run lost s'"
proof (induction ts arbitrary: s)
  case (Cons t ts)
  then obtain r s1 where s1: "timer_stop t s = Some (r, s1)" "stop_each ts s1 = Some s'"
    by (auto split: option.splits)
  have "pool_run lost s1" by (rule pool_run.step [OF Cons.prems(1) pool_step.stop [OF Cons.prems(2) s1(1)]])
  moreover have "tp_phase s1 \<noteq> Checked" using stop_inv [OF run_inv [OF Cons.prems(1)] Cons.prems(2) s1(1)] by simp
  ultimately show ?case using Cons.IH s1(2) by blast
qed simp

theorem stop_all_stops:
  assumes "pool_run {} s" "tp_phase s \<noteq> Checked"
  shows "\<exists>s'. stopAllTimers now s = Some s' \<and> tp_active s' = [] \<and> (\<forall>t. \<not> started s' t) \<and> pool_run {} s'"
proof -
  have inv: "pool_inv {} s" by (rule run_inv [OF assms(1)])
  have "tp_heap s t \<noteq> None" if "t \<in> set (tp_active s)" for t
  proof -
    have "started s t" using inv that by (simp add: pool_inv_def active_ok_def)
    then show ?thesis by (auto simp: started_def split: option.splits)
  qed
  then have "\<forall>t \<in> set (tp_active s). tp_heap s t \<noteq> None" by blast
  from stop_each_defined [OF inv assms(2) this] obtain s1 where s1: "stop_each (tp_active s) s = Some s1" by blast
  note e = stop_each_empties [OF inv assms(2) s1]
  have r: "pool_run {} (clear_active now s1)"
    using pool_run.clear [OF stop_each_run [OF assms s1], of now] e by simp
  have "stopAllTimers now s = Some (clear_active now s1)" by (simp add: stopAllTimers_def s1)
  then show ?thesis using e r by (simp add: clear_active_def compute_active)
qed

section \<open>Where the pool goes wrong\<close>

text \<open>
  After a hundred days without an active timer the wait times out and the thread reads the first
  element of an empty list.
\<close>

theorem idle_pool_undefined: "loop_timeout (now + idle_period) ((TimerPool now)\<lparr>tp_phase := Sleeping\<rparr>) = None"
  by (simp add: loop_timeout_def loop_expired_def TimerPool_def)

text \<open>
  A timer of one second that is started half a second before the idle period ends is served half a
  second early: the thread is not told about it.
\<close>

definition idle_99 :: "nat timer_pool" where
  "idle_99 = (the (setCallback (Some 1) 7 (createTimer ''hb'' 7 (TimerPool 0))))\<lparr>tp_phase := Sleeping\<rparr>"

theorem late_start_fires_early:
  "\<exists>s. timer_start (idle_period - 500000000) 1000 True False 7 idle_99 = Some (True, s) \<and>
     tp_phase s = Sleeping \<and> wake_of s 7 = idle_period + 500000000 \<and>
     (\<exists>s'. tp_wake s \<le> idle_period \<and> loop_timeout idle_period s = Some s' \<and> tp_fired s' = [1])"
  by (simp add: idle_99_def demo_simps loop_timeout_def loop_expired_def fire_timer_def)

text \<open>
  The destructor notifies without the mutex. If the thread has evaluated its predicate and is not
  waiting yet, the notification is lost: the thread sleeps although it has been told to stop.
\<close>

theorem stop_pool_lost_wakeup:
  "tp_phase s = Checked \<Longrightarrow>
   pool_step now (stop_pool s) (s\<lparr>tp_stop := True, tp_phase := Sleeping\<rparr>)"
  using pool_step.block [of "stop_pool s" now] by (simp add: stop_pool_def notify_pool_def)

text \<open>
  A timer that another thread starts between the copy of the active list and its clearing stays
  marked as started without being active: it never fires, a further \<^verbatim>\<open>start\<close> refuses it and
  \<^verbatim>\<open>stop\<close> reads the front of an empty list.
\<close>

definition raced :: "nat timer_pool" where
  "raced = clear_active 0 (snd (the (timer_start 0 5 False False 7 (createTimer ''hb'' 7 (TimerPool 0)))))"

theorem stop_all_race:
  "started raced 7 \<and> tp_active raced = [] \<and> timer_start n 5 False False 7 raced = Some (False, raced) \<and>
   timer_stop 7 raced = None"
  by (simp add: raced_def clear_active_def demo_simps started_def timer_stop_def removeTimer_def)

lemma raced_run: "pool_run {7} raced"
proof -
  let ?s1 = "createTimer ''hb'' 7 (TimerPool 0) :: nat timer_pool"
  have 1: "pool_run {} ?s1"
    by (rule pool_run.step [OF pool_run.init [of 0] pool_step.create [of _ 7 0]]) (simp_all add: demo_simps)
  obtain s2 where s2: "timer_start 0 5 False False 7 ?s1 = Some (True, s2)" "tp_phase s2 = Looping" "tp_active s2 = [7]"
    by (simp add: demo_simps)
  have 2: "pool_run {} s2" by (rule pool_run.step [OF 1 pool_step.start [OF _ s2(1)]]) (simp add: demo_simps)
  from pool_run.clear [OF 2, of 0] s2 show ?thesis by (simp add: raced_def)
qed

text \<open>A destroyed timer stays registered, so that looking up any later name reads freed memory.\<close>

theorem destroyed_timer_stays_registered:
  "getTimer ''other'' (the (destroy_timer 7 (createTimer ''hb'' 7 (TimerPool now :: nat timer_pool)))) = None"
  by (simp add: getTimer_def destroy_timer_def timer_stop_def demo_simps)

end
