(* ===== verification/Bidirectional_Map.thy ===== *)
theory Bidirectional_Map
  imports Prelude
begin

text \<open>
  The two-way map between enumeration values and their names on the wire
  (\<^verbatim>\<open>src/src/ocpp/common/BidirectionalMap.h\<close>). The two \<^verbatim>\<open>std::map\<close> members are finite maps; an
  exception is the left summand of the result, with the value its message quotes.
\<close>

section \<open>The class\<close>

datatype 'e bimap_error =
  DuplicateString string 'e
| DuplicateEnum 'e string
| InvalidString string
| InvalidEnum 'e

record 'e bimap =
  strToEnumMap :: "string \<Rightarrow> 'e option"
  enumToStrMap :: "'e \<Rightarrow> string option"

definition empty_bimap :: "'e bimap" where
  "empty_bimap = \<lparr>strToEnumMap = (\<lambda>_. None), enumToStrMap = (\<lambda>_. None)\<rparr>"

text \<open>The constructor: a repeated name is reported before a repeated value.\<close>

fun insert_pairs :: "(string \<times> 'e) list \<Rightarrow> 'e bimap \<Rightarrow> 'e bimap_error + 'e bimap" where
  "insert_pairs [] m = Inr m"
| "insert_pairs ((k, v) # ps) m =
     (if strToEnumMap m k \<noteq> None then Inl (DuplicateString k v)
      else if enumToStrMap m v \<noteq> None then Inl (DuplicateEnum v k)
      else insert_pairs ps (m\<lparr>strToEnumMap := (strToEnumMap m)(k \<mapsto> v), enumToStrMap := (enumToStrMap m)(v \<mapsto> k)\<rparr>))"

definition BidirectionalMap :: "(string \<times> 'e) list \<Rightarrow> 'e bimap_error + 'e bimap" where
  "BidirectionalMap ps = insert_pairs ps empty_bimap"

definition toEnum :: "'e bimap \<Rightarrow> string \<Rightarrow> 'e bimap_error + 'e" where
  "toEnum m k = (case strToEnumMap m k of Some v \<Rightarrow> Inr v | None \<Rightarrow> Inl (InvalidString k))"

definition toString :: "'e bimap \<Rightarrow> 'e \<Rightarrow> 'e bimap_error + string" where
  "toString m v = (case enumToStrMap m v of Some k \<Rightarrow> Inr k | None \<Rightarrow> Inl (InvalidEnum v))"

definition toEnum_default :: "'e bimap \<Rightarrow> string \<Rightarrow> 'e \<Rightarrow> 'e" where
  "toEnum_default m k d = (case strToEnumMap m k of Some v \<Rightarrow> v | None \<Rightarrow> d)"

definition toString_default :: "'e bimap \<Rightarrow> 'e \<Rightarrow> string \<Rightarrow> string" where
  "toString_default m v d = (case enumToStrMap m v of Some k \<Rightarrow> k | None \<Rightarrow> d)"

definition containsString :: "'e bimap \<Rightarrow> string \<Rightarrow> bool" where
  "containsString m k \<longleftrightarrow> strToEnumMap m k \<noteq> None"

definition containsEnum :: "'e bimap \<Rightarrow> 'e \<Rightarrow> bool" where
  "containsEnum m v \<longleftrightarrow> enumToStrMap m v \<noteq> None"

section \<open>What the constructor builds\<close>

definition flip :: "'a \<times> 'b \<Rightarrow> 'b \<times> 'a" where
  "flip p = (snd p, fst p)"

lemma map_fst_flip [simp]: "map fst (map flip ps) = map snd ps" "fst \<circ> flip = snd"
  by (simp_all add: flip_def comp_def)

lemma insert_pairs_ok:
  "\<lbrakk>distinct (map fst ps); distinct (map snd ps);
    \<forall>k \<in> set (map fst ps). strToEnumMap m k = None; \<forall>v \<in> set (map snd ps). enumToStrMap m v = None\<rbrakk> \<Longrightarrow>
   insert_pairs ps m = Inr \<lparr>strToEnumMap = strToEnumMap m ++ map_of ps, enumToStrMap = enumToStrMap m ++ map_of (map flip ps)\<rparr>"
proof (induction ps arbitrary: m)
  case (Cons p ps)
  obtain k v where p: "p = (k, v)" by (cases p)
  let ?m = "m\<lparr>strToEnumMap := (strToEnumMap m)(k \<mapsto> v), enumToStrMap := (enumToStrMap m)(v \<mapsto> k)\<rparr>"
  have kv: "k \<notin> fst ` set ps" "v \<notin> snd ` set ps"
    using Cons.prems(1,2) by (simp_all add: p)
  have "insert_pairs (p # ps) m = insert_pairs ps ?m"
    using Cons.prems(3,4) by (simp add: p)
  also have "\<dots> = Inr \<lparr>strToEnumMap = strToEnumMap ?m ++ map_of ps, enumToStrMap = enumToStrMap ?m ++ map_of (map flip ps)\<rparr>"
    using Cons.prems kv by (intro Cons.IH) (auto simp: p)
  also have "strToEnumMap ?m ++ map_of ps = strToEnumMap m ++ map_of (p # ps)"
    using kv(1) by (simp add: p map_add_upd_left dom_map_of_conv_image_fst)
  also have "enumToStrMap ?m ++ map_of (map flip ps) = enumToStrMap m ++ map_of (map flip (p # ps))"
    using kv(2) by (simp add: p map_add_upd_left dom_map_of_conv_image_fst image_image flip_def)
  finally show ?case .
qed (simp add: map_add_def)

lemma insert_pairs_fail:
  "insert_pairs ps m = Inr m' \<Longrightarrow> distinct (map fst ps) \<and> distinct (map snd ps) \<and>
     (\<forall>k \<in> set (map fst ps). strToEnumMap m k = None) \<and> (\<forall>v \<in> set (map snd ps). enumToStrMap m v = None)"
proof (induction ps arbitrary: m)
  case (Cons p ps)
  obtain k v where p: "p = (k, v)" by (cases p)
  have new: "strToEnumMap m k = None" "enumToStrMap m v = None"
    using Cons.prems by (auto simp: p split: if_splits)
  let ?m = "m\<lparr>strToEnumMap := (strToEnumMap m)(k \<mapsto> v), enumToStrMap := (enumToStrMap m)(v \<mapsto> k)\<rparr>"
  have "insert_pairs ps ?m = Inr m'"
    using Cons.prems new by (simp add: p)
  from Cons.IH [OF this] show ?case
    using new by (auto simp: p split: if_splits)
qed simp

lemma BidirectionalMap_eq:
  "\<lbrakk>distinct (map fst ps); distinct (map snd ps)\<rbrakk> \<Longrightarrow>
   BidirectionalMap ps = Inr \<lparr>strToEnumMap = map_of ps, enumToStrMap = map_of (map flip ps)\<rparr>"
  by (simp add: BidirectionalMap_def insert_pairs_ok empty_bimap_def)

lemma map_of_flip:
  assumes "distinct (map snd ps)"
  shows "map_of (map flip ps) v = Some k \<longleftrightarrow> (k, v) \<in> set ps"
proof -
  have "map_of (map flip ps) v = Some k \<longleftrightarrow> (v, k) \<in> set (map flip ps)"
    using assms by (intro map_of_eq_Some_iff) (simp only: map_fst_flip)
  then show ?thesis by (force simp: flip_def)
qed

definition table_map :: "(string \<times> 'e) list \<Rightarrow> 'e bimap" where
  "table_map ps = \<lparr>strToEnumMap = map_of ps, enumToStrMap = map_of (map flip ps)\<rparr>"

section \<open>A table of pairs\<close>

text \<open>
  The contract of the tables that initialise the maps: no name and no value occurs twice. The
  lemmas are what every user of a map relies on.
\<close>

locale enum_table =
  fixes tbl :: "(string \<times> 'e) list"
  assumes names_distinct: "distinct (map fst tbl)"
    and values_distinct: "distinct (map snd tbl)"
begin

lemma builds: "BidirectionalMap tbl = Inr (table_map tbl)"
  by (simp add: BidirectionalMap_eq names_distinct values_distinct table_map_def)

lemma toEnum_iff: "toEnum (table_map tbl) k = Inr v \<longleftrightarrow> (k, v) \<in> set tbl"
  unfolding map_of_eq_Some_iff [OF names_distinct, symmetric] by (simp add: toEnum_def table_map_def split: option.split)

lemma toString_iff: "toString (table_map tbl) v = Inr k \<longleftrightarrow> (k, v) \<in> set tbl"
  unfolding map_of_flip [OF values_distinct, symmetric] by (simp add: toString_def table_map_def split: option.split)

lemma toString_toEnum: "toString (table_map tbl) v = Inr k \<longleftrightarrow> toEnum (table_map tbl) k = Inr v"
  by (simp add: toEnum_iff toString_iff)

lemma toString_fails: "v \<notin> snd ` set tbl \<Longrightarrow> toString (table_map tbl) v = Inl (InvalidEnum v)"
proof -
  assume "v \<notin> snd ` set tbl"
  then have "map_of (map flip tbl) v = None"
    by (simp add: map_of_eq_None_iff image_image flip_def)
  then show ?thesis by (simp add: toString_def table_map_def)
qed

lemma toString_complete: "v \<in> snd ` set tbl \<Longrightarrow> \<exists>k. toString (table_map tbl) v = Inr k \<and> toEnum (table_map tbl) k = Inr v"
  using toString_iff toEnum_iff by force

end

end
