(* ===== verification/Ocpp_Enums.thy ===== *)
theory Ocpp_Enums
  imports Bidirectional_Map
begin

text \<open>
  The enumerations of OCPP 1.6 and its security extension (\<^verbatim>\<open>src/src/ocpp/type/\<close>,
  \<^verbatim>\<open>src/src/ocpp/security-extension/SecurityDatatypes.h\<close>) and the tables of their names
  (\<^verbatim>\<open>src/src/ocpp/common/EnumStrMappings.h\<close>). Each enumeration is a datatype with the source's
  enumerators, each table the initialiser list of its \<^verbatim>\<open>BidirectionalMap\<close>, and each table is an
  instance of the locale of tables.
\<close>

section \<open>The enumerations\<close>

datatype (plugins only: code size) Reason =
  DeAuthorized | EmergencyStop | EVDisconnected | HardReset | Local | Other | PowerLoss | Reboot | Remote | SoftReset
  | UnlockCommand

datatype (plugins only: code size) ChargePointStatus =
  Available | Preparing | Charging | SuspendedEVSE | SuspendedEV | Finishing | Reserved | Unavailable | Faulted

datatype (plugins only: code size) AuthorizationStatus =
  Accepted | Blocked | Expired | Invalid | ConcurrentTx | Other

datatype (plugins only: code size) AvailabilityStatus =
  Accepted | Rejected | Scheduled

datatype (plugins only: code size) CancelReservationStatus =
  Accepted | Rejected

datatype (plugins only: code size) ChargingProfileStatus =
  Accepted | Rejected | NotSupported

datatype (plugins only: code size) ClearCacheStatus =
  Accepted | Rejected

datatype (plugins only: code size) ClearChargingProfileStatus =
  Accepted | Unknown

datatype (plugins only: code size) ConfigurationStatus =
  Accepted | Rejected | RebootRequired | NotSupported

datatype (plugins only: code size) DataTransferStatus =
  Accepted | Rejected | UnknownMessageId | UnknownVendorId

datatype (plugins only: code size) DiagnosticsStatus =
  Idle | Uploaded | UploadFailed | Uploading

datatype (plugins only: code size) FirmwareStatus =
  Downloaded | DownloadFailed | Downloading | Idle | InstallationFailed | Installing | Installed

datatype (plugins only: code size) GetCompositeScheduleStatus =
  Accepted | Rejected

datatype (plugins only: code size) RegistrationStatus =
  Accepted | Pending | Rejected

datatype (plugins only: code size) RemoteStartStopStatus =
  Accepted | Rejected

datatype (plugins only: code size) ReservationStatus =
  Accepted | Faulted | Occupied | Rejected | Unavailable

datatype (plugins only: code size) ResetStatus =
  Accepted | Rejected

datatype (plugins only: code size) TriggerMessageStatus =
  Accepted | Rejected | NotImplemented

datatype (plugins only: code size) UnlockStatus =
  Unlocked | UnlockFailed | NotSupported

datatype (plugins only: code size) UpdateStatus =
  Accepted | Failed | NotSupported | VersionMismatch

datatype (plugins only: code size) ResetType =
  Hard | Soft

datatype (plugins only: code size) MessageTriggerType =
  BootNotification | DiagnosticsStatusNotification | FirmwareStatusNotification | Heartbeat | MeterValues
  | StatusNotification

datatype (plugins only: code size) AvailabilityType =
  Inoperative | Operative

datatype (plugins only: code size) ChargePointErrorCode =
  ConnectorLockFailure | EVCommunicationError | GroundFailure | HighTemperature | InternalError | LocalListConflict
  | NoError | OtherError | OverCurrentFailure | OverVoltage | PowerMeterFailure | PowerSwitchFailure | ReaderFailure
  | ResetFailure | UnderVoltage | WeakSignal

datatype (plugins only: code size) CertificateUseEnumType =
  CentralSystemRootCertificate | ManufacturerRootCertificate

datatype (plugins only: code size) SecurityEventCode =
  FirmwareUpdated | FailedToAuthenticateAtCentralSystem | CentralSystemFailedToAuthenticate | SettingSystemTime
  | StartupOfTheDevice | ResetOrReboot | SecurityLogWasCleared | ReconfigurationOfSecurityParameters | MemoryExhaustion
  | InvalidMessages | AttemptedReplayAttacks | TamperDetectionActivated | InvalidFirmwareSignature
  | InvalidFirmwareSigningCertificate | InvalidCentralSystemCertificate | InvalidChargePointCertificate
  | InvalidTLSVersion | InvalidTLSCipherSuite

datatype (plugins only: code size) FirmwareStatusEnumType =
  Downloaded | DownloadFailed | Downloading | DownloadScheduled | DownloadPaused | Idle | InstallationFailed | Installing
  | Installed | InstallRebooting | InstallScheduled | InstallVerificationFailed | InvalidSignature | SignatureVerified

datatype (plugins only: code size) CertificateSignedStatusEnumType =
  Accepted | Rejected

datatype (plugins only: code size) DeleteCertificateStatusEnumType =
  Accepted | Failed | NotFound

datatype (plugins only: code size) GetInstalledCertificateStatusEnumType =
  Accepted | NotFound

datatype (plugins only: code size) HashAlgorithmEnumType =
  SHA256 | SHA384 | SHA512

datatype (plugins only: code size) LogEnumType =
  DiagnosticsLog | SecurityLog

datatype (plugins only: code size) LogStatusEnumType =
  Accepted | Rejected | AcceptedCanceled

datatype (plugins only: code size) CertificateStatusEnumType =
  Accepted | Failed | Rejected

datatype (plugins only: code size) UploadLogStatusEnumType =
  BadMessage | Idle | NotSupportedOperation | PermissionDenied | Uploaded | UploadFailure | Uploading

datatype (plugins only: code size) GenericStatusEnumType =
  Accepted | Rejected

datatype (plugins only: code size) UpdateFirmwareStatusEnumType =
  Accepted | Rejected | AcceptedCanceled | InvalidCertificate | RevokedCertificate

datatype (plugins only: code size) MessageTriggerEnumType =
  BootNotification | LogStatusNotification | FirmwareStatusNotification | Heartbeat | MeterValues
  | SignChargePointCertificate | StatusNotification

datatype (plugins only: code size) TriggerMessageStatusEnumType =
  Accepted | Rejected | NotImplemented

section \<open>The tables\<close>

definition reasonMap :: "(string \<times> Reason) list" where
  "reasonMap =
    [(''DeAuthorized'', Reason.DeAuthorized), (''EmergencyStop'', Reason.EmergencyStop)
     , (''EVDisconnected'', Reason.EVDisconnected), (''HardReset'', Reason.HardReset), (''Local'', Reason.Local)
     , (''Other'', Reason.Other), (''PowerLoss'', Reason.PowerLoss), (''Reboot'', Reason.Reboot), (''Remote'', Reason.Remote)
     , (''SoftReset'', Reason.SoftReset), (''UnlockCommand'', Reason.UnlockCommand)]"

definition chargePointStatusMap :: "(string \<times> ChargePointStatus) list" where
  "chargePointStatusMap =
    [(''Available'', ChargePointStatus.Available), (''Preparing'', ChargePointStatus.Preparing)
     , (''Charging'', ChargePointStatus.Charging), (''SuspendedEVSE'', ChargePointStatus.SuspendedEVSE)
     , (''SuspendedEV'', ChargePointStatus.SuspendedEV), (''Finishing'', ChargePointStatus.Finishing)
     , (''Reserved'', ChargePointStatus.Reserved), (''Unavailable'', ChargePointStatus.Unavailable)
     , (''Faulted'', ChargePointStatus.Faulted)]"

definition authorizationStatusMap :: "(string \<times> AuthorizationStatus) list" where
  "authorizationStatusMap =
    [(''Accepted'', AuthorizationStatus.Accepted), (''Blocked'', AuthorizationStatus.Blocked)
     , (''Expired'', AuthorizationStatus.Expired), (''Invalid'', AuthorizationStatus.Invalid)
     , (''ConcurrentTx'', AuthorizationStatus.ConcurrentTx), (''Other'', AuthorizationStatus.Other)]"

definition availabilityStatusMap :: "(string \<times> AvailabilityStatus) list" where
  "availabilityStatusMap =
    [(''Accepted'', AvailabilityStatus.Accepted), (''Rejected'', AvailabilityStatus.Rejected)
     , (''Scheduled'', AvailabilityStatus.Scheduled)]"

definition cancelReservationStatusMap :: "(string \<times> CancelReservationStatus) list" where
  "cancelReservationStatusMap =
    [(''Accepted'', CancelReservationStatus.Accepted), (''Rejected'', CancelReservationStatus.Rejected)]"

definition chargingProfileStatusMap :: "(string \<times> ChargingProfileStatus) list" where
  "chargingProfileStatusMap =
    [(''Accepted'', ChargingProfileStatus.Accepted), (''Rejected'', ChargingProfileStatus.Rejected)
     , (''NotSupported'', ChargingProfileStatus.NotSupported)]"

definition clearCacheStatusMap :: "(string \<times> ClearCacheStatus) list" where
  "clearCacheStatusMap =
    [(''Accepted'', ClearCacheStatus.Accepted), (''Rejected'', ClearCacheStatus.Rejected)]"

definition clearChargingProfileStatusMap :: "(string \<times> ClearChargingProfileStatus) list" where
  "clearChargingProfileStatusMap =
    [(''Accepted'', ClearChargingProfileStatus.Accepted), (''Unknown'', ClearChargingProfileStatus.Unknown)]"

definition configurationStatusMap :: "(string \<times> ConfigurationStatus) list" where
  "configurationStatusMap =
    [(''Accepted'', ConfigurationStatus.Accepted), (''Rejected'', ConfigurationStatus.Rejected)
     , (''RebootRequired'', ConfigurationStatus.RebootRequired), (''NotSupported'', ConfigurationStatus.NotSupported)]"

definition dataTransferStatusMap :: "(string \<times> DataTransferStatus) list" where
  "dataTransferStatusMap =
    [(''Accepted'', DataTransferStatus.Accepted), (''Rejected'', DataTransferStatus.Rejected)
     , (''UnknownMessageId'', DataTransferStatus.UnknownMessageId)]"

definition diagnosticsStatusMap :: "(string \<times> DiagnosticsStatus) list" where
  "diagnosticsStatusMap =
    [(''Idle'', DiagnosticsStatus.Idle), (''Uploaded'', DiagnosticsStatus.Uploaded)
     , (''UploadFailed'', DiagnosticsStatus.UploadFailed), (''Uploading'', DiagnosticsStatus.Uploading)]"

definition firmwareStatusMap :: "(string \<times> FirmwareStatus) list" where
  "firmwareStatusMap =
    [(''Downloaded'', FirmwareStatus.Downloaded), (''DownloadFailed'', FirmwareStatus.DownloadFailed)
     , (''Downloading'', FirmwareStatus.Downloading), (''Idle'', FirmwareStatus.Idle)
     , (''InstallationFailed'', FirmwareStatus.InstallationFailed), (''Installing'', FirmwareStatus.Installing)
     , (''Installed'', FirmwareStatus.Installed)]"

definition getCompositeScheduleStatusMap :: "(string \<times> GetCompositeScheduleStatus) list" where
  "getCompositeScheduleStatusMap =
    [(''Accepted'', GetCompositeScheduleStatus.Accepted), (''Rejected'', GetCompositeScheduleStatus.Rejected)]"

definition registrationStatusMap :: "(string \<times> RegistrationStatus) list" where
  "registrationStatusMap =
    [(''Accepted'', RegistrationStatus.Accepted), (''Pending'', RegistrationStatus.Pending)
     , (''Rejected'', RegistrationStatus.Rejected)]"

definition remoteStartStopStatusMap :: "(string \<times> RemoteStartStopStatus) list" where
  "remoteStartStopStatusMap =
    [(''Accepted'', RemoteStartStopStatus.Accepted), (''Rejected'', RemoteStartStopStatus.Rejected)]"

definition reservationStatusMap :: "(string \<times> ReservationStatus) list" where
  "reservationStatusMap =
    [(''Accepted'', ReservationStatus.Accepted), (''Faulted'', ReservationStatus.Faulted)
     , (''Occupied'', ReservationStatus.Occupied), (''Rejected'', ReservationStatus.Rejected)]"

definition resetStatusMap :: "(string \<times> ResetStatus) list" where
  "resetStatusMap =
    [(''Accepted'', ResetStatus.Accepted), (''Rejected'', ResetStatus.Rejected)]"

definition triggerMessageStatusMap :: "(string \<times> TriggerMessageStatus) list" where
  "triggerMessageStatusMap =
    [(''Accepted'', TriggerMessageStatus.Accepted), (''Rejected'', TriggerMessageStatus.Rejected)
     , (''NotImplemented'', TriggerMessageStatus.NotImplemented)]"

definition unlockStatusMap :: "(string \<times> UnlockStatus) list" where
  "unlockStatusMap =
    [(''Unlocked'', UnlockStatus.Unlocked), (''UnlockFailed'', UnlockStatus.UnlockFailed)
     , (''NotSupported'', UnlockStatus.NotSupported)]"

definition updateStatusMap :: "(string \<times> UpdateStatus) list" where
  "updateStatusMap =
    [(''Accepted'', UpdateStatus.Accepted), (''Failed'', UpdateStatus.Failed), (''NotSupported'', UpdateStatus.NotSupported)
     , (''VersionMismatch'', UpdateStatus.VersionMismatch)]"

definition resetTypeMap :: "(string \<times> ResetType) list" where
  "resetTypeMap =
    [(''Hard'', ResetType.Hard), (''Soft'', ResetType.Soft)]"

definition messageTriggerTypeMap :: "(string \<times> MessageTriggerType) list" where
  "messageTriggerTypeMap =
    [(''BootNotification'', MessageTriggerType.BootNotification)
     , (''DiagnosticsStatusNotification'', MessageTriggerType.DiagnosticsStatusNotification)
     , (''FirmwareStatusNotification'', MessageTriggerType.FirmwareStatusNotification)
     , (''Heartbeat'', MessageTriggerType.Heartbeat), (''MeterValues'', MessageTriggerType.MeterValues)
     , (''StatusNotification'', MessageTriggerType.StatusNotification)]"

definition chargePointErrorCodeMap :: "(string \<times> ChargePointErrorCode) list" where
  "chargePointErrorCodeMap =
    [(''ConnectorLockFailure'', ChargePointErrorCode.ConnectorLockFailure)
     , (''EVCommunicationError'', ChargePointErrorCode.EVCommunicationError)
     , (''GroundFailure'', ChargePointErrorCode.GroundFailure), (''HighTemperature'', ChargePointErrorCode.HighTemperature)
     , (''InternalError'', ChargePointErrorCode.InternalError)
     , (''LocalListConflict'', ChargePointErrorCode.LocalListConflict), (''NoError'', ChargePointErrorCode.NoError)
     , (''OtherError'', ChargePointErrorCode.OtherError), (''OverCurrentFailure'', ChargePointErrorCode.OverCurrentFailure)
     , (''OverVoltage'', ChargePointErrorCode.OverVoltage), (''PowerMeterFailure'', ChargePointErrorCode.PowerMeterFailure)
     , (''PowerSwitchFailure'', ChargePointErrorCode.PowerSwitchFailure)
     , (''ReaderFailure'', ChargePointErrorCode.ReaderFailure), (''ResetFailure'', ChargePointErrorCode.ResetFailure)
     , (''UnderVoltage'', ChargePointErrorCode.UnderVoltage), (''WeakSignal'', ChargePointErrorCode.WeakSignal)]"

definition AvailabilityTypeMap :: "(string \<times> AvailabilityType) list" where
  "AvailabilityTypeMap =
    [(''Inoperative'', AvailabilityType.Inoperative), (''Operative'', AvailabilityType.Operative)]"

definition certificateUseEnumTypeMap :: "(string \<times> CertificateUseEnumType) list" where
  "certificateUseEnumTypeMap =
    [(''CentralSystemRootCertificate'', CertificateUseEnumType.CentralSystemRootCertificate)
     , (''ManufacturerRootCertificate'', CertificateUseEnumType.ManufacturerRootCertificate)]"

definition securityEventCodeMap :: "(string \<times> SecurityEventCode) list" where
  "securityEventCodeMap =
    [(''FirmwareUpdated'', SecurityEventCode.FirmwareUpdated)
     , (''FailedToAuthenticateAtCentralSystem'', SecurityEventCode.FailedToAuthenticateAtCentralSystem)
     , (''CentralSystemFailedToAuthenticate'', SecurityEventCode.CentralSystemFailedToAuthenticate)
     , (''SettingSystemTime'', SecurityEventCode.SettingSystemTime)
     , (''StartupOfTheDevice'', SecurityEventCode.StartupOfTheDevice), (''ResetOrReboot'', SecurityEventCode.ResetOrReboot)
     , (''SecurityLogWasCleared'', SecurityEventCode.SecurityLogWasCleared)
     , (''ReconfigurationOfSecurityParameters'', SecurityEventCode.ReconfigurationOfSecurityParameters)
     , (''MemoryExhaustion'', SecurityEventCode.MemoryExhaustion), (''InvalidMessages'', SecurityEventCode.InvalidMessages)
     , (''AttemptedReplayAttacks'', SecurityEventCode.AttemptedReplayAttacks)
     , (''TamperDetectionActivated'', SecurityEventCode.TamperDetectionActivated)
     , (''InvalidFirmwareSignature'', SecurityEventCode.InvalidFirmwareSignature)
     , (''InvalidFirmwareSigningCertificate'', SecurityEventCode.InvalidFirmwareSigningCertificate)
     , (''InvalidCentralSystemCertificate'', SecurityEventCode.InvalidCentralSystemCertificate)
     , (''InvalidChargePointCertificate'', SecurityEventCode.InvalidChargePointCertificate)
     , (''InvalidTLSVersion'', SecurityEventCode.InvalidTLSVersion)
     , (''InvalidTLSCipherSuite'', SecurityEventCode.InvalidTLSCipherSuite)]"

definition firmwareStatusEnumTypeMap :: "(string \<times> FirmwareStatusEnumType) list" where
  "firmwareStatusEnumTypeMap =
    [(''Downloaded'', FirmwareStatusEnumType.Downloaded), (''DownloadFailed'', FirmwareStatusEnumType.DownloadFailed)
     , (''Downloading'', FirmwareStatusEnumType.Downloading)
     , (''DownloadScheduled'', FirmwareStatusEnumType.DownloadScheduled)
     , (''DownloadPaused'', FirmwareStatusEnumType.DownloadPaused), (''Idle'', FirmwareStatusEnumType.Idle)
     , (''InstallationFailed'', FirmwareStatusEnumType.InstallationFailed)
     , (''Installing'', FirmwareStatusEnumType.Installing), (''Installed'', FirmwareStatusEnumType.Installed)
     , (''InstallRebooting'', FirmwareStatusEnumType.InstallRebooting)
     , (''InstallScheduled'', FirmwareStatusEnumType.InstallScheduled)
     , (''InstallVerificationFailed'', FirmwareStatusEnumType.InstallVerificationFailed)
     , (''InvalidSignature'', FirmwareStatusEnumType.InvalidSignature)
     , (''SignatureVerified'', FirmwareStatusEnumType.SignatureVerified)]"

definition certificateSignedStatusEnumTypeMap :: "(string \<times> CertificateSignedStatusEnumType) list" where
  "certificateSignedStatusEnumTypeMap =
    [(''Accepted'', CertificateSignedStatusEnumType.Accepted), (''Rejected'', CertificateSignedStatusEnumType.Rejected)]"

definition deleteCertificateStatusEnumTypeMap :: "(string \<times> DeleteCertificateStatusEnumType) list" where
  "deleteCertificateStatusEnumTypeMap =
    [(''Accepted'', DeleteCertificateStatusEnumType.Accepted), (''Failed'', DeleteCertificateStatusEnumType.Failed)]"

definition getInstalledCertificateStatusEnumTypeMap :: "(string \<times> GetInstalledCertificateStatusEnumType) list" where
  "getInstalledCertificateStatusEnumTypeMap =
    [(''Accepted'', GetInstalledCertificateStatusEnumType.Accepted)
     , (''NotFound'', GetInstalledCertificateStatusEnumType.NotFound)]"

definition hashAlgorithmEnumTypeMap :: "(string \<times> HashAlgorithmEnumType) list" where
  "hashAlgorithmEnumTypeMap =
    [(''SHA256'', HashAlgorithmEnumType.SHA256), (''SHA384'', HashAlgorithmEnumType.SHA384)
     , (''SHA512'', HashAlgorithmEnumType.SHA512)]"

definition logEnumTypeMap :: "(string \<times> LogEnumType) list" where
  "logEnumTypeMap =
    [(''DiagnosticsLog'', LogEnumType.DiagnosticsLog), (''SecurityLog'', LogEnumType.SecurityLog)]"

definition logStatusEnumTypeMap :: "(string \<times> LogStatusEnumType) list" where
  "logStatusEnumTypeMap =
    [(''Accepted'', LogStatusEnumType.Accepted), (''Rejected'', LogStatusEnumType.Rejected)
     , (''AcceptedCanceled'', LogStatusEnumType.AcceptedCanceled)]"

definition certificateStatusEnumTypeMap :: "(string \<times> CertificateStatusEnumType) list" where
  "certificateStatusEnumTypeMap =
    [(''Accepted'', CertificateStatusEnumType.Accepted), (''Failed'', CertificateStatusEnumType.Failed)
     , (''Rejected'', CertificateStatusEnumType.Rejected)]"

definition uploadLogStatusEnumTypeMap :: "(string \<times> UploadLogStatusEnumType) list" where
  "uploadLogStatusEnumTypeMap =
    [(''BadMessage'', UploadLogStatusEnumType.BadMessage), (''Idle'', UploadLogStatusEnumType.Idle)
     , (''NotSupportedOperation'', UploadLogStatusEnumType.NotSupportedOperation)
     , (''PermissionDenied'', UploadLogStatusEnumType.PermissionDenied), (''Uploaded'', UploadLogStatusEnumType.Uploaded)
     , (''UploadFailure'', UploadLogStatusEnumType.UploadFailure), (''Uploading'', UploadLogStatusEnumType.Uploading)]"

definition genericStatusEnumTypeMap :: "(string \<times> GenericStatusEnumType) list" where
  "genericStatusEnumTypeMap =
    [(''Accepted'', GenericStatusEnumType.Accepted), (''Rejected'', GenericStatusEnumType.Rejected)]"

definition updateFirmwareStatusEnumTypeMap :: "(string \<times> UpdateFirmwareStatusEnumType) list" where
  "updateFirmwareStatusEnumTypeMap =
    [(''Accepted'', UpdateFirmwareStatusEnumType.Accepted), (''Rejected'', UpdateFirmwareStatusEnumType.Rejected)
     , (''AcceptedCanceled'', UpdateFirmwareStatusEnumType.AcceptedCanceled)
     , (''InvalidCertificate'', UpdateFirmwareStatusEnumType.InvalidCertificate)
     , (''RevokedCertificate'', UpdateFirmwareStatusEnumType.RevokedCertificate)]"

definition messageTriggerEnumTypeMap :: "(string \<times> MessageTriggerEnumType) list" where
  "messageTriggerEnumTypeMap =
    [(''BootNotification'', MessageTriggerEnumType.BootNotification)
     , (''LogStatusNotification'', MessageTriggerEnumType.LogStatusNotification)
     , (''FirmwareStatusNotification'', MessageTriggerEnumType.FirmwareStatusNotification)
     , (''Heartbeat'', MessageTriggerEnumType.Heartbeat), (''MeterValues'', MessageTriggerEnumType.MeterValues)
     , (''SignChargePointCertificate'', MessageTriggerEnumType.SignChargePointCertificate)
     , (''StatusNotification'', MessageTriggerEnumType.StatusNotification)]"

definition triggerMessageStatusEnumTypeMap :: "(string \<times> TriggerMessageStatusEnumType) list" where
  "triggerMessageStatusEnumTypeMap =
    [(''Accepted'', TriggerMessageStatusEnumType.Accepted), (''Rejected'', TriggerMessageStatusEnumType.Rejected)
     , (''NotImplemented'', TriggerMessageStatusEnumType.NotImplemented)]"

section \<open>Every table meets the contract\<close>

interpretation reasonMap_t: enum_table reasonMap
  by unfold_locales (simp_all add: reasonMap_def)

interpretation chargePointStatusMap_t: enum_table chargePointStatusMap
  by unfold_locales (simp_all add: chargePointStatusMap_def)

interpretation authorizationStatusMap_t: enum_table authorizationStatusMap
  by unfold_locales (simp_all add: authorizationStatusMap_def)

interpretation availabilityStatusMap_t: enum_table availabilityStatusMap
  by unfold_locales (simp_all add: availabilityStatusMap_def)

interpretation cancelReservationStatusMap_t: enum_table cancelReservationStatusMap
  by unfold_locales (simp_all add: cancelReservationStatusMap_def)

interpretation chargingProfileStatusMap_t: enum_table chargingProfileStatusMap
  by unfold_locales (simp_all add: chargingProfileStatusMap_def)

interpretation clearCacheStatusMap_t: enum_table clearCacheStatusMap
  by unfold_locales (simp_all add: clearCacheStatusMap_def)

interpretation clearChargingProfileStatusMap_t: enum_table clearChargingProfileStatusMap
  by unfold_locales (simp_all add: clearChargingProfileStatusMap_def)

interpretation configurationStatusMap_t: enum_table configurationStatusMap
  by unfold_locales (simp_all add: configurationStatusMap_def)

interpretation dataTransferStatusMap_t: enum_table dataTransferStatusMap
  by unfold_locales (simp_all add: dataTransferStatusMap_def)

interpretation diagnosticsStatusMap_t: enum_table diagnosticsStatusMap
  by unfold_locales (simp_all add: diagnosticsStatusMap_def)

interpretation firmwareStatusMap_t: enum_table firmwareStatusMap
  by unfold_locales (simp_all add: firmwareStatusMap_def)

interpretation getCompositeScheduleStatusMap_t: enum_table getCompositeScheduleStatusMap
  by unfold_locales (simp_all add: getCompositeScheduleStatusMap_def)

interpretation registrationStatusMap_t: enum_table registrationStatusMap
  by unfold_locales (simp_all add: registrationStatusMap_def)

interpretation remoteStartStopStatusMap_t: enum_table remoteStartStopStatusMap
  by unfold_locales (simp_all add: remoteStartStopStatusMap_def)

interpretation reservationStatusMap_t: enum_table reservationStatusMap
  by unfold_locales (simp_all add: reservationStatusMap_def)

interpretation resetStatusMap_t: enum_table resetStatusMap
  by unfold_locales (simp_all add: resetStatusMap_def)

interpretation triggerMessageStatusMap_t: enum_table triggerMessageStatusMap
  by unfold_locales (simp_all add: triggerMessageStatusMap_def)

interpretation unlockStatusMap_t: enum_table unlockStatusMap
  by unfold_locales (simp_all add: unlockStatusMap_def)

interpretation updateStatusMap_t: enum_table updateStatusMap
  by unfold_locales (simp_all add: updateStatusMap_def)

interpretation resetTypeMap_t: enum_table resetTypeMap
  by unfold_locales (simp_all add: resetTypeMap_def)

interpretation messageTriggerTypeMap_t: enum_table messageTriggerTypeMap
  by unfold_locales (simp_all add: messageTriggerTypeMap_def)

interpretation chargePointErrorCodeMap_t: enum_table chargePointErrorCodeMap
  by unfold_locales (simp_all add: chargePointErrorCodeMap_def)

interpretation AvailabilityTypeMap_t: enum_table AvailabilityTypeMap
  by unfold_locales (simp_all add: AvailabilityTypeMap_def)

interpretation certificateUseEnumTypeMap_t: enum_table certificateUseEnumTypeMap
  by unfold_locales (simp_all add: certificateUseEnumTypeMap_def)

interpretation securityEventCodeMap_t: enum_table securityEventCodeMap
  by unfold_locales (simp_all add: securityEventCodeMap_def)

interpretation firmwareStatusEnumTypeMap_t: enum_table firmwareStatusEnumTypeMap
  by unfold_locales (simp_all add: firmwareStatusEnumTypeMap_def)

interpretation certificateSignedStatusEnumTypeMap_t: enum_table certificateSignedStatusEnumTypeMap
  by unfold_locales (simp_all add: certificateSignedStatusEnumTypeMap_def)

interpretation deleteCertificateStatusEnumTypeMap_t: enum_table deleteCertificateStatusEnumTypeMap
  by unfold_locales (simp_all add: deleteCertificateStatusEnumTypeMap_def)

interpretation getInstalledCertificateStatusEnumTypeMap_t: enum_table getInstalledCertificateStatusEnumTypeMap
  by unfold_locales (simp_all add: getInstalledCertificateStatusEnumTypeMap_def)

interpretation hashAlgorithmEnumTypeMap_t: enum_table hashAlgorithmEnumTypeMap
  by unfold_locales (simp_all add: hashAlgorithmEnumTypeMap_def)

interpretation logEnumTypeMap_t: enum_table logEnumTypeMap
  by unfold_locales (simp_all add: logEnumTypeMap_def)

interpretation logStatusEnumTypeMap_t: enum_table logStatusEnumTypeMap
  by unfold_locales (simp_all add: logStatusEnumTypeMap_def)

interpretation certificateStatusEnumTypeMap_t: enum_table certificateStatusEnumTypeMap
  by unfold_locales (simp_all add: certificateStatusEnumTypeMap_def)

interpretation uploadLogStatusEnumTypeMap_t: enum_table uploadLogStatusEnumTypeMap
  by unfold_locales (simp_all add: uploadLogStatusEnumTypeMap_def)

interpretation genericStatusEnumTypeMap_t: enum_table genericStatusEnumTypeMap
  by unfold_locales (simp_all add: genericStatusEnumTypeMap_def)

interpretation updateFirmwareStatusEnumTypeMap_t: enum_table updateFirmwareStatusEnumTypeMap
  by unfold_locales (simp_all add: updateFirmwareStatusEnumTypeMap_def)

interpretation messageTriggerEnumTypeMap_t: enum_table messageTriggerEnumTypeMap
  by unfold_locales (simp_all add: messageTriggerEnumTypeMap_def)

interpretation triggerMessageStatusEnumTypeMap_t: enum_table triggerMessageStatusEnumTypeMap
  by unfold_locales (simp_all add: triggerMessageStatusEnumTypeMap_def)

section \<open>Which tables are complete\<close>

text \<open>A table is complete if every enumerator has a name in it that reads back as the enumerator.\<close>

definition complete_table :: "(string \<times> 'e) list \<Rightarrow> bool" where
  "complete_table tbl \<longleftrightarrow>
     (\<exists>m. BidirectionalMap tbl = Inr m \<and> (\<forall>v. \<exists>k. toString m v = Inr k \<and> toEnum m k = Inr v))"

lemma complete_tableI:
  assumes "enum_table tbl" "\<And>v. v \<in> snd ` set tbl"
  shows "complete_table tbl"
  unfolding complete_table_def
  using enum_table.builds [OF assms(1)] enum_table.toString_complete [OF assms(1) assms(2)] by blast

lemma reasonMap_complete: "complete_table reasonMap"
proof (rule complete_tableI [OF reasonMap_t.enum_table_axioms])
  show "v \<in> snd ` set reasonMap" for v
    by (cases v) (simp_all add: reasonMap_def)
qed

lemma chargePointStatusMap_complete: "complete_table chargePointStatusMap"
proof (rule complete_tableI [OF chargePointStatusMap_t.enum_table_axioms])
  show "v \<in> snd ` set chargePointStatusMap" for v
    by (cases v) (simp_all add: chargePointStatusMap_def)
qed

lemma authorizationStatusMap_complete: "complete_table authorizationStatusMap"
proof (rule complete_tableI [OF authorizationStatusMap_t.enum_table_axioms])
  show "v \<in> snd ` set authorizationStatusMap" for v
    by (cases v) (simp_all add: authorizationStatusMap_def)
qed

lemma availabilityStatusMap_complete: "complete_table availabilityStatusMap"
proof (rule complete_tableI [OF availabilityStatusMap_t.enum_table_axioms])
  show "v \<in> snd ` set availabilityStatusMap" for v
    by (cases v) (simp_all add: availabilityStatusMap_def)
qed

lemma cancelReservationStatusMap_complete: "complete_table cancelReservationStatusMap"
proof (rule complete_tableI [OF cancelReservationStatusMap_t.enum_table_axioms])
  show "v \<in> snd ` set cancelReservationStatusMap" for v
    by (cases v) (simp_all add: cancelReservationStatusMap_def)
qed

lemma chargingProfileStatusMap_complete: "complete_table chargingProfileStatusMap"
proof (rule complete_tableI [OF chargingProfileStatusMap_t.enum_table_axioms])
  show "v \<in> snd ` set chargingProfileStatusMap" for v
    by (cases v) (simp_all add: chargingProfileStatusMap_def)
qed

lemma clearCacheStatusMap_complete: "complete_table clearCacheStatusMap"
proof (rule complete_tableI [OF clearCacheStatusMap_t.enum_table_axioms])
  show "v \<in> snd ` set clearCacheStatusMap" for v
    by (cases v) (simp_all add: clearCacheStatusMap_def)
qed

lemma clearChargingProfileStatusMap_complete: "complete_table clearChargingProfileStatusMap"
proof (rule complete_tableI [OF clearChargingProfileStatusMap_t.enum_table_axioms])
  show "v \<in> snd ` set clearChargingProfileStatusMap" for v
    by (cases v) (simp_all add: clearChargingProfileStatusMap_def)
qed

lemma configurationStatusMap_complete: "complete_table configurationStatusMap"
proof (rule complete_tableI [OF configurationStatusMap_t.enum_table_axioms])
  show "v \<in> snd ` set configurationStatusMap" for v
    by (cases v) (simp_all add: configurationStatusMap_def)
qed

lemma diagnosticsStatusMap_complete: "complete_table diagnosticsStatusMap"
proof (rule complete_tableI [OF diagnosticsStatusMap_t.enum_table_axioms])
  show "v \<in> snd ` set diagnosticsStatusMap" for v
    by (cases v) (simp_all add: diagnosticsStatusMap_def)
qed

lemma firmwareStatusMap_complete: "complete_table firmwareStatusMap"
proof (rule complete_tableI [OF firmwareStatusMap_t.enum_table_axioms])
  show "v \<in> snd ` set firmwareStatusMap" for v
    by (cases v) (simp_all add: firmwareStatusMap_def)
qed

lemma getCompositeScheduleStatusMap_complete: "complete_table getCompositeScheduleStatusMap"
proof (rule complete_tableI [OF getCompositeScheduleStatusMap_t.enum_table_axioms])
  show "v \<in> snd ` set getCompositeScheduleStatusMap" for v
    by (cases v) (simp_all add: getCompositeScheduleStatusMap_def)
qed

lemma registrationStatusMap_complete: "complete_table registrationStatusMap"
proof (rule complete_tableI [OF registrationStatusMap_t.enum_table_axioms])
  show "v \<in> snd ` set registrationStatusMap" for v
    by (cases v) (simp_all add: registrationStatusMap_def)
qed

lemma remoteStartStopStatusMap_complete: "complete_table remoteStartStopStatusMap"
proof (rule complete_tableI [OF remoteStartStopStatusMap_t.enum_table_axioms])
  show "v \<in> snd ` set remoteStartStopStatusMap" for v
    by (cases v) (simp_all add: remoteStartStopStatusMap_def)
qed

lemma resetStatusMap_complete: "complete_table resetStatusMap"
proof (rule complete_tableI [OF resetStatusMap_t.enum_table_axioms])
  show "v \<in> snd ` set resetStatusMap" for v
    by (cases v) (simp_all add: resetStatusMap_def)
qed

lemma triggerMessageStatusMap_complete: "complete_table triggerMessageStatusMap"
proof (rule complete_tableI [OF triggerMessageStatusMap_t.enum_table_axioms])
  show "v \<in> snd ` set triggerMessageStatusMap" for v
    by (cases v) (simp_all add: triggerMessageStatusMap_def)
qed

lemma unlockStatusMap_complete: "complete_table unlockStatusMap"
proof (rule complete_tableI [OF unlockStatusMap_t.enum_table_axioms])
  show "v \<in> snd ` set unlockStatusMap" for v
    by (cases v) (simp_all add: unlockStatusMap_def)
qed

lemma updateStatusMap_complete: "complete_table updateStatusMap"
proof (rule complete_tableI [OF updateStatusMap_t.enum_table_axioms])
  show "v \<in> snd ` set updateStatusMap" for v
    by (cases v) (simp_all add: updateStatusMap_def)
qed

lemma resetTypeMap_complete: "complete_table resetTypeMap"
proof (rule complete_tableI [OF resetTypeMap_t.enum_table_axioms])
  show "v \<in> snd ` set resetTypeMap" for v
    by (cases v) (simp_all add: resetTypeMap_def)
qed

lemma messageTriggerTypeMap_complete: "complete_table messageTriggerTypeMap"
proof (rule complete_tableI [OF messageTriggerTypeMap_t.enum_table_axioms])
  show "v \<in> snd ` set messageTriggerTypeMap" for v
    by (cases v) (simp_all add: messageTriggerTypeMap_def)
qed

lemma chargePointErrorCodeMap_complete: "complete_table chargePointErrorCodeMap"
proof (rule complete_tableI [OF chargePointErrorCodeMap_t.enum_table_axioms])
  show "v \<in> snd ` set chargePointErrorCodeMap" for v
    by (cases v) (simp_all add: chargePointErrorCodeMap_def)
qed

lemma AvailabilityTypeMap_complete: "complete_table AvailabilityTypeMap"
proof (rule complete_tableI [OF AvailabilityTypeMap_t.enum_table_axioms])
  show "v \<in> snd ` set AvailabilityTypeMap" for v
    by (cases v) (simp_all add: AvailabilityTypeMap_def)
qed

lemma certificateUseEnumTypeMap_complete: "complete_table certificateUseEnumTypeMap"
proof (rule complete_tableI [OF certificateUseEnumTypeMap_t.enum_table_axioms])
  show "v \<in> snd ` set certificateUseEnumTypeMap" for v
    by (cases v) (simp_all add: certificateUseEnumTypeMap_def)
qed

lemma securityEventCodeMap_complete: "complete_table securityEventCodeMap"
proof (rule complete_tableI [OF securityEventCodeMap_t.enum_table_axioms])
  show "v \<in> snd ` set securityEventCodeMap" for v
    by (cases v) (simp_all add: securityEventCodeMap_def)
qed

lemma firmwareStatusEnumTypeMap_complete: "complete_table firmwareStatusEnumTypeMap"
proof (rule complete_tableI [OF firmwareStatusEnumTypeMap_t.enum_table_axioms])
  show "v \<in> snd ` set firmwareStatusEnumTypeMap" for v
    by (cases v) (simp_all add: firmwareStatusEnumTypeMap_def)
qed

lemma certificateSignedStatusEnumTypeMap_complete: "complete_table certificateSignedStatusEnumTypeMap"
proof (rule complete_tableI [OF certificateSignedStatusEnumTypeMap_t.enum_table_axioms])
  show "v \<in> snd ` set certificateSignedStatusEnumTypeMap" for v
    by (cases v) (simp_all add: certificateSignedStatusEnumTypeMap_def)
qed

lemma getInstalledCertificateStatusEnumTypeMap_complete: "complete_table getInstalledCertificateStatusEnumTypeMap"
proof (rule complete_tableI [OF getInstalledCertificateStatusEnumTypeMap_t.enum_table_axioms])
  show "v \<in> snd ` set getInstalledCertificateStatusEnumTypeMap" for v
    by (cases v) (simp_all add: getInstalledCertificateStatusEnumTypeMap_def)
qed

lemma hashAlgorithmEnumTypeMap_complete: "complete_table hashAlgorithmEnumTypeMap"
proof (rule complete_tableI [OF hashAlgorithmEnumTypeMap_t.enum_table_axioms])
  show "v \<in> snd ` set hashAlgorithmEnumTypeMap" for v
    by (cases v) (simp_all add: hashAlgorithmEnumTypeMap_def)
qed

lemma logEnumTypeMap_complete: "complete_table logEnumTypeMap"
proof (rule complete_tableI [OF logEnumTypeMap_t.enum_table_axioms])
  show "v \<in> snd ` set logEnumTypeMap" for v
    by (cases v) (simp_all add: logEnumTypeMap_def)
qed

lemma logStatusEnumTypeMap_complete: "complete_table logStatusEnumTypeMap"
proof (rule complete_tableI [OF logStatusEnumTypeMap_t.enum_table_axioms])
  show "v \<in> snd ` set logStatusEnumTypeMap" for v
    by (cases v) (simp_all add: logStatusEnumTypeMap_def)
qed

lemma certificateStatusEnumTypeMap_complete: "complete_table certificateStatusEnumTypeMap"
proof (rule complete_tableI [OF certificateStatusEnumTypeMap_t.enum_table_axioms])
  show "v \<in> snd ` set certificateStatusEnumTypeMap" for v
    by (cases v) (simp_all add: certificateStatusEnumTypeMap_def)
qed

lemma uploadLogStatusEnumTypeMap_complete: "complete_table uploadLogStatusEnumTypeMap"
proof (rule complete_tableI [OF uploadLogStatusEnumTypeMap_t.enum_table_axioms])
  show "v \<in> snd ` set uploadLogStatusEnumTypeMap" for v
    by (cases v) (simp_all add: uploadLogStatusEnumTypeMap_def)
qed

lemma genericStatusEnumTypeMap_complete: "complete_table genericStatusEnumTypeMap"
proof (rule complete_tableI [OF genericStatusEnumTypeMap_t.enum_table_axioms])
  show "v \<in> snd ` set genericStatusEnumTypeMap" for v
    by (cases v) (simp_all add: genericStatusEnumTypeMap_def)
qed

lemma updateFirmwareStatusEnumTypeMap_complete: "complete_table updateFirmwareStatusEnumTypeMap"
proof (rule complete_tableI [OF updateFirmwareStatusEnumTypeMap_t.enum_table_axioms])
  show "v \<in> snd ` set updateFirmwareStatusEnumTypeMap" for v
    by (cases v) (simp_all add: updateFirmwareStatusEnumTypeMap_def)
qed

lemma messageTriggerEnumTypeMap_complete: "complete_table messageTriggerEnumTypeMap"
proof (rule complete_tableI [OF messageTriggerEnumTypeMap_t.enum_table_axioms])
  show "v \<in> snd ` set messageTriggerEnumTypeMap" for v
    by (cases v) (simp_all add: messageTriggerEnumTypeMap_def)
qed

lemma triggerMessageStatusEnumTypeMap_complete: "complete_table triggerMessageStatusEnumTypeMap"
proof (rule complete_tableI [OF triggerMessageStatusEnumTypeMap_t.enum_table_axioms])
  show "v \<in> snd ` set triggerMessageStatusEnumTypeMap" for v
    by (cases v) (simp_all add: triggerMessageStatusEnumTypeMap_def)
qed

lemmas tables_complete =
  reasonMap_complete chargePointStatusMap_complete authorizationStatusMap_complete availabilityStatusMap_complete
  cancelReservationStatusMap_complete chargingProfileStatusMap_complete clearCacheStatusMap_complete
  clearChargingProfileStatusMap_complete configurationStatusMap_complete diagnosticsStatusMap_complete
  firmwareStatusMap_complete getCompositeScheduleStatusMap_complete registrationStatusMap_complete
  remoteStartStopStatusMap_complete resetStatusMap_complete triggerMessageStatusMap_complete unlockStatusMap_complete
  updateStatusMap_complete resetTypeMap_complete messageTriggerTypeMap_complete chargePointErrorCodeMap_complete
  AvailabilityTypeMap_complete certificateUseEnumTypeMap_complete securityEventCodeMap_complete
  firmwareStatusEnumTypeMap_complete certificateSignedStatusEnumTypeMap_complete
  getInstalledCertificateStatusEnumTypeMap_complete hashAlgorithmEnumTypeMap_complete logEnumTypeMap_complete
  logStatusEnumTypeMap_complete certificateStatusEnumTypeMap_complete uploadLogStatusEnumTypeMap_complete
  genericStatusEnumTypeMap_complete updateFirmwareStatusEnumTypeMap_complete messageTriggerEnumTypeMap_complete
  triggerMessageStatusEnumTypeMap_complete

text \<open>
  The names of the OCPP enumerations. Building the maps never throws while the program is being
  initialised, and for these tables converting any enumerator to its name and back gives the enumerator.
\<close>

theorem enum_names_round_trip:
  "complete_table reasonMap \<and> complete_table chargePointStatusMap \<and> complete_table authorizationStatusMap
   \<and> complete_table availabilityStatusMap \<and> complete_table cancelReservationStatusMap
   \<and> complete_table chargingProfileStatusMap \<and> complete_table clearCacheStatusMap
   \<and> complete_table clearChargingProfileStatusMap \<and> complete_table configurationStatusMap
   \<and> complete_table diagnosticsStatusMap \<and> complete_table firmwareStatusMap
   \<and> complete_table getCompositeScheduleStatusMap \<and> complete_table registrationStatusMap
   \<and> complete_table remoteStartStopStatusMap \<and> complete_table resetStatusMap
   \<and> complete_table triggerMessageStatusMap \<and> complete_table unlockStatusMap
   \<and> complete_table updateStatusMap \<and> complete_table resetTypeMap \<and> complete_table messageTriggerTypeMap
   \<and> complete_table chargePointErrorCodeMap \<and> complete_table AvailabilityTypeMap
   \<and> complete_table certificateUseEnumTypeMap \<and> complete_table securityEventCodeMap
   \<and> complete_table firmwareStatusEnumTypeMap \<and> complete_table certificateSignedStatusEnumTypeMap
   \<and> complete_table getInstalledCertificateStatusEnumTypeMap \<and> complete_table hashAlgorithmEnumTypeMap
   \<and> complete_table logEnumTypeMap \<and> complete_table logStatusEnumTypeMap
   \<and> complete_table certificateStatusEnumTypeMap \<and> complete_table uploadLogStatusEnumTypeMap
   \<and> complete_table genericStatusEnumTypeMap \<and> complete_table updateFirmwareStatusEnumTypeMap
   \<and> complete_table messageTriggerEnumTypeMap \<and> complete_table triggerMessageStatusEnumTypeMap"
  by (intro conjI tables_complete)

text \<open>
  C1. Three enumerators have no name, so that converting them throws: a reservation that fails because the
  connector is unavailable, a data transfer of an unknown vendor and the deletion of a certificate that is not found.
\<close>

theorem enum_names_missing:
  "toString (table_map dataTransferStatusMap) DataTransferStatus.UnknownVendorId = Inl (InvalidEnum DataTransferStatus.UnknownVendorId) \<and>
   toString (table_map reservationStatusMap) ReservationStatus.Unavailable = Inl (InvalidEnum ReservationStatus.Unavailable) \<and>
   toString (table_map deleteCertificateStatusEnumTypeMap) DeleteCertificateStatusEnumType.NotFound = Inl (InvalidEnum DeleteCertificateStatusEnumType.NotFound)"
proof (intro conjI)
  show "toString (table_map dataTransferStatusMap) DataTransferStatus.UnknownVendorId = Inl (InvalidEnum DataTransferStatus.UnknownVendorId)"
    by (rule dataTransferStatusMap_t.toString_fails) (simp add: dataTransferStatusMap_def)
next
  show "toString (table_map reservationStatusMap) ReservationStatus.Unavailable = Inl (InvalidEnum ReservationStatus.Unavailable)"
    by (rule reservationStatusMap_t.toString_fails) (simp add: reservationStatusMap_def)
next
  show "toString (table_map deleteCertificateStatusEnumTypeMap) DeleteCertificateStatusEnumType.NotFound = Inl (InvalidEnum DeleteCertificateStatusEnumType.NotFound)"
    by (rule deleteCertificateStatusEnumTypeMap_t.toString_fails) (simp add: deleteCertificateStatusEnumTypeMap_def)
qed

end
