(* ===== verification/Ocpp_Message.thy ===== *)
theory Ocpp_Message
  imports Prelude
begin

text \<open>
  Messages of the charge point (\<^verbatim>\<open>src/src/ocpp/common/Connon.cpp\<close>, \<^verbatim>\<open>Common.h\<close>) and the queue that
  carries them (\<^verbatim>\<open>src/src/ocpp/common/Queue.h\<close>).
  \<^item> A RapidJSON value is a datatype; the parser is a parameter of the functions that call it, a text
    that does not parse is \<^const>\<open>None\<close>.
  \<^item> An accessor that RapidJSON guards with an assertion ends the process in a build with assertions
    (the default build type is Debug) and is undefined otherwise: the result type has both outcomes, and
    a flag says how the program was built.
\<close>

section \<open>JSON values\<close>

datatype rjson =
  RNull
| RBool bool
| RInt int
| RReal string
| RString string
| RArray "rjson list"
| RObject "(string \<times> rjson) list"

datatype (set_outcome: 'a) outcome = Value 'a | Abort | Undefined

fun bind_outcome :: "'a outcome \<Rightarrow> ('a \<Rightarrow> 'b outcome) \<Rightarrow> 'b outcome" where
  "bind_outcome (Value x) f = f x"
| "bind_outcome Abort f = Abort"
| "bind_outcome Undefined f = Undefined"

lemma bind_Value: "bind_outcome c f = Value y \<longleftrightarrow> (\<exists>x. c = Value x \<and> f x = Value y)"
  by (cases c) auto

text \<open>The result of an accessor whose assertion fails.\<close>

definition assert_failed :: "bool \<Rightarrow> 'a outcome" where
  "assert_failed asserts = (if asserts then Abort else Undefined)"

definition to_cstr :: "string \<Rightarrow> string" where
  "to_cstr s = takeWhile (\<lambda>c. c \<noteq> CHR 0x00) s"

definition IsInt :: "rjson \<Rightarrow> bool" where
  "IsInt v = (case v of RInt i \<Rightarrow> - (2 ^ 31) \<le> i \<and> i < 2 ^ 31 | _ \<Rightarrow> False)"

definition IsUint :: "rjson \<Rightarrow> bool" where
  "IsUint v = (case v of RInt i \<Rightarrow> 0 \<le> i \<and> i < 2 ^ 32 | _ \<Rightarrow> False)"

definition IsString :: "rjson \<Rightarrow> bool" where
  "IsString v = (case v of RString _ \<Rightarrow> True | _ \<Rightarrow> False)"

definition IsBool :: "rjson \<Rightarrow> bool" where
  "IsBool v = (case v of RBool _ \<Rightarrow> True | _ \<Rightarrow> False)"

definition IsArray :: "rjson \<Rightarrow> bool" where
  "IsArray v = (case v of RArray _ \<Rightarrow> True | _ \<Rightarrow> False)"

definition IsObject :: "rjson \<Rightarrow> bool" where
  "IsObject v = (case v of RObject _ \<Rightarrow> True | _ \<Rightarrow> False)"

text \<open>
  The number of elements. Without assertions the field is read whatever the value is: it is zero in a
  value that has just been constructed, and the number of members in an object.
\<close>

definition Size :: "bool \<Rightarrow> rjson \<Rightarrow> nat outcome" where
  "Size asserts v =
     (case v of
        RArray xs \<Rightarrow> Value (length xs)
      | RNull \<Rightarrow> if asserts then Abort else Value 0
      | RObject ms \<Rightarrow> if asserts then Abort else Value (length ms)
      | _ \<Rightarrow> assert_failed asserts)"

definition elem_at :: "bool \<Rightarrow> rjson \<Rightarrow> nat \<Rightarrow> rjson outcome" where
  "elem_at asserts v i =
     (case v of
        RArray xs \<Rightarrow> if i < length xs then Value (xs ! i) else assert_failed asserts
      | _ \<Rightarrow> assert_failed asserts)"

text \<open>The text of a string value is read up to its first NUL character.\<close>

definition GetString :: "bool \<Rightarrow> rjson \<Rightarrow> string outcome" where
  "GetString asserts v = (case v of RString s \<Rightarrow> Value (to_cstr s) | _ \<Rightarrow> assert_failed asserts)"

definition GetInt :: "bool \<Rightarrow> rjson \<Rightarrow> int outcome" where
  "GetInt asserts v = (case v of RInt i \<Rightarrow> if IsInt v then Value i else assert_failed asserts | _ \<Rightarrow> assert_failed asserts)"

definition GetUint :: "bool \<Rightarrow> rjson \<Rightarrow> int outcome" where
  "GetUint asserts v = (case v of RInt i \<Rightarrow> if IsUint v then Value i else assert_failed asserts | _ \<Rightarrow> assert_failed asserts)"

definition GetBool :: "bool \<Rightarrow> rjson \<Rightarrow> bool outcome" where
  "GetBool asserts v = (case v of RBool b \<Rightarrow> Value b | _ \<Rightarrow> assert_failed asserts)"

definition FindMember :: "rjson \<Rightarrow> string \<Rightarrow> rjson option" where
  "FindMember v k = (case v of RObject ms \<Rightarrow> map_of ms k | _ \<Rightarrow> None)"

section \<open>Validation of a message\<close>

definition MT_Call :: int where "MT_Call = 2"
definition MT_CallResult :: int where "MT_CallResult = 3"
definition MT_CallError :: int where "MT_CallError = 4"

text \<open>The checks of one element of \<^verbatim>\<open>document\<close>, in order; the first that fails ends the validation.\<close>

fun check_elems :: "bool \<Rightarrow> rjson \<Rightarrow> (nat \<times> (rjson \<Rightarrow> bool)) list \<Rightarrow> bool outcome" where
  "check_elems asserts document [] = Value True"
| "check_elems asserts document ((i, p) # cs) =
     bind_outcome (elem_at asserts document i) (\<lambda>v. if p v then check_elems asserts document cs else Value False)"

definition check_message :: "bool \<Rightarrow> rjson \<Rightarrow> nat \<Rightarrow> (nat \<times> (rjson \<Rightarrow> bool)) list \<Rightarrow> bool outcome" where
  "check_message asserts document n cs =
     bind_outcome (Size asserts document) (\<lambda>k. if k \<noteq> n then Value False else check_elems asserts document cs)"

definition check_type :: "bool \<Rightarrow> int \<Rightarrow> rjson \<Rightarrow> bool outcome" where
  "check_type asserts type document =
     (if type = MT_Call then check_message asserts document 4 [(1, IsString), (2, IsString), (3, IsObject)]
      else if type = MT_CallResult then check_message asserts document 3 [(1, IsString), (2, IsObject)]
      else if type = MT_CallError
           then check_message asserts document 5 [(1, IsString), (2, IsString), (3, IsString), (4, IsObject)]
      else Value False)"

text \<open>
  The function as it is written: the text is parsed into a local document, the type is read from
  it, and the remaining checks are made on the document of the caller. The result is the returned
  value with the type that has been stored, if any.
\<close>

definition validateOCPPMessage ::
  "(string \<Rightarrow> rjson option) \<Rightarrow> bool \<Rightarrow> string \<Rightarrow> rjson \<Rightarrow> (bool \<times> int option) outcome" where
  "validateOCPPMessage parse asserts jsonMessage document =
     (case parse (to_cstr jsonMessage) of
        None \<Rightarrow> Value (False, None)
      | Some doc \<Rightarrow>
          (case doc of
             RArray arr \<Rightarrow>
               if length arr < 3 then Value (False, None)
               else (case arr ! 0 of
                       RInt type \<Rightarrow>
                         if \<not> IsInt (RInt type) then Value (False, None)
                         else if type < MT_Call \<or> MT_CallError < type then Value (False, Some type)
                         else bind_outcome (check_type asserts type document) (\<lambda>b. Value (b, Some type))
                     | _ \<Rightarrow> Value (False, None))
           | _ \<Rightarrow> Value (False, None)))"

text \<open>What the three kinds of message are, by the comments of the client.\<close>

definition ocpp_frame :: "rjson \<Rightarrow> bool" where
  "ocpp_frame doc =
     (case doc of
        RArray (RInt t # RString uid # rest) \<Rightarrow>
          if t = MT_Call then (case rest of [action, payload] \<Rightarrow> IsString action \<and> IsObject payload | _ \<Rightarrow> False)
          else if t = MT_CallResult then (case rest of [payload] \<Rightarrow> IsObject payload | _ \<Rightarrow> False)
          else if t = MT_CallError
               then (case rest of [code, desc, details] \<Rightarrow> IsString code \<and> IsString desc \<and> IsObject details | _ \<Rightarrow> False)
          else False
      | _ \<Rightarrow> False)"

lemmas json_simps = IsInt_def IsUint_def IsString_def IsBool_def IsArray_def IsObject_def Size_def elem_at_def
  GetString_def GetInt_def GetUint_def GetBool_def FindMember_def

lemmas mt_simps = MT_Call_def MT_CallResult_def MT_CallError_def

lemma length_eq_numeral:
  "length xs = 3 \<longleftrightarrow> (\<exists>a b c. xs = [a, b, c])"
  "length xs = 4 \<longleftrightarrow> (\<exists>a b c d. xs = [a, b, c, d])"
  "length xs = 5 \<longleftrightarrow> (\<exists>a b c d e. xs = [a, b, c, d, e])"
  by (auto simp: numeral_eq_Suc length_Suc_conv)

definition kinds :: "(nat \<times> (rjson \<Rightarrow> bool)) list \<Rightarrow> rjson list \<Rightarrow> bool" where
  "kinds cs xs \<longleftrightarrow> list_all (\<lambda>(i, p). p (xs ! i)) cs"

lemma check_elems_array:
  "list_all (\<lambda>(i, p). i < length xs) cs \<Longrightarrow> check_elems asserts (RArray xs) cs = Value (kinds cs xs)"
  by (induction cs) (auto simp: elem_at_def kinds_def)

lemma check_message_array:
  "list_all (\<lambda>(i, p). i < n) cs \<Longrightarrow>
   check_message asserts (RArray xs) n cs = Value (length xs = n \<and> kinds cs xs)"
  by (auto simp: check_message_def Size_def check_elems_array)

lemma IsString_iff: "IsString v \<longleftrightarrow> (\<exists>s. v = RString s)"
  by (cases v) (simp_all add: IsString_def)

lemma IsObject_iff: "IsObject v \<longleftrightarrow> (\<exists>s. v = RObject s)"
  by (cases v) (simp_all add: IsObject_def)

lemma check_type_array:
  assumes "arr ! 0 = RInt t" "length arr \<ge> 3"
  shows "check_type asserts t (RArray arr) = Value (ocpp_frame (RArray arr))"
proof -
  obtain xs where arr: "arr = RInt t # xs" "length xs \<ge> 2"
    using assms by (cases arr) auto
  then obtain v rest where xs: "xs = v # rest"
    by (cases xs) auto
  have frame: "ocpp_frame (RArray arr) \<longleftrightarrow> IsString v \<and>
      (if t = MT_Call then (case rest of [action, payload] \<Rightarrow> IsString action \<and> IsObject payload | _ \<Rightarrow> False)
       else if t = MT_CallResult then (case rest of [payload] \<Rightarrow> IsObject payload | _ \<Rightarrow> False)
       else if t = MT_CallError
            then (case rest of [code, desc, details] \<Rightarrow> IsString code \<and> IsString desc \<and> IsObject details | _ \<Rightarrow> False)
       else False)"
    by (cases v) (simp_all add: ocpp_frame_def arr xs IsString_def)
  have 4: "length arr = 4 \<and> kinds [(1, IsString), (2, IsString), (3, IsObject)] arr \<longleftrightarrow>
      IsString v \<and> (case rest of [action, payload] \<Rightarrow> IsString action \<and> IsObject payload | _ \<Rightarrow> False)"
    by (auto simp: arr xs length_eq_numeral kinds_def split: list.splits)
  have 3: "length arr = 3 \<and> kinds [(1, IsString), (2, IsObject)] arr \<longleftrightarrow>
      IsString v \<and> (case rest of [payload] \<Rightarrow> IsObject payload | _ \<Rightarrow> False)"
    by (auto simp: arr xs length_eq_numeral kinds_def split: list.splits)
  have 5: "length arr = 5 \<and> kinds [(1, IsString), (2, IsString), (3, IsString), (4, IsObject)] arr \<longleftrightarrow>
      IsString v \<and>
      (case rest of [code, desc, details] \<Rightarrow> IsString code \<and> IsString desc \<and> IsObject details | _ \<Rightarrow> False)"
    by (auto simp: arr xs length_eq_numeral kinds_def split: list.splits)
  show ?thesis
    unfolding frame by (simp add: check_type_def check_message_array 3 4 5 mt_simps del: One_nat_def)
qed

lemma ocpp_frameD:
  assumes "ocpp_frame doc"
  obtains t u rest where "doc = RArray (RInt t # RString u # rest)" "rest \<noteq> []" "MT_Call \<le> t" "t \<le> MT_CallError"
proof -
  obtain arr where arr: "doc = RArray arr"
    using assms by (cases doc) (auto simp: ocpp_frame_def)
  obtain x xs where xs: "arr = x # xs"
    using assms by (cases arr) (auto simp: ocpp_frame_def arr)
  obtain t where t: "x = RInt t"
    using assms by (cases x) (auto simp: ocpp_frame_def arr xs)
  obtain y rest where rest: "xs = y # rest"
    using assms by (cases xs) (auto simp: ocpp_frame_def arr xs t)
  obtain u where u: "y = RString u"
    using assms by (cases y) (auto simp: ocpp_frame_def arr xs t rest)
  have "rest \<noteq> []" "MT_Call \<le> t" "t \<le> MT_CallError"
    using assms by (auto simp: ocpp_frame_def arr xs t rest u mt_simps split: if_splits)
  then show ?thesis
    using that arr xs t rest u by blast
qed

text \<open>
  The checks are the right ones. If the document that the caller passes is the parsed message, the
  validation never fails an assertion and accepts exactly the three kinds of message of the protocol.
\<close>

theorem validate_own_document:
  assumes "parse (to_cstr msg) = Some doc"
  shows "\<exists>t. validateOCPPMessage parse asserts msg doc = Value (ocpp_frame doc, t)"
proof (cases "\<exists>arr t. doc = RArray arr \<and> length arr \<ge> 3 \<and> arr ! 0 = RInt t \<and> IsInt (RInt t) \<and> MT_Call \<le> t \<and> t \<le> MT_CallError")
  case True
  then obtain arr t where doc: "doc = RArray arr" "length arr \<ge> 3" "arr ! 0 = RInt t" "IsInt (RInt t)"
    "MT_Call \<le> t" "t \<le> MT_CallError"
    by blast
  then show ?thesis
    using assms by (auto simp: validateOCPPMessage_def check_type_array)
next
  case False
  then have "\<not> ocpp_frame doc"
    by (auto elim!: ocpp_frameD simp: IsInt_def mt_simps Suc_le_eq)
  then show ?thesis
    using assms by (auto simp: validateOCPPMessage_def check_type_array not_less split: rjson.split)
qed

theorem validate_own_document_witness:
  "\<exists>t. validateOCPPMessage (\<lambda>_. Some (RArray [RInt 3, RString ''7'', RObject []])) True ''[3]''
         (RArray [RInt 3, RString ''7'', RObject []]) = Value (True, t)"
proof -
  have "ocpp_frame (RArray [RInt 3, RString ''7'', RObject []])"
    by (simp add: ocpp_frame_def mt_simps IsObject_def)
  then show ?thesis
    using validate_own_document [of "\<lambda>_. Some (RArray [RInt 3, RString ''7'', RObject []])" "''[3]''" _ True] by simp
qed

text \<open>
  The client passes a document that has only been constructed. Then no message is accepted: the
  process ends at the assertion in the size of a value that is no array or, built without
  assertions, the message is refused.
\<close>

lemma check_type_null: "check_type asserts t RNull \<noteq> Value True"
  by (simp add: check_type_def check_message_def Size_def)

lemma bind_pair_True: "bind_outcome c (\<lambda>b. Value (b, u)) = Value (True, t) \<Longrightarrow> c = Value True"
  by (cases c) auto

lemma validate_null: "validateOCPPMessage parse asserts msg RNull \<noteq> Value (True, t)"
proof
  assume a: "validateOCPPMessage parse asserts msg RNull = Value (True, t)"
  then obtain doc where doc: "parse (to_cstr msg) = Some doc"
    by (auto simp: validateOCPPMessage_def split: option.splits)
  then obtain arr where arr: "doc = RArray arr" "length arr \<ge> 3"
    using a by (cases doc) (auto simp: validateOCPPMessage_def split: if_splits)
  then obtain ty where "arr ! 0 = RInt ty"
    using a doc by (cases "arr ! 0") (auto simp: validateOCPPMessage_def split: if_splits)
  then have "check_type asserts ty RNull = Value True"
    using a doc arr by (auto simp: validateOCPPMessage_def dest: bind_pair_True split: if_splits)
  then show False
    by (simp add: check_type_null)
qed

section \<open>Identifiers\<close>

text \<open>
  An order number is the first four bytes of a random identifier, the first byte being the most
  significant one; \<open>uuid\<close> is the result of \<^verbatim>\<open>uuid_generate\<close>.
\<close>

definition generateOrderId :: "uint8 list \<Rightarrow> uint32" where
  "generateOrderId uuid = foldl (\<lambda>orderId i. or (push_bit 8 orderId) (ucast (uuid ! i))) 0 [0, 1, 2, 3]"

text \<open>The order number is read from the four bytes as from a big-endian number.\<close>

theorem generateOrderId_value:
  "unat (generateOrderId uuid) =
     unat (uuid ! 0) * 2 ^ 24 + unat (uuid ! 1) * 2 ^ 16 + unat (uuid ! 2) * 2 ^ 8 + unat (uuid ! 3)"
proof -
  have shift: "unat (or (push_bit 8 x) (ucast b) :: uint32) = unat x * 2 ^ 8 + unat b"
    if "unat x < 2 ^ 24" for x :: uint32 and b :: uint8
  proof -
    have b: "unat (ucast b :: uint32) = unat b" "unat b < 2 ^ 8"
      using unsigned_less [of b, where ?'a = nat] by (simp_all add: unsigned_ucast_eq take_bit_nat_eq_self)
    have "and (push_bit 8 x) (ucast b) = (0 :: uint32)"
      by (rule bit_word_eqI) (auto simp: bit_simps dest: bit_imp_le_length)
    then have "or (push_bit 8 x) (ucast b) = push_bit 8 x + (ucast b :: uint32)"
      by (simp add: disjunctive_add_eq_or)
    moreover have "unat (push_bit 8 x) = unat x * 2 ^ 8"
      using that by (simp add: push_bit_eq_mult unat_word_ariths)
    ultimately show ?thesis
      using that b by (simp add: unat_word_ariths)
  qed
  have lt: "unat (uuid ! i) < 2 ^ 8" for i
    using unsigned_less [of "uuid ! i"] by simp
  let ?o = "\<lambda>x i. or (push_bit 8 x) (ucast (uuid ! i)) :: uint32"
  have 1: "unat (?o 0 0) = unat (uuid ! 0)" by (subst shift) simp_all
  have "unat (?o 0 0) < 2 ^ 24"
    unfolding 1 using lt [of 0] by simp
  from shift [OF this, of "uuid ! 1"]
  have 2: "unat (?o (?o 0 0) 1) = unat (uuid ! 0) * 2 ^ 8 + unat (uuid ! 1)"
    unfolding 1 .
  have "unat (?o (?o 0 0) 1) < 2 ^ 24"
    unfolding 2 using lt [of 0] lt [of 1] by simp
  from shift [OF this, of "uuid ! 2"]
  have 3: "unat (?o (?o (?o 0 0) 1) 2) = (unat (uuid ! 0) * 2 ^ 8 + unat (uuid ! 1)) * 2 ^ 8 + unat (uuid ! 2)"
    unfolding 2 .
  have "unat (?o (?o (?o 0 0) 1) 2) < 2 ^ 24"
    unfolding 3 using lt [of 0] lt [of 1] lt [of 2] by simp
  from shift [OF this, of "uuid ! 3"]
  have 4: "unat (?o (?o (?o (?o 0 0) 1) 2) 3) =
     ((unat (uuid ! 0) * 2 ^ 8 + unat (uuid ! 1)) * 2 ^ 8 + unat (uuid ! 2)) * 2 ^ 8 + unat (uuid ! 3)"
    unfolding 3 .
  show ?thesis
    unfolding generateOrderId_def foldl_Cons foldl_Nil 4 by simp
qed

section \<open>The queue\<close>

text \<open>
  \<^verbatim>\<open>Queue<ItemType, MAX_SIZE>\<close>. The capacity is an argument. \<^verbatim>\<open>pop\<close> waits until the queue is
  disabled or not empty; \<open>expired\<close> says that the time-out has passed. A call that still waits has no
  result.
\<close>

record 'a mt_queue =
  mq_items :: "'a list"
  mq_enabled :: bool

definition new_queue :: "'a mt_queue" where
  "new_queue = \<lparr>mq_items = [], mq_enabled = True\<rparr>"

definition queue_size :: "nat \<Rightarrow> 'a mt_queue \<Rightarrow> nat" where
  "queue_size MAX_SIZE q = MAX_SIZE"

definition queue_empty :: "'a mt_queue \<Rightarrow> bool" where
  "queue_empty q \<longleftrightarrow> mq_items q = []"

definition queue_full :: "nat \<Rightarrow> 'a mt_queue \<Rightarrow> bool" where
  "queue_full MAX_SIZE q \<longleftrightarrow> MAX_SIZE = length (mq_items q)"

definition queue_count :: "'a mt_queue \<Rightarrow> nat" where
  "queue_count q = length (mq_items q)"

definition queue_push :: "nat \<Rightarrow> 'a \<Rightarrow> 'a mt_queue \<Rightarrow> bool \<times> 'a mt_queue" where
  "queue_push MAX_SIZE x q =
     (if MAX_SIZE > length (mq_items q) then (True, q\<lparr>mq_items := mq_items q @ [x]\<rparr>) else (False, q))"

definition queue_pop :: "bool \<Rightarrow> 'a mt_queue \<Rightarrow> (bool \<times> 'a option \<times> 'a mt_queue) option" where
  "queue_pop expired q =
     (if \<not> mq_enabled q \<or> mq_items q \<noteq> []
      then (if mq_enabled q
            then Some (True, Some (hd (mq_items q)), q\<lparr>mq_items := tl (mq_items q)\<rparr>)
            else Some (False, None, q))
      else if expired then Some (False, None, q) else None)"

definition queue_clear :: "'a mt_queue \<Rightarrow> 'a mt_queue" where
  "queue_clear q = q\<lparr>mq_items := []\<rparr>"

definition setEnable :: "bool \<Rightarrow> 'a mt_queue \<Rightarrow> 'a mt_queue" where
  "setEnable b q = q\<lparr>mq_enabled := b\<rparr>"

text \<open>\<^verbatim>\<open>std::numeric_limits<size_t>::max()\<close>, the capacity of the queues of the client.\<close>

definition SIZE_MAX :: nat where
  "SIZE_MAX = 2 ^ 64 - 1"

text \<open>The contract of a bounded first-in first-out queue, on the items it holds.\<close>

locale fifo =
  fixes items :: "'q \<Rightarrow> 'a list" and put :: "'a \<Rightarrow> 'q \<Rightarrow> bool \<times> 'q" and get :: "'q \<Rightarrow> (bool \<times> 'a option \<times> 'q) option"
    and capacity :: nat and open_queue :: "'q \<Rightarrow> bool"
  assumes put_ok: "length (items q) < capacity \<Longrightarrow> fst (put x q) \<and> items (snd (put x q)) = items q @ [x]"
    and put_full: "length (items q) \<ge> capacity \<Longrightarrow> put x q = (False, q)"
    and put_open: "open_queue (snd (put x q)) = open_queue q"
    and get_ok: "\<lbrakk>open_queue q; items q = x # xs\<rbrakk> \<Longrightarrow> \<exists>q'. get q = Some (True, Some x, q') \<and> items q' = xs \<and> open_queue q'"
begin

lemma put_all_items:
  "length (items q) + length xs \<le> capacity \<Longrightarrow>
   items (fold (\<lambda>x q. snd (put x q)) xs q) = items q @ xs \<and>
   open_queue (fold (\<lambda>x q. snd (put x q)) xs q) = open_queue q"
proof (induction xs arbitrary: q)
  case (Cons x xs)
  then have "items (snd (put x q)) = items q @ [x]" using put_ok by simp
  then show ?case using Cons put_open by simp
qed simp

lemma first_in_first_out:
  assumes "items q = []" "open_queue q" "xs \<noteq> []" "length xs \<le> capacity"
  shows "\<exists>q'. get (fold (\<lambda>x q. snd (put x q)) xs q) = Some (True, Some (hd xs), q') \<and> items q' = tl xs"
  using get_ok [of "fold (\<lambda>x q. snd (put x q)) xs q" "hd xs" "tl xs"] put_all_items [of q xs] assms by auto

end

interpretation client_queue: fifo mq_items "queue_push SIZE_MAX" "queue_pop False" SIZE_MAX mq_enabled
proof
  fix q :: "'a mt_queue" and x
  show "length (mq_items q) < SIZE_MAX \<Longrightarrow>
      fst (queue_push SIZE_MAX x q) \<and> mq_items (snd (queue_push SIZE_MAX x q)) = mq_items q @ [x]"
    by (simp add: queue_push_def)
  show "length (mq_items q) \<ge> SIZE_MAX \<Longrightarrow> queue_push SIZE_MAX x q = (False, q)"
    by (simp add: queue_push_def)
  show "mq_enabled (snd (queue_push SIZE_MAX x q)) = mq_enabled q"
    by (simp add: queue_push_def)
next
  fix q :: "'a mt_queue" and x xs
  show "\<lbrakk>mq_enabled q; mq_items q = x # xs\<rbrakk> \<Longrightarrow>
      \<exists>q'. queue_pop False q = Some (True, Some x, q') \<and> mq_items q' = xs \<and> mq_enabled q'"
    by (simp add: queue_pop_def)
qed

end
