(* ===== verification/Url.thy ===== *)
theory Url
  imports Utils
begin

text \<open>
  The URL class of the charge point (\<^verbatim>\<open>src/src/ocpp/tool/url/\<close>).
  \<^item> \<^verbatim>\<open>urlRegex\<close> is matched by backtracking, but only two of its choices can fail later: whether there
    is a user, and whether the host is in brackets. The functions below make these choices in the order of the
    regular expression and read every other part greedily, which is what the match does since what
    follows a part never starts with a character of the part.
  \<^item> \<^verbatim>\<open>inet_pton\<close> for IPv6 addresses is a parameter.
  \<^item> \<^verbatim>\<open>std::stoi\<close> throws when the port does not fit an \<^verbatim>\<open>int\<close>: the left summand of the result.
\<close>

section \<open>Characters\<close>

definition is_digit :: "char \<Rightarrow> bool" where
  "is_digit c \<longleftrightarrow> 48 \<le> (of_char c :: nat) \<and> (of_char c :: nat) \<le> 57"

definition is_alpha :: "char \<Rightarrow> bool" where
  "is_alpha c \<longleftrightarrow> 65 \<le> (of_char c :: nat) \<and> (of_char c :: nat) \<le> 90 \<or> 97 \<le> (of_char c :: nat) \<and> (of_char c :: nat) \<le> 122"

definition is_alnum :: "char \<Rightarrow> bool" where
  "is_alnum c \<longleftrightarrow> is_alpha c \<or> is_digit c"

definition scheme_char :: "char \<Rightarrow> bool" where
  "scheme_char c \<longleftrightarrow> is_alnum c \<or> c = CHR ''+'' \<or> c = CHR ''-'' \<or> c = CHR ''.''"

definition user_char :: "char \<Rightarrow> bool" where
  "user_char c \<longleftrightarrow> c \<noteq> CHR '':'' \<and> c \<noteq> CHR ''@''"

definition host_char :: "char \<Rightarrow> bool" where
  "host_char c \<longleftrightarrow> c \<noteq> CHR '':'' \<and> c \<noteq> CHR ''/'' \<and> c \<noteq> CHR ''?'' \<and> c \<noteq> CHR ''#''"

definition path_char :: "char \<Rightarrow> bool" where
  "path_char c \<longleftrightarrow> c \<noteq> CHR ''?'' \<and> c \<noteq> CHR ''#''"

definition line_char :: "char \<Rightarrow> bool" where
  "line_char c \<longleftrightarrow> c \<noteq> CHR 0x0A \<and> c \<noteq> CHR 0x0D"

section \<open>Matching the regular expression\<close>

definition match_scheme :: "string \<Rightarrow> (string \<times> string) option" where
  "match_scheme url =
     (let s = takeWhile scheme_char url; r = dropWhile scheme_char url
      in if s \<noteq> [] \<and> is_alpha (hd s) \<and> take 3 r = ''://'' then Some (s, drop 3 r) else None)"

definition match_user :: "string \<Rightarrow> (string \<times> string \<times> string) option" where
  "match_user r =
     (let u = takeWhile user_char r
      in if u = [] then None
         else (case dropWhile user_char r of
                 [] \<Rightarrow> None
               | c # r1 \<Rightarrow>
                   if c = CHR ''@'' then Some (u, [], r1)
                   else (case dropWhile (\<lambda>c. c \<noteq> CHR ''@'') r1 of
                           [] \<Rightarrow> None
                         | _ # r2 \<Rightarrow> Some (u, takeWhile (\<lambda>c. c \<noteq> CHR ''@'') r1, r2))))"

definition match_brackets :: "string \<Rightarrow> (string \<times> string) option" where
  "match_brackets r =
     (case r of
        [] \<Rightarrow> None
      | c # r1 \<Rightarrow>
          let b = takeWhile (\<lambda>c. c \<noteq> CHR '']'') r1; r2 = dropWhile (\<lambda>c. c \<noteq> CHR '']'') r1
          in if c = CHR ''['' \<and> b \<noteq> [] \<and> r2 \<noteq> [] then Some (c # b @ [hd r2], tl r2) else None)"

definition match_host :: "string \<Rightarrow> (string \<times> string) option" where
  "match_host r =
     (case match_brackets r of
        Some m \<Rightarrow> Some m
      | None \<Rightarrow> let h = takeWhile host_char r in if h = [] then None else Some (h, dropWhile host_char r))"

definition match_port :: "string \<Rightarrow> string \<times> string" where
  "match_port r =
     (case r of
        [] \<Rightarrow> ([], r)
      | c # r1 \<Rightarrow>
          let d = takeWhile is_digit r1
          in if c = CHR '':'' \<and> d \<noteq> [] then (d, dropWhile is_digit r1) else ([], r))"

definition match_query :: "string \<Rightarrow> string \<times> string" where
  "match_query r =
     (case r of
        [] \<Rightarrow> ([], [])
      | c # r1 \<Rightarrow>
          if c = CHR ''?'' then (takeWhile (\<lambda>c. c \<noteq> CHR ''#'') r1, dropWhile (\<lambda>c. c \<noteq> CHR ''#'') r1) else ([], r))"

definition match_fragment :: "string \<Rightarrow> string option" where
  "match_fragment r =
     (case r of [] \<Rightarrow> Some [] | c # f \<Rightarrow> if c = CHR ''#'' \<and> list_all line_char f then Some f else None)"

record url_match =
  mt_user :: string
  mt_password :: string
  mt_host :: string
  mt_port :: string
  mt_path :: string
  mt_query :: string
  mt_fragment :: string

definition match_rest :: "string \<Rightarrow> string \<Rightarrow> string \<Rightarrow> url_match option" where
  "match_rest u p r =
     (case match_host r of
        None \<Rightarrow> None
      | Some (h, r1) \<Rightarrow>
          let (d, r2) = match_port r1; path = takeWhile path_char r2; (q, r3) = match_query (dropWhile path_char r2)
          in (case match_fragment r3 of
                None \<Rightarrow> None
              | Some f \<Rightarrow> Some \<lparr>mt_user = u, mt_password = p, mt_host = h, mt_port = d, mt_path = path, mt_query = q, mt_fragment = f\<rparr>))"

definition match_authority :: "string \<Rightarrow> url_match option" where
  "match_authority r =
     (case match_user r of
        None \<Rightarrow> match_rest [] [] r
      | Some (u, p, r1) \<Rightarrow>
          (case match_rest u p r1 of Some m \<Rightarrow> Some m | None \<Rightarrow> match_rest [] [] r))"

definition urlRegex :: "string \<Rightarrow> (string \<times> url_match) option" where
  "urlRegex url =
     (case match_scheme url of
        None \<Rightarrow> None
      | Some (s, r) \<Rightarrow> map_option (Pair s) (match_authority r))"

section \<open>The class\<close>

record url =
  m_valid :: bool
  m_protocol :: string
  m_username :: string
  m_password :: string
  m_host :: string
  m_port :: uint16
  m_path :: string
  m_query :: string
  m_fragment :: string
  m_queryParams :: "string \<Rightarrow> string option"

datatype url_error = StoiOutOfRange

definition s_defaultPorts :: "(string \<times> uint16) list" where
  "s_defaultPorts =
     [(''http'', 80), (''https'', 443), (''ftp'', 21), (''ftps'', 990), (''sftp'', 22), (''ws'', 80), (''wss'', 443)]"

definition default_port :: "string \<Rightarrow> uint16" where
  "default_port protocol = (case map_of s_defaultPorts protocol of Some p \<Rightarrow> p | None \<Rightarrow> 0)"

definition read_nat :: "string \<Rightarrow> nat" where
  "read_nat ds = foldl (\<lambda>n c. 10 * n + (of_char c - 48)) 0 ds"

definition stoi :: "string \<Rightarrow> url_error + int" where
  "stoi ds = (if read_nat ds < 2 ^ 31 then Inr (int (read_nat ds)) else Inl StoiOutOfRange)"

text \<open>
  The parts between the delimiters, and \<^verbatim>\<open>std::getline\<close> with a delimiter, which gives no last part
  when nothing follows the last delimiter.
\<close>

fun split_on :: "char \<Rightarrow> string \<Rightarrow> string list" where
  "split_on d [] = [[]]"
| "split_on d (c # cs) = (if c = d then [] # split_on d cs else (c # hd (split_on d cs)) # tl (split_on d cs))"

definition getlines :: "char \<Rightarrow> string \<Rightarrow> string list" where
  "getlines d s = (let ps = split_on d s in if last ps = [] then butlast ps else ps)"

definition put_param :: "string \<Rightarrow> (string \<Rightarrow> string option) \<Rightarrow> string \<Rightarrow> string option" where
  "put_param param m =
     (case dropWhile (\<lambda>c. c \<noteq> CHR ''='') param of
        [] \<Rightarrow> m(param \<mapsto> [])
      | _ # v \<Rightarrow> m(takeWhile (\<lambda>c. c \<noteq> CHR ''='') param \<mapsto> v))"

definition parseQueryParams :: "string \<Rightarrow> string \<Rightarrow> string option" where
  "parseQueryParams query = fold put_param (getlines CHR ''&'' query) (\<lambda>_. None)"

definition label_ok :: "string \<Rightarrow> bool" where
  "label_ok l \<longleftrightarrow> l \<noteq> [] \<and> length l \<le> 63 \<and> is_alnum (hd l) \<and> is_alnum (last l) \<and>
     list_all (\<lambda>c. is_alnum c \<or> c = CHR ''-'') l"

definition validateDomain :: "string \<Rightarrow> bool" where
  "validateDomain domain \<longleftrightarrow> list_all label_ok (split_on CHR ''.'' domain)"

fun ipv4_parts :: "nat \<Rightarrow> string list \<Rightarrow> bool" where
  "ipv4_parts n [] \<longleftrightarrow> n = 4"
| "ipv4_parts n (p # ps) \<longleftrightarrow>
     \<not> Suc n > 4 \<and> \<not> (p = [] \<or> length p > 3) \<and> list_all is_digit p \<and> read_nat p \<le> 255 \<and> ipv4_parts (Suc n) ps"

definition validateIPv4 :: "string \<Rightarrow> bool" where
  "validateIPv4 ip = ipv4_parts 0 (getlines CHR ''.'' ip)"

definition dotted_digits :: "string \<Rightarrow> bool" where
  "dotted_digits s \<longleftrightarrow> length (split_on CHR ''.'' s) = 4 \<and> list_all (\<lambda>p. p \<noteq> [] \<and> list_all is_digit p) (split_on CHR ''.'' s)"

definition validate :: "(string \<Rightarrow> bool) \<Rightarrow> string \<Rightarrow> string \<Rightarrow> bool" where
  "validate inet6 protocol host =
     (if host = [] then False
      else if protocol = [] then False
      else if hd host = CHR ''['' \<and> last host = CHR '']'' then inet6 (butlast (tl host))
      else if dotted_digits host then validateIPv4 host
      else validateDomain host)"

definition assign_port :: "string \<Rightarrow> string \<Rightarrow> url_error + uint16" where
  "assign_port protocol d =
     (if d \<noteq> [] then (case stoi d of Inl e \<Rightarrow> Inl e | Inr i \<Rightarrow> Inr (word_of_int i)) else Inr (default_port protocol))"

definition parse :: "(string \<Rightarrow> bool) \<Rightarrow> string \<Rightarrow> url \<Rightarrow> url_error + bool \<times> url" where
  "parse inet6 s u =
     (case urlRegex s of
        None \<Rightarrow> Inr (False, u\<lparr>m_valid := False\<rparr>)
      | Some (prot, m) \<Rightarrow>
          (case assign_port prot (mt_port m) of
             Inl e \<Rightarrow> Inl e
           | Inr port \<Rightarrow>
               let v = validate inet6 prot (mt_host m)
               in Inr (v, \<lparr>m_valid = v, m_protocol = prot, m_username = mt_user m, m_password = mt_password m,
                           m_host = mt_host m, m_port = port, m_path = (if mt_path m = [] then ''/'' else mt_path m),
                           m_query = mt_query m, m_fragment = mt_fragment m, m_queryParams = parseQueryParams (mt_query m)\<rparr>)))"

definition getPassword :: "url \<Rightarrow> string" where
  "getPassword u = m_host u"

definition extractFilenameFromPath :: "string \<Rightarrow> string" where
  "extractFilenameFromPath path =
     (if path = [] \<or> path = ''/'' then []
      else let trimmed = (if last path = CHR ''/'' then butlast path else path)
           in rev (takeWhile (\<lambda>c. c \<noteq> CHR ''/'') (rev trimmed)))"

definition getFilename :: "url \<Rightarrow> string" where
  "getFilename u = (if \<not> m_valid u then [] else extractFilenameFromPath (m_path u))"

definition url_toString :: "url \<Rightarrow> string" where
  "url_toString u =
     (if \<not> m_valid u then []
      else m_protocol u @ ''://'' @
           (if m_username u \<noteq> []
            then m_username u @ (if m_password u \<noteq> [] then '':'' @ m_password u else []) @ ''@'' else []) @
           m_host u @
           (if m_port u \<noteq> 0 \<and> m_port u \<noteq> default_port (m_protocol u) then '':'' @ show_nat (unat (m_port u)) else []) @
           m_path u @ (if m_query u \<noteq> [] then ''?'' @ m_query u else []) @
           (if m_fragment u \<noteq> [] then ''#'' @ m_fragment u else []))"

section \<open>Percent encoding\<close>

definition pct_digit :: "nat \<Rightarrow> char" where
  "pct_digit n = (if n < 10 then char_of (48 + n) else char_of (55 + n))"

definition unreserved :: "char \<Rightarrow> bool" where
  "unreserved c \<longleftrightarrow> is_alnum c \<or> c = CHR ''-'' \<or> c = CHR ''_'' \<or> c = CHR ''.'' \<or> c = CHR ''~''"

fun url_encode :: "string \<Rightarrow> string" where
  "url_encode [] = []"
| "url_encode (c # cs) =
     (if \<not> unreserved c
      then CHR ''%'' # pct_digit (of_char c div 16) # pct_digit (of_char c mod 16) # url_encode cs
      else c # url_encode cs)"

section \<open>Encoding can be undone\<close>

text \<open>A decoder as RFC 3986 describes it, to state what the encoder promises.\<close>

definition hex_value :: "char \<Rightarrow> nat" where
  "hex_value c = (if is_digit c then of_char c - 48 else of_char c - 55)"

fun url_decode :: "string \<Rightarrow> string" where
  "url_decode [] = []"
| "url_decode (c # cs) =
     (if c = CHR ''%''
      then (case cs of a # b # ds \<Rightarrow> char_of (16 * hex_value a + hex_value b) # url_decode ds | _ \<Rightarrow> [])
      else c # url_decode cs)"

lemma hex_value_digit: "n < 16 \<Longrightarrow> hex_value (pct_digit n) = n"
  by (simp add: hex_value_def pct_digit_def is_digit_def)

lemma percent_reserved: "\<not> unreserved CHR ''%''"
  by (simp add: unreserved_def is_alnum_def is_alpha_def is_digit_def)

lemma char_code_split: "16 * (of_char c div 16) + of_char c mod 16 = (of_char c :: nat)"
  by simp

lemma of_char_less: "of_char c < (256 :: nat)"
  by (rule nat_of_char_less_256)

text \<open>
  Percent encoding loses nothing and produces only characters that need no encoding, and the
  percent sign. Decoding the encoded text gives the text back.
\<close>

theorem url_encode_round_trip:
  "url_decode (url_encode s) = s \<and> list_all (\<lambda>c. unreserved c \<or> c = CHR ''%'') (url_encode s)"
proof (induction s)
  case (Cons c s)
  have lt: "(of_char c :: nat) div 16 < 16" "(of_char c :: nat) mod 16 < 16"
    using of_char_less [of c] by (simp_all add: less_mult_imp_div_less)
  have hex: "unreserved (pct_digit n)" if "n < 16" for n
    using that by (simp add: unreserved_def is_alnum_def is_alpha_def is_digit_def pct_digit_def)
  show ?case
    using Cons lt percent_reserved by (auto simp: hex_value_digit hex char_code_split)
qed simp

section \<open>Printing and parsing\<close>

lemma span_append:
  assumes "list_all P xs" "ys = [] \<or> \<not> P (hd ys)"
  shows "takeWhile P (xs @ ys) = xs" "dropWhile P (xs @ ys) = ys"
proof -
  have "takeWhile P ys = []" "dropWhile P ys = ys"
    using assms(2) by (cases ys; simp)+
  then show "takeWhile P (xs @ ys) = xs" "dropWhile P (xs @ ys) = ys"
    using assms(1) by (simp_all add: list_all_iff takeWhile_append2 dropWhile_append2)
qed

lemma read_nat_append: "read_nat (xs @ [c]) = 10 * read_nat xs + (of_char c - 48)"
  by (simp add: read_nat_def)

lemma show_nat_reads: "list_all is_digit (show_nat n) \<and> show_nat n \<noteq> [] \<and> read_nat (show_nat n) = n"
proof (induction n rule: show_nat.induct)
  case (1 n)
  have d: "is_digit (digit_char k) \<and> of_char (digit_char k) - 48 = k" if "k < 10" for k
    using that by (simp add: is_digit_def digit_char_def)
  show ?case
  proof (cases "n < 10")
    case True
    then show ?thesis using d by (simp add: show_nat.simps [of n] read_nat_def)
  next
    case False
    then show ?thesis
      using 1 d [of "n mod 10"] by (simp add: show_nat.simps [of n] read_nat_append)
  qed
qed

text \<open>
  A URL whose parts have the characters that the grammar gives them. Without a user no later part has
  an at sign: \<^verbatim>\<open>urlRegex\<close> takes everything before the first one for a user.
\<close>

definition no_at :: "string \<Rightarrow> bool" where
  "no_at s = list_all (\<lambda>c. c \<noteq> CHR ''@'') s"

definition url_wf :: "(string \<Rightarrow> bool) \<Rightarrow> url \<Rightarrow> bool" where
  "url_wf inet6 u \<longleftrightarrow>
     m_valid u \<and> validate inet6 (m_protocol u) (m_host u) \<and>
     m_protocol u \<noteq> [] \<and> is_alpha (hd (m_protocol u)) \<and> list_all scheme_char (m_protocol u) \<and>
     list_all user_char (m_username u) \<and> no_at (m_password u) \<and>
     (if m_username u = [] then m_password u = [] \<and> no_at (m_host u @ m_path u @ m_query u @ m_fragment u) else True) \<and>
     (if hd (m_host u) = CHR ''['' then match_brackets (m_host u) = Some (m_host u, []) else list_all host_char (m_host u)) \<and>
     m_path u \<noteq> [] \<and> hd (m_path u) = CHR ''/'' \<and> list_all path_char (m_path u) \<and>
     list_all (\<lambda>c. c \<noteq> CHR ''#'') (m_query u) \<and> list_all line_char (m_fragment u) \<and>
     (if m_port u = 0 then default_port (m_protocol u) = 0 else True) \<and>
     m_queryParams u = parseQueryParams (m_query u)"

definition tail_text :: "url \<Rightarrow> string" where
  "tail_text u = m_path u @ (if m_query u \<noteq> [] then ''?'' @ m_query u else []) @ (if m_fragment u \<noteq> [] then ''#'' @ m_fragment u else [])"

definition port_text :: "url \<Rightarrow> string" where
  "port_text u = (if m_port u \<noteq> 0 \<and> m_port u \<noteq> default_port (m_protocol u) then show_nat (unat (m_port u)) else [])"

definition colon_port :: "url \<Rightarrow> string" where
  "colon_port u = (if port_text u = [] then [] else '':'' @ port_text u)"

lemma tail_parts:
  assumes "url_wf inet6 u"
  shows "takeWhile path_char (tail_text u) = m_path u"
    "\<exists>r. match_query (dropWhile path_char (tail_text u)) = (m_query u, r) \<and> match_fragment r = Some (m_fragment u)"
proof -
  let ?f = "if m_fragment u \<noteq> [] then ''#'' @ m_fragment u else []"
  let ?q = "if m_query u \<noteq> [] then ''?'' @ m_query u else []"
  have p: "list_all path_char (m_path u)" and q: "list_all (\<lambda>c. c \<noteq> CHR ''#'') (m_query u)" and f: "list_all line_char (m_fragment u)"
    using assms by (simp_all add: url_wf_def)
  have end_path: "?q @ ?f = [] \<or> \<not> path_char (hd (?q @ ?f))"
    by (simp add: path_char_def)
  show "takeWhile path_char (tail_text u) = m_path u"
    unfolding tail_text_def by (rule span_append(1) [OF p end_path])
  have "dropWhile path_char (tail_text u) = ?q @ ?f"
    unfolding tail_text_def by (rule span_append(2) [OF p end_path])
  moreover have "match_query (?q @ ?f) = (m_query u, ?f)"
  proof (cases "m_query u = []")
    case False
    then have "?q @ ?f = CHR ''?'' # (m_query u @ ?f)"
      by simp
    moreover have end_query: "?f = [] \<or> \<not> hd ?f \<noteq> CHR ''#''"
      by simp
    ultimately show ?thesis
      unfolding match_query_def using span_append [OF q end_query] by (simp only: list.case if_True simp_thms)
  qed (simp add: match_query_def)
  moreover have "match_fragment ?f = Some (m_fragment u)"
    using f by (simp add: match_fragment_def)
  ultimately show "\<exists>r. match_query (dropWhile path_char (tail_text u)) = (m_query u, r) \<and> match_fragment r = Some (m_fragment u)"
    by simp
qed

lemma tail_hd:
  assumes "url_wf inet6 u"
  shows "tail_text u \<noteq> []" "hd (tail_text u) = CHR ''/''"
  using assms by (auto simp: url_wf_def tail_text_def)

lemma match_port_printed:
  assumes "url_wf inet6 u"
  shows "match_port (colon_port u @ tail_text u) = (port_text u, tail_text u)"
proof (cases "port_text u = []")
  case True
  then show ?thesis
    using tail_hd [OF assms] by (cases "tail_text u") (simp_all add: match_port_def colon_port_def)
next
  case False
  have "list_all is_digit (port_text u)"
    using show_nat_reads by (simp add: port_text_def)
  moreover have "\<not> is_digit (hd (tail_text u))"
    using tail_hd [OF assms] by (simp add: is_digit_def)
  ultimately show ?thesis
    using False span_append [of is_digit "port_text u" "tail_text u"] by (simp add: match_port_def colon_port_def)
qed

lemma match_brackets_append:
  "match_brackets h = Some (h, []) \<Longrightarrow> match_brackets (h @ r) = Some (h, r)"
proof -
  assume a: "match_brackets h = Some (h, [])"
  then obtain c r1 where h: "h = c # r1" by (cases h) (auto simp: match_brackets_def)
  let ?P = "\<lambda>c. c \<noteq> CHR '']''"
  have c: "c = CHR ''[''" "takeWhile ?P r1 \<noteq> []" "dropWhile ?P r1 \<noteq> []" "tl (dropWhile ?P r1) = []"
    using a by (auto simp: match_brackets_def h Let_def split: if_splits)
  then obtain x where x: "dropWhile ?P r1 = [x]" by (cases "dropWhile ?P r1") auto
  have r1: "r1 = takeWhile ?P r1 @ [x]" "x = CHR '']''"
    using x takeWhile_dropWhile_id [of ?P r1] hd_dropWhile [of ?P r1] by auto
  have "list_all ?P (takeWhile ?P r1)"
    by (auto simp: list_all_iff dest: set_takeWhileD)
  from span_append [OF this, of "x # r"]
  have "takeWhile ?P (r1 @ r) = takeWhile ?P r1" "dropWhile ?P (r1 @ r) = x # r"
    using r1 by (metis append_Cons append_Nil append_assoc list.sel(1))+
  then show ?thesis
    using c r1 by (simp add: match_brackets_def h Let_def)
qed

lemma match_host_printed:
  assumes "url_wf inet6 u"
  shows "match_host (m_host u @ colon_port u @ tail_text u) = Some (m_host u, colon_port u @ tail_text u)"
proof -
  have ne: "m_host u \<noteq> []"
    using assms by (auto simp: url_wf_def validate_def split: if_splits)
  have stop: "\<not> host_char (hd (colon_port u @ tail_text u))"
    using tail_hd [OF assms] by (simp add: host_char_def colon_port_def)
  show ?thesis
  proof (cases "hd (m_host u) = CHR ''[''")
    case True
    then have "match_brackets (m_host u) = Some (m_host u, [])"
      using assms by (simp add: url_wf_def)
    then show ?thesis
      by (simp add: match_host_def match_brackets_append)
  next
    case False
    then have "list_all host_char (m_host u)"
      using assms by (simp add: url_wf_def)
    moreover have "match_brackets (m_host u @ r) = None" for r
      using False ne by (cases "m_host u") (simp_all add: match_brackets_def)
    ultimately show ?thesis
      using span_append [of host_char "m_host u" "colon_port u @ tail_text u"] stop ne by (simp add: match_host_def)
  qed
qed

definition printed_match :: "url \<Rightarrow> url_match" where
  "printed_match u = \<lparr>mt_user = m_username u, mt_password = m_password u, mt_host = m_host u, mt_port = port_text u,
     mt_path = m_path u, mt_query = m_query u, mt_fragment = m_fragment u\<rparr>"

lemma match_rest_printed:
  assumes "url_wf inet6 u"
  shows "match_rest (m_username u) (m_password u) (m_host u @ colon_port u @ tail_text u) = Some (printed_match u)"
  using match_host_printed [OF assms] match_port_printed [OF assms] tail_parts [OF assms]
  by (auto simp: match_rest_def printed_match_def)

lemma match_user_none: "no_at r \<Longrightarrow> match_user r = None"
proof -
  assume a: "no_at r"
  have sub: "c \<in> set r" "set xs \<subseteq> set r" if "dropWhile user_char r = c # xs" for c xs
    using that set_dropWhileD [of _ user_char r] by auto
  then have "c \<noteq> CHR ''@''" "dropWhile (\<lambda>c. c \<noteq> CHR ''@'') xs = []" if "dropWhile user_char r = c # xs" for c xs
    using that a by (fastforce simp: no_at_def list_all_iff)+
  then show ?thesis
    by (cases "dropWhile user_char r") (simp_all add: match_user_def Let_def del: dropWhile_eq_Nil_conv)
qed

lemma no_at_simps [simp]:
  "no_at (xs @ ys) \<longleftrightarrow> no_at xs \<and> no_at ys" "no_at (c # xs) \<longleftrightarrow> c \<noteq> CHR ''@'' \<and> no_at xs" "no_at []"
  by (simp_all add: no_at_def)

lemma no_at_port: "no_at (colon_port u)"
proof -
  have "no_at (show_nat n)" for n
    using show_nat_reads [of n] by (auto simp: no_at_def list_all_iff is_digit_def)
  then show ?thesis by (simp add: colon_port_def port_text_def)
qed

definition user_text :: "url \<Rightarrow> string" where
  "user_text u = (if m_username u \<noteq> [] then m_username u @ (if m_password u \<noteq> [] then '':'' @ m_password u else []) @ ''@'' else [])"

lemma match_authority_printed:
  assumes "url_wf inet6 u"
  shows "match_authority (user_text u @ m_host u @ colon_port u @ tail_text u) = Some (printed_match u)"
proof (cases "m_username u = []")
  case True
  then have "no_at (m_host u @ colon_port u @ tail_text u)" "m_password u = []"
    using assms no_at_port [of u] by (auto simp: url_wf_def tail_text_def)
  then show ?thesis
    using match_rest_printed [OF assms] True by (simp add: match_authority_def match_user_none user_text_def)
next
  case False
  let ?r = "m_host u @ colon_port u @ tail_text u"
  let ?p = "if m_password u \<noteq> [] then '':'' @ m_password u else []"
  have user: "list_all user_char (m_username u)" and pw: "list_all (\<lambda>c. c \<noteq> CHR ''@'') (m_password u)"
    using assms by (simp_all add: url_wf_def no_at_def)
  have end_user: "?p @ ''@'' @ ?r = [] \<or> \<not> user_char (hd (?p @ ''@'' @ ?r))"
    by (simp add: user_char_def)
  have end_pw: "''@'' @ ?r = [] \<or> \<not> hd (''@'' @ ?r) \<noteq> CHR ''@''"
    by simp
  have "match_user (m_username u @ ?p @ ''@'' @ ?r) = Some (m_username u, m_password u, ?r)"
    unfolding match_user_def span_append [OF user end_user] Let_def
    using False span_append [OF pw end_pw] by simp
  then show ?thesis
    using match_rest_printed [OF assms] False by (simp add: match_authority_def user_text_def)
qed

lemma url_toString_eq:
  assumes "url_wf inet6 u"
  shows "url_toString u = m_protocol u @ ''://'' @ user_text u @ m_host u @ colon_port u @ tail_text u"
  using assms show_nat_reads by (simp add: url_toString_def url_wf_def user_text_def colon_port_def port_text_def tail_text_def)

lemma urlRegex_printed:
  assumes "url_wf inet6 u"
  shows "urlRegex (url_toString u) = Some (m_protocol u, printed_match u)"
proof -
  let ?r = "user_text u @ m_host u @ colon_port u @ tail_text u"
  have pr: "list_all scheme_char (m_protocol u)" "m_protocol u \<noteq> []" "is_alpha (hd (m_protocol u))"
    using assms by (simp_all add: url_wf_def)
  have end_scheme: "''://'' @ ?r = [] \<or> \<not> scheme_char (hd (''://'' @ ?r))"
    by (simp add: scheme_char_def is_alnum_def is_alpha_def is_digit_def)
  have "match_scheme (m_protocol u @ ''://'' @ ?r) = Some (m_protocol u, ?r)"
    unfolding match_scheme_def span_append [OF pr(1) end_scheme] Let_def using pr by simp
  then show ?thesis
    by (simp add: urlRegex_def url_toString_eq [OF assms] match_authority_printed [OF assms])
qed

lemma assign_port_printed:
  assumes "url_wf inet6 u"
  shows "assign_port (m_protocol u) (port_text u) = Inr (m_port u)"
proof (cases "port_text u = []")
  case True
  then have "m_port u = 0 \<or> m_port u = default_port (m_protocol u)"
    using show_nat_reads by (auto simp: port_text_def split: if_splits)
  then have "default_port (m_protocol u) = m_port u"
    using assms by (auto simp: url_wf_def)
  then show ?thesis
    using True by (simp add: assign_port_def)
next
  case False
  then have p: "port_text u = show_nat (unat (m_port u))"
    by (simp add: port_text_def split: if_splits)
  have "unat (m_port u) < 2 ^ 31"
    using unsigned_less [of "m_port u", where ?'a = nat] by simp
  then show ?thesis
    using False show_nat_reads [of "unat (m_port u)"] by (simp add: p assign_port_def stoi_def)
qed

text \<open>
  C21. Printing and parsing a URL. Parsing the text of a URL whose parts obey the grammar, and whose port
  can be told from the default, gives exactly that URL, whatever the object held before.
\<close>

theorem url_round_trip:
  assumes "url_wf inet6 u"
  shows "parse inet6 (url_toString u) u0 = Inr (True, u)"
proof -
  have "validate inet6 (m_protocol u) (m_host u)" "m_path u \<noteq> []" "m_valid u" "m_queryParams u = parseQueryParams (m_query u)"
    using assms by (simp_all add: url_wf_def)
  then show ?thesis
    by (simp add: parse_def urlRegex_printed [OF assms] printed_match_def assign_port_printed [OF assms])
qed

definition demo_url :: url where
  "demo_url = \<lparr>m_valid = True, m_protocol = ''ws'', m_username = ''cp'', m_password = ''k'', m_host = ''a.b'', m_port = 8080,
     m_path = ''/x'', m_query = ''k=v'', m_fragment = [], m_queryParams = parseQueryParams ''k=v''\<rparr>"

theorem url_round_trip_witness: "parse (\<lambda>_. False) ''ws://cp:k@a.b:8080/x?k=v'' demo_url = Inr (True, demo_url)"
proof -
  have "url_wf (\<lambda>_. False) demo_url"
    by (simp add: url_wf_def demo_url_def validate_def dotted_digits_def validateDomain_def label_ok_def is_alnum_def is_alpha_def
        is_digit_def scheme_char_def user_char_def no_at_def host_char_def path_char_def line_char_def)
  moreover have "url_toString demo_url = ''ws://cp:k@a.b:8080/x?k=v''"
    by (simp add: url_toString_def demo_url_def default_port_def s_defaultPorts_def show_nat.simps digit_char_def char_of_def bit_0)
  ultimately show ?thesis
    using url_round_trip [of "\<lambda>_. False" demo_url demo_url] by simp
qed

section \<open>Where the class surprises\<close>

text \<open>
  The port is truncated to sixteen bits; a port that does not fit an \<^verbatim>\<open>int\<close> makes the
  parser throw. An at sign in the path turns what precedes it into a user. The password that
  \<^verbatim>\<open>getPassword\<close> returns is the host.
\<close>

lemmas match_simps = parse_def urlRegex_def match_scheme_def match_authority_def match_user_def match_rest_def match_host_def
  match_brackets_def match_port_def match_query_def match_fragment_def scheme_char_def user_char_def host_char_def path_char_def
  line_char_def is_alnum_def is_alpha_def is_digit_def assign_port_def stoi_def read_nat_def validate_def dotted_digits_def
  validateDomain_def label_ok_def Let_def

theorem url_port_truncated:
  "\<exists>u. parse inet6 ''http://h:65616/'' u0 = Inr (True, u) \<and> m_port u = 80"
  by (simp add: match_simps)

theorem url_port_throws: "parse inet6 ''http://h:4294967376/'' u0 = Inl StoiOutOfRange"
  by (simp add: match_simps)

theorem url_at_sign_in_path:
  "\<exists>u. parse inet6 ''http://h/p@q'' u0 = Inr (True, u) \<and> m_username u = ''h/p'' \<and> m_host u = ''q''"
  by (simp add: match_simps)

theorem url_password_is_host: "getPassword u = m_host u"
  by (simp add: getPassword_def)

end
