(* ===== verification/Connect_Info.thy ===== *)
theory Connect_Info
  imports Ocpp_Message Url
begin

text \<open>
  How the OCPP client reads its connection parameters: \<^verbatim>\<open>OCPPClient::initConnectInfo\<close>
  (\<^verbatim>\<open>src/src/ocpp/client/OCPPClient.cpp\<close>). The configuration is the document that
  \<^verbatim>\<open>ConfigManager::getConfig("", ...)\<close> yields, or nothing if that call fails. \<^verbatim>\<open>Credentials\<close> is
  the structure that \<^verbatim>\<open>websock_client.h\<close> declares in the client's own name space, with flags that start as false.
\<close>

record credentials =
  cr_user :: string
  cr_password :: string
  tls12_cipher_list :: string
  tls13_cipher_list :: string
  encoded_pem_certificates :: bool
  server_certificate_ca :: string
  client_certificate :: string
  client_certificate_private_key :: string
  client_certificate_private_key_passphrase :: string
  allow_selfsigned_certificates :: bool
  allow_expired_certificates :: bool
  accept_untrusted_certificates :: bool
  skip_server_name_check :: bool
  cr_server_name :: string

definition no_credentials :: credentials where
  "no_credentials = \<lparr>cr_user = [], cr_password = [], tls12_cipher_list = [], tls13_cipher_list = [],
     encoded_pem_certificates = False, server_certificate_ca = [], client_certificate = [], client_certificate_private_key = [],
     client_certificate_private_key_passphrase = [], allow_selfsigned_certificates = False, allow_expired_certificates = False,
     accept_untrusted_certificates = False, skip_server_name_check = False, cr_server_name = []\<rparr>"

record connect_info =
  ci_retryInterval :: int
  ci_pingInterval :: int
  ci_url :: string
  ci_protocol :: string
  ci_timeout :: int
  ci_messageTimeout :: int
  ci_attempts :: int
  ci_credentials :: credentials

text \<open>A member that has been tested for, read with an accessor.\<close>

definition get_member :: "bool \<Rightarrow> (bool \<Rightarrow> rjson \<Rightarrow> 'a outcome) \<Rightarrow> rjson \<Rightarrow> string \<Rightarrow> ('a \<Rightarrow> 'b outcome) \<Rightarrow> 'b outcome" where
  "get_member asserts acc obj k f =
     bind_outcome (case FindMember obj k of Some v \<Rightarrow> acc asserts v | None \<Rightarrow> assert_failed asserts) f"

definition hasRequired :: "rjson \<Rightarrow> string list \<Rightarrow> bool" where
  "hasRequired obj ks = list_all (\<lambda>k. FindMember obj k \<noteq> None) ks"

definition charge_point_keys :: "string list" where
  "charge_point_keys = [''Protocol'', ''ConnectionTimeout'', ''ConnectionUrl'', ''ChargePointIdentifier'', ''SecurityProfile'',
     ''RetryInterval'', ''CallRequestTimeout'']"

definition ocpp_keys :: "string list" where
  "ocpp_keys = [''AuthorizationKey'', ''WebSocketPingInterval'', ''TransactionMessageAttempts'']"

definition tls_keys :: "string list" where
  "tls_keys = [''Tlsv12CipherList'', ''Tlsv13CipherList'', ''InternalCertificateManagementEnabled'', ''TlsServerCertificateCa'',
     ''TlsClientCertificate'', ''TlsClientCertificatePrivateKey'', ''TlsClientCertificatePrivateKeyPassphrase'',
     ''TlsAllowSelfSignedCertificates'', ''TlsAllowExpiredCertificates'', ''TlsAcceptNonTrustedCertificates'', ''TlsSkipServerNameCheck'']"

definition with_slash :: "string \<Rightarrow> string" where
  "with_slash url = (if url \<noteq> [] \<and> last url \<noteq> CHR ''/'' then url @ ''/'' else url)"

text \<open>The certificates given by file name, and the flags that go with them.\<close>

definition external_certificates :: "bool \<Rightarrow> int \<Rightarrow> rjson \<Rightarrow> credentials \<Rightarrow> credentials outcome" where
  "external_certificates a profile cp c =
     get_member a GetString cp ''TlsServerCertificateCa'' (\<lambda>ca.
     bind_outcome
       (if profile = 0 \<or> profile = 3
        then get_member a GetString cp ''TlsClientCertificate'' (\<lambda>cert.
             get_member a GetString cp ''TlsClientCertificatePrivateKey'' (\<lambda>pk.
             get_member a GetString cp ''TlsClientCertificatePrivateKeyPassphrase'' (\<lambda>pass.
             Value (c\<lparr>server_certificate_ca := ca, client_certificate := cert, client_certificate_private_key := pk,
                      client_certificate_private_key_passphrase := pass\<rparr>))))
        else Value (c\<lparr>server_certificate_ca := ca\<rparr>)) (\<lambda>c1.
     get_member a GetBool cp ''TlsAllowSelfSignedCertificates'' (\<lambda>ss.
     get_member a GetBool cp ''TlsAllowExpiredCertificates'' (\<lambda>ex.
     get_member a GetBool cp ''TlsAcceptNonTrustedCertificates'' (\<lambda>nt.
     get_member a GetBool cp ''TlsSkipServerNameCheck'' (\<lambda>sk.
     Value (c1\<lparr>allow_selfsigned_certificates := ss, allow_expired_certificates := ex,
               accept_untrusted_certificates := nt, skip_server_name_check := sk,
               encoded_pem_certificates := False\<rparr>)))))))"

text \<open>The certificates that the charge point keeps itself.\<close>

definition internal_certificates :: "bool \<Rightarrow> int \<Rightarrow> rjson \<Rightarrow> credentials \<Rightarrow> credentials outcome" where
  "internal_certificates a profile cp c =
     bind_outcome
       (if profile = 3
        then get_member a GetString cp ''TlsClientCertificatePrivateKeyPassphrase'' (\<lambda>pass.
             Value (c\<lparr>server_certificate_ca := [], client_certificate := [], client_certificate_private_key := [],
                      client_certificate_private_key_passphrase := pass\<rparr>))
        else Value (c\<lparr>server_certificate_ca := []\<rparr>)) (\<lambda>c1.
     Value (c1\<lparr>encoded_pem_certificates := True, allow_selfsigned_certificates := True,
               allow_expired_certificates := True, accept_untrusted_certificates := False,
               skip_server_name_check := False\<rparr>))"

definition tls_credentials :: "bool \<Rightarrow> int \<Rightarrow> rjson \<Rightarrow> credentials \<Rightarrow> credentials outcome" where
  "tls_credentials a profile cp c =
     get_member a GetString cp ''Tlsv12CipherList'' (\<lambda>t12.
     get_member a GetString cp ''Tlsv13CipherList'' (\<lambda>t13.
     get_member a GetBool cp ''InternalCertificateManagementEnabled'' (\<lambda>internalCertMgmt.
     let c1 = c\<lparr>tls12_cipher_list := t12, tls13_cipher_list := t13\<rparr>
     in if profile = 0 \<or> internalCertMgmt then external_certificates a profile cp c1 else internal_certificates a profile cp c1)))"

definition basic_auth :: "int \<Rightarrow> string \<Rightarrow> string \<Rightarrow> credentials" where
  "basic_auth profile auth_key ident =
     (if auth_key \<noteq> [] \<and> profile \<le> 2 then no_credentials\<lparr>cr_user := ident, cr_password := auth_key\<rparr> else no_credentials)"

text \<open>The last part: the remaining members are read and everything is stored.\<close>

definition store_info :: "bool \<Rightarrow> rjson \<Rightarrow> rjson \<Rightarrow> string \<Rightarrow> credentials \<Rightarrow> (bool \<times> connect_info) outcome" where
  "store_info a cp ocpp url c =
     get_member a GetString cp ''Protocol'' (\<lambda>protocol.
     get_member a GetUint cp ''ConnectionTimeout'' (\<lambda>timeout.
     get_member a GetUint cp ''CallRequestTimeout'' (\<lambda>messageTimeout.
     get_member a GetInt cp ''RetryInterval'' (\<lambda>retryInterval.
     get_member a GetInt ocpp ''WebSocketPingInterval'' (\<lambda>ping.
     get_member a GetUint ocpp ''TransactionMessageAttempts'' (\<lambda>attempts.
     Value (True, \<lparr>ci_retryInterval = retryInterval, ci_pingInterval = ping, ci_url = url, ci_protocol = protocol,
                   ci_timeout = timeout, ci_messageTimeout = messageTimeout, ci_attempts = attempts, ci_credentials = c\<rparr>)))))))"

definition read_info :: "bool \<Rightarrow> rjson \<Rightarrow> rjson \<Rightarrow> connect_info \<Rightarrow> (bool \<times> connect_info) outcome" where
  "read_info a cp ocpp old =
     get_member a GetUint cp ''SecurityProfile'' (\<lambda>profile.
     get_member a GetString ocpp ''AuthorizationKey'' (\<lambda>auth_key.
     get_member a GetString cp ''ConnectionUrl'' (\<lambda>url0.
     get_member a GetString cp ''ChargePointIdentifier'' (\<lambda>ident.
     let url = with_slash url0 @ url_encode ident; c = basic_auth profile auth_key ident
     in if profile \<noteq> 1
        then (if \<not> hasRequired cp tls_keys then Value (False, old)
              else bind_outcome (tls_credentials a profile cp c) (store_info a cp ocpp url))
        else store_info a cp ocpp url c))))"

definition initConnectInfo :: "bool \<Rightarrow> rjson option \<Rightarrow> connect_info \<Rightarrow> (bool \<times> connect_info) outcome" where
  "initConnectInfo a cfg old =
     (case cfg of
        None \<Rightarrow> Value (False, old)
      | Some jConfig \<Rightarrow>
          if \<not> IsObject jConfig then assert_failed a
          else (case FindMember jConfig ''ChargePoint'' of
             None \<Rightarrow> Value (False, old)
           | Some cp \<Rightarrow>
               if \<not> IsObject cp then Value (False, old)
               else (case FindMember jConfig ''OCPP1_6'' of
                       None \<Rightarrow> Value (False, old)
                     | Some ocpp \<Rightarrow>
                         if \<not> IsObject ocpp then Value (False, old)
                         else if \<not> hasRequired cp charge_point_keys then Value (False, old)
                         else if \<not> hasRequired ocpp ocpp_keys then Value (False, old)
                         else read_info a cp ocpp old)))"

section \<open>What is read\<close>

lemma get_member_Value:
  "get_member a acc obj k f = Value y \<longleftrightarrow> (\<exists>v x. FindMember obj k = Some v \<and> acc a v = Value x \<and> f x = Value y)"
  by (cases "FindMember obj k"; cases "case FindMember obj k of Some v \<Rightarrow> acc a v | None \<Rightarrow> assert_failed a")
     (auto simp: get_member_def assert_failed_def split: if_splits)

lemma store_info_fields:
  "store_info a cp ocpp url c = Value (r, i) \<Longrightarrow> r \<and> ci_url i = url \<and> ci_credentials i = c"
  by (auto simp: store_info_def get_member_Value)

text \<open>The members of a configuration as they are read.\<close>

definition cfg_member :: "rjson option \<Rightarrow> string \<Rightarrow> string \<Rightarrow> rjson option" where
  "cfg_member cfg sec k = Option.bind cfg (\<lambda>j. Option.bind (FindMember j sec) (\<lambda>s. FindMember s k))"

lemma read_info_cases:
  assumes "initConnectInfo a cfg old = Value (True, info)"
  obtains j cp ocpp where "cfg = Some j" "FindMember j ''ChargePoint'' = Some cp" "FindMember j ''OCPP1_6'' = Some ocpp"
    "read_info a cp ocpp old = Value (True, info)"
  using assms by (auto simp: initConnectInfo_def assert_failed_def split: option.splits if_splits)

lemma GetString_Value: "GetString a v = Value s \<longleftrightarrow> (\<exists>t. v = RString t \<and> s = to_cstr t)"
  by (cases v) (auto simp: GetString_def assert_failed_def)

lemma GetUint_Value: "GetUint a v = Value i \<longleftrightarrow> v = RInt i \<and> 0 \<le> i \<and> i < 2 ^ 32"
  by (cases v) (auto simp: GetUint_def IsUint_def assert_failed_def)

lemma GetBool_Value: "GetBool a v = Value b \<longleftrightarrow> v = RBool b"
  by (cases v) (auto simp: GetBool_def assert_failed_def)

lemmas get_Value = get_member_Value bind_Value GetString_Value GetUint_Value GetBool_Value

lemma external_fields:
  "external_certificates a profile cp c = Value c' \<Longrightarrow>
   encoded_pem_certificates c' = False \<and> cr_user c' = cr_user c \<and> cr_password c' = cr_password c"
  by (auto simp: external_certificates_def get_Value split: if_splits)

lemma internal_fields:
  "internal_certificates a profile cp c = Value c' \<Longrightarrow>
   encoded_pem_certificates c' = True \<and> cr_user c' = cr_user c \<and> cr_password c' = cr_password c"
  by (auto simp: internal_certificates_def get_Value split: if_splits)

lemma tls_fields:
  assumes "tls_credentials a profile cp c = Value c'"
  shows "\<exists>b. FindMember cp ''InternalCertificateManagementEnabled'' = Some (RBool b) \<and>
    encoded_pem_certificates c' = (\<not> (profile = 0 \<or> b)) \<and> cr_user c' = cr_user c \<and> cr_password c' = cr_password c"
  using assms external_fields internal_fields
  by (fastforce simp: tls_credentials_def get_Value Let_def split: if_splits)

lemma basic_auth_user: "cr_user (basic_auth n k i) = (if k \<noteq> [] \<and> n \<le> 2 then i else [])"
  "cr_password (basic_auth n k i) = (if k \<noteq> [] \<and> n \<le> 2 then k else [])"
  "\<not> encoded_pem_certificates (basic_auth n k i)"
  by (simp_all add: basic_auth_def no_credentials_def)

text \<open>
  The connection parameters. When the configuration is accepted, the address is the configured one, ended
  by one slash, followed by the percent-encoded identifier; user and password are set exactly if
  there is an authorization key and the security profile is at most two; no certificate setting is made for
  profile one, and otherwise the stored certificates of the charge point are used exactly if the
  profile is not zero and internal management of certificates is disabled.
\<close>

theorem connect_info_spec:
  assumes "initConnectInfo a cfg old = Value (True, info)"
  shows "\<exists>base ident authkey profile.
    cfg_member cfg ''ChargePoint'' ''ConnectionUrl'' = Some (RString base) \<and>
    cfg_member cfg ''ChargePoint'' ''ChargePointIdentifier'' = Some (RString ident) \<and>
    cfg_member cfg ''OCPP1_6'' ''AuthorizationKey'' = Some (RString authkey) \<and>
    cfg_member cfg ''ChargePoint'' ''SecurityProfile'' = Some (RInt profile) \<and>
    ci_url info = with_slash (to_cstr base) @ url_encode (to_cstr ident) \<and>
    cr_user (ci_credentials info) = (if to_cstr authkey \<noteq> [] \<and> profile \<le> 2 then to_cstr ident else []) \<and>
    cr_password (ci_credentials info) = (if to_cstr authkey \<noteq> [] \<and> profile \<le> 2 then to_cstr authkey else []) \<and>
    encoded_pem_certificates (ci_credentials info) =
      (profile \<noteq> 1 \<and> profile \<noteq> 0 \<and> cfg_member cfg ''ChargePoint'' ''InternalCertificateManagementEnabled'' = Some (RBool False))"
proof -
  obtain j cp ocpp where j: "cfg = Some j" "FindMember j ''ChargePoint'' = Some cp" "FindMember j ''OCPP1_6'' = Some ocpp"
    and r: "read_info a cp ocpp old = Value (True, info)"
    using read_info_cases [OF assms] by blast
  from r obtain profile authkey base ident where m:
    "FindMember cp ''SecurityProfile'' = Some (RInt profile)" "FindMember ocpp ''AuthorizationKey'' = Some (RString authkey)"
    "FindMember cp ''ConnectionUrl'' = Some (RString base)" "FindMember cp ''ChargePointIdentifier'' = Some (RString ident)"
    and rest: "(let url = with_slash (to_cstr base) @ url_encode (to_cstr ident); c = basic_auth profile (to_cstr authkey) (to_cstr ident)
     in if profile \<noteq> 1
        then (if \<not> hasRequired cp tls_keys then Value (False, old)
              else bind_outcome (tls_credentials a profile cp c) (store_info a cp ocpp url))
        else store_info a cp ocpp url c) = Value (True, info)"
    by (auto simp: read_info_def get_Value)
  let ?c = "basic_auth profile (to_cstr authkey) (to_cstr ident)" and ?u = "with_slash (to_cstr base) @ url_encode (to_cstr ident)"
  have "\<exists>c. store_info a cp ocpp ?u c = Value (True, info) \<and> (if profile = 1 then c = ?c else tls_credentials a profile cp ?c = Value c)"
    using rest by (auto simp: Let_def bind_Value split: if_splits)
  then obtain c where "ci_url info = ?u" "ci_credentials info = c"
    and c: "if profile = 1 then c = ?c else tls_credentials a profile cp ?c = Value c"
    using store_info_fields by blast
  moreover have "cr_user c = cr_user ?c \<and> cr_password c = cr_password ?c \<and> encoded_pem_certificates c =
      (profile \<noteq> 1 \<and> profile \<noteq> 0 \<and> FindMember cp ''InternalCertificateManagementEnabled'' = Some (RBool False))"
    using c tls_fields [of a profile cp ?c c] by (auto simp: basic_auth_user split: if_splits)
  ultimately show ?thesis
    using m j by (auto simp: cfg_member_def basic_auth_user)
qed

definition demo_config :: rjson where
  "demo_config = RObject
     [(''ChargePoint'', RObject [(''Protocol'', RString ''ocpp1.6''), (''ConnectionTimeout'', RInt 5), (''ConnectionUrl'', RString ''ws://h''),
        (''ChargePointIdentifier'', RString ''a b''), (''SecurityProfile'', RInt 1), (''RetryInterval'', RInt 30), (''CallRequestTimeout'', RInt 2)]),
      (''OCPP1_6'', RObject [(''AuthorizationKey'', RString ''k''), (''WebSocketPingInterval'', RInt 9), (''TransactionMessageAttempts'', RInt 3)])]"

definition demo_info :: connect_info where
  "demo_info = \<lparr>ci_retryInterval = 30, ci_pingInterval = 9, ci_url = ''ws://h/a%20b'', ci_protocol = ''ocpp1.6'', ci_timeout = 5,
     ci_messageTimeout = 2, ci_attempts = 3, ci_credentials = no_credentials\<lparr>cr_user := ''a b'', cr_password := ''k''\<rparr>\<rparr>"

lemma demo_config_read: "initConnectInfo a (Some demo_config) old = Value (True, demo_info)"
  by (simp add: initConnectInfo_def demo_config_def demo_info_def json_simps hasRequired_def charge_point_keys_def ocpp_keys_def
      read_info_def get_member_def to_cstr_def store_info_def with_slash_def basic_auth_def no_credentials_def
      unreserved_def is_alnum_def is_alpha_def is_digit_def pct_digit_def char_of_def bit_0)

theorem connect_info_spec_witness: "ci_url demo_info = ''ws://h/'' @ url_encode ''a b''"
proof -
  from connect_info_spec [OF demo_config_read [of True demo_info]] obtain base ident where
    "cfg_member (Some demo_config) ''ChargePoint'' ''ConnectionUrl'' = Some (RString base)"
    "cfg_member (Some demo_config) ''ChargePoint'' ''ChargePointIdentifier'' = Some (RString ident)"
    "ci_url demo_info = with_slash (to_cstr base) @ url_encode (to_cstr ident)"
    by blast
  then show ?thesis
    by (auto simp: cfg_member_def demo_config_def FindMember_def with_slash_def to_cstr_def)
qed

end
