(* ===== verification/Ocpp_Client.thy ===== *)
theory Ocpp_Client
  imports Connect_Info Timer_Pool
begin

text \<open>
  The OCPP client (\<^verbatim>\<open>src/src/ocpp/client/OCPPClient.cpp\<close>): calls that wait for their
  answer, one sending thread per connector, one thread that repeats and expires calls, and the
  handling of what the server sends.
  \<^item> A \<^verbatim>\<open>PendingCall\<close> is a heap object: the waiting caller and \<^verbatim>\<open>m_pending\<close> share it. The table itself
    is an association list in the order of its iteration.
  \<^item> The local list of the retry thread is part of the state, so that the other threads can act
    between the scan of the table and the repetition of each call.
  \<^item> The socket, the JSON writer and parser, the schema validation and the random identifiers are parameters.
    \<^verbatim>\<open>cl_sent\<close> records what has been handed to the socket, with the number of the connector.
\<close>

section \<open>State\<close>

record pending_call =
  pc_connId :: nat
  pc_uniqueId :: string
  pc_isTx :: bool
  pc_raw :: string
  pc_retryCount :: int
  pc_maxRetry :: int
  pc_retryIntervalMs :: int
  pc_expireAt :: time_point
  pc_nextRetry :: time_point
  pc_finished :: bool
  pc_success :: bool
  pc_response :: string

record connector_ctx =
  cx_tx :: "string mt_queue"
  cx_nonTx :: "string mt_queue"
  cx_running :: bool

record ocpp_client =
  cl_connectors :: "connector_ctx list"
  cl_sendThreads :: "nat list"
  cl_pending :: "(string \<times> addr) list"
  cl_calls :: "addr \<Rightarrow> pending_call option"
  cl_retryList :: "addr list"
  cl_retryNow :: time_point
  cl_handlers :: "string \<Rightarrow> nat option"
  cl_info :: connect_info
  cl_connected :: bool
  cl_running :: bool
  cl_listener :: "nat option"
  cl_connectorNum :: uint32
  cl_tasks :: "(nat \<times> rjson) list"
  cl_sent :: "(nat \<times> string) list"

definition new_ctx :: connector_ctx where
  "new_ctx = \<lparr>cx_tx = new_queue, cx_nonTx = new_queue, cx_running = True\<rparr>"

definition OCPPClient :: "connect_info \<Rightarrow> uint32 \<Rightarrow> ocpp_client" where
  "OCPPClient info connectorNum = \<lparr>cl_connectors = [], cl_sendThreads = [], cl_pending = [], cl_calls = (\<lambda>_. None), cl_retryList = [],
     cl_retryNow = 0, cl_handlers = (\<lambda>_. None), cl_info = info, cl_connected = False, cl_running = False, cl_listener = None,
     cl_connectorNum = connectorNum + 1, cl_tasks = [], cl_sent = []\<rparr>"

section \<open>Starting and stopping\<close>

text \<open>\<open>ws_ok\<close> is the result of \<^verbatim>\<open>WebSocketClient::Connect\<close>.\<close>

definition doConnect :: "bool \<Rightarrow> ocpp_client \<Rightarrow> bool" where
  "doConnect ws_ok c = (if cl_connected c then True else ws_ok)"

text \<open>
  The loops that create the contexts and the threads run while the index is at most
  \<^verbatim>\<open>m_connectorNum\<close>; with the largest unsigned number there they do not end.
\<close>

definition client_start :: "bool \<Rightarrow> rjson option \<Rightarrow> bool \<Rightarrow> ocpp_client \<Rightarrow> (bool \<times> ocpp_client) option outcome" where
  "client_start a cfg ws_ok c =
     bind_outcome (initConnectInfo a cfg (cl_info c)) (\<lambda>(ok, info).
       let c1 = c\<lparr>cl_info := info\<rparr>
       in if \<not> ok then Value (Some (False, c1))
          else if \<not> doConnect ws_ok c1 then Value (Some (False, c1))
          else if cl_running c1 then Value (Some (False, c1))
          else if cl_connectorNum c1 = - 1 then Value None
          else let n = Suc (unat (cl_connectorNum c1))
               in Value (Some (True, c1\<lparr>cl_running := True, cl_connectors := cl_connectors c1 @ replicate n new_ctx,
                                        cl_sendThreads := cl_sendThreads c1 @ [0..<n]\<rparr>)))"

text \<open>
  \<^verbatim>\<open>stop\<close>, once the joined threads have ended: the contexts stay in the vector, the calls that wait are
  only dropped from the table.
\<close>

definition client_stop :: "ocpp_client \<Rightarrow> ocpp_client" where
  "client_stop c = c\<lparr>cl_running := False, cl_connectors := map (\<lambda>x. x\<lparr>cx_running := False\<rparr>) (cl_connectors c), cl_pending := [],
     cl_sendThreads := [], cl_retryList := []\<rparr>"

definition registerCallHandler :: "string \<Rightarrow> nat \<Rightarrow> ocpp_client \<Rightarrow> ocpp_client" where
  "registerCallHandler action handler c = c\<lparr>cl_handlers := (cl_handlers c)(action \<mapsto> handler)\<rparr>"

definition setOCPPClientListener :: "nat option \<Rightarrow> ocpp_client \<Rightarrow> ocpp_client" where
  "setOCPPClientListener l c = (if l \<noteq> None \<and> cl_listener c = None then c\<lparr>cl_listener := l\<rparr> else c)"

text \<open>The notifications of the socket: connected, failed, disconnected or in error.\<close>

datatype ws_event = Ws_Connected | Ws_Failed | Ws_Disconnected | Ws_Error

definition ws_notify :: "ws_event \<Rightarrow> ocpp_client \<Rightarrow> ocpp_client \<times> (nat \<times> ws_event) option" where
  "ws_notify e c = (c\<lparr>cl_connected := (e = Ws_Connected)\<rparr>, map_option (\<lambda>l. (l, e)) (cl_listener c))"

section \<open>Sending\<close>

definition push_ctx :: "bool \<Rightarrow> string \<Rightarrow> connector_ctx \<Rightarrow> connector_ctx" where
  "push_ctx isTx raw x =
     (if isTx then x\<lparr>cx_tx := snd (queue_push SIZE_MAX raw (cx_tx x))\<rparr> else x\<lparr>cx_nonTx := snd (queue_push SIZE_MAX raw (cx_nonTx x))\<rparr>)"

definition enqueue :: "nat \<Rightarrow> bool \<Rightarrow> string \<Rightarrow> ocpp_client \<Rightarrow> ocpp_client" where
  "enqueue i isTx raw c = c\<lparr>cl_connectors := (cl_connectors c)[i := push_ctx isTx raw (cl_connectors c ! i)]\<rparr>"

definition call_frame :: "string \<Rightarrow> string \<Rightarrow> rjson \<Rightarrow> rjson" where
  "call_frame uid action payload = RArray [RInt MT_Call, RString (to_cstr uid), RString (to_cstr action), payload]"

definition new_call :: "time_point \<Rightarrow> nat \<Rightarrow> string \<Rightarrow> bool \<Rightarrow> string \<Rightarrow> int \<Rightarrow> connect_info \<Rightarrow> pending_call" where
  "new_call now connId uid isTx raw timeout info =
     \<lparr>pc_connId = connId, pc_uniqueId = uid, pc_isTx = isTx, pc_raw = raw, pc_retryCount = 0,
      pc_maxRetry = sint (word_of_int (ci_attempts info) :: int32), pc_retryIntervalMs = ci_retryInterval info,
      pc_expireAt = now + ns_of_ms timeout, pc_nextRetry = now + ns_of_ms (ci_retryInterval info),
      pc_finished = False, pc_success = False, pc_response = []\<rparr>"

definition put_pending :: "string \<Rightarrow> addr \<Rightarrow> (string \<times> addr) list \<Rightarrow> (string \<times> addr) list" where
  "put_pending uid a ps = (if uid \<in> fst ` set ps then map (\<lambda>p. if fst p = uid then (uid, a) else p) ps else ps @ [(uid, a)])"

text \<open>
  \<^verbatim>\<open>sendCall\<close> up to the wait: \<open>None\<close> if it returns false at once, else the address of the pending
  call. \<open>valid\<close> is the schema validation, \<open>wr\<close> the JSON writer, \<open>uid\<close> the generated identifier and
  \<open>pc\<close> the address of the new object.
\<close>

definition sendCall_begin ::
  "(string \<Rightarrow> rjson \<Rightarrow> bool) \<Rightarrow> (rjson \<Rightarrow> string) \<Rightarrow> string \<Rightarrow> addr \<Rightarrow> time_point \<Rightarrow>
   string \<Rightarrow> rjson \<Rightarrow> nat \<Rightarrow> bool \<Rightarrow> int \<Rightarrow> ocpp_client \<Rightarrow> addr option \<times> ocpp_client" where
  "sendCall_begin valid wr uid pc now action req connId isTx timeout c =
     (if \<not> cl_connected c then (None, c)
      else if \<not> valid action req then (None, c)
      else if connId \<ge> length (cl_connectors c) then (None, c)
      else let raw = to_cstr (wr (call_frame uid action req));
               p = new_call now connId uid isTx raw timeout (cl_info c);
               c1 = c\<lparr>cl_calls := (cl_calls c)(pc \<mapsto> p), cl_pending := put_pending uid pc (cl_pending c)\<rparr>
           in (Some pc, enqueue connId isTx raw c1))"

text \<open>The wait: no result while the caller is blocked, else what \<^verbatim>\<open>sendCall\<close> returns and the text it parses.\<close>

definition sendCall_wait :: "time_point \<Rightarrow> addr \<Rightarrow> ocpp_client \<Rightarrow> (bool \<times> string) option" where
  "sendCall_wait now pc c =
     (case cl_calls c pc of
        None \<Rightarrow> None
      | Some p \<Rightarrow>
          if pc_finished p then (if pc_success p then Some (True, to_cstr (pc_response p)) else Some (False, []))
          else if pc_expireAt p \<le> now then Some (False, []) else None)"

text \<open>Answers to the server are queued without a check of the number of the connector.\<close>

definition error_frame :: "string \<Rightarrow> string \<Rightarrow> string \<Rightarrow> rjson \<Rightarrow> rjson" where
  "error_frame uid code desc details =
     RArray [RInt MT_CallError, RString (to_cstr uid), RString (to_cstr code), RString (to_cstr desc), details]"

definition result_frame :: "string \<Rightarrow> rjson \<Rightarrow> rjson" where
  "result_frame uid payload = RArray [RInt MT_CallResult, RString (to_cstr uid), payload]"

definition send_answer :: "(rjson \<Rightarrow> string) \<Rightarrow> rjson \<Rightarrow> nat \<Rightarrow> ocpp_client \<Rightarrow> (bool \<times> ocpp_client) outcome" where
  "send_answer wr frame connId c =
     (if connId < length (cl_connectors c) then Value (True, enqueue connId False (to_cstr (wr frame)) c) else Undefined)"

definition sendCallError ::
  "(rjson \<Rightarrow> string) \<Rightarrow> string \<Rightarrow> string \<Rightarrow> string \<Rightarrow> rjson \<Rightarrow> nat \<Rightarrow> ocpp_client \<Rightarrow> (bool \<times> ocpp_client) outcome" where
  "sendCallError wr uid code desc details connId c =
     (if \<not> cl_connected c then Value (False, c) else send_answer wr (error_frame uid code desc details) connId c)"

definition sendCallResult ::
  "(string \<Rightarrow> rjson \<Rightarrow> bool) \<Rightarrow> (rjson \<Rightarrow> string) \<Rightarrow> string \<Rightarrow> string \<Rightarrow> rjson \<Rightarrow> nat \<Rightarrow> ocpp_client \<Rightarrow> (bool \<times> ocpp_client) outcome" where
  "sendCallResult valid wr uid action payload connId c =
     (if \<not> cl_connected c then Value (False, c)
      else if \<not> valid action payload then Value (False, c)
      else send_answer wr (result_frame uid payload) connId c)"

text \<open>
  One pass of the loop of \<^verbatim>\<open>sendThread\<close> for a context that is still running: the message that goes to
  the socket, if any. A queue that is not empty gives its first message at once.
\<close>

definition take_message :: "connector_ctx \<Rightarrow> string option \<times> connector_ctx" where
  "take_message x =
     (if \<not> queue_empty (cx_tx x)
      then (case queue_pop False (cx_tx x) of Some (True, Some m, q) \<Rightarrow> (Some m, x\<lparr>cx_tx := q\<rparr>) | _ \<Rightarrow> (None, x))
      else if \<not> queue_empty (cx_nonTx x)
      then (case queue_pop False (cx_nonTx x) of Some (True, Some m, q) \<Rightarrow> (Some m, x\<lparr>cx_nonTx := q\<rparr>) | _ \<Rightarrow> (None, x))
      else (None, x))"

definition sendThread_pass :: "nat \<Rightarrow> ocpp_client \<Rightarrow> ocpp_client" where
  "sendThread_pass i c =
     (if cx_running (cl_connectors c ! i)
      then (case take_message (cl_connectors c ! i) of
              (None, _) \<Rightarrow> c
            | (Some m, x) \<Rightarrow>
                let c1 = c\<lparr>cl_connectors := (cl_connectors c)[i := x]\<rparr>
                in if m = [] then c1 else c1\<lparr>cl_sent := cl_sent c1 @ [(i, m)]\<rparr>)
      else c\<lparr>cl_sendThreads := removeAll i (cl_sendThreads c)\<rparr>)"

section \<open>Repeating and expiring calls\<close>

datatype verdict = Erase | Retry | Expire | Keep

definition judge :: "time_point \<Rightarrow> pending_call \<Rightarrow> verdict" where
  "judge now p =
     (if pc_finished p then Erase
      else if pc_isTx p \<and> pc_nextRetry p \<le> now \<and> pc_retryCount p < pc_maxRetry p then Retry
      else if pc_expireAt p \<le> now then Expire
      else Keep)"

definition verdict_of :: "time_point \<Rightarrow> ocpp_client \<Rightarrow> addr \<Rightarrow> verdict" where
  "verdict_of now c a = (case cl_calls c a of None \<Rightarrow> Keep | Some p \<Rightarrow> judge now p)"

definition expire_call :: "pending_call \<Rightarrow> pending_call" where
  "expire_call p = p\<lparr>pc_finished := True, pc_success := False\<rparr>"

text \<open>The part of a pass that holds \<^verbatim>\<open>m_pendingMutex\<close>.\<close>

definition retry_scan :: "time_point \<Rightarrow> ocpp_client \<Rightarrow> ocpp_client" where
  "retry_scan now c =
     (let v = verdict_of now c; ps = cl_pending c
      in c\<lparr>cl_calls := (\<lambda>a. if a \<in> snd ` set ps \<and> v a = Expire then map_option expire_call (cl_calls c a) else cl_calls c a),
           cl_pending := filter (\<lambda>p. v (snd p) = Retry \<or> v (snd p) = Keep) ps,
           cl_retryList := map snd (filter (\<lambda>p. v (snd p) = Retry) ps),
           cl_retryNow := now\<rparr>)"

text \<open>The delay before the next repetition is computed with unsigned numbers.\<close>

definition backoff :: "int \<Rightarrow> int \<Rightarrow> uint32" where
  "backoff interval n = word_of_int interval * push_bit (min (nat n) 8) 1"

definition repeat_call :: "time_point \<Rightarrow> pending_call \<Rightarrow> pending_call" where
  "repeat_call now p =
     p\<lparr>pc_retryCount := pc_retryCount p + 1,
       pc_nextRetry := now + ns_of_ms (uint (backoff (pc_retryIntervalMs p) (pc_retryCount p + 1)))\<rparr>"

text \<open>The repetition of the first call of the local list.\<close>

definition retry_one :: "ocpp_client \<Rightarrow> ocpp_client" where
  "retry_one c =
     (case cl_retryList c of
        [] \<Rightarrow> c
      | a # as \<Rightarrow>
          let c1 = c\<lparr>cl_retryList := as\<rparr>
          in (case cl_calls c a of
                None \<Rightarrow> c1
              | Some p \<Rightarrow>
                  if pc_finished p then c1
                  else let c2 = c1\<lparr>cl_calls := (cl_calls c)(a \<mapsto> repeat_call (cl_retryNow c) p)\<rparr>
                       in if pc_connId p < length (cl_connectors c2) then enqueue (pc_connId p) True (pc_raw p) c2 else c2))"

section \<open>Receiving\<close>

definition finish_call :: "bool \<Rightarrow> string \<Rightarrow> pending_call \<Rightarrow> pending_call" where
  "finish_call ok message p = p\<lparr>pc_finished := True, pc_success := ok, pc_response := message\<rparr>"

text \<open>The rest of \<^verbatim>\<open>parseMessage\<close> after the validation.\<close>

definition dispatch ::
  "bool \<Rightarrow> (string \<Rightarrow> rjson \<Rightarrow> bool) \<Rightarrow> string \<Rightarrow> int \<Rightarrow> rjson \<Rightarrow> ocpp_client \<Rightarrow> ocpp_client outcome" where
  "dispatch a valid message type doc c =
     bind_outcome (elem_at a doc 1) (\<lambda>v1. bind_outcome (GetString a v1) (\<lambda>uid.
       if type = MT_CallResult \<or> type = MT_CallError
       then (case map_of (cl_pending c) uid of
               None \<Rightarrow> Value c
             | Some pc \<Rightarrow>
                 (case cl_calls c pc of
                    None \<Rightarrow> Undefined
                  | Some p \<Rightarrow>
                      if pc_finished p then Value c
                      else Value (c\<lparr>cl_calls := (cl_calls c)(pc \<mapsto> finish_call (type = MT_CallResult) message p)\<rparr>)))
       else if type = MT_Call
       then bind_outcome (elem_at a doc 2) (\<lambda>v2. bind_outcome (GetString a v2) (\<lambda>action.
              case cl_handlers c action of
                None \<Rightarrow> Value c
              | Some h \<Rightarrow>
                  bind_outcome (elem_at a doc 3) (\<lambda>payload.
                    if valid action payload then Value (c\<lparr>cl_tasks := cl_tasks c @ [(h, doc)]\<rparr>) else Value c)))
       else Value c))"

text \<open>\<^verbatim>\<open>parseMessage\<close> passes a document that it has only constructed, and validation does not fill it in.\<close>

definition parseMessage ::
  "(string \<Rightarrow> rjson option) \<Rightarrow> bool \<Rightarrow> (string \<Rightarrow> rjson \<Rightarrow> bool) \<Rightarrow> string \<Rightarrow> ocpp_client \<Rightarrow> ocpp_client outcome" where
  "parseMessage parser a valid message c =
     bind_outcome (validateOCPPMessage parser a message RNull) (\<lambda>(ok, type).
       if \<not> ok then Value c else dispatch a valid message (the type) RNull c)"

section \<open>Steps and invariant\<close>

text \<open>
  What can happen to a client, whatever the environment answers. A sending thread runs for the
  contexts it was started for; the retry thread scans again when its list is done.
\<close>

inductive client_step :: "ocpp_client \<Rightarrow> ocpp_client \<Rightarrow> bool" where
  start: "client_start a cfg ws_ok c = Value (Some (r, c')) \<Longrightarrow> client_step c c'"
| stop: "client_step c (client_stop c)"
| handler: "client_step c (registerCallHandler action h c)"
| listener: "client_step c (setOCPPClientListener l c)"
| socket: "client_step c (fst (ws_notify e c))"
| call: "\<lbrakk>cl_calls c pc = None; sendCall_begin valid wr uid pc now action req connId isTx timeout c = (r, c')\<rbrakk> \<Longrightarrow> client_step c c'"
| error: "sendCallError wr uid code desc details connId c = Value (r, c') \<Longrightarrow> client_step c c'"
| result: "sendCallResult valid wr uid action payload connId c = Value (r, c') \<Longrightarrow> client_step c c'"
| send: "i \<in> set (cl_sendThreads c) \<Longrightarrow> client_step c (sendThread_pass i c)"
| scan: "\<lbrakk>cl_running c; cl_retryList c = []\<rbrakk> \<Longrightarrow> client_step c (retry_scan now c)"
| retry: "client_step c (retry_one c)"
| receive: "parseMessage parser a valid message c = Value c' \<Longrightarrow> client_step c c'"

inductive client_reach :: "ocpp_client \<Rightarrow> bool" where
  init: "client_reach (OCPPClient info connectorNum)"
| step: "\<lbrakk>client_reach c; client_step c c'\<rbrakk> \<Longrightarrow> client_reach c'"

definition call_ok :: "pending_call \<Rightarrow> bool" where
  "call_ok p \<longleftrightarrow> \<not> pc_success p \<and> 0 \<le> pc_retryCount p \<and> pc_retryCount p \<le> max 0 (pc_maxRetry p)"

definition calls_ok :: "(addr \<Rightarrow> pending_call option) \<Rightarrow> bool" where
  "calls_ok h \<longleftrightarrow> (\<forall>a p. h a = Some p \<longrightarrow> call_ok p)"

definition table_ok :: "(addr \<Rightarrow> pending_call option) \<Rightarrow> (string \<times> addr) list \<Rightarrow> bool" where
  "table_ok h ps \<longleftrightarrow> distinct (map fst ps) \<and> distinct (map snd ps) \<and> (\<forall>(u, a) \<in> set ps. \<exists>p. h a = Some p \<and> pc_uniqueId p = u)"

definition retry_ok :: "(addr \<Rightarrow> pending_call option) \<Rightarrow> addr list \<Rightarrow> bool" where
  "retry_ok h as \<longleftrightarrow> distinct as \<and> (\<forall>a \<in> set as. \<exists>p. h a = Some p \<and> pc_retryCount p < pc_maxRetry p)"

definition client_inv :: "ocpp_client \<Rightarrow> bool" where
  "client_inv c \<longleftrightarrow> calls_ok (cl_calls c) \<and> table_ok (cl_calls c) (cl_pending c) \<and> retry_ok (cl_calls c) (cl_retryList c)"

lemmas client_inv_defs = client_inv_def calls_ok_def table_ok_def retry_ok_def

lemma client_inv_cong:
  "\<lbrakk>cl_calls c' = cl_calls c; cl_pending c' = cl_pending c; cl_retryList c' = cl_retryList c\<rbrakk> \<Longrightarrow> client_inv c' = client_inv c"
  by (simp add: client_inv_def)

lemma enqueue_fields [simp]:
  "cl_calls (enqueue i b r c) = cl_calls c" "cl_pending (enqueue i b r c) = cl_pending c" "cl_retryList (enqueue i b r c) = cl_retryList c"
  "cl_retryNow (enqueue i b r c) = cl_retryNow c" "cl_sendThreads (enqueue i b r c) = cl_sendThreads c" "cl_sent (enqueue i b r c) = cl_sent c"
  "length (cl_connectors (enqueue i b r c)) = length (cl_connectors c)"
  by (simp_all add: enqueue_def)

lemma put_pending_keys:
  "distinct (map fst ps) \<Longrightarrow> distinct (map fst (put_pending u a ps))"
  "set (put_pending u a ps) \<subseteq> insert (u, a) {p \<in> set ps. fst p \<noteq> u}"
  by (auto simp: put_pending_def comp_def if_distrib [of fst] cong: if_cong)

lemma put_pending_addrs:
  assumes "distinct (map fst ps)" "distinct (map snd ps)" "a \<notin> snd ` set ps"
  shows "distinct (map snd (put_pending u a ps))"
proof (cases "u \<in> fst ` set ps")
  case True
  let ?f = "\<lambda>p. snd (if fst p = u then (u, a) else p)"
  have inj: "inj_on fst (set ps)" "inj_on snd (set ps)"
    using assms(1,2) by (simp_all add: distinct_map)
  have "inj_on ?f (set ps)"
  proof (rule inj_onI)
    fix x y assume x: "x \<in> set ps" and y: "y \<in> set ps" and eq: "?f x = ?f y"
    have "fst x = u \<longleftrightarrow> fst y = u"
      using eq x y assms(3) by (auto split: if_splits)
    then show "x = y"
      using eq inj_onD [OF inj(1) _ x y] inj_onD [OF inj(2) _ x y] by (auto split: if_splits)
  qed
  then show ?thesis
    using True assms(1) by (simp add: put_pending_def comp_def distinct_map)
qed (use assms in \<open>simp add: put_pending_def\<close>)

lemma call_inv:
  assumes "client_inv c" "cl_calls c pc = None" "call_ok p" "pc_uniqueId p = uid"
  shows "client_inv (c\<lparr>cl_calls := (cl_calls c)(pc \<mapsto> p), cl_pending := put_pending uid pc (cl_pending c)\<rparr>)"
proof -
  have t: "table_ok (cl_calls c) (cl_pending c)" and r: "retry_ok (cl_calls c) (cl_retryList c)" and k: "calls_ok (cl_calls c)"
    using assms(1) by (simp_all add: client_inv_def)
  have new: "pc \<notin> snd ` set (cl_pending c)" "pc \<notin> set (cl_retryList c)"
    using t r assms(2) by (force simp: table_ok_def retry_ok_def)+
  have "table_ok ((cl_calls c)(pc \<mapsto> p)) (put_pending uid pc (cl_pending c))"
    unfolding table_ok_def
  proof (intro conjI)
    show "distinct (map fst (put_pending uid pc (cl_pending c)))" "distinct (map snd (put_pending uid pc (cl_pending c)))"
      using t new(1) by (auto simp: table_ok_def intro: put_pending_keys(1) put_pending_addrs)
    show "\<forall>(u, a) \<in> set (put_pending uid pc (cl_pending c)). \<exists>q. ((cl_calls c)(pc \<mapsto> p)) a = Some q \<and> pc_uniqueId q = u"
    proof (rule ballI, clarify)
      fix u a assume "(u, a) \<in> set (put_pending uid pc (cl_pending c))"
      then consider "u = uid" "a = pc" | "(u, a) \<in> set (cl_pending c)"
        using put_pending_keys(2) [of uid pc "cl_pending c"] by auto
      then show "\<exists>q. ((cl_calls c)(pc \<mapsto> p)) a = Some q \<and> pc_uniqueId q = u"
      proof cases
        case 2
        then have "a \<noteq> pc" using new(1) by force
        then show ?thesis using 2 t by (auto simp: table_ok_def)
      qed (use assms(4) in simp)
    qed
  qed
  moreover have "retry_ok ((cl_calls c)(pc \<mapsto> p)) (cl_retryList c)"
    using r new(2) by (auto simp: retry_ok_def)
  moreover have "calls_ok ((cl_calls c)(pc \<mapsto> p))"
    using k assms(3) by (auto simp: calls_ok_def)
  ultimately show ?thesis
    by (simp add: client_inv_def)
qed

lemma sendCall_inv:
  assumes "client_inv c" "cl_calls c pc = None" "sendCall_begin valid wr uid pc now action req connId isTx timeout c = (r, c')"
  shows "client_inv c'"
proof -
  let ?p = "new_call now connId uid isTx (to_cstr (wr (call_frame uid action req))) timeout (cl_info c)"
  have "client_inv (c\<lparr>cl_calls := (cl_calls c)(pc \<mapsto> ?p), cl_pending := put_pending uid pc (cl_pending c)\<rparr>)"
    using assms(1,2) by (rule call_inv) (simp_all add: call_ok_def new_call_def)
  then show ?thesis
    using assms(1,3) by (auto simp: sendCall_begin_def Let_def client_inv_def split: if_splits)
qed

lemma send_answer_inv:
  "client_inv c \<Longrightarrow> send_answer wr f i c = Value (r, c') \<Longrightarrow> client_inv c'"
  by (auto simp: send_answer_def client_inv_def split: if_splits)

lemma scan_inv:
  assumes "client_inv c"
  shows "client_inv (retry_scan now c)"
proof -
  let ?v = "verdict_of now c" and ?ps = "cl_pending c"
  let ?h = "\<lambda>a. if a \<in> snd ` set ?ps \<and> ?v a = Expire then map_option expire_call (cl_calls c a) else cl_calls c a"
  have t: "table_ok (cl_calls c) ?ps" and k: "calls_ok (cl_calls c)"
    using assms by (simp_all add: client_inv_def)
  have ex: "pc_uniqueId (expire_call p) = pc_uniqueId p" "call_ok p \<Longrightarrow> call_ok (expire_call p)" for p
    by (simp_all add: expire_call_def call_ok_def)
  have "calls_ok ?h"
    using k ex(2) by (auto simp: calls_ok_def split: if_splits)
  moreover have "table_ok ?h (filter (\<lambda>p. ?v (snd p) = Retry \<or> ?v (snd p) = Keep) ?ps)"
    using t by (auto simp: table_ok_def distinct_map_filter ex(1))
  moreover have "retry_ok ?h (map snd (filter (\<lambda>p. ?v (snd p) = Retry) ?ps))"
  proof -
    have "\<exists>p. cl_calls c a = Some p \<and> pc_retryCount p < pc_maxRetry p" if "?v a = Retry" for a
      using that by (auto simp: verdict_of_def judge_def split: option.splits if_splits)
    then show ?thesis
      using t by (auto simp: retry_ok_def table_ok_def distinct_map_filter)
  qed
  ultimately show ?thesis
    by (simp add: retry_scan_def client_inv_def Let_def)
qed

lemma retry_inv:
  assumes "client_inv c"
  shows "client_inv (retry_one c)"
proof (cases "cl_retryList c")
  case (Cons a as)
  then obtain p where p: "cl_calls c a = Some p" "pc_retryCount p < pc_maxRetry p" "a \<notin> set as" "retry_ok (cl_calls c) as"
    using assms by (auto simp: client_inv_def retry_ok_def)
  let ?h = "(cl_calls c)(a \<mapsto> repeat_call (cl_retryNow c) p)"
  have k: "calls_ok (cl_calls c)" and t: "table_ok (cl_calls c) (cl_pending c)"
    using assms by (simp_all add: client_inv_def)
  have "calls_ok ?h"
    using k p(1,2) by (auto simp: calls_ok_def call_ok_def repeat_call_def)
  moreover have "table_ok ?h (cl_pending c)"
    using t p(1) by (fastforce simp: table_ok_def repeat_call_def)
  moreover have "retry_ok ?h as"
    using p(3,4) by (auto simp: retry_ok_def)
  ultimately show ?thesis
    using Cons p k t by (simp add: retry_one_def Let_def client_inv_def)
qed (use assms in \<open>simp add: retry_one_def\<close>)

text \<open>No message gets past the validation, since it looks at the document of the caller.\<close>

lemma parseMessage_ignores:
  assumes "parseMessage parser a valid message c = Value c'"
  shows "c' = c"
proof -
  obtain ok type where v: "validateOCPPMessage parser a message RNull = Value (ok, type)"
    and c': "(if \<not> ok then Value c else dispatch a valid message (the type) RNull c) = Value c'"
    using assms by (auto simp: parseMessage_def bind_Value)
  have "\<not> ok" using v validate_null [of parser a message type] by auto
  then show ?thesis using c' by simp
qed

lemma client_step_inv: "client_step c c' \<Longrightarrow> client_inv c \<Longrightarrow> client_inv c'"
proof (induction rule: client_step.induct)
  case (start a cfg ws_ok c r c')
  then show ?case
    by (auto simp: client_start_def bind_Value Let_def client_inv_def split: if_splits)
next
  case (stop c)
  then show ?case by (simp add: client_stop_def client_inv_defs)
next
  case (send i c)
  then show ?case
    by (auto simp: sendThread_pass_def Let_def client_inv_def split: prod.split option.split)
next
  case (receive parser a valid message c c')
  then show ?case using parseMessage_ignores by blast
next
  case (error wr uid code desc details connId c r c')
  then show ?case by (auto simp: sendCallError_def intro: send_answer_inv split: if_splits)
next
  case (result valid wr uid action payload connId c r c')
  then show ?case by (auto simp: sendCallResult_def intro: send_answer_inv split: if_splits)
next
  case (handler c action h)
  then show ?case by (simp add: registerCallHandler_def client_inv_def)
next
  case (listener c l)
  then show ?case by (simp add: setOCPPClientListener_def client_inv_def)
next
  case (socket c e)
  then show ?case by (simp add: ws_notify_def client_inv_def)
qed (blast intro: sendCall_inv scan_inv retry_inv)+

lemma client_reach_inv: "client_reach c \<Longrightarrow> client_inv c"
proof (induction rule: client_reach.induct)
  case (init info connectorNum)
  then show ?case by (simp add: OCPPClient_def client_inv_defs)
next
  case (step c c')
  then show ?case by (blast intro: client_step_inv)
qed

section \<open>Properties of the client\<close>

text \<open>A client that is started for one connector and connected, and a first transaction call.\<close>

definition demo_client :: ocpp_client where
  "demo_client = fst (ws_notify Ws_Connected
     ((OCPPClient demo_info 1)\<lparr>cl_running := True, cl_connectors := replicate 3 new_ctx, cl_sendThreads := [0..<3]\<rparr>))"

definition demo_called :: ocpp_client where
  "demo_called = snd (sendCall_begin (\<lambda>_ _. True) (\<lambda>_. ''m'') ''u1'' 7 0 ''StopTransaction'' (RObject []) 1 True 20 demo_client)"

lemma demo_start: "client_start a (Some demo_config) True (OCPPClient demo_info 1) =
    Value (Some (True, (OCPPClient demo_info 1)\<lparr>cl_running := True, cl_connectors := replicate 3 new_ctx, cl_sendThreads := [0..<3]\<rparr>))"
  by (simp add: client_start_def demo_config_read OCPPClient_def doConnect_def Let_def)

lemma demo_reach: "client_reach demo_called"
proof -
  have 1: "client_reach ((OCPPClient demo_info 1)\<lparr>cl_running := True, cl_connectors := replicate 3 new_ctx, cl_sendThreads := [0..<3]\<rparr>)"
    by (rule client_reach.step [OF client_reach.init client_step.start [OF demo_start]])
  have 2: "client_reach demo_client"
    unfolding demo_client_def by (rule client_reach.step [OF 1 client_step.socket])
  show ?thesis
    unfolding demo_called_def
    by (rule client_reach.step [OF 2 client_step.call [of demo_client 7 "\<lambda>_ _. True" "\<lambda>_. ''m''" "''u1''" 0
        "''StopTransaction''" "RObject []" 1 True 20 "Some 7"]])
       (simp_all add: demo_client_def ws_notify_def OCPPClient_def sendCall_begin_def Let_def prod_eq_iff)
qed

text \<open>
  C23. The table of pending calls. In every reachable state each identifier and each call occurs at most once in
  the table, and an entry refers to a call with that identifier. A call has been repeated at most as
  often as the configuration allows.
\<close>

theorem pending_table_invariant:
  assumes "client_reach c"
  shows "distinct (map fst (cl_pending c)) \<and> distinct (map snd (cl_pending c)) \<and>
    list_all (\<lambda>(u, a). case cl_calls c a of None \<Rightarrow> False | Some p \<Rightarrow> pc_uniqueId p = u) (cl_pending c) \<and>
    (\<forall>a. case cl_calls c a of None \<Rightarrow> True
         | Some p \<Rightarrow> 0 \<le> pc_retryCount p \<and> pc_retryCount p \<le> max 0 (pc_maxRetry p))"
  using client_reach_inv [OF assms] by (fastforce simp: client_inv_defs call_ok_def list_all_iff split: option.splits)

theorem pending_table_invariant_witness: "list_all (\<lambda>(u, a). u = ''u1'' \<and> a = 7) (cl_pending demo_called) \<and> distinct (map fst (cl_pending demo_called))"
  using pending_table_invariant [OF demo_reach]
  by (simp add: demo_called_def demo_client_def ws_notify_def OCPPClient_def sendCall_begin_def Let_def put_pending_def enqueue_def)

text \<open>
  C22. No call ever succeeds. In every reachable state the wait of a call ends, if it ends, with
  failure, whatever the server answers: the answer is validated against a document that was never filled,
  so that the call stays pending until it expires.
\<close>

theorem no_call_succeeds:
  assumes "client_reach c"
  shows "sendCall_wait now pc c = None \<or> sendCall_wait now pc c = Some (False, [])"
  using client_reach_inv [OF assms] by (auto simp: client_inv_def calls_ok_def call_ok_def sendCall_wait_def split: option.split)

theorem no_call_succeeds_witness: "sendCall_wait 5000000000 7 demo_called = Some (False, [])"
proof -
  have "sendCall_wait 5000000000 7 demo_called \<noteq> None"
    by (simp add: demo_called_def demo_client_def ws_notify_def OCPPClient_def sendCall_begin_def Let_def sendCall_wait_def
        new_call_def ns_of_ms_def)
  then show ?thesis
    using no_call_succeeds [OF demo_reach, of 5000000000 7] by (elim disjE) simp_all
qed

text \<open>
  What the part of \<^verbatim>\<open>parseMessage\<close> after the validation would do with a response, if one got there. A result or an error that names a
  pending, unfinished call finishes exactly that call, with success exactly for a result, and the waiting
  caller gets the text of the message.
\<close>

theorem dispatch_finishes_call:
  assumes "doc = RArray (RInt t # RString uid # rest)" "t = MT_CallResult \<or> t = MT_CallError"
    "map_of (cl_pending c) (to_cstr uid) = Some pc" "cl_calls c pc = Some p" "\<not> pc_finished p"
  shows "\<exists>c'. dispatch a valid msg t doc c = Value c' \<and>
    sendCall_wait now pc c' = Some (if t = MT_CallResult then (True, to_cstr msg) else (False, [])) \<and>
    c' = c\<lparr>cl_calls := (cl_calls c)(pc \<mapsto> finish_call (t = MT_CallResult) msg p)\<rparr>"
proof -
  have "elem_at a doc 1 = Value (RString uid)"
    using assms(1) by (simp add: elem_at_def)
  then show ?thesis
    using assms(2-5) by (auto simp: dispatch_def GetString_def finish_call_def sendCall_wait_def mt_simps)
qed

section \<open>The sending threads\<close>

text \<open>The messages of a context in the order in which they will be sent, if none is added.\<close>

definition queued :: "connector_ctx \<Rightarrow> string list" where
  "queued x = mq_items (cx_tx x) @ mq_items (cx_nonTx x)"

definition ctx_open :: "connector_ctx \<Rightarrow> bool" where
  "ctx_open x \<longleftrightarrow> mq_enabled (cx_tx x) \<and> mq_enabled (cx_nonTx x)"

lemma take_message_empty: "queued x = [] \<Longrightarrow> take_message x = (None, x)"
  by (simp add: queued_def take_message_def queue_empty_def)

lemma take_message_first:
  assumes "ctx_open x" "queued x = m # ms"
  shows "\<exists>x'. take_message x = (Some m, x') \<and> queued x' = ms \<and> ctx_open x' \<and> cx_running x' = cx_running x"
proof (cases "mq_items (cx_tx x)")
  case Nil
  then obtain q where "queue_pop False (cx_nonTx x) = Some (True, Some m, q)" "mq_items q = ms" "mq_enabled q"
    using assms client_queue.get_ok [of "cx_nonTx x" m ms] by (auto simp: ctx_open_def queued_def)
  then show ?thesis
    using Nil assms by (simp add: take_message_def queue_empty_def queued_def ctx_open_def)
next
  case (Cons y ys)
  then obtain q where "queue_pop False (cx_tx x) = Some (True, Some m, q)" "mq_items q = ys" "mq_enabled q"
    using assms client_queue.get_ok [of "cx_tx x" m ys] by (auto simp: ctx_open_def queued_def)
  then show ?thesis
    using Cons assms by (auto simp: take_message_def queue_empty_def queued_def ctx_open_def)
qed

lemma push_ctx_open: "ctx_open x \<Longrightarrow> ctx_open (push_ctx b r x)"
  by (simp add: ctx_open_def push_ctx_def client_queue.put_open)

lemma take_message_open: "ctx_open x \<Longrightarrow> ctx_open (snd (take_message x))"
  using take_message_first [of x] take_message_empty [of x] by (cases "queued x") auto

definition all_open :: "ocpp_client \<Rightarrow> bool" where
  "all_open c \<longleftrightarrow> list_all ctx_open (cl_connectors c)"

lemma all_open_upd [simp]:
  "all_open (c\<lparr>cl_calls := h\<rparr>) = all_open c" "all_open (c\<lparr>cl_pending := ps\<rparr>) = all_open c" "all_open (c\<lparr>cl_retryList := as\<rparr>) = all_open c"
  by (simp_all add: all_open_def)

lemma all_open_update: "\<lbrakk>all_open c; ctx_open x\<rbrakk> \<Longrightarrow> list_all ctx_open ((cl_connectors c)[i := x])"
  by (auto simp: all_open_def list_all_iff dest: set_update_subset_insert [THEN subsetD])

lemma enqueue_open: "\<lbrakk>all_open c; i < length (cl_connectors c)\<rbrakk> \<Longrightarrow> all_open (enqueue i b r c)"
  using all_open_update [of c "push_ctx b r (cl_connectors c ! i)" i]
  by (simp add: enqueue_def all_open_def push_ctx_open list_all_length)

lemma send_answer_open: "\<lbrakk>all_open c; send_answer wr f i c = Value (r, c')\<rbrakk> \<Longrightarrow> all_open c'"
  by (auto simp: send_answer_def intro: enqueue_open split: if_splits)

lemma retry_one_open: "all_open c \<Longrightarrow> all_open (retry_one c)"
  by (auto simp: retry_one_def Let_def intro!: enqueue_open split: list.split option.split)

lemma sendThread_open:
  assumes "all_open c" "i < length (cl_connectors c)"
  shows "all_open (sendThread_pass i c)"
proof -
  have "ctx_open (snd (take_message (cl_connectors c ! i)))"
    using assms by (intro take_message_open) (simp add: all_open_def list_all_length)
  from all_open_update [OF assms(1) this, of i] show ?thesis
    using assms(1) by (auto simp: sendThread_pass_def all_open_def Let_def split: prod.split option.split)
qed

text \<open>The threads are those of existing contexts, and the queues are never disabled.\<close>

definition threads_ok :: "ocpp_client \<Rightarrow> bool" where
  "threads_ok c \<longleftrightarrow> list_all (\<lambda>i. i < length (cl_connectors c)) (cl_sendThreads c)"

lemma client_step_open: "client_step c c' \<Longrightarrow> all_open c \<and> threads_ok c \<Longrightarrow> all_open c' \<and> threads_ok c'"
proof (induction rule: client_step.induct)
  case (start a cfg ws_ok c r c')
  have "ctx_open new_ctx" by (simp add: new_ctx_def ctx_open_def new_queue_def)
  then show ?case
    using start
    by (auto simp: client_start_def bind_Value Let_def all_open_def threads_ok_def list_all_iff split: if_splits)
       (meson less_SucI trans_less_add1)
next
  case (stop c)
  then show ?case by (auto simp: client_stop_def all_open_def threads_ok_def list_all_iff ctx_open_def)
next
  case (call c pc valid wr uid now action req connId isTx timeout r c')
  then show ?case
    by (auto simp: sendCall_begin_def Let_def threads_ok_def intro!: enqueue_open split: if_splits)
next
  case (error wr uid code desc details connId c r c')
  then show ?case
    by (auto simp: sendCallError_def send_answer_def threads_ok_def enqueue_def intro: send_answer_open split: if_splits)
next
  case (result valid wr uid action payload connId c r c')
  then show ?case
    by (auto simp: sendCallResult_def send_answer_def threads_ok_def enqueue_def intro: send_answer_open split: if_splits)
next
  case (send i c)
  then have "all_open (sendThread_pass i c)"
    by (intro sendThread_open) (auto simp: threads_ok_def list_all_iff)
  moreover have "threads_ok (sendThread_pass i c)"
    using send by (auto simp: sendThread_pass_def threads_ok_def list_all_iff Let_def split: prod.split option.split)
  ultimately show ?case by simp
next
  case (retry c)
  then show ?case
    by (auto simp: retry_one_open) (auto simp: retry_one_def threads_ok_def Let_def enqueue_def split: list.split option.split)
next
  case (receive parser a valid message c c')
  then show ?case using parseMessage_ignores by blast
qed (auto simp: registerCallHandler_def setOCPPClientListener_def ws_notify_def retry_scan_def Let_def all_open_def threads_ok_def)

lemma client_reach_open: "client_reach c \<Longrightarrow> all_open c \<and> threads_ok c"
proof (induction rule: client_reach.induct)
  case (init info connectorNum)
  then show ?case by (simp add: OCPPClient_def all_open_def threads_ok_def)
next
  case (step c c')
  then show ?case using client_step_open [OF step.hyps(2)] by simp
qed

lemma sendThread_pass_first:
  assumes "i < length (cl_connectors c)" "cx_running (cl_connectors c ! i)" "ctx_open (cl_connectors c ! i)"
    "queued (cl_connectors c ! i) = m # ms"
  shows "let c' = sendThread_pass i c; x' = cl_connectors c' ! i
         in queued x' = ms \<and> ctx_open x' \<and> cx_running x' \<and> length (cl_connectors c') = length (cl_connectors c) \<and>
            cl_sent c' = cl_sent c @ map (Pair i) (filter (\<lambda>m. m \<noteq> []) [m])"
  using take_message_first [OF assms(3,4)] assms(1,2) by (auto simp: sendThread_pass_def Let_def)

lemma sendThread_passes:
  "\<lbrakk>i < length (cl_connectors c); cx_running (cl_connectors c ! i); ctx_open (cl_connectors c ! i); queued (cl_connectors c ! i) = ms\<rbrakk> \<Longrightarrow>
   cl_sent ((sendThread_pass i ^^ length ms) c) = cl_sent c @ map (Pair i) (filter (\<lambda>m. m \<noteq> []) ms) \<and>
   queued (cl_connectors ((sendThread_pass i ^^ length ms) c) ! i) = []"
proof (induction ms arbitrary: c)
  case (Cons m ms)
  note p = sendThread_pass_first [OF Cons.prems, unfolded Let_def]
  then show ?case
    using Cons.IH [of "sendThread_pass i c"] Cons.prems(1) by (simp add: funpow_swap1)
qed simp

text \<open>
  C24. A sending thread that is left alone hands the messages of its connector to the socket in this order: first those of
  transactions, then the others, each group as it was queued, and none twice; empty messages are skipped.
  After as many passes as there are messages both queues are empty.
\<close>

theorem sendThread_order:
  assumes "client_reach c" "i \<in> set (cl_sendThreads c)" "cx_running (cl_connectors c ! i)"
  defines "x \<equiv> cl_connectors c ! i"
  defines "c' \<equiv> (sendThread_pass i ^^ length (queued x)) c"
  shows "cl_sent c' = cl_sent c @ map (Pair i) (filter (\<lambda>m. m \<noteq> []) (mq_items (cx_tx x) @ mq_items (cx_nonTx x))) \<and>
    mq_items (cx_tx (cl_connectors c' ! i)) = [] \<and> mq_items (cx_nonTx (cl_connectors c' ! i)) = []"
proof -
  have "i < length (cl_connectors c)" "ctx_open (cl_connectors c ! i)"
    using client_reach_open [OF assms(1)] assms(2) by (auto simp: threads_ok_def all_open_def list_all_iff)
  from sendThread_passes [OF this(1) assms(3) this(2) refl] show ?thesis
    by (simp add: c'_def x_def queued_def)
qed

theorem sendThread_order_witness: "cl_sent (sendThread_pass 1 demo_called) = [(1, ''m'')]"
proof -
  have c: "demo_called = enqueue 1 True ''m'' (demo_called\<lparr>cl_connectors := replicate 3 new_ctx\<rparr>)" "1 \<in> set (cl_sendThreads demo_called)"
    by (simp_all add: demo_called_def demo_client_def ws_notify_def OCPPClient_def sendCall_begin_def Let_def enqueue_def to_cstr_def)
  have x: "cl_connectors demo_called ! 1 = push_ctx True ''m'' new_ctx" "cl_sent demo_called = []"
    by (simp_all add: demo_called_def demo_client_def ws_notify_def OCPPClient_def sendCall_begin_def Let_def enqueue_def to_cstr_def
        numeral_3_eq_3)
  then have "cx_running (cl_connectors demo_called ! 1)" "queued (cl_connectors demo_called ! 1) = [''m'']"
    by (simp_all add: push_ctx_def new_ctx_def new_queue_def queue_push_def queued_def SIZE_MAX_def)
  then show ?thesis
    using sendThread_order [OF demo_reach c(2)] x(2) by (simp add: queued_def)
qed

section \<open>Repeating, expiring and restarting\<close>

text \<open>
  The delay before the next repetition of a call doubles with every repetition, up to 256 times the
  configured interval, as long as that fits an unsigned number of milliseconds.
\<close>

theorem retry_backoff:
  assumes "0 \<le> interval" "interval < 2 ^ 24"
  shows "uint (backoff interval n) = interval * 2 ^ min (nat n) 8 \<and> uint (backoff interval n) \<le> 256 * interval"
proof -
  define k where "k = min (nat n) 8"
  have "(2 :: int) ^ k \<le> 2 ^ 8"
    unfolding k_def by (rule power_increasing) simp_all
  then have k: "interval * 2 ^ k \<le> 256 * interval" "0 \<le> interval * 2 ^ k"
    using assms(1) mult_left_mono [of "2 ^ k" 256 interval] by simp_all
  have "backoff interval n = word_of_int (interval * 2 ^ k)"
    by (simp add: backoff_def k_def push_bit_eq_mult)
  then have "uint (backoff interval n) = (interval * 2 ^ k) mod 2 ^ 32"
    by (simp only: uint_word_of_int) simp
  also have "\<dots> = interval * 2 ^ k"
    using k assms(2) by (intro mod_pos_pos_trivial) simp_all
  finally show ?thesis
    using k by (simp add: k_def)
qed

theorem retry_backoff_witness: "uint (backoff 30000 3) = 240000"
  using retry_backoff [of 30000 3] by simp

text \<open>
  A call that has expired before its next repetition is due is given up by the next scan: it leaves
  the table, is not repeated, also if it belongs to a transaction, and its caller is told that it failed.
\<close>

theorem expired_call_is_dropped:
  assumes "client_reach c" "map_of (cl_pending c) uid = Some a" "cl_calls c a = Some p" "\<not> pc_finished p"
    "pc_expireAt p \<le> now" "now < pc_nextRetry p"
  shows "uid \<notin> fst ` set (cl_pending (retry_scan now c)) \<and> a \<notin> set (cl_retryList (retry_scan now c)) \<and>
    sendCall_wait t a (retry_scan now c) = Some (False, [])"
proof -
  have inv: "table_ok (cl_calls c) (cl_pending c)"
    using client_reach_inv [OF assms(1)] by (simp add: client_inv_def)
  have mem: "(uid, a) \<in> set (cl_pending c)"
    by (rule map_of_SomeD [OF assms(2)])
  have v: "verdict_of now c a = Expire"
    using assms(3-6) by (simp add: verdict_of_def judge_def)
  have "inj_on fst (set (cl_pending c))"
    using inv by (simp add: table_ok_def distinct_map)
  then have "snd q = a" if "q \<in> set (cl_pending c)" "fst q = uid" for q
    using that mem inj_onD [of fst "set (cl_pending c)" q "(uid, a)"] by simp
  then have "uid \<notin> fst ` set (cl_pending (retry_scan now c))"
    using v by (auto simp: retry_scan_def Let_def)
  moreover have "a \<notin> set (cl_retryList (retry_scan now c))"
    using v by (auto simp: retry_scan_def Let_def)
  moreover have "a \<in> snd ` set (cl_pending c)"
    using mem by force
  then have "cl_calls (retry_scan now c) a = Some (expire_call p)"
    using v assms(3) by (simp add: retry_scan_def Let_def)
  ultimately show ?thesis
    by (simp add: sendCall_wait_def expire_call_def)
qed

theorem expired_call_is_dropped_witness: "sendCall_wait 0 7 (retry_scan 20000000 demo_called) = Some (False, [])"
proof -
  have calls: "cl_calls demo_called 7 = Some (new_call 0 1 ''u1'' True ''m'' 20 demo_info)"
    and pend: "map_of (cl_pending demo_called) ''u1'' = Some 7"
    by (simp_all add: demo_called_def demo_client_def ws_notify_def OCPPClient_def sendCall_begin_def Let_def put_pending_def to_cstr_def)
  have n: "\<not> pc_finished (new_call 0 1 ''u1'' True ''m'' 20 demo_info)"
    "pc_expireAt (new_call 0 1 ''u1'' True ''m'' 20 demo_info) \<le> 20000000"
    "20000000 < pc_nextRetry (new_call 0 1 ''u1'' True ''m'' 20 demo_info)"
    by (simp_all add: new_call_def ns_of_ms_def demo_info_def)
  show ?thesis
    using expired_call_is_dropped [OF demo_reach pend calls n] by simp
qed

text \<open>
  Starting a new client makes two contexts more than there are connectors: the constructor
  has already counted the charge point itself.
\<close>

theorem start_makes_contexts:
  assumes "client_start a cfg ws_ok (OCPPClient info n) = Value (Some (True, c))" "n < - 2"
  shows "length (cl_connectors c) = unat n + 2 \<and> cl_sendThreads c = [0..<unat n + 2]"
proof -
  have "unat (n + 1) = unat n + 1"
    using assms(2) by (simp add: unat_word_ariths word_less_nat_alt)
  then show ?thesis
    using assms(1) by (auto simp: client_start_def bind_Value OCPPClient_def Let_def split: if_splits)
qed

text \<open>
  A client that is stopped and started again stays silent. The contexts of the first run are kept and are
  not running, and the new threads are started for these contexts: each of them ends at its first pass, so that
  nothing that is queued reaches the socket.
\<close>

theorem restarted_client_is_silent:
  assumes "length (cl_connectors c) = Suc (unat (cl_connectorNum c))"
    "client_start a cfg ws_ok (client_stop c) = Value (Some (True, c'))" "i \<in> set (cl_sendThreads c')"
  shows "\<not> cx_running (cl_connectors c' ! i) \<and> cl_sent (sendThread_pass i c') = cl_sent c' \<and>
    i \<notin> set (cl_sendThreads (sendThread_pass i c'))"
proof -
  have "cl_sendThreads c' = [0..<length (cl_connectors c)]"
    "\<exists>xs. cl_connectors c' = map (\<lambda>x. x\<lparr>cx_running := False\<rparr>) (cl_connectors c) @ xs"
    using assms(1,2) by (auto simp: client_start_def bind_Value client_stop_def Let_def split: if_splits)
  then have "\<not> cx_running (cl_connectors c' ! i)"
    using assms(3) by (auto simp: nth_append)
  then show ?thesis
    by (simp add: sendThread_pass_def)
qed

theorem restarted_client_is_silent_witness:
  "\<exists>c'. client_start True (Some demo_config) True (client_stop demo_client) = Value (Some (True, c')) \<and> \<not> cx_running (cl_connectors c' ! 0)"
proof -
  let ?c = "(client_stop demo_client)\<lparr>cl_running := True,
    cl_connectors := cl_connectors (client_stop demo_client) @ replicate 3 new_ctx, cl_sendThreads := [0..<3]\<rparr>"
  have s: "client_start True (Some demo_config) True (client_stop demo_client) = Value (Some (True, ?c))"
    by (simp add: client_start_def demo_config_read client_stop_def demo_client_def ws_notify_def OCPPClient_def doConnect_def Let_def)
  moreover have "length (cl_connectors demo_client) = Suc (unat (cl_connectorNum demo_client))"
    by (simp add: demo_client_def ws_notify_def OCPPClient_def)
  ultimately show ?thesis
    using restarted_client_is_silent [of demo_client True "Some demo_config" True ?c 0] by simp
qed

text \<open>An answer for a connector that does not exist is written outside the vector of contexts.\<close>

theorem answer_out_of_range:
  "\<lbrakk>cl_connected c; connId \<ge> length (cl_connectors c)\<rbrakk> \<Longrightarrow> sendCallError wr uid code desc details connId c = Undefined"
  by (simp add: sendCallError_def send_answer_def)

end
