(* ===== verification/Ocpp_Auth.thy ===== *)
theory Ocpp_Auth
  imports Ocpp_Enums Ocpp_Message Utils
begin

text \<open>
  Authorization of identifiers (\<^verbatim>\<open>src/src/ocpp/action/authorize/\<close>): the cache of earlier answers
  (\<^verbatim>\<open>AuthentCache.cpp\<close>) and the local list that the server sends (\<^verbatim>\<open>AuthentLocalList.cpp\<close>), on
  the query class of \<^verbatim>\<open>src/src/ocpp/tool/database/DataBase.cpp\<close>.
  \<^item> The database engine is a parameter: one step of a statement with its bound values gives a row, the end
    or a failure, and a new database. What the proofs use of it are the documented effects of the fixed
    statements on the rows of the two tables (\<open>cache_engine\<close>, \<open>list_engine\<close>).
  \<^item> A statement that is bound again has been reset before, as in all calls below; the results of binding
    are ignored by the code, and binding is taken to succeed.
\<close>

section \<open>Queries\<close>

datatype sqlv = VNull | VInt int | VText string

datatype sql_rc = Sql_Row "sqlv list" | Sql_Done | Sql_Fail

type_synonym bindings = "nat \<Rightarrow> sqlv"

record 'd query_engine =
  sql_run :: "string \<Rightarrow> bindings \<Rightarrow> 'd \<Rightarrow> sql_rc \<times> 'd"
  sql_int :: "string \<Rightarrow> int"
  int_affinity :: "sqlv \<Rightarrow> sqlv"

definition binds :: "sqlv list \<Rightarrow> bindings" where
  "binds vs n = (if 1 \<le> n \<and> n \<le> length vs then vs ! (n - 1) else VNull)"

text \<open>\<^verbatim>\<open>Query::exec\<close>: whether it succeeded, with the row it stopped at.\<close>

definition query_exec :: "'d query_engine \<Rightarrow> string \<Rightarrow> sqlv list \<Rightarrow> 'd \<Rightarrow> bool \<times> sqlv list option \<times> 'd" where
  "query_exec e sql vs d =
     (case sql_run e sql (binds vs) d of
        (Sql_Row r, d') \<Rightarrow> (True, Some r, d')
      | (Sql_Done, d') \<Rightarrow> (True, None, d')
      | (Sql_Fail, d') \<Rightarrow> (False, None, d'))"

definition isNull :: "sqlv list \<Rightarrow> nat \<Rightarrow> bool" where
  "isNull r n = (if n < length r then r ! n = VNull else True)"

definition getInt64 :: "'d query_engine \<Rightarrow> sqlv list \<Rightarrow> nat \<Rightarrow> int" where
  "getInt64 e r n = (if n < length r then (case r ! n of VNull \<Rightarrow> 0 | VInt i \<Rightarrow> i | VText s \<Rightarrow> sql_int e s) else 0)"

definition getUInt32 :: "'d query_engine \<Rightarrow> sqlv list \<Rightarrow> nat \<Rightarrow> uint32" where
  "getUInt32 e r n = word_of_int (getInt64 e r n)"

definition status_int :: "AuthorizationStatus \<Rightarrow> int" where
  "status_int s = (case s of AuthorizationStatus.Accepted \<Rightarrow> 0 | AuthorizationStatus.Blocked \<Rightarrow> 1 | AuthorizationStatus.Expired \<Rightarrow> 2
     | AuthorizationStatus.Invalid \<Rightarrow> 3 | AuthorizationStatus.ConcurrentTx \<Rightarrow> 4 | AuthorizationStatus.Other \<Rightarrow> 5)"

record auth_record =
  ar_idTag :: string
  ar_parentIdTag :: string
  ar_expiryDate :: uint64
  ar_status :: AuthorizationStatus

definition new_record :: auth_record where
  "new_record = \<lparr>ar_idTag = [], ar_parentIdTag = [], ar_expiryDate = 0, ar_status = AuthorizationStatus.Invalid\<rparr>"

section \<open>The authorization cache\<close>

definition cache_find :: string where
  "cache_find = ''SELECT tag, parent, expiry, status FROM AuthentCache WHERE tag=?;''"

definition cache_delete :: string where
  "cache_delete = ''DELETE FROM AuthentCache WHERE tag=?;''"

definition cache_insert :: string where
  "cache_insert = ''INSERT INTO AuthentCache(tag, parent, expiry, status) VALUES (?, ?, ?, ?);''"

definition cache_update :: string where
  "cache_update = ''UPDATE AuthentCache SET parent=?, expiry=?, status=? WHERE tag=?;''"

definition cache_clear :: string where
  "cache_clear = ''DELETE FROM AuthentCache WHERE TRUE;''"

text \<open>\<open>ready\<close> says that the statements have been prepared.\<close>

definition updateAuthCache :: "'d query_engine \<Rightarrow> bool \<Rightarrow> auth_record \<Rightarrow> 'd \<Rightarrow> bool \<times> 'd" where
  "updateAuthCache e ready r d =
     (if \<not> ready then (False, d)
      else (case query_exec e cache_find [VText (to_cstr (ar_idTag r))] d of
              (False, _, d1) \<Rightarrow> (False, d1)
            | (True, row, d1) \<Rightarrow>
                let status = (if ar_status r = AuthorizationStatus.ConcurrentTx then AuthorizationStatus.Accepted else ar_status r);
                    parent = VText (to_cstr (ar_parentIdTag r)); expiry = VInt (sint (ar_expiryDate r));
                    st = VInt (status_int status); tag = VText (to_cstr (ar_idTag r))
                in (case row of
                      Some _ \<Rightarrow> (case query_exec e cache_update [parent, expiry, st, tag] d1 of (ok, _, d2) \<Rightarrow> (ok, d2))
                    | None \<Rightarrow> (case query_exec e cache_insert [tag, parent, expiry, st] d1 of (ok, _, d2) \<Rightarrow> (ok, d2)))))"

definition checkAuthCache :: "'d query_engine \<Rightarrow> bool \<Rightarrow> int \<Rightarrow> string \<Rightarrow> 'd \<Rightarrow> bool \<times> 'd" where
  "checkAuthCache e ready now idTag d =
     (if \<not> ready then (False, d)
      else (case query_exec e cache_find [VText (to_cstr idTag)] d of
              (False, _, d1) \<Rightarrow> (False, d1)
            | (True, None, d1) \<Rightarrow> (False, d1)
            | (True, Some row, d1) \<Rightarrow>
                if getInt64 e row 2 > now \<and> getInt64 e row 3 = status_int AuthorizationStatus.Accepted then (True, d1)
                else (case query_exec e cache_delete [VText (to_cstr idTag)] d1 of (_, _, d2) \<Rightarrow> (False, d2))))"

definition clearAuthCache :: "'d query_engine \<Rightarrow> bool \<Rightarrow> 'd \<Rightarrow> 'd" where
  "clearAuthCache e prepared d = (if prepared then snd (snd (query_exec e cache_clear [] d)) else d)"

section \<open>What the engine does with the cache table\<close>

text \<open>
  The rows of the table in the order of their row numbers. The trigger that the table is created with
  deletes the oldest row when an insertion makes more than 300. A statement that fails changes nothing.
\<close>

record auth_row =
  row_tag :: string
  row_parent :: sqlv
  row_expiry :: sqlv
  row_status :: sqlv

definition find_row :: "string \<Rightarrow> auth_row list \<Rightarrow> auth_row option" where
  "find_row t rs = find (\<lambda>r. row_tag r = t) rs"

definition cacheMaxEntriesCount :: nat where
  "cacheMaxEntriesCount = 300"

definition evict_oldest :: "auth_row list \<Rightarrow> auth_row list" where
  "evict_oldest rs = (if length rs > cacheMaxEntriesCount then tl rs else rs)"

definition text_of :: "sqlv \<Rightarrow> string option" where
  "text_of v = (case v of VNull \<Rightarrow> None | VInt i \<Rightarrow> Some (show_int i) | VText s \<Rightarrow> Some s)"

definition update_rows :: "sqlv \<Rightarrow> (auth_row \<Rightarrow> auth_row) \<Rightarrow> auth_row list \<Rightarrow> auth_row list" where
  "update_rows t f rs = map (\<lambda>r. if text_of t = Some (row_tag r) then f r else r) rs"

definition make_row :: "string \<Rightarrow> sqlv \<Rightarrow> sqlv \<Rightarrow> sqlv \<Rightarrow> auth_row" where
  "make_row t p x s = \<lparr>row_tag = t, row_parent = p, row_expiry = x, row_status = s\<rparr>"

text \<open>A run either fails without an effect, or has the given result.\<close>

definition runs_to :: "'d query_engine \<Rightarrow> ('d \<Rightarrow> 'r) \<Rightarrow> string \<Rightarrow> sqlv list \<Rightarrow> 'd \<Rightarrow> sql_rc \<Rightarrow> 'r \<Rightarrow> bool" where
  "runs_to e rows sql vs d rc rs \<longleftrightarrow>
     (case sql_run e sql (binds vs) d of (rc', d') \<Rightarrow> (rc' = rc \<and> rows d' = rs) \<or> (rc' = Sql_Fail \<and> rows d' = rows d))"

definition cache_engine :: "'d query_engine \<Rightarrow> ('d \<Rightarrow> auth_row list) \<Rightarrow> bool" where
  "cache_engine e rows \<longleftrightarrow>
     (\<forall>d t. runs_to e rows cache_find [VText t] d
        (case find_row t (rows d) of None \<Rightarrow> Sql_Done | Some r \<Rightarrow> Sql_Row [VText (row_tag r), row_parent r, row_expiry r, row_status r])
        (rows d)) \<and>
     (\<forall>d t. runs_to e rows cache_delete [VText t] d Sql_Done (filter (\<lambda>r. row_tag r \<noteq> t) (rows d))) \<and>
     (\<forall>d t p x s. find_row t (rows d) = None \<longrightarrow>
        runs_to e rows cache_insert [VText t, VText p, VInt x, VInt s] d Sql_Done
          (evict_oldest (rows d @ [make_row t (VText p) (VInt x) (VInt s)]))) \<and>
     (\<forall>d t p x s. runs_to e rows cache_update [VText p, VInt x, VInt s, VText t] d Sql_Done
          (update_rows (VText t) (\<lambda>r. make_row (row_tag r) (VText p) (VInt x) (VInt s)) (rows d)))"

lemma runs_to_exec:
  assumes "runs_to e rows sql vs d rc rs" "query_exec e sql vs d = (ok, row, d')"
  shows "if ok then rows d' = rs \<and> (case row of None \<Rightarrow> rc = Sql_Done | Some r \<Rightarrow> rc = Sql_Row r) \<or> rc = Sql_Fail
         else rows d' = rows d \<or> rows d' = rs \<and> rc = Sql_Fail"
  using assms by (auto simp: runs_to_def query_exec_def split: prod.splits sql_rc.splits)

lemma find_row_None: "find_row t rs = None \<longleftrightarrow> t \<notin> row_tag ` set rs"
  by (auto simp: find_row_def find_None_iff)

lemma find_row_append:
  "find_row t (rs @ qs) = (case find_row t rs of None \<Rightarrow> find_row t qs | Some r \<Rightarrow> Some r)"
  by (induction rs) (auto simp: find_row_def)

lemma find_row_tag: "find_row t rs = Some r \<Longrightarrow> row_tag r = t"
  by (auto simp: find_row_def find_Some_iff)

lemma find_row_update:
  "find_row t (update_rows (VText t) (\<lambda>r. make_row (row_tag r) p x s) rs) = map_option (\<lambda>r. make_row t p x s) (find_row t rs)"
  by (induction rs) (auto simp: find_row_def update_rows_def text_of_def make_row_def)

lemma update_rows_tags [simp]:
  "map row_tag (update_rows v (\<lambda>r. make_row (row_tag r) p x s) rs) = map row_tag rs"
  by (simp add: update_rows_def make_row_def)

definition cache_ok :: "auth_row list \<Rightarrow> bool" where
  "cache_ok rs \<longleftrightarrow> distinct (map row_tag rs) \<and> length rs \<le> cacheMaxEntriesCount"

lemma cache_insert_ok:
  fixes p x s :: sqlv
  assumes "cache_ok rs" "find_row t rs = None"
  defines "rs' \<equiv> evict_oldest (rs @ [make_row t p x s])"
  shows "cache_ok rs'" "find_row t rs' = Some (make_row t p x s)"
proof -
  have new: "t \<notin> row_tag ` set rs"
    using assms(2) by (simp add: find_row_None)
  show "cache_ok rs'"
    using assms(1) new unfolding rs'_def cache_ok_def evict_oldest_def
    by (cases rs) (auto simp: make_row_def cacheMaxEntriesCount_def)
  have app: "find_row t (qs @ [make_row t p x s]) = Some (make_row t p x s)" if "t \<notin> row_tag ` set qs" for qs
    using that by (simp add: find_row_append find_row_None [THEN iffD2]) (simp add: find_row_def make_row_def)
  have "t \<notin> row_tag ` set (tl rs)"
    using new by (cases rs) auto
  moreover have "tl (rs @ [make_row t p x s]) = tl rs @ [make_row t p x s]" if "length rs \<ge> cacheMaxEntriesCount"
    using that by (cases rs) (auto simp: cacheMaxEntriesCount_def)
  ultimately show "find_row t rs' = Some (make_row t p x s)"
    using new app unfolding rs'_def evict_oldest_def by (auto simp: Suc_le_eq less_Suc_eq_le)
qed

definition cached_status :: "AuthorizationStatus \<Rightarrow> AuthorizationStatus" where
  "cached_status s = (if s = AuthorizationStatus.ConcurrentTx then AuthorizationStatus.Accepted else s)"

lemma updateAuthCache_row:
  assumes e: "cache_engine e rows" and ok: "cache_ok (rows d)" and u: "updateAuthCache e True r d = (True, d')"
  shows "cache_ok (rows d') \<and> find_row (to_cstr (ar_idTag r)) (rows d') =
    Some (make_row (to_cstr (ar_idTag r)) (VText (to_cstr (ar_parentIdTag r))) (VInt (sint (ar_expiryDate r))) (VInt (status_int (cached_status (ar_status r)))))"
proof -
  let ?t = "to_cstr (ar_idTag r)" and ?p = "to_cstr (ar_parentIdTag r)" and ?x = "sint (ar_expiryDate r)" and ?s = "status_int (cached_status (ar_status r))"
  obtain row d1 where f: "query_exec e cache_find [VText ?t] d = (True, row, d1)"
    using u by (auto simp: updateAuthCache_def split: prod.splits bool.splits)
  have r1: "runs_to e rows cache_find [VText ?t] d
      (case find_row ?t (rows d) of None \<Rightarrow> Sql_Done | Some q \<Rightarrow> Sql_Row [VText (row_tag q), row_parent q, row_expiry q, row_status q]) (rows d)"
    using e by (simp add: cache_engine_def)
  have d1: "rows d1 = rows d" and row: "row = None \<longleftrightarrow> find_row ?t (rows d) = None"
    using runs_to_exec [OF r1 f] by (auto split: option.splits)
  show ?thesis
  proof (cases row)
    case None
    then have n: "find_row ?t (rows d1) = None" using row d1 by simp
    have "runs_to e rows cache_insert [VText ?t, VText ?p, VInt ?x, VInt ?s] d1 Sql_Done
        (evict_oldest (rows d1 @ [make_row ?t (VText ?p) (VInt ?x) (VInt ?s)]))"
      using e n by (simp add: cache_engine_def)
    moreover obtain q where "query_exec e cache_insert [VText ?t, VText ?p, VInt ?x, VInt ?s] d1 = (True, q, d')"
      using u f None by (auto simp: updateAuthCache_def Let_def cached_status_def split: prod.splits)
    ultimately have "rows d' = evict_oldest (rows d1 @ [make_row ?t (VText ?p) (VInt ?x) (VInt ?s)])"
      using runs_to_exec by fastforce
    then show ?thesis
      using cache_insert_ok [OF ok n [unfolded d1]] d1 by simp
  next
    case (Some q)
    then obtain r0 where n: "find_row ?t (rows d1) = Some r0" using row d1 by auto
    have "runs_to e rows cache_update [VText ?p, VInt ?x, VInt ?s, VText ?t] d1 Sql_Done
        (update_rows (VText ?t) (\<lambda>r. make_row (row_tag r) (VText ?p) (VInt ?x) (VInt ?s)) (rows d1))"
      using e by (simp add: cache_engine_def)
    moreover obtain q where "query_exec e cache_update [VText ?p, VInt ?x, VInt ?s, VText ?t] d1 = (True, q, d')"
      using u f Some by (auto simp: updateAuthCache_def Let_def cached_status_def split: prod.splits)
    ultimately have d': "rows d' = update_rows (VText ?t) (\<lambda>r. make_row (row_tag r) (VText ?p) (VInt ?x) (VInt ?s)) (rows d1)"
      using runs_to_exec by fastforce
    have "length (rows d') = length (rows d)"
      by (simp add: d' update_rows_def d1)
    then show ?thesis
      using ok n d1 by (simp add: cache_ok_def d' find_row_update)
  qed
qed

lemma find_row_filter: "find_row t (filter (\<lambda>r. row_tag r \<noteq> t) rs) = None"
  by (auto simp: find_row_None)

lemma checkAuthCache_eq:
  assumes e: "cache_engine e rows" and nofail: "fst (sql_run e cache_find (binds [VText (to_cstr t)]) d) \<noteq> Sql_Fail"
  shows "fst (checkAuthCache e True now t d) =
    (case find_row (to_cstr t) (rows d) of None \<Rightarrow> False
     | Some r \<Rightarrow> getInt64 e [row_expiry r] 0 > now \<and> getInt64 e [row_status r] 0 = 0)"
proof -
  obtain ok row d1 where f: "query_exec e cache_find [VText (to_cstr t)] d = (ok, row, d1)"
    by (cases "query_exec e cache_find [VText (to_cstr t)] d")
  have "runs_to e rows cache_find [VText (to_cstr t)] d
      (case find_row (to_cstr t) (rows d) of None \<Rightarrow> Sql_Done | Some q \<Rightarrow> Sql_Row [VText (row_tag q), row_parent q, row_expiry q, row_status q]) (rows d)"
    using e by (simp add: cache_engine_def)
  from runs_to_exec [OF this f]
  have "ok" "row = map_option (\<lambda>q. [VText (row_tag q), row_parent q, row_expiry q, row_status q]) (find_row (to_cstr t) (rows d))"
    using f nofail by (auto simp: query_exec_def split: option.splits prod.splits sql_rc.splits)
  then show ?thesis
    using f by (auto simp: checkAuthCache_def getInt64_def status_int_def split: option.split prod.split)
qed

text \<open>
  C25. The authorization cache remembers what it was told. After an identifier has been stored, it is found authorized
  exactly if it was accepted, or busy with another transaction, and has not expired; the cache never
  holds an identifier twice nor more than 300 of them.
\<close>

theorem auth_cache_remembers:
  assumes "cache_engine e rows" "cache_ok (rows d)" "updateAuthCache e True r d = (True, d')"
    "fst (sql_run e cache_find (binds [VText (to_cstr (ar_idTag r))]) d') \<noteq> Sql_Fail"
  shows "fst (checkAuthCache e True now (ar_idTag r) d') =
      (now < sint (ar_expiryDate r) \<and> ar_status r \<in> {AuthorizationStatus.Accepted, AuthorizationStatus.ConcurrentTx}) \<and>
    distinct (map row_tag (rows d')) \<and> length (rows d') \<le> 300"
proof -
  note u = updateAuthCache_row [OF assms(1-3)]
  have "status_int (cached_status s) = 0 \<longleftrightarrow> s \<in> {AuthorizationStatus.Accepted, AuthorizationStatus.ConcurrentTx}" for s
    by (cases s) (simp_all add: status_int_def cached_status_def)
  then show ?thesis
    using u checkAuthCache_eq [OF assms(1,4)] by (simp add: getInt64_def make_row_def cache_ok_def cacheMaxEntriesCount_def)
qed

text \<open>An engine that keeps the rows of the cache in a list, for the example.\<close>

definition list_run :: "string \<Rightarrow> bindings \<Rightarrow> auth_row list \<Rightarrow> sql_rc \<times> auth_row list" where
  "list_run sql b rs =
     (if sql = cache_find
      then (case text_of (b 1) of None \<Rightarrow> (Sql_Done, rs)
            | Some t \<Rightarrow> (case find_row t rs of None \<Rightarrow> (Sql_Done, rs)
                        | Some r \<Rightarrow> (Sql_Row [VText (row_tag r), row_parent r, row_expiry r, row_status r], rs)))
      else if sql = cache_delete then (Sql_Done, filter (\<lambda>r. Some (row_tag r) \<noteq> text_of (b 1)) rs)
      else if sql = cache_insert
      then (case b 1 of VText t \<Rightarrow> (if find_row t rs = None then (Sql_Done, evict_oldest (rs @ [make_row t (b 2) (b 3) (b 4)])) else (Sql_Fail, rs))
            | _ \<Rightarrow> (Sql_Fail, rs))
      else if sql = cache_update then (Sql_Done, update_rows (b 4) (\<lambda>r. make_row (row_tag r) (b 1) (b 2) (b 3)) rs)
      else (Sql_Fail, rs))"

definition demo_engine :: "auth_row list query_engine" where
  "demo_engine = \<lparr>sql_run = list_run, sql_int = (\<lambda>_. 0), int_affinity = (\<lambda>v. v)\<rparr>"

lemma cache_sql_distinct:
  "cache_delete \<noteq> cache_find" "cache_insert \<noteq> cache_find" "cache_update \<noteq> cache_find" "cache_insert \<noteq> cache_delete"
  "cache_update \<noteq> cache_delete" "cache_update \<noteq> cache_insert"
  by (simp_all add: cache_delete_def cache_find_def cache_insert_def cache_update_def)

lemma demo_engine_ok: "cache_engine demo_engine (\<lambda>rs. rs)"
  unfolding cache_engine_def
  by (auto simp: runs_to_def demo_engine_def list_run_def binds_def cache_sql_distinct text_of_def
      split: option.split prod.split)

theorem auth_cache_remembers_witness:
  "\<exists>d'. updateAuthCache demo_engine True \<lparr>ar_idTag = ''A'', ar_parentIdTag = [], ar_expiryDate = 9, ar_status = AuthorizationStatus.ConcurrentTx\<rparr> [] = (True, d') \<and>
     fst (checkAuthCache demo_engine True 5 ''A'' d')"
proof -
  let ?r = "\<lparr>ar_idTag = ''A'', ar_parentIdTag = [], ar_expiryDate = 9, ar_status = AuthorizationStatus.ConcurrentTx\<rparr>"
  let ?d = "[make_row ''A'' (VText []) (VInt 9) (VInt 0)]"
  have u: "updateAuthCache demo_engine True ?r [] = (True, ?d)"
    by (simp add: updateAuthCache_def query_exec_def demo_engine_def list_run_def binds_def cache_sql_distinct text_of_def find_row_def
        to_cstr_def Let_def evict_oldest_def cacheMaxEntriesCount_def status_int_def)
  have n: "fst (sql_run demo_engine cache_find (binds [VText (to_cstr (ar_idTag ?r))]) ?d) \<noteq> Sql_Fail"
    by (simp add: demo_engine_def list_run_def binds_def text_of_def split: option.split)
  have "cache_ok []"
    by (simp add: cache_ok_def)
  from auth_cache_remembers [OF demo_engine_ok this u n, of 5] show ?thesis
    using u by auto
qed

section \<open>The local list\<close>

text \<open>
  \<^verbatim>\<open>DateTime::assign\<close> (\<^verbatim>\<open>src/src/ocpp/common/Time.h\<close>): the text is read with one of two formats; \<^verbatim>\<open>std::get_time\<close>
  and \<^verbatim>\<open>std::mktime\<close>, which also gives the offset of the time zone and the daylight saving flag, are parameters.
\<close>

record 'm time_lib =
  get_time :: "string \<Rightarrow> string \<Rightarrow> 'm option"
  mk_time :: "'m \<Rightarrow> int \<times> int \<times> int"

definition assign_time :: "'m time_lib \<Rightarrow> string \<Rightarrow> int \<Rightarrow> bool \<times> int" where
  "assign_time lib value old =
     (case (case get_time lib ''%Y-%m-%dT%TZ'' value of Some t \<Rightarrow> Some t | None \<Rightarrow> get_time lib ''%Y-%m-%dT%T'' value) of
        None \<Rightarrow> (False, old)
      | Some t \<Rightarrow> (case mk_time lib t of (m, gmtoff, isdst) \<Rightarrow> (True, m + gmtoff - isdst * 3600)))"

definition list_clear :: string where
  "list_clear = ''DELETE FROM AuthentLocalList;''"

definition list_insert :: string where
  "list_insert = ''INSERT INTO AuthentLocalList VALUES (NULL, ?, ?, ?, ?);''"

definition list_update :: string where
  "list_update = ''UPDATE AuthentLocalList SET [parent]=?, [expiry]=?, [status]=? WHERE tag=?;''"

definition list_find :: string where
  "list_find = ''SELECT * FROM AuthentLocalList WHERE tag=?;''"

text \<open>A member of an object that is used only if it has the right type.\<close>

definition string_member :: "rjson \<Rightarrow> string \<Rightarrow> string option" where
  "string_member v k = (case FindMember v k of Some (RString s) \<Rightarrow> Some (to_cstr s) | _ \<Rightarrow> None)"

definition read_status :: "string \<Rightarrow> AuthorizationStatus" where
  "read_status s = toEnum_default (table_map authorizationStatusMap) s AuthorizationStatus.Invalid"

definition read_rest :: "'m time_lib \<Rightarrow> rjson \<Rightarrow> auth_record \<Rightarrow> auth_record" where
  "read_rest lib info r =
     (let r1 = (case string_member info ''parentIdTag'' of Some p \<Rightarrow> r\<lparr>ar_parentIdTag := p\<rparr> | None \<Rightarrow> r)
      in (case string_member info ''expiryDate'' of
            Some x \<Rightarrow> r1\<lparr>ar_expiryDate := word_of_int (snd (assign_time lib x 0))\<rparr>
          | None \<Rightarrow> r1))"

text \<open>
  One entry of the list as the full and as the differential update read it: nothing if the entry is
  skipped. A differential entry with information but without a status is skipped.
\<close>

definition read_full :: "'m time_lib \<Rightarrow> rjson \<Rightarrow> auth_record option" where
  "read_full lib data =
     (case string_member data ''idTag'' of
        None \<Rightarrow> None
      | Some t \<Rightarrow>
          let r = new_record\<lparr>ar_idTag := t\<rparr>
          in (case FindMember data ''idTagInfo'' of
                Some (RObject ms) \<Rightarrow>
                  (let r1 = (case string_member (RObject ms) ''status'' of Some s \<Rightarrow> r\<lparr>ar_status := read_status s\<rparr> | None \<Rightarrow> r)
                   in Some (read_rest lib (RObject ms) r1))
              | _ \<Rightarrow> Some r))"

definition read_partial :: "'m time_lib \<Rightarrow> rjson \<Rightarrow> auth_record option" where
  "read_partial lib data =
     (case string_member data ''idTag'' of
        None \<Rightarrow> None
      | Some t \<Rightarrow>
          let r = new_record\<lparr>ar_idTag := t\<rparr>
          in (case FindMember data ''idTagInfo'' of
                Some (RObject ms) \<Rightarrow>
                  (case string_member (RObject ms) ''status'' of
                     None \<Rightarrow> None
                   | Some s \<Rightarrow> Some (read_rest lib (RObject ms) (r\<lparr>ar_status := read_status s\<rparr>)))
              | _ \<Rightarrow> Some r))"

text \<open>An entry that is no object fails the assertion of the first member lookup.\<close>

fun read_list_entries :: "bool \<Rightarrow> (rjson \<Rightarrow> auth_record option) \<Rightarrow> rjson list \<Rightarrow> auth_record list outcome" where
  "read_list_entries a f [] = Value []"
| "read_list_entries a f (v # vs) =
     (if \<not> IsObject v then assert_failed a
      else bind_outcome (read_list_entries a f vs) (\<lambda>rs. Value (case f v of None \<Rightarrow> rs | Some r \<Rightarrow> r # rs)))"

fun insert_records :: "'d query_engine \<Rightarrow> auth_record list \<Rightarrow> 'd \<Rightarrow> bool \<times> 'd" where
  "insert_records e [] d = (True, d)"
| "insert_records e (r # rs) d =
     (case query_exec e list_insert [VText (to_cstr (ar_idTag r)), VText (to_cstr (ar_parentIdTag r)), VInt (sint (ar_expiryDate r)), VInt (status_int (ar_status r))] d of
        (ok, _, d1) \<Rightarrow> if ok then insert_records e rs d1 else (False, d1))"

text \<open>
  \<^verbatim>\<open>performFullUpdate\<close>. \<open>limit\<close> is the configured length, if any; \<open>prepared\<close> says whether the statement that
  clears the table could be prepared, \<open>ready\<close> whether the insertion has been.
\<close>

definition performFullUpdate ::
  "bool \<Rightarrow> 'd query_engine \<Rightarrow> 'm time_lib \<Rightarrow> rjson option \<Rightarrow> bool \<Rightarrow> bool \<Rightarrow> rjson \<Rightarrow> 'd \<Rightarrow> (bool \<times> 'd) outcome" where
  "performFullUpdate a e lib limit prepared ready datas d =
     (let max_len = (case limit of Some (RInt n) \<Rightarrow> if IsUint (RInt n) then nat n else 500 | _ \<Rightarrow> 500)
      in (case datas of
            RArray vs \<Rightarrow>
              if length vs > max_len then Value (False, d)
              else bind_outcome (read_list_entries a (read_full lib) vs) (\<lambda>records.
                     case (if prepared then query_exec e list_clear [] d else (True, None, d)) of
                       (ok, _, d1) \<Rightarrow> if ok \<and> ready then Value (insert_records e records d1) else Value (ok, d1))
          | _ \<Rightarrow> Value (False, d)))"

text \<open>The values are bound in the order of the insertion, which is not the order of the update.\<close>

fun update_records :: "'d query_engine \<Rightarrow> auth_record list \<Rightarrow> 'd \<Rightarrow> bool \<times> 'd" where
  "update_records e [] d = (True, d)"
| "update_records e (r # rs) d =
     (case query_exec e list_update [VText (to_cstr (ar_idTag r)), VText (to_cstr (ar_parentIdTag r)), VInt (sint (ar_expiryDate r)), VInt (status_int (ar_status r))] d of
        (ok, _, d1) \<Rightarrow> if ok then update_records e rs d1 else (False, d1))"

definition performPartialUpdate :: "bool \<Rightarrow> 'd query_engine \<Rightarrow> 'm time_lib \<Rightarrow> rjson \<Rightarrow> 'd \<Rightarrow> (bool \<times> 'd) outcome" where
  "performPartialUpdate a e lib datas d =
     (case datas of
        RArray vs \<Rightarrow> bind_outcome (read_list_entries a (read_partial lib) vs) (\<lambda>records. Value (update_records e records d))
      | _ \<Rightarrow> Value (False, d))"

text \<open>
  \<^verbatim>\<open>checkLocalAuth\<close> for an object whose statement has been prepared; the columns of the row are the
  number, the identifier, the parent, the expiry and the status.
\<close>

definition checkLocalAuth :: "'d query_engine \<Rightarrow> int \<Rightarrow> string \<Rightarrow> 'd \<Rightarrow> bool \<times> 'd" where
  "checkLocalAuth e now idTag d =
     (if idTag = [] then (False, d)
      else (case query_exec e list_find [VText (to_cstr idTag)] d of
              (True, Some row, d1) \<Rightarrow>
                (\<not> isNull row 3 \<and> getInt64 e row 3 > now \<and> getUInt32 e row 4 = word_of_int (status_int AuthorizationStatus.Accepted), d1)
            | (_, _, d1) \<Rightarrow> (False, d1)))"

section \<open>The messages about the local list\<close>

datatype list_reply = NoReply | ReplyError string string string | ReplyStatus string UpdateStatus | ReplyVersion string int

record 'd local_list =
  ll_version :: int
  ll_db :: 'd

definition list_enabled :: "rjson option \<Rightarrow> bool" where
  "list_enabled cfg = (case cfg of None \<Rightarrow> False | Some c \<Rightarrow> (case FindMember c ''LocalAuthListEnabled'' of Some (RBool b) \<Rightarrow> b | _ \<Rightarrow> False))"

definition getVersionCallHandler :: "bool \<Rightarrow> RegistrationStatus \<Rightarrow> rjson option \<Rightarrow> rjson \<Rightarrow> 'd local_list \<Rightarrow> list_reply outcome" where
  "getVersionCallHandler a reg cfg req s =
     (if reg \<noteq> RegistrationStatus.Accepted then Value NoReply
      else bind_outcome (elem_at a req 1) (\<lambda>v. bind_outcome (GetString a v) (\<lambda>uid.
        if reg = RegistrationStatus.Rejected then Value (ReplyError uid ''GenericError'' ''Charge point is not connected'')
        else if list_enabled cfg then Value (ReplyVersion uid (sint (word_of_int (ll_version s) :: int32)))
        else Value (ReplyError uid ''GenericError'' ''Charge point is not connected''))))"

definition need_member :: "bool \<Rightarrow> rjson \<Rightarrow> string \<Rightarrow> rjson outcome" where
  "need_member a v k = (case FindMember v k of Some x \<Rightarrow> Value x | None \<Rightarrow> assert_failed a)"

text \<open>The type of the update: full or not; \<open>None\<close> if the text is neither.\<close>

definition update_type :: "rjson \<Rightarrow> bool option" where
  "update_type v = (case v of RString s \<Rightarrow> if to_cstr s = ''Differential'' then Some False else if to_cstr s = ''Full'' then Some True else None
     | _ \<Rightarrow> Some False)"

text \<open>
  The update itself: the table is changed, then the version is stored in the configuration (\<open>stored\<close>) and
  in the object.
\<close>

definition apply_update ::
  "bool \<Rightarrow> 'd query_engine \<Rightarrow> 'm time_lib \<Rightarrow> rjson option \<Rightarrow> bool \<Rightarrow> bool \<Rightarrow> bool \<Rightarrow> string \<Rightarrow> bool \<Rightarrow> int \<Rightarrow> rjson \<Rightarrow> 'd local_list \<Rightarrow>
   (list_reply \<times> 'd local_list) outcome" where
  "apply_update a e lib limit prepared ready stored uid isFull listVersion datas s =
     bind_outcome (if isFull then performFullUpdate a e lib limit prepared ready datas (ll_db s) else performPartialUpdate a e lib datas (ll_db s))
       (\<lambda>(ok, d).
         let s1 = s\<lparr>ll_db := d\<rparr>
         in if \<not> ok then Value (ReplyStatus uid UpdateStatus.Failed, s1)
            else if \<not> stored then Value (ReplyStatus uid UpdateStatus.Failed, s1)
            else Value (ReplyStatus uid UpdateStatus.Accepted, s1\<lparr>ll_version := listVersion\<rparr>))"

text \<open>The part of the handler from the comparison of the versions on.\<close>

definition process_typed ::
  "bool \<Rightarrow> 'd query_engine \<Rightarrow> 'm time_lib \<Rightarrow> rjson option \<Rightarrow> bool \<Rightarrow> bool \<Rightarrow> bool \<Rightarrow> string \<Rightarrow> rjson \<Rightarrow> int \<Rightarrow> bool \<Rightarrow> 'd local_list \<Rightarrow>
   (list_reply \<times> 'd local_list) outcome" where
  "process_typed a e lib limit prepared ready stored uid payload listVersion isFull s =
     (if \<not> isFull \<and> listVersion \<le> ll_version s then Value (ReplyStatus uid UpdateStatus.VersionMismatch, s)
      else (case FindMember payload ''localAuthorizationList'' of
              None \<Rightarrow> apply_update a e lib limit prepared ready stored uid isFull listVersion (RArray []) s
            | Some l \<Rightarrow>
                if IsArray l then apply_update a e lib limit prepared ready stored uid isFull listVersion l s
                else Value (ReplyError uid ''FormatViolation'' ''localAuthorizationList must be an array'', s)))"

definition list_version :: "rjson \<Rightarrow> int" where
  "list_version lv = (case lv of RInt i \<Rightarrow> if IsInt lv then i else - 1 | _ \<Rightarrow> - 1)"

definition process_list ::
  "bool \<Rightarrow> 'd query_engine \<Rightarrow> 'm time_lib \<Rightarrow> rjson option \<Rightarrow> rjson option \<Rightarrow> bool \<Rightarrow> bool \<Rightarrow> bool \<Rightarrow> string \<Rightarrow> rjson \<Rightarrow> 'd local_list \<Rightarrow>
   (list_reply \<times> 'd local_list) outcome" where
  "process_list a e lib cfg limit prepared ready stored uid payload s =
     (if \<not> list_enabled cfg then Value (ReplyError uid ''NotImplemented'' ''LocalAuthListEnabled is not enabled'', s)
      else bind_outcome (need_member a payload ''listVersion'') (\<lambda>lv.
        if list_version lv < 0 then Value (ReplyError uid ''GenericError'' ''listVersion < 0 is invalid'', s)
        else bind_outcome (need_member a payload ''updateType'') (\<lambda>ut.
          case update_type ut of
            None \<Rightarrow> Value (ReplyError uid ''InvalidParams'' ''Invalid updateType'', s)
          | Some isFull \<Rightarrow> process_typed a e lib limit prepared ready stored uid payload (list_version lv) isFull s)))"

definition sendListCallHandler ::
  "bool \<Rightarrow> 'd query_engine \<Rightarrow> 'm time_lib \<Rightarrow> RegistrationStatus \<Rightarrow> rjson option \<Rightarrow> rjson option \<Rightarrow> bool \<Rightarrow> bool \<Rightarrow> bool \<Rightarrow> rjson \<Rightarrow>
   'd local_list \<Rightarrow> (list_reply \<times> 'd local_list) outcome" where
  "sendListCallHandler a e lib reg cfg limit prepared ready stored req s =
     (if reg \<noteq> RegistrationStatus.Accepted then Value (NoReply, s)
      else bind_outcome (elem_at a req 1) (\<lambda>v. bind_outcome (GetString a v) (\<lambda>uid. bind_outcome (elem_at a req 3) (\<lambda>payload.
        if reg = RegistrationStatus.Rejected then Value (ReplyError uid ''GenericError'' ''Charge point is not connected'', s)
        else process_list a e lib cfg limit prepared ready stored uid payload s))))"

section \<open>What the engine does with the table of the local list\<close>

text \<open>
  An identifier occurs at most once: inserting it again violates the constraint and fails. Integers that are
  compared with the identifier are compared as text; the expiry and the status have integer affinity.
\<close>

definition list_engine :: "'d query_engine \<Rightarrow> ('d \<Rightarrow> auth_row list) \<Rightarrow> bool" where
  "list_engine e rows \<longleftrightarrow>
     (\<forall>d. runs_to e rows list_clear [] d Sql_Done []) \<and>
     (\<forall>d t p x s. if find_row t (rows d) = None
        then runs_to e rows list_insert [VText t, VText p, VInt x, VInt s] d Sql_Done (rows d @ [make_row t (VText p) (VInt x) (VInt s)])
        else runs_to e rows list_insert [VText t, VText p, VInt x, VInt s] d Sql_Fail (rows d)) \<and>
     (\<forall>d t p x s. runs_to e rows list_update [VText p, x, s, t] d Sql_Done
        (update_rows t (\<lambda>r. make_row (row_tag r) (VText p) (int_affinity e x) (int_affinity e s)) (rows d)))"

definition row_of :: "auth_record \<Rightarrow> auth_row" where
  "row_of r = make_row (to_cstr (ar_idTag r)) (VText (to_cstr (ar_parentIdTag r))) (VInt (sint (ar_expiryDate r))) (VInt (status_int (ar_status r)))"

lemma row_tag_row_of [simp]: "row_tag (row_of r) = to_cstr (ar_idTag r)"
  by (simp add: row_of_def make_row_def)

lemma exec_done:
  assumes "runs_to e rows sql vs d Sql_Done rs" "query_exec e sql vs d = (ok, row, d')"
  shows "rows d' = (if ok then rs else rows d)"
  using runs_to_exec [OF assms] by (auto split: if_splits option.splits)

lemma insert_records_rows:
  assumes e: "list_engine e rows"
  shows "insert_records e rs d = (True, d') \<Longrightarrow> distinct (map row_tag (rows d)) \<Longrightarrow>
    rows d' = rows d @ map row_of rs \<and> distinct (map row_tag (rows d'))"
proof (induction rs arbitrary: d)
  case (Cons r rs)
  let ?vs = "[VText (to_cstr (ar_idTag r)), VText (to_cstr (ar_parentIdTag r)), VInt (sint (ar_expiryDate r)), VInt (status_int (ar_status r))]"
  obtain row d1 where q: "query_exec e list_insert ?vs d = (True, row, d1)" and rest: "insert_records e rs d1 = (True, d')"
    using Cons.prems(1) by (auto split: prod.splits if_splits)
  have run: "if find_row (to_cstr (ar_idTag r)) (rows d) = None then runs_to e rows list_insert ?vs d Sql_Done (rows d @ [row_of r])
      else runs_to e rows list_insert ?vs d Sql_Fail (rows d)"
    using e by (simp add: list_engine_def row_of_def)
  have new: "find_row (to_cstr (ar_idTag r)) (rows d) = None"
  proof (rule ccontr)
    assume "find_row (to_cstr (ar_idTag r)) (rows d) \<noteq> None"
    then have "runs_to e rows list_insert ?vs d Sql_Fail (rows d)" using run by simp
    then show False using q by (auto simp: runs_to_def query_exec_def split: prod.splits sql_rc.splits)
  qed
  then have "rows d1 = rows d @ [row_of r]"
    using run exec_done [OF _ q, of rows] by simp
  moreover have "to_cstr (ar_idTag r) \<notin> row_tag ` set (rows d)"
    using new by (simp add: find_row_None)
  ultimately have d1: "rows d1 = rows d @ [row_of r]" and "distinct (map row_tag (rows d1))"
    using Cons.prems(2) by simp_all
  from Cons.IH [OF rest this(2)] have "rows d' = rows d1 @ map row_of rs" and dist: "distinct (map row_tag (rows d'))"
    by blast+
  then have "rows d' = rows d @ map row_of (r # rs)"
    by (simp add: d1)
  with dist show ?case by blast
qed simp

text \<open>
  A full update that succeeds replaces the local list: afterwards the table holds exactly the entries of the message
  that name an identifier, in their order and each identifier once, and not more than the configured number.
\<close>

theorem full_update_replaces_list:
  assumes "list_engine e rows" "performFullUpdate a e lib (Some (RInt n)) True True (RArray vs) d = Value (True, d')" "IsUint (RInt n)"
  shows "\<exists>records. read_list_entries a (read_full lib) vs = Value records \<and> rows d' = map row_of records \<and>
    distinct (map (\<lambda>r. to_cstr (ar_idTag r)) records) \<and> length vs \<le> nat n"
proof -
  have len: "\<not> length vs > nat n"
    using assms(2,3) by (auto simp: performFullUpdate_def Let_def)
  then obtain records where rec: "read_list_entries a (read_full lib) vs = Value records"
    using assms(2,3) by (cases "read_list_entries a (read_full lib) vs") (auto simp: performFullUpdate_def Let_def)
  obtain row d1 where q: "query_exec e list_clear [] d = (True, row, d1)" and ins: "insert_records e records d1 = (True, d')"
    using assms(2,3) len rec by (auto simp: performFullUpdate_def Let_def split: prod.splits if_splits)
  have "rows d1 = []"
    using exec_done [OF _ q, of rows "[]"] assms(1) by (simp add: list_engine_def)
  then show ?thesis
    using insert_records_rows [OF assms(1) ins] rec len by (auto simp: comp_def)
qed

text \<open>The numbers of the six statuses, as text.\<close>

definition status_texts :: "string list" where
  "status_texts = [''0'', ''1'', ''2'', ''3'', ''4'', ''5'']"

lemma status_text: "text_of (VInt (status_int s)) = Some t \<Longrightarrow> t \<in> set status_texts"
  by (cases s)
     (auto simp: status_int_def text_of_def status_texts_def show_int_def show_nat.simps digit_char_def char_of_def bit_0)

lemma update_rows_miss:
  assumes "\<And>t. text_of v = Some t \<Longrightarrow> t \<in> set ts" "\<And>r. row_tag (f r) = row_tag r"
  shows "map row_tag (update_rows v f rs) = map row_tag rs"
    "filter (\<lambda>r. row_tag r \<notin> set ts) (update_rows v f rs) = filter (\<lambda>r. row_tag r \<notin> set ts) rs"
  using assms by (induction rs) (auto simp: update_rows_def)

lemma update_records_rows:
  assumes e: "list_engine e rows"
  shows "update_records e rs d = (ok, d') \<Longrightarrow>
    map row_tag (rows d') = map row_tag (rows d) \<and>
    filter (\<lambda>r. row_tag r \<notin> set status_texts) (rows d') = filter (\<lambda>r. row_tag r \<notin> set status_texts) (rows d)"
proof (induction rs arbitrary: d)
  case (Cons r rs)
  let ?t = "VInt (status_int (ar_status r))"
  let ?vs = "[VText (to_cstr (ar_idTag r)), VText (to_cstr (ar_parentIdTag r)), VInt (sint (ar_expiryDate r)), ?t]"
  let ?f = "\<lambda>q. make_row (row_tag q) (VText (to_cstr (ar_idTag r))) (int_affinity e (VText (to_cstr (ar_parentIdTag r)))) (int_affinity e (VInt (sint (ar_expiryDate r))))"
  obtain k row d1 where q: "query_exec e list_update ?vs d = (k, row, d1)"
    by (cases "query_exec e list_update ?vs d")
  have "runs_to e rows list_update ?vs d Sql_Done (update_rows ?t ?f (rows d))"
    using e by (simp add: list_engine_def)
  then have "rows d1 = (if k then update_rows ?t ?f (rows d) else rows d)"
    using q by (rule exec_done)
  moreover have "row_tag (?f q) = row_tag q" for q
    by (simp add: make_row_def)
  note miss = update_rows_miss [where v = ?t and ts = status_texts and f = ?f, OF status_text this, of "\<lambda>_. ar_status r" "rows d"]
  ultimately show ?case
    using Cons q miss by (auto split: if_splits)
qed simp

text \<open>
  A differential update changes nothing that it is meant to change. Whatever the message says, no entry is added or removed, and only
  entries whose identifier is the number of a status can change: the status is bound where the statement expects the identifier.
\<close>

theorem differential_update_misses:
  assumes "list_engine e rows" "performPartialUpdate a e lib datas d = Value (ok, d')"
  shows "map row_tag (rows d') = map row_tag (rows d) \<and>
    filter (\<lambda>r. row_tag r \<notin> set status_texts) (rows d') = filter (\<lambda>r. row_tag r \<notin> set status_texts) (rows d)"
proof (cases datas)
  case (RArray vs)
  then obtain records where "update_records e records d = (ok, d')"
    using assms(2) by (cases "read_list_entries a (read_partial lib) vs") (auto simp: performPartialUpdate_def)
  then show ?thesis by (rule update_records_rows [OF assms(1)])
qed (use assms(2) in \<open>auto simp: performPartialUpdate_def\<close>)

text \<open>An engine for the table of the local list, for the examples.\<close>

definition list_run2 :: "string \<Rightarrow> bindings \<Rightarrow> auth_row list \<Rightarrow> sql_rc \<times> auth_row list" where
  "list_run2 sql b rs =
     (if sql = list_clear then (Sql_Done, [])
      else if sql = list_insert
      then (case b 1 of VText t \<Rightarrow> (if find_row t rs = None then (Sql_Done, rs @ [make_row t (b 2) (b 3) (b 4)]) else (Sql_Fail, rs))
            | _ \<Rightarrow> (Sql_Fail, rs))
      else if sql = list_update then (Sql_Done, update_rows (b 4) (\<lambda>r. make_row (row_tag r) (b 1) (b 2) (b 3)) rs)
      else (Sql_Fail, rs))"

definition demo_list_engine :: "auth_row list query_engine" where
  "demo_list_engine = \<lparr>sql_run = list_run2, sql_int = (\<lambda>_. 0), int_affinity = (\<lambda>v. v)\<rparr>"

definition demo_time :: "unit time_lib" where
  "demo_time = \<lparr>get_time = (\<lambda>_ _. None), mk_time = (\<lambda>_. (0, 0, 0))\<rparr>"

lemma list_sql_distinct: "list_insert \<noteq> list_clear" "list_update \<noteq> list_clear" "list_update \<noteq> list_insert"
  by (simp_all add: list_insert_def list_clear_def list_update_def)

lemma demo_list_engine_ok: "list_engine demo_list_engine (\<lambda>rs. rs)"
  unfolding list_engine_def
  by (auto simp: runs_to_def demo_list_engine_def list_run2_def binds_def list_sql_distinct split: option.split prod.split)

definition demo_entries :: "rjson list" where
  "demo_entries = [RObject [(''idTag'', RString ''A''), (''idTagInfo'', RObject [(''status'', RString ''Accepted'')])], RObject [(''idTag'', RString ''B'')]]"

lemma demo_full:
  "performFullUpdate True demo_list_engine demo_time (Some (RInt 5)) True True (RArray demo_entries) [] =
    Value (True, [make_row ''A'' (VText []) (VInt 0) (VInt 0), make_row ''B'' (VText []) (VInt 0) (VInt 3)])"
  by (simp add: performFullUpdate_def demo_entries_def IsUint_def IsObject_def read_full_def string_member_def FindMember_def to_cstr_def
      read_rest_def read_status_def toEnum_default_def table_map_def authorizationStatusMap_def query_exec_def demo_list_engine_def list_run2_def
      list_sql_distinct binds_def new_record_def find_row_def status_int_def make_row_def Let_def)

theorem full_update_replaces_list_witness:
  "distinct (map row_tag [make_row ''A'' (VText []) (VInt 0) (VInt 0), make_row ''B'' (VText []) (VInt 0) (VInt 3)]) \<and> length demo_entries \<le> 5"
  using full_update_replaces_list [OF demo_list_engine_ok demo_full] by (auto simp: IsUint_def make_row_def)

theorem differential_update_misses_witness:
  "\<exists>d'. performPartialUpdate True demo_list_engine demo_time (RArray demo_entries) [make_row ''A'' (VText []) (VInt 0) (VInt 1)] = Value (True, d') \<and>
     d' = [make_row ''A'' (VText []) (VInt 0) (VInt 1)]"
proof -
  let ?d = "[make_row ''A'' (VText []) (VInt 0) (VInt 1)]"
  obtain d' where p: "performPartialUpdate True demo_list_engine demo_time (RArray demo_entries) ?d = Value (True, d')"
    by (simp add: performPartialUpdate_def demo_entries_def IsObject_def read_partial_def string_member_def FindMember_def to_cstr_def
        query_exec_def demo_list_engine_def list_run2_def list_sql_distinct Let_def)
  have m: "map row_tag d' = [''A'']" "filter (\<lambda>r. row_tag r \<notin> set status_texts) d' = filter (\<lambda>r. row_tag r \<notin> set status_texts) ?d"
    using differential_update_misses [OF demo_list_engine_ok p] by (simp_all add: make_row_def)
  then obtain r where "d' = [r]" "row_tag r = ''A''" by auto
  then show ?thesis
    using p m(2) by (simp add: status_texts_def make_row_def)
qed

text \<open>What each answer says about the version.\<close>

definition reply_ok :: "rjson \<Rightarrow> 'd local_list \<Rightarrow> list_reply \<Rightarrow> 'd local_list \<Rightarrow> bool" where
  "reply_ok payload s reply s' =
     (case reply of
        ReplyStatus uid st \<Rightarrow>
          if st = UpdateStatus.Accepted
          then (case (FindMember payload ''listVersion'', FindMember payload ''updateType'') of
                  (Some (RInt v), Some ut) \<Rightarrow> ll_version s' = v \<and> 0 \<le> v \<and> (v > ll_version s \<or> update_type ut = Some True)
                | _ \<Rightarrow> False)
          else if st = UpdateStatus.VersionMismatch then s' = s else ll_version s' = ll_version s
      | _ \<Rightarrow> s' = s)"

lemma apply_update_reply:
  assumes "apply_update a e lib limit prepared ready stored uid isFull lv l s = Value (reply, s')"
    "FindMember payload ''listVersion'' = Some (RInt lv)" "0 \<le> lv" "FindMember payload ''updateType'' = Some ut"
    "isFull \<or> lv > ll_version s" "update_type ut = Some isFull"
  shows "reply_ok payload s reply s'"
  using assms by (auto simp: apply_update_def bind_Value Let_def reply_ok_def split: if_splits)

lemma process_list_reply:
  assumes "process_list a e lib cfg limit prepared ready stored uid payload s = Value (reply, s')"
  shows "reply_ok payload s reply s'"
proof -
  have need: "need_member a p k = Value x \<longleftrightarrow> FindMember p k = Some x" for p k x
    by (simp add: need_member_def assert_failed_def split: option.split)
  consider (early) "s' = s" "\<And>uid st. reply \<noteq> ReplyStatus uid st"
    | (typed) lv ut isFull where "FindMember payload ''listVersion'' = Some lv" "0 \<le> list_version lv" "FindMember payload ''updateType'' = Some ut"
      "update_type ut = Some isFull" "process_typed a e lib limit prepared ready stored uid payload (list_version lv) isFull s = Value (reply, s')"
    using assms by (auto simp: process_list_def bind_Value need not_less split: if_splits option.splits)
  then show ?thesis
  proof cases
    case early
    then show ?thesis by (cases reply) (auto simp: reply_ok_def)
  next
    case typed
    then obtain i where "lv = RInt i" "list_version lv = i"
      by (cases lv) (auto simp: list_version_def split: if_splits)
    then have lv: "FindMember payload ''listVersion'' = Some (RInt i)" "0 \<le> i"
      and t: "process_typed a e lib limit prepared ready stored uid payload i isFull s = Value (reply, s')"
      using typed by simp_all
    have early: "reply_ok payload s (ReplyStatus uid UpdateStatus.VersionMismatch) s" "reply_ok payload s (ReplyError uid c d) s" for c d
      by (simp_all add: reply_ok_def)
    show ?thesis
    proof (cases "\<exists>l. apply_update a e lib limit prepared ready stored uid isFull i l s = Value (reply, s') \<and> (isFull \<or> i > ll_version s)")
      case True
      then show ?thesis using apply_update_reply [OF _ lv typed(3) _ typed(4)] by blast
    next
      case False
      then show ?thesis
        using t early by (auto simp: process_typed_def not_le split: if_splits option.splits)
    qed
  qed
qed

text \<open>
  The version of the local list. The handler answers that an update was accepted only after it has taken over the version of
  the message, which is newer than the old one unless the update is a full one; with every other answer the version stays as it is, and
  a differential update that is not newer changes nothing at all.
\<close>

theorem local_list_version:
  assumes "sendListCallHandler a e lib reg cfg limit prepared ready stored req s = Value (reply, s')" "elem_at a req 3 = Value payload"
  shows "case reply of
      ReplyStatus uid st \<Rightarrow>
        if st = UpdateStatus.Accepted
        then (case (FindMember payload ''listVersion'', FindMember payload ''updateType'') of
                (Some (RInt v), Some ut) \<Rightarrow> ll_version s' = v \<and> 0 \<le> v \<and> (v > ll_version s \<or> update_type ut = Some True)
              | _ \<Rightarrow> False)
        else if st = UpdateStatus.VersionMismatch then s' = s else ll_version s' = ll_version s
    | _ \<Rightarrow> s' = s"
proof (cases "reg = RegistrationStatus.Accepted")
  case True
  then have "\<exists>uid. process_list a e lib cfg limit prepared ready stored uid payload s = Value (reply, s')"
    using assms by (auto simp: sendListCallHandler_def bind_Value)
  then show ?thesis
    using process_list_reply unfolding reply_ok_def by blast
qed (use assms in \<open>auto simp: sendListCallHandler_def\<close>)

definition demo_request :: rjson where
  "demo_request = RArray [RInt 2, RString ''u'', RString ''SendLocalList'',
     RObject [(''listVersion'', RInt 4), (''updateType'', RString ''Full''), (''localAuthorizationList'', RArray demo_entries)]]"

theorem local_list_version_witness:
  "\<exists>s'. sendListCallHandler True demo_list_engine demo_time RegistrationStatus.Accepted (Some (RObject [(''LocalAuthListEnabled'', RBool True)]))
     (Some (RInt 5)) True True True demo_request \<lparr>ll_version = 9, ll_db = []\<rparr> = Value (ReplyStatus ''u'' UpdateStatus.Accepted, s') \<and> ll_version s' = 4"
proof -
  let ?s' = "\<lparr>ll_version = 4, ll_db = [make_row ''A'' (VText []) (VInt 0) (VInt 0), make_row ''B'' (VText []) (VInt 0) (VInt 3)]\<rparr>"
  have h: "sendListCallHandler True demo_list_engine demo_time RegistrationStatus.Accepted (Some (RObject [(''LocalAuthListEnabled'', RBool True)]))
     (Some (RInt 5)) True True True demo_request \<lparr>ll_version = 9, ll_db = []\<rparr> = Value (ReplyStatus ''u'' UpdateStatus.Accepted, ?s')"
    by (simp add: sendListCallHandler_def process_list_def process_typed_def apply_update_def demo_request_def json_simps to_cstr_def list_enabled_def
        need_member_def list_version_def update_type_def demo_full Let_def)
  have "elem_at True demo_request 3 = Value (RObject [(''listVersion'', RInt 4), (''updateType'', RString ''Full''), (''localAuthorizationList'', RArray demo_entries)])"
    by (simp add: demo_request_def elem_at_def)
  from local_list_version [OF h this] show ?thesis
    using h by (simp add: FindMember_def)
qed

end
