(* ===== verification/Thread_Pool.thy ===== *)
theory Thread_Pool
  imports Prelude
begin

text \<open>
  The thread pool of the charge point (\<^verbatim>\<open>src/src/ocpp/tool/threadpool/ThreadPool.h\<close>).
  \<^item> A task is a value; running it is the work of the worker that took it, and a task is taken to return.
  \<^item> What a thread does with \<^verbatim>\<open>queue_mutex\<close> held is one step. \<^verbatim>\<open>notify_one\<close> comes after the mutex has been
    released, so a notification that is still to be made is part of the state; it wakes one of the workers
    that sleep, whichever, and is lost when none does.
  \<^item> \<open>tw_history\<close> and \<open>tw_taken\<close> record what was ever enqueued and taken; no operation reads them.
\<close>

section \<open>State and operations\<close>

datatype 'a worker = Ready | Asleep | Running 'a | Exited

record 'a thread_pool =
  tw_tasks :: "'a list"
  tw_stop :: bool
  tw_workers :: "'a worker list"
  tw_notify :: nat
  tw_notify_all :: bool
  tw_history :: "'a list"
  tw_taken :: "'a list"
  tw_done :: "'a list"

definition ThreadPool :: "nat \<Rightarrow> 'a thread_pool" where
  "ThreadPool threads = \<lparr>tw_tasks = [], tw_stop = False, tw_workers = replicate threads Ready, tw_notify = 0,
     tw_notify_all = False, tw_history = [], tw_taken = [], tw_done = []\<rparr>"

text \<open>\<^verbatim>\<open>enqueue\<close>; \<^const>\<open>None\<close> is the exception on a stopped pool.\<close>

definition pool_enqueue :: "'a \<Rightarrow> 'a thread_pool \<Rightarrow> 'a thread_pool option" where
  "pool_enqueue f s =
     (if tw_stop s then None
      else Some (s\<lparr>tw_tasks := tw_tasks s @ [f], tw_notify := tw_notify s + 1, tw_history := tw_history s @ [f]\<rparr>))"

text \<open>A worker with the mutex: the wait predicate, the test for the end, and taking a task.\<close>

definition worker_check :: "nat \<Rightarrow> 'a thread_pool \<Rightarrow> 'a thread_pool" where
  "worker_check i s =
     (if tw_stop s \<or> tw_tasks s \<noteq> []
      then (case tw_tasks s of
              [] \<Rightarrow> s\<lparr>tw_workers := (tw_workers s)[i := Exited]\<rparr>
            | t # ts \<Rightarrow> s\<lparr>tw_tasks := ts, tw_workers := (tw_workers s)[i := Running t], tw_taken := tw_taken s @ [t]\<rparr>)
      else s\<lparr>tw_workers := (tw_workers s)[i := Asleep]\<rparr>)"

definition worker_finish :: "nat \<Rightarrow> 'a \<Rightarrow> 'a thread_pool \<Rightarrow> 'a thread_pool" where
  "worker_finish i t s = s\<lparr>tw_workers := (tw_workers s)[i := Ready], tw_done := tw_done s @ [t]\<rparr>"

definition worker_wake :: "nat \<Rightarrow> 'a thread_pool \<Rightarrow> 'a thread_pool" where
  "worker_wake i s = s\<lparr>tw_workers := (tw_workers s)[i := Ready]\<rparr>"

text \<open>The destructor: the flag, the notification of all workers; it then waits until each of them has left.\<close>

definition pool_stop :: "'a thread_pool \<Rightarrow> 'a thread_pool" where
  "pool_stop s = s\<lparr>tw_stop := True, tw_notify_all := True\<rparr>"

definition wake_all :: "'a thread_pool \<Rightarrow> 'a thread_pool" where
  "wake_all s = s\<lparr>tw_notify_all := False, tw_workers := map (\<lambda>w. if w = Asleep then Ready else w) (tw_workers s)\<rparr>"

definition pool_joined :: "'a thread_pool \<Rightarrow> bool" where
  "pool_joined s \<longleftrightarrow> \<not> tw_notify_all s \<and> tw_stop s \<and> list_all (\<lambda>w. w = Exited) (tw_workers s)"

section \<open>Steps\<close>

inductive worker_step :: "'a thread_pool \<Rightarrow> 'a thread_pool \<Rightarrow> bool" where
  check: "\<lbrakk>i < length (tw_workers s); tw_workers s ! i = Ready\<rbrakk> \<Longrightarrow> worker_step s (worker_check i s)"
| finish: "\<lbrakk>i < length (tw_workers s); tw_workers s ! i = Running t\<rbrakk> \<Longrightarrow> worker_step s (worker_finish i t s)"

inductive threads_step :: "'a thread_pool \<Rightarrow> 'a thread_pool \<Rightarrow> bool" where
  work: "worker_step s s' \<Longrightarrow> threads_step s s'"
| enqueue: "pool_enqueue f s = Some s' \<Longrightarrow> threads_step s s'"
| notify: "\<lbrakk>tw_notify s = Suc n; i < length (tw_workers s); tw_workers s ! i = Asleep\<rbrakk> \<Longrightarrow>
    threads_step s (worker_wake i (s\<lparr>tw_notify := n\<rparr>))"
| unheard: "\<lbrakk>tw_notify s = Suc n; Asleep \<notin> set (tw_workers s)\<rbrakk> \<Longrightarrow> threads_step s (s\<lparr>tw_notify := n\<rparr>)"
| spurious: "\<lbrakk>i < length (tw_workers s); tw_workers s ! i = Asleep\<rbrakk> \<Longrightarrow> threads_step s (worker_wake i s)"
| stop: "\<not> tw_stop s \<Longrightarrow> threads_step s (pool_stop s)"
| all: "tw_notify_all s \<Longrightarrow> threads_step s (wake_all s)"

inductive_cases worker_stepE: "worker_step s s'"

inductive threads_reach :: "nat \<Rightarrow> 'a thread_pool \<Rightarrow> bool" for threads where
  init: "threads_reach threads (ThreadPool threads)"
| step: "\<lbrakk>threads_reach threads s; threads_step s s'\<rbrakk> \<Longrightarrow> threads_reach threads s'"

lemmas pool_op_defs = worker_check_def worker_finish_def worker_wake_def pool_stop_def wake_all_def pool_enqueue_def

section \<open>Invariant\<close>

text \<open>The tasks that workers hold.\<close>

fun running_of :: "'a worker \<Rightarrow> 'a multiset" where
  "running_of (Running t) = {#t#}"
| "running_of Ready = {#}"
| "running_of Asleep = {#}"
| "running_of Exited = {#}"

definition running_tasks :: "'a thread_pool \<Rightarrow> 'a multiset" where
  "running_tasks s = (\<Sum>w\<leftarrow>tw_workers s. running_of w)"

definition tasks_inv :: "'a thread_pool \<Rightarrow> bool" where
  "tasks_inv s \<longleftrightarrow> tw_taken s @ tw_tasks s = tw_history s \<and> mset (tw_taken s) = running_tasks s + mset (tw_done s)"

text \<open>A worker sleeps while tasks wait only if another one is awake or a notification is on its way.\<close>

fun awake :: "'a worker \<Rightarrow> bool" where
  "awake Ready = True"
| "awake (Running t) = True"
| "awake Asleep = False"
| "awake Exited = False"

definition awake_inv :: "'a thread_pool \<Rightarrow> bool" where
  "awake_inv s \<longleftrightarrow>
     (tw_tasks s \<noteq> [] \<longrightarrow> 0 < tw_notify s \<or> list_ex awake (tw_workers s)) \<and>
     (Exited \<in> set (tw_workers s) \<longrightarrow> tw_stop s \<and> tw_tasks s = []) \<and>
     (tw_stop s \<longrightarrow> Asleep \<in> set (tw_workers s) \<longrightarrow> tw_notify_all s) \<and>
     (tw_notify_all s \<longrightarrow> tw_stop s)"

lemma running_tasks_update:
  assumes "i < length ws" "ws ! i = w" "running_of w = {#}"
  shows "(\<Sum>w\<leftarrow>ws[i := v]. running_of w) = (\<Sum>w\<leftarrow>ws. running_of w) + running_of v"
  using sum_list_update [OF assms(1), of running_of v] assms by simp

lemma running_tasks_finish:
  assumes "i < length ws" "ws ! i = Running t" "running_of v = {#}"
  shows "(\<Sum>w\<leftarrow>ws. running_of w) = (\<Sum>w\<leftarrow>ws[i := v]. running_of w) + {#t#}"
  using sum_list_update [OF assms(1), of running_of v] assms by simp

lemma running_wake_all:
  "sum_list (map (running_of \<circ> (\<lambda>w. if w = Asleep then Ready else w)) ws) = (\<Sum>w\<leftarrow>ws. running_of w)"
  by (induction ws) auto

lemma tasks_inv_step:
  assumes "threads_step s s'" "tasks_inv s"
  shows "tasks_inv s'"
  using assms
proof (cases rule: threads_step.cases)
  case work
  then show ?thesis
  proof cases
    case (check i)
    then show ?thesis
      using assms(2)
      by (auto simp: tasks_inv_def running_tasks_def worker_check_def running_tasks_update split: list.splits)
  next
    case (finish i t)
    then show ?thesis
      using assms(2) running_tasks_finish [OF finish(2,3), of Ready]
      by (simp add: tasks_inv_def running_tasks_def worker_finish_def)
  qed
qed (auto simp: tasks_inv_def running_tasks_def pool_op_defs running_tasks_update  running_wake_all split: if_splits)

lemma awake_update:
  assumes "i < length ws"
  shows "awake v \<Longrightarrow> list_ex awake (ws[i := v])" "w \<in> set (ws[i := v]) \<Longrightarrow> w = v \<or> w \<in> set ws"
  using set_update_memI [OF assms, of v] set_update_subset_insert [of ws i v] by (auto simp: list_ex_iff)

lemma awake_inv_check:
  assumes "awake_inv s" "i < length (tw_workers s)" "tw_workers s ! i = Ready"
  shows "awake_inv (worker_check i s)"
proof (cases "tw_tasks s")
  case Nil
  then show ?thesis
    using assms(1) awake_update(2) [OF assms(2)] by (auto simp: awake_inv_def worker_check_def)
next
  case (Cons t ts)
  then show ?thesis
    using assms(1) awake_update [OF assms(2), where v = "Running t"] by (auto simp: awake_inv_def worker_check_def)
qed

lemma awake_inv_ready:
  assumes "awake_inv s" "i < length (tw_workers s)"
  shows "awake_inv (s\<lparr>tw_workers := (tw_workers s)[i := Ready], tw_notify := n\<rparr>)"
  using assms(1) awake_update [OF assms(2), where v = Ready] by (auto simp: awake_inv_def)

lemma awake_inv_more: "awake_inv (s\<lparr>tw_done := d\<rparr>) \<longleftrightarrow> awake_inv s"
  by (simp add: awake_inv_def)

lemma awake_if: "awake w \<or> w = Asleep \<or> w = Exited"
  by (cases w) auto

lemma worker_finish_alt: "worker_finish i t s = s\<lparr>tw_workers := (tw_workers s)[i := Ready], tw_notify := tw_notify s\<rparr>\<lparr>tw_done := tw_done s @ [t]\<rparr>"
  by (simp add: worker_finish_def)

lemma worker_wake_alt: "worker_wake i (s\<lparr>tw_notify := n\<rparr>) = s\<lparr>tw_workers := (tw_workers s)[i := Ready], tw_notify := n\<rparr>"
  by (simp add: worker_wake_def)

lemma awake_inv_step:
  assumes "threads_step s s'" "awake_inv s" "tw_workers s \<noteq> []"
  shows "awake_inv s'"
  using assms(1)
proof (cases rule: threads_step.cases)
  case work
  then show ?thesis
    by cases (use assms(2) in \<open>simp_all only: awake_inv_check worker_finish_alt awake_inv_more awake_inv_ready\<close>)
next
  case (notify n i)
  then show ?thesis
    using assms(2) by (simp only: worker_wake_alt awake_inv_ready)
next
  case (spurious i)
  then show ?thesis
    using awake_inv_ready [OF assms(2), of i "tw_notify s"] by (simp add: worker_wake_def)
next
  case (unheard n)
  obtain w where "w \<in> set (tw_workers s)"
    using assms(3) by (cases "tw_workers s") auto
  then show ?thesis
    using unheard assms(2) awake_if [of w] by (auto simp: awake_inv_def list_ex_iff)
next
  case all
  have "list_ex awake (map (\<lambda>w. if w = Asleep then Ready else w) ws)" if "list_ex awake ws" for ws :: "'a worker list"
    using that by (auto simp: list_ex_iff)
  then show ?thesis
    using all assms(2) by (auto simp: awake_inv_def wake_all_def split: if_splits)
qed (use assms(2) in \<open>auto simp: awake_inv_def pool_enqueue_def pool_stop_def split: if_splits\<close>)

lemma workers_step: "threads_step s s' \<Longrightarrow> length (tw_workers s') = length (tw_workers s)"
  by (induction rule: threads_step.induct) (auto simp: pool_op_defs elim!: worker_stepE split: if_splits list.splits)

lemma threads_reach_inv:
  assumes "threads_reach threads s"
  shows "tasks_inv s" "length (tw_workers s) = threads" "0 < threads \<Longrightarrow> awake_inv s"
  using assms
proof (induction rule: threads_reach.induct)
  case init
  have "(\<Sum>w\<leftarrow>replicate threads Ready. running_of w) = ({#} :: 'a multiset)"
    by (induction threads) auto
  then show "tasks_inv (ThreadPool threads :: 'a thread_pool)" "length (tw_workers (ThreadPool threads :: 'a thread_pool)) = threads"
    "awake_inv (ThreadPool threads :: 'a thread_pool)"
    by (auto simp: tasks_inv_def running_tasks_def ThreadPool_def awake_inv_def)
next
  case (step s s')
  then show "tasks_inv s'" "length (tw_workers s') = threads" "0 < threads \<Longrightarrow> awake_inv s'"
    using tasks_inv_step workers_step awake_inv_step by fastforce+
qed

section \<open>What the pool promises\<close>

text \<open>
  C26. The pool runs every task once, in order. In every reachable state the tasks that were ever accepted are, in the order in which
  they were accepted, those that a worker has taken followed by those that wait, and each task taken is being run by exactly
  one worker or has been run exactly once. While a task waits and no notification is on its way, some worker is awake.
\<close>

theorem pool_runs_tasks_once:
  assumes "threads_reach (Suc n) s"
  shows "tw_taken s @ tw_tasks s = tw_history s \<and> mset (tw_taken s) = running_tasks s + mset (tw_done s) \<and>
    (tw_tasks s = [] \<or> list_ex awake (tw_workers s) \<or> 0 < tw_notify s)"
  using threads_reach_inv [OF assms] by (auto simp: tasks_inv_def awake_inv_def)

definition demo_pool :: "nat thread_pool" where
  "demo_pool = \<lparr>tw_tasks = [8], tw_stop = False, tw_workers = [Asleep, Running 7], tw_notify = 2, tw_notify_all = False,
     tw_history = [7, 8], tw_taken = [7], tw_done = []\<rparr>"

lemma demo_pool_reach: "threads_reach 2 demo_pool"
proof -
  note t = threads_reach.step
  let ?s0 = "ThreadPool 2 :: nat thread_pool"
  have "threads_step ?s0 (worker_check 0 ?s0)"
    by (rule work, rule check) (simp_all add: ThreadPool_def)
  then have 1: "threads_reach 2 (?s0\<lparr>tw_workers := [Asleep, Ready]\<rparr>)" (is "threads_reach 2 ?s1")
    using t [OF init, of 2] by (simp add: ThreadPool_def worker_check_def numeral_2_eq_2)
  have "threads_step ?s1 (?s1\<lparr>tw_tasks := [7], tw_notify := 1, tw_history := [7]\<rparr>)" (is "threads_step _ ?s2")
    by (rule enqueue [of 7]) (simp add: pool_enqueue_def ThreadPool_def)
  from t [OF 1 this] have 2: "threads_reach 2 ?s2" .
  have "threads_step ?s2 (?s2\<lparr>tw_tasks := [7, 8], tw_notify := 2, tw_history := [7, 8]\<rparr>)" (is "threads_step _ ?s3")
    by (rule enqueue [of 8]) (simp add: pool_enqueue_def ThreadPool_def)
  from t [OF 2 this] have 3: "threads_reach 2 ?s3" .
  have "threads_step ?s3 (worker_check 1 ?s3)"
    by (rule work, rule check) simp_all
  from t [OF 3 this] show ?thesis
    by (simp add: worker_check_def demo_pool_def ThreadPool_def)
qed

theorem pool_runs_tasks_once_witness: "threads_reach (Suc 1) demo_pool \<and> list_ex awake (tw_workers demo_pool)"
proof -
  have "threads_reach (Suc 1) demo_pool"
    using demo_pool_reach by (simp add: numeral_2_eq_2)
  from pool_runs_tasks_once [OF this] this show ?thesis
    by (simp add: demo_pool_def)
qed

text \<open>What the workers of a stopped pool still have to do.\<close>

fun worker_left :: "'a worker \<Rightarrow> nat" where
  "worker_left Exited = 0"
| "worker_left (Running t) = 2"
| "worker_left Ready = 1"
| "worker_left Asleep = 1"

definition work_left :: "'a thread_pool \<Rightarrow> nat" where
  "work_left s = 2 * length (tw_tasks s) + (\<Sum>w\<leftarrow>tw_workers s. worker_left w)"

text \<open>The state of the pool between the notification of the destructor and its return.\<close>

definition draining :: "'a thread_pool \<Rightarrow> bool" where
  "draining s \<longleftrightarrow> tw_stop s \<and> \<not> tw_notify_all s \<and> tasks_inv s \<and> awake_inv s \<and> tw_workers s \<noteq> []"

lemma draining_step:
  assumes "worker_step s s'" "draining s"
  shows "draining s'" "work_left s' < work_left s" "tw_history s' = tw_history s"
proof -
  have st: "threads_step s s'"
    by (rule work) fact
  show "draining s'"
    using tasks_inv_step [OF st] awake_inv_step [OF st] workers_step [OF st] assms
    by (auto simp: draining_def worker_check_def worker_finish_def elim!: worker_stepE split: list.splits)
  show "work_left s' < work_left s"
    using assms(1)
  proof cases
    case (check i)
    then show ?thesis
      using assms(2) sum_list_update [OF check(2), of worker_left Exited]
        sum_list_update [OF check(2), of worker_left "Running (hd (tw_tasks s))"]
      by (auto simp: work_left_def worker_check_def draining_def split: list.splits)
  next
    case (finish i t)
    then show ?thesis
      using sum_list_update [OF finish(2), of worker_left Ready] by (simp add: work_left_def worker_finish_def)
  qed
  show "tw_history s' = tw_history s"
    using assms(1) by cases (auto simp: worker_check_def worker_finish_def split: list.splits)
qed

lemma draining_steps:
  assumes "(worker_step ^^ k) s s'" "draining s"
  shows "draining s' \<and> k + work_left s' \<le> work_left s \<and> tw_history s' = tw_history s"
  using assms
proof (induction k arbitrary: s')
  case (Suc k)
  then obtain s1 where "(worker_step ^^ k) s s1" "worker_step s1 s'"
    by auto
  then show ?case
    using Suc draining_step [of s1 s'] by fastforce
qed simp

lemma draining_stuck:
  assumes "draining s" "\<nexists>s'. worker_step s s'"
  shows "pool_joined s \<and> mset (tw_done s) = mset (tw_history s)"
proof -
  have "w = Exited" if "w \<in> set (tw_workers s)" for w
  proof (cases w)
    case Asleep
    then show ?thesis using assms(1) that by (auto simp: draining_def awake_inv_def)
  next
    case Ready
    then show ?thesis using assms(2) that check [of _ s] by (auto simp: in_set_conv_nth)
  next
    case (Running t)
    then show ?thesis using assms(2) that finish [of _ s t] by (auto simp: in_set_conv_nth)
  qed simp
  then have ex: "list_all (\<lambda>w. w = Exited) (tw_workers s)" "Exited \<in> set (tw_workers s)"
    using assms(1) by (auto simp: list_all_iff draining_def dest: hd_in_set) (metis hd_in_set)
  have "(\<Sum>w\<leftarrow>ws. running_of w) = {#}" if "list_all (\<lambda>w. w = Exited) ws" for ws :: "'a worker list"
    using that by (induction ws) auto
  with ex(1) have "running_tasks s = {#}"
    by (simp add: running_tasks_def)
  then show ?thesis
    using assms(1) ex by (auto simp: draining_def pool_joined_def tasks_inv_def awake_inv_def)
qed

text \<open>
  C27. A stopped pool finishes its work. Once the destructor has set the flag and made its notification, the workers
  can take only a bounded number of further steps (two for each task that waits and at most two for each worker), in whatever order, and when they
  can take none, every worker has left, so that the destructor returns, and every task ever accepted has been run.
\<close>

theorem stopped_pool_drains:
  assumes "threads_reach (Suc n) s" "tw_stop s" "\<not> tw_notify_all s" "(worker_step ^^ k) s s'"
  shows "k \<le> 2 * length (tw_tasks s) + 2 * Suc n \<and>
    (if \<exists>s''. worker_step s' s'' then \<not> pool_joined s' else pool_joined s' \<and> mset (tw_done s') = mset (tw_history s))"
proof -
  note inv = threads_reach_inv [OF assms(1)]
  have d: "draining s"
    using inv assms(2,3) by (auto simp: draining_def)
  have "(\<Sum>w\<leftarrow>ws. worker_left w) \<le> 2 * length ws" for ws :: "'a worker list"
  proof (induction ws)
    case (Cons w ws)
    then show ?case by (cases w) auto
  qed simp
  from this [of "tw_workers s"] have "work_left s \<le> 2 * length (tw_tasks s) + 2 * Suc n"
    using inv(2) by (simp add: work_left_def)
  moreover have "\<not> pool_joined s'" if "worker_step s' s''" for s''
    using that by cases (auto simp: pool_joined_def list_all_length)
  ultimately show ?thesis
    using draining_steps [OF assms(4) d] draining_stuck [of s'] by auto
qed

lemma demo_pool_drains:
  "(worker_step ^^ 5) (wake_all (pool_stop demo_pool))
     (demo_pool\<lparr>tw_tasks := [], tw_stop := True, tw_workers := [Exited, Exited], tw_taken := [7, 8], tw_done := [7, 8]\<rparr>)"
proof -
  let ?s = "\<lambda>ts ws tk d. demo_pool\<lparr>tw_tasks := ts, tw_stop := True, tw_workers := ws, tw_taken := tk, tw_done := d\<rparr>"
  have 0: "wake_all (pool_stop demo_pool) = ?s [8] [Ready, Running 7] [7] []"
    by (simp add: wake_all_def pool_stop_def demo_pool_def)
  have 1: "worker_step (?s [8] [Ready, Running 7] [7] []) (?s [8] [Ready, Ready] [7] [7])"
    using finish [of 1 "?s [8] [Ready, Running 7] [7] []" 7] by (simp add: worker_finish_def demo_pool_def)
  have 2: "worker_step (?s [8] [Ready, Ready] [7] [7]) (?s [] [Running 8, Ready] [7, 8] [7])"
    using check [of 0 "?s [8] [Ready, Ready] [7] [7]"] by (simp add: worker_check_def demo_pool_def)
  have 3: "worker_step (?s [] [Running 8, Ready] [7, 8] [7]) (?s [] [Ready, Ready] [7, 8] [7, 8])"
    using finish [of 0 "?s [] [Running 8, Ready] [7, 8] [7]" 8] by (simp add: worker_finish_def demo_pool_def)
  have 4: "worker_step (?s [] [Ready, Ready] [7, 8] [7, 8]) (?s [] [Exited, Ready] [7, 8] [7, 8])"
    using check [of 0 "?s [] [Ready, Ready] [7, 8] [7, 8]"] by (simp add: worker_check_def demo_pool_def)
  have 5: "worker_step (?s [] [Exited, Ready] [7, 8] [7, 8]) (?s [] [Exited, Exited] [7, 8] [7, 8])"
    using check [of 1 "?s [] [Exited, Ready] [7, 8] [7, 8]"] by (simp add: worker_check_def demo_pool_def)
  have r: "(worker_step ^^ Suc k) a c" if "worker_step a b" "(worker_step ^^ k) b c" for k and a b c :: "nat thread_pool"
    using that relpowp_Suc_I2 by metis
  have "(worker_step ^^ Suc (Suc (Suc (Suc (Suc 0))))) (?s [8] [Ready, Running 7] [7] []) (?s [] [Exited, Exited] [7, 8] [7, 8])"
    by (rule r [OF 1], rule r [OF 2], rule r [OF 3], rule r [OF 4], rule r [OF 5]) simp
  then show ?thesis
    by (simp only: 0 eval_nat_numeral BitM.simps One_nat_def)
qed

theorem stopped_pool_drains_witness:
  "\<exists>s'. (worker_step ^^ 5) (wake_all (pool_stop demo_pool)) s' \<and> pool_joined s' \<and> mset (tw_done s') = {#7, 8#}"
proof -
  let ?s = "demo_pool\<lparr>tw_tasks := [], tw_stop := True, tw_workers := [Exited, Exited], tw_taken := [7, 8], tw_done := [7, 8]\<rparr>"
  have 1: "threads_reach (Suc 1) (pool_stop demo_pool)"
    using threads_reach.step [OF demo_pool_reach threads_step.stop] by (simp add: demo_pool_def numeral_2_eq_2)
  have "tw_notify_all (pool_stop demo_pool)"
    by (simp add: pool_stop_def)
  with 1 have r: "threads_reach (Suc 1) (wake_all (pool_stop demo_pool))"
    using threads_reach.step threads_step.all by blast
  have "\<nexists>s''. worker_step ?s s''"
    by (auto elim!: worker_stepE simp: less_Suc_eq)
  then have "pool_joined ?s \<and> mset (tw_done ?s) = mset (tw_history (wake_all (pool_stop demo_pool)))"
    using stopped_pool_drains [OF r _ _ demo_pool_drains] by (simp add: wake_all_def pool_stop_def)
  then show ?thesis
    using demo_pool_drains by (auto simp: wake_all_def pool_stop_def demo_pool_def)
qed

end
