(* ===== verification/Db_Executor.thy ===== *)
theory Db_Executor
  imports Ocpp_Message
begin

text \<open>
  The database thread of the charge point (\<^verbatim>\<open>src/src/ocpp/tool/database/DBExecutor.h\<close>) and the class whose every
  operation it runs (\<^verbatim>\<open>DataBase.cpp\<close>).
  \<^item> A call of \<^verbatim>\<open>postAndWait\<close> puts a job into the queue and waits for its future. The jobs are numbered in the order in which they are
    put there; the futures that have a value are those of the first \<open>length (ex_results s)\<close> jobs.
  \<^item> A job maps the state of the database objects to a result and a new state. A job that calls \<^verbatim>\<open>postAndWait\<close>
    itself has the result \<open>Posts\<close>: its thread then waits for a job that only the same thread could run. That inner
    job stays in a queue which nobody reads any more, and is not represented.
  \<^item> SQLite is a parameter: each function of it that the class calls is a field of \<open>sqlite_api\<close>.
\<close>

section \<open>The executor\<close>

datatype 'v job_result = Returns 'v | Posts

type_synonym ('d, 'v) job = "'d \<Rightarrow> 'v job_result \<times> 'd"

datatype ('d, 'v) db_worker = W_Ready | W_Asleep | W_Running "('d, 'v) job" | W_Blocked | W_Exited

record ('d, 'v) executor =
  ex_tasks :: "('d, 'v) job list"
  ex_running :: bool
  ex_worker :: "('d, 'v) db_worker"
  ex_notify :: nat
  ex_state :: 'd
  ex_results :: "'v list"
  ex_posted :: "('d, 'v) job list"

definition DBExecutor :: "'d \<Rightarrow> ('d, 'v) executor" where
  "DBExecutor d = \<lparr>ex_tasks = [], ex_running = True, ex_worker = W_Ready, ex_notify = 0, ex_state = d, ex_results = [], ex_posted = []\<rparr>"

text \<open>\<^verbatim>\<open>postAndWait\<close> up to the wait. It does not look at \<^verbatim>\<open>m_running\<close>.\<close>

definition post_job :: "('d, 'v) job \<Rightarrow> ('d, 'v) executor \<Rightarrow> ('d, 'v) executor" where
  "post_job j s = s\<lparr>ex_tasks := ex_tasks s @ [j], ex_notify := ex_notify s + 1, ex_posted := ex_posted s @ [j]\<rparr>"

text \<open>The value that the call with number \<open>i\<close> returns, \<^const>\<open>None\<close> while it waits.\<close>

definition future_get :: "nat \<Rightarrow> ('d, 'v) executor \<Rightarrow> 'v option" where
  "future_get i s = (if i < length (ex_results s) then Some (ex_results s ! i) else None)"

definition executor_stop :: "('d, 'v) executor \<Rightarrow> ('d, 'v) executor" where
  "executor_stop s = s\<lparr>ex_running := False, ex_notify := ex_notify s + 1\<rparr>"

text \<open>\<^verbatim>\<open>run\<close>: the part with the mutex, and the call of the task.\<close>

definition run_check :: "('d, 'v) executor \<Rightarrow> ('d, 'v) executor" where
  "run_check s =
     (case ex_tasks s of
        [] \<Rightarrow> s\<lparr>ex_worker := (if ex_running s then W_Asleep else W_Exited)\<rparr>
      | j # js \<Rightarrow> s\<lparr>ex_tasks := js, ex_worker := W_Running j\<rparr>)"

definition run_task :: "('d, 'v) job \<Rightarrow> ('d, 'v) executor \<Rightarrow> ('d, 'v) executor" where
  "run_task j s =
     (case j (ex_state s) of
        (Returns v, d) \<Rightarrow> s\<lparr>ex_worker := W_Ready, ex_state := d, ex_results := ex_results s @ [v]\<rparr>
      | (Posts, d) \<Rightarrow> s\<lparr>ex_worker := W_Blocked, ex_state := d\<rparr>)"

inductive executor_step :: "('d, 'v) executor \<Rightarrow> ('d, 'v) executor \<Rightarrow> bool" where
  check: "ex_worker s = W_Ready \<Longrightarrow> executor_step s (run_check s)"
| task: "ex_worker s = W_Running j \<Longrightarrow> executor_step s (run_task j s)"
| notify: "ex_notify s = Suc n \<Longrightarrow>
    executor_step s (s\<lparr>ex_notify := n, ex_worker := (if ex_worker s = W_Asleep then W_Ready else ex_worker s)\<rparr>)"
| spurious: "ex_worker s = W_Asleep \<Longrightarrow> executor_step s (s\<lparr>ex_worker := W_Ready\<rparr>)"
| post: "executor_step s (post_job j s)"
| stop: "executor_step s (executor_stop s)"

inductive executor_reach :: "'d \<Rightarrow> ('d, 'v) executor \<Rightarrow> bool" for d where
  init: "executor_reach d (DBExecutor d)"
| step: "\<lbrakk>executor_reach d s; executor_step s s'\<rbrakk> \<Longrightarrow> executor_reach d s'"

section \<open>Jobs one after the other\<close>

text \<open>The abstract database object: the jobs are run in order, up to one that posts.\<close>

fun run_jobs :: "('d, 'v) job list \<Rightarrow> 'd \<Rightarrow> 'v list \<times> 'd" where
  "run_jobs [] d = ([], d)"
| "run_jobs (j # js) d =
     (case j d of
        (Returns v, d1) \<Rightarrow> (case run_jobs js d1 of (vs, d2) \<Rightarrow> (v # vs, d2))
      | (Posts, d1) \<Rightarrow> ([], d1))"

lemma run_jobs_length: "length (fst (run_jobs js d)) \<le> length js"
  by (induction js d rule: run_jobs.induct) (auto split: prod.splits job_result.splits)

lemma run_jobs_snoc:
  assumes "length (fst (run_jobs js d)) = length js"
  shows "run_jobs (js @ [j]) d =
    (case j (snd (run_jobs js d)) of
       (Returns v, d1) \<Rightarrow> (fst (run_jobs js d) @ [v], d1)
     | (Posts, d1) \<Rightarrow> (fst (run_jobs js d), d1))"
  using assms
  by (induction js d rule: run_jobs.induct) (auto split: prod.splits job_result.splits)

lemma run_jobs_append:
  "run_jobs (js @ ks) d =
    (if length (fst (run_jobs js d)) = length js
     then (fst (run_jobs js d) @ fst (run_jobs ks (snd (run_jobs js d))), snd (run_jobs ks (snd (run_jobs js d))))
     else run_jobs js d)"
  by (induction js d rule: run_jobs.induct) (auto split: prod.splits job_result.splits)

text \<open>Where the worker stands: the jobs it has begun, and those it has answered.\<close>

fun begun :: "('d, 'v) db_worker \<Rightarrow> ('d, 'v) job list" where
  "begun (W_Running j) = [j]"
| "begun _ = []"

definition executor_inv :: "'d \<Rightarrow> ('d, 'v) executor \<Rightarrow> bool" where
  "executor_inv d s \<longleftrightarrow>
     (\<exists>js. ex_posted s = js @ begun (ex_worker s) @ ex_tasks s \<and> run_jobs js d = (ex_results s, ex_state s) \<and>
        length js = (if ex_worker s = W_Blocked then length (ex_results s) + 1 else length (ex_results s))) \<and>
     (ex_worker s = W_Asleep \<longrightarrow> ex_tasks s \<noteq> [] \<or> \<not> ex_running s \<longrightarrow> 0 < ex_notify s) \<and>
     (ex_worker s = W_Exited \<longrightarrow> \<not> ex_running s)"

lemma executor_inv_task:
  assumes "executor_inv d s" "ex_worker s = W_Running j"
  shows "executor_inv d (run_task j s)"
proof -
  obtain js where js: "ex_posted s = (js @ [j]) @ ex_tasks s" "run_jobs js d = (ex_results s, ex_state s)" "length js = length (ex_results s)"
    using assms by (auto simp: executor_inv_def)
  have r: "run_jobs (js @ [j]) d = (case j (ex_state s) of (Returns v, d1) \<Rightarrow> (ex_results s @ [v], d1) | (Posts, d1) \<Rightarrow> (ex_results s, d1))"
    using js(2,3) by (subst run_jobs_snoc) (auto split: prod.split job_result.split)
  obtain r d1 where j: "j (ex_state s) = (r, d1)"
    by (cases "j (ex_state s)")
  show ?thesis
    unfolding executor_inv_def
    by (intro conjI exI [of _ "js @ [j]"]) (use js r j in \<open>auto simp: run_task_def split: job_result.split\<close>)
qed

lemma executor_inv_step:
  assumes "executor_step s s'" "executor_inv d s"
  shows "executor_inv d s'"
  using assms(1)
proof (cases rule: executor_step.cases)
  case (task j)
  then show ?thesis using executor_inv_task [OF assms(2)] by simp
qed (use assms(2) in \<open>auto simp: executor_inv_def run_check_def post_job_def executor_stop_def split: list.splits\<close>)

lemma executor_reach_inv: "executor_reach d s \<Longrightarrow> executor_inv d s"
proof (induction rule: executor_reach.induct)
  case init
  show ?case by (simp add: executor_inv_def DBExecutor_def)
next
  case (step s s')
  show ?case by (rule executor_inv_step) (fact step)+
qed

text \<open>The steps that the worker makes on its own, and what it has left to do.\<close>

inductive run_step :: "('d, 'v) executor \<Rightarrow> ('d, 'v) executor \<Rightarrow> bool" where
  run_check: "ex_worker s = W_Ready \<Longrightarrow> run_step s (run_check s)"
| run_task: "ex_worker s = W_Running j \<Longrightarrow> run_step s (run_task j s)"
| run_notify: "ex_notify s = Suc n \<Longrightarrow>
    run_step s (s\<lparr>ex_notify := n, ex_worker := (if ex_worker s = W_Asleep then W_Ready else ex_worker s)\<rparr>)"

lemma run_step_executor: "run_step s s' \<Longrightarrow> executor_step s s'"
  by (induction rule: run_step.induct) (blast intro: executor_step.intros)+

fun db_worker_left :: "('d, 'v) db_worker \<Rightarrow> nat" where
  "db_worker_left (W_Running j) = 2"
| "db_worker_left W_Ready = 1"
| "db_worker_left _ = 0"

definition jobs_left :: "('d, 'v) executor \<Rightarrow> nat" where
  "jobs_left s = 2 * length (ex_tasks s) + 2 * ex_notify s + db_worker_left (ex_worker s)"

lemma run_step_left: "run_step s s' \<Longrightarrow> jobs_left s' < jobs_left s \<and> ex_posted s' = ex_posted s \<and> ex_running s' = ex_running s"
proof (induction rule: run_step.induct)
  case (run_notify s n)
  then show ?case by (cases "ex_worker s") (auto simp: jobs_left_def)
qed (auto simp: jobs_left_def run_check_def run_task_def split: list.split prod.split job_result.split)

lemma run_steps:
  assumes "(run_step ^^ k) s s'" "executor_reach d s"
  shows "executor_reach d s' \<and> k + jobs_left s' \<le> jobs_left s \<and> ex_posted s' = ex_posted s \<and> ex_running s' = ex_running s"
  using assms
proof (induction k arbitrary: s')
  case (Suc k)
  then obtain s1 where "(run_step ^^ k) s s1" "run_step s1 s'"
    by auto
  then show ?case
    using Suc run_step_left [of s1 s'] executor_reach.step [OF _ run_step_executor, of d s1 s'] by fastforce
qed simp

lemma run_stuck:
  assumes "executor_inv d s" "\<nexists>s'. run_step s s'" "ex_running s"
  shows "if length (fst (run_jobs (ex_posted s) d)) = length (ex_posted s)
         then run_jobs (ex_posted s) d = (ex_results s, ex_state s) else ex_worker s = W_Blocked"
proof -
  obtain js where js: "ex_posted s = js @ begun (ex_worker s) @ ex_tasks s" "run_jobs js d = (ex_results s, ex_state s)"
    "length js = (if ex_worker s = W_Blocked then length (ex_results s) + 1 else length (ex_results s))"
    using assms(1) by (auto simp: executor_inv_def)
  have n: "ex_notify s = 0"
    using assms(2) run_notify [of s] by (cases "ex_notify s") auto
  show ?thesis
  proof (cases "ex_worker s")
    case W_Ready
    then show ?thesis using assms(2) run_step.run_check by blast
  next
    case (W_Running j)
    then show ?thesis using assms(2) run_step.run_task by blast
  next
    case W_Asleep
    then show ?thesis using assms(1) js n by (auto simp: executor_inv_def)
  next
    case W_Blocked
    then show ?thesis using js run_jobs_append [of js "ex_tasks s" d] by auto
  next
    case W_Exited
    then show ?thesis using assms(1,3) by (auto simp: executor_inv_def)
  qed
qed

text \<open>
  C28. The database thread serializes its callers. However the callers and the thread interleave, the values returned so far are those that the posted
  jobs would return one after the other, in the order in which they were posted. If no job posts another one and the
  executor is not being destroyed, every call is answered: the thread can make only a bounded number of steps without
  further calls, and when it can make none, all calls have returned and the state is that of the sequential run.
\<close>

theorem executor_serializes:
  assumes "executor_reach d s" "ex_running s" "(run_step ^^ k) s s'"
  shows "take (length (ex_results s')) (fst (run_jobs (ex_posted s) d)) = ex_results s' \<and>
    k \<le> 2 * length (ex_tasks s) + 2 * ex_notify s + 2 \<and>
    (if \<exists>s''. run_step s' s'' then True
     else if length (fst (run_jobs (ex_posted s) d)) = length (ex_posted s)
     then run_jobs (ex_posted s) d = (ex_results s', ex_state s') else ex_worker s' = W_Blocked)"
proof -
  note r = run_steps [OF assms(3,1)]
  then have inv: "executor_inv d s'"
    by (simp add: executor_reach_inv)
  obtain js where js: "ex_posted s' = js @ begun (ex_worker s') @ ex_tasks s'" "run_jobs js d = (ex_results s', ex_state s')"
    using inv by (auto simp: executor_inv_def)
  have "take (length (ex_results s')) (fst (run_jobs (ex_posted s') d)) = ex_results s'"
    using js by (auto simp: run_jobs_append)
  moreover have "db_worker_left (ex_worker s) \<le> 2"
    by (cases "ex_worker s") auto
  ultimately show ?thesis
    using r run_stuck [OF inv] assms(2) by (auto simp: jobs_left_def)
qed

text \<open>An executor whose jobs count, for the example.\<close>

definition count_job :: "(nat, nat) job" where
  "count_job n = (Returns n, n + 1)"

lemma two_posted: "executor_reach 5 (post_job count_job (post_job count_job (DBExecutor 5)))"
  by (rule executor_reach.step, rule executor_reach.step, rule executor_reach.init) (rule executor_step.post)+

theorem executor_serializes_witness:
  "\<exists>s'. (run_step ^^ 2) (post_job count_job (post_job count_job (DBExecutor 5))) s' \<and> ex_results s' = [5] \<and>
     take 1 (fst (run_jobs [count_job, count_job] 5)) = [5]"
proof -
  let ?s = "post_job count_job (post_job count_job (DBExecutor 5))"
  let ?s1 = "run_check ?s"
  let ?s2 = "run_task count_job ?s1"
  have "run_step ?s ?s1"
    by (rule run_step.run_check) (simp add: post_job_def DBExecutor_def)
  moreover have "run_step ?s1 ?s2"
    by (rule run_step.run_task) (simp add: run_check_def post_job_def DBExecutor_def)
  ultimately have r: "(run_step ^^ 2) ?s ?s2"
    by (auto simp: numeral_2_eq_2)
  have v: "ex_results ?s2 = [5]" "ex_running ?s" "ex_posted ?s = [count_job, count_job]"
    by (simp_all add: run_task_def run_check_def post_job_def DBExecutor_def count_job_def)
  from executor_serializes [OF two_posted v(2) r] show ?thesis
    using r v by (intro exI [of _ ?s2]) simp
qed

section \<open>The database class\<close>

definition SQLITE_NULL :: int where "SQLITE_NULL = 5"

datatype bind_value = BNull | BInt int | BText string | BBlob "uint8 list"

text \<open>The calls of SQLite, on the state \<^typ>\<open>'e\<close> of the library; \<^typ>\<open>'h\<close> and \<^typ>\<open>'s\<close> are its two kinds of pointer.\<close>

record ('h, 's, 'e) sqlite_api =
  api_open_v2 :: "string \<Rightarrow> 'e \<Rightarrow> int \<times> 'h option \<times> 'e"
  api_exec :: "'h \<Rightarrow> string \<Rightarrow> 'e \<Rightarrow> 'e"
  api_close_v2 :: "'h \<Rightarrow> 'e \<Rightarrow> 'e"
  api_prepare_v2 :: "'h \<Rightarrow> string \<Rightarrow> 'e \<Rightarrow> int \<times> 's option \<times> 'e"
  api_errmsg :: "'h \<Rightarrow> 'e \<Rightarrow> string"
  api_finalize :: "'s \<Rightarrow> 'e \<Rightarrow> 'e"
  api_reset :: "'s option \<Rightarrow> 'e \<Rightarrow> 'e"
  api_clear_bindings :: "'s option \<Rightarrow> 'e \<Rightarrow> 'e"
  api_bind :: "'s option \<Rightarrow> int \<Rightarrow> bind_value \<Rightarrow> 'e \<Rightarrow> int \<times> 'e"
  api_step :: "'s option \<Rightarrow> 'e \<Rightarrow> int \<times> 'e"
  api_column_type :: "'s option \<Rightarrow> int \<Rightarrow> 'e \<Rightarrow> int"
  api_column_int :: "'s option \<Rightarrow> int \<Rightarrow> 'e \<Rightarrow> int"
  api_column_int64 :: "'s option \<Rightarrow> int \<Rightarrow> 'e \<Rightarrow> int"
  api_column_text :: "'s option \<Rightarrow> int \<Rightarrow> 'e \<Rightarrow> string option"
  api_column_blob :: "'s option \<Rightarrow> int \<Rightarrow> 'e \<Rightarrow> uint8 list option"

text \<open>
  The members \<^verbatim>\<open>m_db\<close> and, for every query object, which its statement identifies, \<^verbatim>\<open>m_has_rows\<close>. A result is a
  truth value, a query (\<^const>\<open>None\<close> is the null pointer), a text, a number or a sequence of bytes.
\<close>

record ('h, 's, 'e) database =
  m_db :: "'h option"
  m_has_rows :: "'s option \<Rightarrow> bool"
  lib_state :: 'e

datatype 's db_value = DBool bool | DQuery "'s option option" | DText string | DInt int | DBytes "uint8 list" | DUnit

type_synonym ('h, 's, 'e) db_job = "(('h, 's, 'e) database, 's db_value) job"

definition database_open :: "('h, 's, 'e) sqlite_api \<Rightarrow> string \<Rightarrow> ('h, 's, 'e) db_job" where
  "database_open api path d =
     (if m_db d \<noteq> None then (Returns (DBool True), d)
      else (case api_open_v2 api (to_cstr path) (lib_state d) of
              (code, h, e) \<Rightarrow>
                if code \<noteq> SQLITE_OK then (Posts, d\<lparr>m_db := h, lib_state := e\<rparr>)
                else (case h of
                        None \<Rightarrow> (Returns (DBool True), d\<lparr>m_db := None, lib_state := e\<rparr>)
                      | Some p \<Rightarrow>
                          (Returns (DBool True),
                           d\<lparr>m_db := Some p,
                             lib_state := api_exec api p ''PRAGMA synchronous=FULL;'' (api_exec api p ''PRAGMA journal_mode=DELETE;'' e)\<rparr>))))"

definition database_close :: "('h, 's, 'e) sqlite_api \<Rightarrow> ('h, 's, 'e) db_job" where
  "database_close api d =
     (case m_db d of
        None \<Rightarrow> (Returns (DBool False), d)
      | Some p \<Rightarrow> (Returns (DBool True), d\<lparr>m_db := None, lib_state := api_close_v2 api p (lib_state d)\<rparr>))"

definition database_query :: "('h, 's, 'e) sqlite_api \<Rightarrow> string \<Rightarrow> ('h, 's, 'e) db_job" where
  "database_query api sql d =
     (case m_db d of
        None \<Rightarrow> (Returns (DQuery None), d)
      | Some p \<Rightarrow>
          (case api_prepare_v2 api p (to_cstr sql) (lib_state d) of
             (rc, stmt, e) \<Rightarrow>
               if rc \<noteq> SQLITE_OK then (Returns (DQuery None), d\<lparr>lib_state := e\<rparr>)
               else (Returns (DQuery (Some stmt)), d\<lparr>lib_state := e, m_has_rows := (m_has_rows d)(stmt := False)\<rparr>)))"

definition database_lastError :: "('h, 's, 'e) sqlite_api \<Rightarrow> ('h, 's, 'e) db_job" where
  "database_lastError api d = (Returns (DText (case m_db d of None \<Rightarrow> [] | Some p \<Rightarrow> to_cstr (api_errmsg api p (lib_state d)))), d)"

text \<open>The destructor of a query runs this job, or makes the same call itself once the executor is not running.\<close>

definition query_finalize :: "('h, 's, 'e) sqlite_api \<Rightarrow> 's option \<Rightarrow> ('h, 's, 'e) db_job" where
  "query_finalize api q d = (Returns DUnit, case q of None \<Rightarrow> d | Some st \<Rightarrow> d\<lparr>lib_state := api_finalize api st (lib_state d)\<rparr>)"

definition query_reset :: "('h, 's, 'e) sqlite_api \<Rightarrow> 's option \<Rightarrow> ('h, 's, 'e) db_job" where
  "query_reset api q d =
     (Returns DUnit, d\<lparr>lib_state := api_clear_bindings api q (api_reset api q (lib_state d)), m_has_rows := (m_has_rows d)(q := False)\<rparr>)"

definition query_bind :: "('h, 's, 'e) sqlite_api \<Rightarrow> 's option \<Rightarrow> int \<Rightarrow> bind_value \<Rightarrow> ('h, 's, 'e) db_job" where
  "query_bind api q n v d = (case api_bind api q n v (lib_state d) of (rc, e) \<Rightarrow> (Returns (DBool (rc = SQLITE_OK)), d\<lparr>lib_state := e\<rparr>))"

definition bind_bool :: "bool \<Rightarrow> bind_value" where "bind_bool b = BInt (if b then 1 else 0)"
definition bind_int32 :: "int32 \<Rightarrow> bind_value" where "bind_int32 v = BInt (sint v)"
definition bind_uint32 :: "uint32 \<Rightarrow> bind_value" where "bind_uint32 v = BInt (uint v)"
definition bind_int64 :: "int64 \<Rightarrow> bind_value" where "bind_int64 v = BInt (sint v)"
definition bind_uint64 :: "uint64 \<Rightarrow> bind_value" where "bind_uint64 v = BInt (sint v)"
definition bind_string :: "string \<Rightarrow> bind_value" where "bind_string v = BText (to_cstr v)"

definition query_exec_job :: "('h, 's, 'e) sqlite_api \<Rightarrow> 's option \<Rightarrow> ('h, 's, 'e) db_job" where
  "query_exec_job api q d =
     (case api_step api q (lib_state d) of
        (rc, e) \<Rightarrow> (Returns (DBool (rc = SQLITE_ROW \<or> rc = SQLITE_DONE)), d\<lparr>lib_state := e, m_has_rows := (m_has_rows d)(q := rc = SQLITE_ROW)\<rparr>))"

text \<open>\<^verbatim>\<open>next\<close> leaves the flag as it is when there is no further row.\<close>

definition query_next :: "('h, 's, 'e) sqlite_api \<Rightarrow> 's option \<Rightarrow> ('h, 's, 'e) db_job" where
  "query_next api q d =
     (case api_step api q (lib_state d) of
        (rc, e) \<Rightarrow>
          if rc = SQLITE_ROW then (Returns (DBool True), d\<lparr>lib_state := e, m_has_rows := (m_has_rows d)(q := True)\<rparr>)
          else (Returns (DBool False), d\<lparr>lib_state := e\<rparr>))"

definition hasRows :: "'s option \<Rightarrow> ('h, 's, 'e) database \<Rightarrow> bool" where
  "hasRows q d = m_has_rows d q"

definition column_isNull :: "('h, 's, 'e) sqlite_api \<Rightarrow> 's option \<Rightarrow> int \<Rightarrow> ('h, 's, 'e) db_job" where
  "column_isNull api q c d = (Returns (DBool (api_column_type api q c (lib_state d) = SQLITE_NULL)), d)"

definition column_getBool :: "('h, 's, 'e) sqlite_api \<Rightarrow> 's option \<Rightarrow> int \<Rightarrow> ('h, 's, 'e) db_job" where
  "column_getBool api q c d = (Returns (DBool (api_column_int api q c (lib_state d) \<noteq> 0)), d)"

definition column_getInt32 :: "('h, 's, 'e) sqlite_api \<Rightarrow> 's option \<Rightarrow> int \<Rightarrow> ('h, 's, 'e) db_job" where
  "column_getInt32 api q c d = (Returns (DInt (api_column_int api q c (lib_state d))), d)"

definition column_getUInt32 :: "('h, 's, 'e) sqlite_api \<Rightarrow> 's option \<Rightarrow> int \<Rightarrow> ('h, 's, 'e) db_job" where
  "column_getUInt32 api q c d = (Returns (DInt (uint (word_of_int (api_column_int64 api q c (lib_state d)) :: uint32))), d)"

definition column_getInt64 :: "('h, 's, 'e) sqlite_api \<Rightarrow> 's option \<Rightarrow> int \<Rightarrow> ('h, 's, 'e) db_job" where
  "column_getInt64 api q c d = (Returns (DInt (api_column_int64 api q c (lib_state d))), d)"

definition column_getUInt64 :: "('h, 's, 'e) sqlite_api \<Rightarrow> 's option \<Rightarrow> int \<Rightarrow> ('h, 's, 'e) db_job" where
  "column_getUInt64 api q c d = (Returns (DInt (uint (word_of_int (api_column_int64 api q c (lib_state d)) :: uint64))), d)"

definition column_getString :: "('h, 's, 'e) sqlite_api \<Rightarrow> 's option \<Rightarrow> int \<Rightarrow> ('h, 's, 'e) db_job" where
  "column_getString api q c d = (Returns (DText (case api_column_text api q c (lib_state d) of None \<Rightarrow> [] | Some t \<Rightarrow> to_cstr t)), d)"

definition column_getBlob :: "('h, 's, 'e) sqlite_api \<Rightarrow> 's option \<Rightarrow> int \<Rightarrow> ('h, 's, 'e) db_job" where
  "column_getBlob api q c d = (Returns (DBytes (case api_column_blob api q c (lib_state d) of None \<Rightarrow> [] | Some b \<Rightarrow> b)), d)"

fun escape_identifier :: "string \<Rightarrow> string" where
  "escape_identifier [] = []"
| "escape_identifier (c # cs) =
     (if c = CHR 0x22 then [CHR 0x22, CHR 0x22] else if c = CHR ''-'' then ''_'' else [c]) @ escape_identifier cs"

definition sanitizeIdentifier :: "string \<Rightarrow> string" where
  "sanitizeIdentifier input = [CHR 0x22] @ escape_identifier input @ [CHR 0x22]"

text \<open>
  How SQL reads a quoted identifier: up to the first quote that is not doubled. The result is the name and the text that
  follows.
\<close>

fun read_quoted :: "string \<Rightarrow> (string \<times> string) option" where
  "read_quoted [] = None"
| "read_quoted [c] = (if c = CHR 0x22 then Some ([], []) else None)"
| "read_quoted (c # c' # cs) =
     (if c \<noteq> CHR 0x22 then map_option (apfst ((#) c)) (read_quoted (c' # cs))
      else if c' = CHR 0x22 then map_option (apfst ((#) c)) (read_quoted cs)
      else Some ([], c' # cs))"

lemma read_quoted_plain: "c \<noteq> CHR 0x22 \<Longrightarrow> cs \<noteq> [] \<Longrightarrow> read_quoted (c # cs) = map_option (apfst ((#) c)) (read_quoted cs)"
  by (cases cs) auto

lemma sanitized_is_one_identifier:
  assumes "tl_ok = [] \<or> hd tl_ok \<noteq> CHR 0x22"
  shows "read_quoted (escape_identifier input @ CHR 0x22 # tl_ok) = Some (map (\<lambda>c. if c = CHR ''-'' then CHR ''_'' else c) input, tl_ok)"
proof (induction input)
  case Nil
  show ?case using assms by (cases tl_ok) auto
next
  case (Cons c cs)
  then show ?case by (cases "c = CHR 0x22") (auto simp: read_quoted_plain)
qed

lemma blocked_prefix:
  assumes "executor_reach d s" "ex_posted s = js @ j # ks" "run_jobs js d = (vs, d1)" "length vs = length js" "fst (j d1) = Posts"
  shows "length (ex_results s) \<le> length js"
proof -
  obtain ls where ls: "ex_posted s = ls @ begun (ex_worker s) @ ex_tasks s" "run_jobs ls d = (ex_results s, ex_state s)"
    using executor_reach_inv [OF assms(1)] by (auto simp: executor_inv_def)
  have p: "run_jobs (js @ j # ks) d = (vs, snd (j d1))"
    using assms(3-5) by (cases "j d1") (simp add: run_jobs_append)
  have "fst (run_jobs (ls @ begun (ex_worker s) @ ex_tasks s) d) = vs"
    using p ls(1) assms(2) by simp
  then have "length (ex_results s) \<le> length vs"
    using ls(2) by (auto simp: run_jobs_append split: if_splits)
  then show ?thesis
    using assms(4) by simp
qed

text \<open>
  C29. A database that cannot be opened stops the charge point. If SQLite reports an error when the file is opened, the call of \<^verbatim>\<open>open\<close> never returns, in
  any reachable state of the executor, and neither does any later call of the database: the error message is asked
  for through the executor by the job that its only thread is running.
\<close>

theorem failed_open_hangs:
  assumes "executor_reach d s" "ex_posted s = js @ database_open api path # ks" "run_jobs js d = (vs, d1)" "length vs = length js"
    "m_db d1 = None" "fst (api_open_v2 api (to_cstr path) (lib_state d1)) \<noteq> SQLITE_OK"
  shows "future_get (length js + k) s = None"
proof -
  have "fst (database_open api path d1) = Posts"
    using assms(5,6) by (auto simp: database_open_def split: prod.splits)
  from blocked_prefix [OF assms(1-4) this] show ?thesis
    by (simp add: future_get_def)
qed

text \<open>A library in which opening fails, and a later call that asks whether the database is open.\<close>

definition broken_api :: "(unit, unit, unit) sqlite_api" where
  "broken_api = \<lparr>api_open_v2 = (\<lambda>_ e. (14, Some (), e)), api_exec = (\<lambda>_ _ e. e), api_close_v2 = (\<lambda>_ e. e),
     api_prepare_v2 = (\<lambda>_ _ e. (1, None, e)), api_errmsg = (\<lambda>_ _. ''unable to open database file''), api_finalize = (\<lambda>_ e. e),
     api_reset = (\<lambda>_ e. e), api_clear_bindings = (\<lambda>_ e. e), api_bind = (\<lambda>_ _ _ e. (21, e)), api_step = (\<lambda>_ e. (21, e)),
     api_column_type = (\<lambda>_ _ _. 5), api_column_int = (\<lambda>_ _ _. 0), api_column_int64 = (\<lambda>_ _ _. 0),
     api_column_text = (\<lambda>_ _ _. None), api_column_blob = (\<lambda>_ _ _. None)\<rparr>"

definition closed_db :: "(unit, unit, unit) database" where
  "closed_db = \<lparr>m_db = None, m_has_rows = (\<lambda>_. False), lib_state = ()\<rparr>"

theorem failed_open_hangs_witness:
  "\<exists>s. executor_reach closed_db s \<and> ex_posted s = [database_open broken_api ''x.db'', database_lastError broken_api] \<and>
     ex_worker s = W_Blocked \<and> future_get 0 s = None \<and> future_get 1 s = None"
proof -
  let ?o = "database_open broken_api ''x.db''" and ?l = "database_lastError broken_api"
  let ?a = "post_job ?l (post_job ?o (DBExecutor closed_db))"
  let ?b = "run_check ?a"
  let ?c = "run_task ?o ?b"
  have o: "?o closed_db = (Posts, closed_db\<lparr>m_db := Some ()\<rparr>)"
    by (simp add: database_open_def closed_db_def broken_api_def)
  have w: "ex_worker ?a = W_Ready" "ex_worker ?b = W_Running ?o" "ex_worker ?c = W_Blocked" "ex_posted ?c = [?o, ?l]"
    by (simp_all add: run_task_def run_check_def post_job_def DBExecutor_def o)
  have "executor_reach closed_db ?a"
    by (rule executor_reach.step, rule executor_reach.step, rule executor_reach.init) (rule executor_step.post)+
  then have r: "executor_reach closed_db ?c"
    by (rule executor_reach.step [OF executor_reach.step [OF _ executor_step.check [OF w(1)]] executor_step.task [OF w(2)]])
  have "future_get (0 + k) ?c = None" for k
    using failed_open_hangs [OF r, of "[]" broken_api "''x.db''" "[?l]" "[]" closed_db k] w(4)
    by (simp add: closed_db_def broken_api_def)
  from this [of 0] this [of 1] show ?thesis
    using r w by (intro exI [of _ ?c]) simp
qed

end
