(* ===== verification/Status_Notification.thy ===== *)
theory Status_Notification
  imports Ocpp_Enums Ocpp_Message
begin

text \<open>
  The status message of the charge point (\<^verbatim>\<open>src/src/ocpp/action/status/StatusNotification.cpp\<close>, \<^verbatim>\<open>StatusNotification.h\<close>):
  reading the optional fields, building the request and judging the answer. The JSON parser and the client's \<^verbatim>\<open>sendCall\<close>
  are parameters; the text of the current time is an argument.
\<close>

section \<open>Data\<close>

record StatusNotificationOther =
  so_vendorId :: string
  so_vendorErrorCode :: string
  so_info :: string

record status_notifier =
  m_strCode :: string
  m_strErrMsg :: string

definition no_other :: StatusNotificationOther where
  "no_other = \<lparr>so_vendorId = [], so_vendorErrorCode = [], so_info = []\<rparr>"

section \<open>Operations\<close>

text \<open>A member that is there and is a string replaces the empty text.\<close>

definition text_member :: "rjson \<Rightarrow> string \<Rightarrow> string" where
  "text_member doc k = (case FindMember doc k of Some (RString s) \<Rightarrow> to_cstr s | _ \<Rightarrow> [])"

definition parseStatusNotificationOther :: "(string \<Rightarrow> rjson option) \<Rightarrow> string \<Rightarrow> StatusNotificationOther" where
  "parseStatusNotificationOther parse otherJsonStr =
     (if otherJsonStr = [] then no_other
      else (case parse (to_cstr otherJsonStr) of
              None \<Rightarrow> no_other
            | Some doc \<Rightarrow>
                if \<not> IsObject doc then no_other
                else \<lparr>so_vendorId = text_member doc ''vendorId'',
                      so_vendorErrorCode = take 49 (text_member doc ''vendorErrorCode''),
                      so_info = text_member doc ''info''\<rparr>))"

definition status_name :: "ChargePointStatus \<Rightarrow> string" where
  "status_name st = toString_default (table_map chargePointStatusMap) st ''Available''"

definition error_name :: "ChargePointErrorCode \<Rightarrow> string" where
  "error_name ec = toString_default (table_map chargePointErrorCodeMap) ec ''NoError''"

definition buildStatusNotificationMessage ::
  "string \<Rightarrow> uint32 \<Rightarrow> ChargePointErrorCode \<Rightarrow> ChargePointStatus \<Rightarrow> StatusNotificationOther \<Rightarrow> rjson" where
  "buildStatusNotificationMessage ts connectorId errorCode status other =
     RObject
       ((if so_vendorId other \<noteq> [] then [(''vendorId'', RString (to_cstr (so_vendorId other)))] else []) @
        (if so_vendorErrorCode other \<noteq> [] then [(''vendorErrorCode'', RString (to_cstr (take 49 (so_vendorErrorCode other))))] else []) @
        [(''connectorId'', RInt (uint connectorId)),
         (''errorCode'', RString (to_cstr (error_name errorCode))),
         (''status'', RString (to_cstr (status_name status))),
         (''timestamp'', RString (to_cstr ts))])"

text \<open>\<^verbatim>\<open>handleResponse\<close>; the members keep the code and the text of the last error.\<close>

definition error_text :: "bool \<Rightarrow> string \<Rightarrow> rjson \<Rightarrow> string outcome" where
  "error_text asserts unknown v = (if IsString v then GetString asserts v else Value unknown)"

definition handleResponse :: "bool \<Rightarrow> rjson \<Rightarrow> status_notifier \<Rightarrow> (bool \<times> status_notifier) outcome" where
  "handleResponse asserts doc n =
     bind_outcome (bind_outcome (elem_at asserts doc 0) (GetInt asserts)) (\<lambda>messageType.
       if messageType = MT_CallResult then Value (True, n\<lparr>m_strCode := [], m_strErrMsg := []\<rparr>)
       else if messageType = MT_CallError
       then bind_outcome (bind_outcome (elem_at asserts doc 2) (error_text asserts ''UnknownError'')) (\<lambda>code.
            bind_outcome (bind_outcome (elem_at asserts doc 3) (error_text asserts ''Unknown error description'')) (\<lambda>msg.
              Value (False, n\<lparr>m_strCode := code, m_strErrMsg := msg\<rparr>)))
       else Value (False, n\<lparr>m_strCode := ''InvalidMsgType'', m_strErrMsg := ''Unexpected message type in StatusNotification response''\<rparr>))"

definition getErrorMsg :: "status_notifier \<Rightarrow> string \<times> string" where
  "getErrorMsg n = (m_strCode n, m_strErrMsg n)"

text \<open>\<^verbatim>\<open>sendCall\<close>; \<open>call\<close> is that of the client: the answer, or \<^const>\<open>None\<close> when it reports a failure.\<close>

definition status_sendCall ::
  "(string \<Rightarrow> rjson option) \<Rightarrow> bool \<Rightarrow> (string \<Rightarrow> rjson \<Rightarrow> rjson option) \<Rightarrow> string \<Rightarrow> uint32 \<Rightarrow> ChargePointErrorCode \<Rightarrow> ChargePointStatus \<Rightarrow>
   string \<Rightarrow> status_notifier \<Rightarrow> (bool \<times> status_notifier) outcome" where
  "status_sendCall parse asserts call ts connectorId errorCode status otherJson n =
     (let req = buildStatusNotificationMessage ts connectorId errorCode status (parseStatusNotificationOther parse otherJson)
      in (case call ''StatusNotification'' req of None \<Rightarrow> Value (False, n) | Some rsp \<Rightarrow> handleResponse asserts rsp n))"

section \<open>What it promises\<close>

lemma name_round_trip:
  assumes "enum_table tbl" "v \<in> snd ` set tbl"
  shows "toEnum (table_map tbl) (toString_default (table_map tbl) v d) = Inr v"
proof -
  obtain k where "toString (table_map tbl) v = Inr k" "toEnum (table_map tbl) k = Inr v"
    using enum_table.toString_complete [OF assms] by blast
  then show ?thesis
    by (auto simp: toString_def toString_default_def split: option.splits)
qed

lemma status_name_round_trip: "toEnum (table_map chargePointStatusMap) (status_name st) = Inr st"
  unfolding status_name_def
  by (rule name_round_trip [OF chargePointStatusMap_t.enum_table_axioms]) (cases st, simp_all add: chargePointStatusMap_def)

lemma error_name_round_trip: "toEnum (table_map chargePointErrorCodeMap) (error_name ec) = Inr ec"
  unfolding error_name_def
  by (rule name_round_trip [OF chargePointErrorCodeMap_t.enum_table_axioms]) (cases ec, simp_all add: chargePointErrorCodeMap_def)

lemma to_cstr_idem: "to_cstr (to_cstr s) = to_cstr s"
  by (simp add: to_cstr_def takeWhile_idem)

lemma status_name_cstr: "to_cstr (status_name st) = status_name st"
  by (cases st) (simp_all add: status_name_def toString_default_def table_map_def chargePointStatusMap_def flip_def to_cstr_def)

lemma error_name_cstr: "to_cstr (error_name ec) = error_name ec"
  by (cases ec) (simp_all add: error_name_def toString_default_def table_map_def chargePointErrorCodeMap_def flip_def to_cstr_def)

lemma to_cstr_length: "length (to_cstr s) \<le> length s"
  by (simp add: to_cstr_def length_takeWhile_le)

text \<open>The names of the members, and the text of a member.\<close>

definition member_names :: "rjson \<Rightarrow> string list" where
  "member_names v = (case v of RObject ms \<Rightarrow> map fst ms | _ \<Rightarrow> [])"

text \<open>
  The status request says what it was asked to say. For every optional text the request names each member once, carries the connector number, and the
  names of the status and of the error code in it read back as the values they stand for; a vendor error code is
  at most 49 characters long. The field \<^verbatim>\<open>info\<close>, which the optional text may have, never reaches the request.
\<close>

theorem status_request_spec:
  "let doc = buildStatusNotificationMessage ts cid ec st (parseStatusNotificationOther parse j)
   in distinct (member_names doc) \<and> FindMember doc ''connectorId'' = Some (RInt (uint cid)) \<and>
    toEnum (table_map chargePointStatusMap) (text_member doc ''status'') = Inr st \<and>
    toEnum (table_map chargePointErrorCodeMap) (text_member doc ''errorCode'') = Inr ec \<and>
    length (text_member doc ''vendorErrorCode'') \<le> 49 \<and> ''info'' \<notin> set (member_names doc)"
proof -
  have "length (to_cstr (to_cstr (take 49 t))) \<le> 49" for t :: string
    using to_cstr_length [of "take 49 t"] by (simp add: to_cstr_idem)
  then show ?thesis
    by (auto simp: Let_def buildStatusNotificationMessage_def member_names_def FindMember_def text_member_def to_cstr_idem status_name_cstr
        error_name_cstr status_name_round_trip error_name_round_trip)
qed

text \<open>An answer that passed validation is judged without a failure, and a call error leaves its code and text for the caller.\<close>

theorem valid_answer_is_judged:
  assumes "ocpp_frame (RArray (RInt t # xs))" "t \<noteq> MT_Call"
  shows "handleResponse asserts (RArray (RInt t # xs)) n =
    (if t = MT_CallResult then Value (True, n\<lparr>m_strCode := [], m_strErrMsg := []\<rparr>)
     else (case xs of
             [_, RString code, RString msg, _] \<Rightarrow> Value (False, n\<lparr>m_strCode := to_cstr code, m_strErrMsg := to_cstr msg\<rparr>)
           | _ \<Rightarrow> Undefined))"
  using assms
  by (auto simp: ocpp_frame_def handleResponse_def mt_simps json_simps error_text_def split: list.splits rjson.splits if_splits)

end
