(* ===== verification/Connectors.thy ===== *)
theory Connectors
  imports Status_Notification Ocpp_Auth Timer_Pool Thread_Pool
begin

text \<open>
  The connectors of the charge point (\<^verbatim>\<open>src/src/ocpp/Connector/\<close>): the table of status changes, the records of the
  connectors with their rows in the database, and the status messages they hand to the thread pool.
  \<^item> The database is the \<open>query_engine\<close> of the authorization tables; \<open>prepared\<close> says which statements SQLite could prepare.
  \<^item> A task of the thread pool is the notification that the closure in \<^verbatim>\<open>updateStatus\<close> captures.
  \<^item> The addresses of new timers are arguments. Unsigned numbers are words; an enumeration that is stored as a number is
    the word of that number.
\<close>

section \<open>Status changes\<close>

definition statusToTableId :: "ChargePointStatus \<Rightarrow> nat" where
  "statusToTableId st = (case st of ChargePointStatus.Available \<Rightarrow> 1 | ChargePointStatus.Preparing \<Rightarrow> 2 | ChargePointStatus.Charging \<Rightarrow> 3
     | ChargePointStatus.SuspendedEV \<Rightarrow> 4 | ChargePointStatus.SuspendedEVSE \<Rightarrow> 5 | ChargePointStatus.Finishing \<Rightarrow> 6
     | ChargePointStatus.Reserved \<Rightarrow> 7 | ChargePointStatus.Unavailable \<Rightarrow> 8 | ChargePointStatus.Faulted \<Rightarrow> 9)"

definition allowedTransitions :: "(nat \<times> nat list) list" where
  "allowedTransitions =
     [(1, [2, 4, 5, 7, 8, 9]), (2, [1, 3, 4, 5, 6, 9]), (3, [1, 4, 5, 6, 9]), (4, [1, 3, 5, 6, 8, 9]), (5, [1, 3, 4, 6, 8, 9]),
      (6, [1, 2, 8, 9]), (7, [1, 2, 8, 9]), (8, [1, 2, 9]), (9, [1, 2, 4, 5, 6, 7, 8])]"

definition checkStatusTransition :: "ChargePointStatus \<Rightarrow> ChargePointStatus \<Rightarrow> bool" where
  "checkStatusTransition current target =
     (let fromId = statusToTableId current; toId = statusToTableId target
      in if fromId = 0 \<or> toId = 0 then False
         else (case map_of allowedTransitions fromId of None \<Rightarrow> False | Some ids \<Rightarrow> toId \<in> set ids))"

section \<open>Data\<close>

record connector =
  c_id :: uint32
  c_status :: ChargePointStatus
  c_availability :: int32
  tx_id :: uint32
  tx_idTag :: string
  tx_parentIdTag :: string
  rs_status :: ReservationStatus
  rs_id :: uint32
  rs_idTag :: string
  rs_parentIdTag :: string
  rs_expiry :: int64
  c_timers :: "addr option list"

definition availability_int :: "AvailabilityType \<Rightarrow> int32" where
  "availability_int a = (case a of AvailabilityType.Inoperative \<Rightarrow> 0 | AvailabilityType.Operative \<Rightarrow> 1)"

text \<open>\<^verbatim>\<open>Connector(cid)\<close>; the default of the expiry date is the time of the construction. The five timers are null.\<close>

definition Connector :: "int64 \<Rightarrow> uint32 \<Rightarrow> connector" where
  "Connector now cid = \<lparr>c_id = cid, c_status = ChargePointStatus.Available, c_availability = availability_int AvailabilityType.Operative,
     tx_id = 0, tx_idTag = [], tx_parentIdTag = [],
     rs_status = ReservationStatus.Rejected, rs_id = 0, rs_idTag = [], rs_parentIdTag = [], rs_expiry = now,
     c_timers = replicate 5 None\<rparr>"

type_synonym notification = "uint32 \<times> ChargePointErrorCode \<times> ChargePointStatus \<times> string"

record ('d, 'c) connectors =
  m_connectors :: "connector list"
  m_regStatus :: RegistrationStatus
  m_qInsert :: bool
  m_qUpdate :: bool
  m_qFind :: bool
  m_threadPool :: "notification thread_pool"
  m_timerPool :: "'c timer_pool"
  m_database :: 'd

text \<open>The constructor: connector 0 stands for the charge point itself.\<close>

definition Connectors :: "int64 \<Rightarrow> nat \<Rightarrow> notification thread_pool \<Rightarrow> 'c timer_pool \<Rightarrow> 'd \<Rightarrow> ('d, 'c) connectors" where
  "Connectors now connectorCount tp tm d =
     \<lparr>m_connectors = map (\<lambda>i. Connector now (of_nat i)) [0..<connectorCount + 1], m_regStatus = RegistrationStatus.Rejected,
      m_qInsert = False, m_qUpdate = False, m_qFind = False, m_threadPool = tp, m_timerPool = tm, m_database = d\<rparr>"

definition connector_count :: "('d, 'c) connectors \<Rightarrow> nat" where
  "connector_count s = length (m_connectors s) - 1"

definition get_connector :: "uint32 \<Rightarrow> ('d, 'c) connectors \<Rightarrow> connector option" where
  "get_connector i s = (if unat i > connector_count s then None else Some (m_connectors s ! unat i))"

definition put_connector :: "uint32 \<Rightarrow> connector \<Rightarrow> ('d, 'c) connectors \<Rightarrow> ('d, 'c) connectors" where
  "put_connector i c s = s\<lparr>m_connectors := (m_connectors s)[unat i := c]\<rparr>"

section \<open>Rows of the table\<close>

definition conn_create :: string where
  "conn_create = ''CREATE TABLE IF NOT EXISTS Connector (connector_id    INT UNSIGNED PRIMARY KEY NOT NULL,status         VARCHAR(20) NOT NULL,transaction_id             INT UNSIGNED,transaction_id_tag        VARCHAR(128),transaction_parent_id_tag VARCHAR(128),reservation_id            INT UNSIGNED,reservation_id_tag        VARCHAR(128),reservation_parent_id_tag VARCHAR(128),reservation_expiry_date   BIGINT,availability              INT UNSIGNED);''"

definition conn_insert :: string where
  "conn_insert = ''INSERT INTO Connector (connector_id, status, transaction_id, transaction_id_tag, transaction_parent_id_tag, reservation_id, reservation_id_tag, reservation_parent_id_tag, reservation_expiry_date, availability) VALUES (?, ?, ?, ?, ?, ?, ?, ?, ?, ?);''"

definition conn_update :: string where
  "conn_update = ''UPDATE Connector SET status=?, transaction_id=?, transaction_id_tag=?, transaction_parent_id_tag=?, reservation_id=?, reservation_id_tag=?, reservation_parent_id_tag=?, reservation_expiry_date=?, availability=? WHERE connector_id=?;''"

definition conn_find :: string where
  "conn_find = ''SELECT * FROM Connector WHERE connector_id = ?;''"

definition conn_count :: string where
  "conn_count = ''SELECT count(connector_id) FROM Connector WHERE TRUE;''"

definition conn_delete :: string where
  "conn_delete = ''DELETE FROM Connector WHERE TRUE;''"

text \<open>The values of all columns but the key, in the order in which both statements bind them.\<close>

definition column_values :: "connector \<Rightarrow> sqlv list" where
  "column_values c =
     [VText (to_cstr (status_name (c_status c))), VInt (uint (tx_id c)), VText (to_cstr (tx_idTag c)), VText (to_cstr (tx_parentIdTag c)),
      VInt (uint (rs_id c)), VText (to_cstr (rs_idTag c)), VText (to_cstr (rs_parentIdTag c)), VInt (sint (rs_expiry c)),
      VInt (sint (c_availability c))]"

definition getString :: "sqlv list \<Rightarrow> nat \<Rightarrow> string" where
  "getString r n = (if n < length r then (case text_of (r ! n) of None \<Rightarrow> [] | Some t \<Rightarrow> to_cstr t) else [])"

section \<open>Operations\<close>

definition save_connector :: "'d query_engine \<Rightarrow> uint32 \<Rightarrow> ('d, 'c) connectors \<Rightarrow> bool \<times> ('d, 'c) connectors" where
  "save_connector e i s =
     (case get_connector i s of
        None \<Rightarrow> (False, s)
      | Some c \<Rightarrow>
          if \<not> m_qUpdate s then (False, s)
          else (case query_exec e conn_update (column_values c @ [VInt (uint i)]) (m_database s) of
                  (ok, _, d) \<Rightarrow> (ok, s\<lparr>m_database := d\<rparr>)))"

definition insert_connector :: "'d query_engine \<Rightarrow> uint32 \<Rightarrow> ('d, 'c) connectors \<Rightarrow> bool \<times> ('d, 'c) connectors" where
  "insert_connector e i s =
     (case get_connector i s of
        None \<Rightarrow> (False, s)
      | Some c \<Rightarrow>
          if \<not> m_qInsert s then (False, s)
          else (case query_exec e conn_insert (VInt (uint (c_id c)) # column_values c) (m_database s) of
                  (ok, _, d) \<Rightarrow> (ok, s\<lparr>m_database := d\<rparr>)))"

text \<open>What \<^verbatim>\<open>load\<close> stores of a row; the status of the reservation is not in the table.\<close>

definition load_row :: "'d query_engine \<Rightarrow> uint32 \<Rightarrow> sqlv list \<Rightarrow> connector \<Rightarrow> connector" where
  "load_row e i r c = c\<lparr>c_id := i,
     c_status := toEnum_default (table_map chargePointStatusMap) (getString r 1) ChargePointStatus.Available,
     tx_id := word_of_int (getInt64 e r 2), tx_idTag := getString r 3, tx_parentIdTag := getString r 4,
     rs_id := word_of_int (getInt64 e r 5), rs_idTag := getString r 6, rs_parentIdTag := getString r 7,
     rs_expiry := word_of_int (getInt64 e r 8), c_availability := word_of_int (getInt64 e r 9)\<rparr>"

definition load_connector :: "'d query_engine \<Rightarrow> uint32 \<Rightarrow> ('d, 'c) connectors \<Rightarrow> bool \<times> ('d, 'c) connectors" where
  "load_connector e i s =
     (case get_connector i s of
        None \<Rightarrow> (False, s)
      | Some c \<Rightarrow>
          if \<not> m_qFind s then (False, s)
          else (case query_exec e conn_find [VInt (uint i)] (m_database s) of
                  (False, _, d) \<Rightarrow> (False, s\<lparr>m_database := d\<rparr>)
                | (True, None, d) \<Rightarrow> (False, s\<lparr>m_database := d\<rparr>)
                | (True, Some r, d) \<Rightarrow>
                    if getUInt32 e r 0 \<noteq> i then (False, s\<lparr>m_database := d\<rparr>)
                    else (True, put_connector i (load_row e i r c) (s\<lparr>m_database := d\<rparr>))))"

text \<open>
  \<^verbatim>\<open>updateStatus\<close>. The test of the range of both values, which no value of the enumeration fails, is left out. The
  result is \<^const>\<open>None\<close> if handing over the notification throws because the thread pool has been stopped.
\<close>

definition updateStatus ::
  "'d query_engine \<Rightarrow> uint32 \<Rightarrow> ChargePointStatus \<Rightarrow> ChargePointErrorCode \<Rightarrow> string \<Rightarrow> bool \<Rightarrow> ('d, 'c) connectors \<Rightarrow>
   (bool \<times> ('d, 'c) connectors) option" where
  "updateStatus e i target error info force s =
     (case get_connector i s of
        None \<Rightarrow> Some (False, s)
      | Some c \<Rightarrow>
          if \<not> force \<and> \<not> checkStatusTransition (c_status c) target then Some (False, s)
          else let s1 = (if c_status c \<noteq> target then snd (save_connector e i (put_connector i (c\<lparr>c_status := target\<rparr>) s)) else s)
               in (case pool_enqueue (i, error, target, info) (m_threadPool s1) of
                     None \<Rightarrow> None
                   | Some tp \<Rightarrow> Some (True, s1\<lparr>m_threadPool := tp\<rparr>)))"

text \<open>The closure: what a worker of the thread pool does with a notification.\<close>

definition run_notification ::
  "(string \<Rightarrow> rjson option) \<Rightarrow> bool \<Rightarrow> (string \<Rightarrow> rjson \<Rightarrow> rjson option) \<Rightarrow> string \<Rightarrow> RegistrationStatus \<Rightarrow> notification \<Rightarrow>
   status_notifier \<Rightarrow> status_notifier outcome" where
  "run_notification parse asserts call ts reg t n =
     (case t of
        (i, error, status, info) \<Rightarrow>
          if reg \<noteq> RegistrationStatus.Accepted then Value n
          else bind_outcome (status_sendCall parse asserts call ts i error status info n) (\<lambda>r. Value (snd r)))"

definition change_connector ::
  "'d query_engine \<Rightarrow> uint32 \<Rightarrow> (connector \<Rightarrow> connector) \<Rightarrow> ('d, 'c) connectors \<Rightarrow> bool \<times> ('d, 'c) connectors" where
  "change_connector e i f s =
     (case get_connector i s of
        None \<Rightarrow> (False, s)
      | Some c \<Rightarrow> if \<not> m_qUpdate s then (False, s) else save_connector e i (put_connector i (f c) s))"

definition updateTransaction ::
  "'d query_engine \<Rightarrow> uint32 \<Rightarrow> uint32 \<Rightarrow> string \<Rightarrow> string \<Rightarrow> ('d, 'c) connectors \<Rightarrow> bool \<times> ('d, 'c) connectors" where
  "updateTransaction e i transactionId idTag parentIdTag =
     change_connector e i (\<lambda>c. c\<lparr>tx_id := transactionId, tx_idTag := idTag, tx_parentIdTag := parentIdTag\<rparr>)"

definition updateReservation ::
  "'d query_engine \<Rightarrow> uint32 \<Rightarrow> uint32 \<Rightarrow> string \<Rightarrow> string \<Rightarrow> int64 \<Rightarrow> ReservationStatus \<Rightarrow> ('d, 'c) connectors \<Rightarrow> bool \<times> ('d, 'c) connectors" where
  "updateReservation e i reservationId idTag parentIdTag expiryDate status =
     change_connector e i (\<lambda>c. c\<lparr>rs_id := reservationId, rs_idTag := idTag, rs_parentIdTag := parentIdTag, rs_expiry := expiryDate,
       rs_status := status\<rparr>)"

definition updateAvailability :: "'d query_engine \<Rightarrow> uint32 \<Rightarrow> AvailabilityType \<Rightarrow> ('d, 'c) connectors \<Rightarrow> bool \<times> ('d, 'c) connectors" where
  "updateAvailability e i a = change_connector e i (\<lambda>c. c\<lparr>c_availability := availability_int a\<rparr>)"

definition setRegistrationStatus :: "RegistrationStatus \<Rightarrow> ('d, 'c) connectors \<Rightarrow> ('d, 'c) connectors" where
  "setRegistrationStatus r s = s\<lparr>m_regStatus := r\<rparr>"

section \<open>Initialisation\<close>

text \<open>Four new timers without a name; \<open>alloc i\<close> are the addresses that \<^verbatim>\<open>new\<close> returns for them.\<close>

definition initConnectorTimers :: "(uint32 \<Rightarrow> addr \<times> addr \<times> addr \<times> addr) \<Rightarrow> uint32 \<Rightarrow> ('d, 'c) connectors \<Rightarrow> ('d, 'c) connectors" where
  "initConnectorTimers alloc i s =
     (case get_connector i s of
        None \<Rightarrow> s
      | Some c \<Rightarrow>
          (case alloc i of
             (a1, a2, a3, a4) \<Rightarrow>
               put_connector i (c\<lparr>c_timers := [Some a1, Some a2, Some a3, Some a4] @ drop 4 (c_timers c)\<rparr>)
                 (s\<lparr>m_timerPool := fold (createTimer []) [a1, a2, a3, a4] (m_timerPool s)\<rparr>)))"

text \<open>The loop of \<^verbatim>\<open>resetConnectors\<close> over the positions \<open>js\<close>.\<close>

fun reset_each :: "'d query_engine \<Rightarrow> int64 \<Rightarrow> (uint32 \<Rightarrow> addr \<times> addr \<times> addr \<times> addr) \<Rightarrow> nat list \<Rightarrow> ('d, 'c) connectors \<Rightarrow>
    bool \<times> ('d, 'c) connectors" where
  "reset_each e now alloc [] s = (True, s)"
| "reset_each e now alloc (j # js) s =
     (let i = c_id (m_connectors s ! j); s1 = s\<lparr>m_connectors := (m_connectors s)[j := Connector now i]\<rparr>
      in (case insert_connector e i s1 of
            (False, s2) \<Rightarrow> (False, s2)
          | (True, s2) \<Rightarrow> reset_each e now alloc js (initConnectorTimers alloc i s2)))"

definition resetConnectors ::
  "'d query_engine \<Rightarrow> (string \<Rightarrow> bool) \<Rightarrow> int64 \<Rightarrow> time_point \<Rightarrow> (uint32 \<Rightarrow> addr \<times> addr \<times> addr \<times> addr) \<Rightarrow> ('d, 'c) connectors \<Rightarrow>
   (bool \<times> ('d, 'c) connectors) option" where
  "resetConnectors e prepared now clock alloc s =
     (case stopAllTimers clock (m_timerPool s) of
        None \<Rightarrow> None
      | Some tm \<Rightarrow>
          let s1 = s\<lparr>m_timerPool := tm\<rparr>
          in if \<not> prepared conn_delete then Some (True, s1)
             else (case query_exec e conn_delete [] (m_database s1) of
                     (False, _, d) \<Rightarrow> Some (True, s1\<lparr>m_database := d\<rparr>)
                   | (True, _, d) \<Rightarrow> Some (reset_each e now alloc [0..<length (m_connectors s1)] (s1\<lparr>m_database := d\<rparr>))))"

fun load_each :: "'d query_engine \<Rightarrow> int64 \<Rightarrow> (uint32 \<Rightarrow> addr \<times> addr \<times> addr \<times> addr) \<Rightarrow> nat list \<Rightarrow> ('d, 'c) connectors \<Rightarrow> ('d, 'c) connectors" where
  "load_each e now alloc [] s = s"
| "load_each e now alloc (j # js) s =
     (let i = c_id (m_connectors s ! j)
      in (case load_connector e i s of
            (True, s1) \<Rightarrow> load_each e now alloc js (initConnectorTimers alloc i s1)
          | (False, s1) \<Rightarrow>
              load_each e now alloc js (initConnectorTimers alloc i (s1\<lparr>m_connectors := (m_connectors s1)[j := Connector now i]\<rparr>))))"

definition initConnectorData ::
  "'d query_engine \<Rightarrow> (string \<Rightarrow> bool) \<Rightarrow> int64 \<Rightarrow> time_point \<Rightarrow> (uint32 \<Rightarrow> addr \<times> addr \<times> addr \<times> addr) \<Rightarrow> ('d, 'c) connectors \<Rightarrow>
   ('d, 'c) connectors option" where
  "initConnectorData e prepared now clock alloc s =
     (let (count, d) = (if prepared conn_count
                        then (case query_exec e conn_count [] (m_database s) of
                                (True, Some r, d) \<Rightarrow> (getUInt32 e r 0, d)
                              | (_, _, d) \<Rightarrow> (0, d))
                        else (0, m_database s));
          s1 = s\<lparr>m_database := d\<rparr>
      in if count \<noteq> of_nat (length (m_connectors s1)) then map_option snd (resetConnectors e prepared now clock alloc s1)
         else Some (load_each e now alloc [0..<length (m_connectors s1)] s1))"

definition initDatabaseTable ::
  "'d query_engine \<Rightarrow> (string \<Rightarrow> bool) \<Rightarrow> int64 \<Rightarrow> time_point \<Rightarrow> (uint32 \<Rightarrow> addr \<times> addr \<times> addr \<times> addr) \<Rightarrow> ('d, 'c) connectors \<Rightarrow>
   (bool \<times> ('d, 'c) connectors) option" where
  "initDatabaseTable e prepared now clock alloc s =
     (if \<not> prepared conn_create then Some (False, s)
      else (case query_exec e conn_create [] (m_database s) of
              (False, _, d) \<Rightarrow> Some (False, s\<lparr>m_database := d\<rparr>)
            | (True, _, d) \<Rightarrow>
                let s1 = s\<lparr>m_database := d, m_qInsert := prepared conn_insert, m_qUpdate := prepared conn_update, m_qFind := prepared conn_find\<rparr>
                in if prepared conn_insert \<and> prepared conn_update \<and> prepared conn_find
                   then map_option (Pair True) (initConnectorData e prepared now clock alloc s1)
                   else Some (False, s1)))"

section \<open>Changing the status\<close>

lemma get_connector_cases:
  assumes "m_connectors s \<noteq> []"
  shows "get_connector i s = (if unat i < length (m_connectors s) then Some (m_connectors s ! unat i) else None)"
proof -
  have "0 < length (m_connectors s)"
    using assms by simp
  then have "unat i > length (m_connectors s) - 1 \<longleftrightarrow> \<not> unat i < length (m_connectors s)"
    by linarith
  then show ?thesis
    by (simp add: get_connector_def connector_count_def)
qed

lemma save_connector_fields:
  "m_connectors (snd (save_connector e i s)) = m_connectors s" "m_threadPool (snd (save_connector e i s)) = m_threadPool s"
  "m_timerPool (snd (save_connector e i s)) = m_timerPool s" "m_regStatus (snd (save_connector e i s)) = m_regStatus s"
  by (simp_all add: save_connector_def split: option.split prod.split)

text \<open>
  C30. A change of status. While the thread pool takes tasks, a change is accepted exactly for a connector that exists and, unless it is
  forced, for a change that the table allows. An accepted change sets the status of that connector, leaves every other connector as it is and
  hands exactly one notification with the new status to the thread pool; a rejected one changes nothing.
\<close>

theorem update_status_spec:
  assumes "m_connectors s \<noteq> []" "\<not> tw_stop (m_threadPool s)"
  shows "\<exists>s'. updateStatus e i target error info force s =
      Some (unat i < length (m_connectors s) \<and> (force \<or> checkStatusTransition (c_status (m_connectors s ! unat i)) target), s') \<and>
    (if unat i < length (m_connectors s) \<and> (force \<or> checkStatusTransition (c_status (m_connectors s ! unat i)) target)
     then m_connectors s' = (m_connectors s)[unat i := (m_connectors s ! unat i)\<lparr>c_status := target\<rparr>] \<and>
          tw_tasks (m_threadPool s') = tw_tasks (m_threadPool s) @ [(i, error, target, info)] \<and>
          tw_history (m_threadPool s') = tw_history (m_threadPool s) @ [(i, error, target, info)]
     else s' = s)"
proof (cases "unat i < length (m_connectors s) \<and> (force \<or> checkStatusTransition (c_status (m_connectors s ! unat i)) target)")
  case True
  let ?c = "m_connectors s ! unat i"
  define s1 where "s1 = (if c_status ?c \<noteq> target then snd (save_connector e i (put_connector i (?c\<lparr>c_status := target\<rparr>) s)) else s)"
  have same: "c_status ?c = target \<Longrightarrow> (m_connectors s)[unat i := ?c\<lparr>c_status := target\<rparr>] = m_connectors s"
    by (metis connector.surjective connector.update_convs(2) list_update_id)
  have s1: "m_connectors s1 = (m_connectors s)[unat i := ?c\<lparr>c_status := target\<rparr>]" "m_threadPool s1 = m_threadPool s"
    using same by (simp_all add: s1_def save_connector_fields put_connector_def)
  have "updateStatus e i target error info force s = Some (True, s1\<lparr>m_threadPool := the (pool_enqueue (i, error, target, info) (m_threadPool s1))\<rparr>)"
    using True assms s1(2) by (simp add: updateStatus_def get_connector_cases s1_def [symmetric] Let_def pool_enqueue_def)
  then show ?thesis
    using True s1 assms(2) by (simp add: pool_enqueue_def)
next
  case False
  then show ?thesis
    using assms(1) by (auto simp: updateStatus_def get_connector_cases split: if_splits)
qed

definition demo_connectors :: "(nat, nat) connectors" where
  "demo_connectors = Connectors 0 2 (ThreadPool 1) (TimerPool 0) 0"

definition silent_engine :: "nat query_engine" where
  "silent_engine = \<lparr>sql_run = (\<lambda>_ _ d. (Sql_Done, d)), sql_int = (\<lambda>_. 0), int_affinity = (\<lambda>v. v)\<rparr>"

theorem update_status_spec_witness:
  "\<exists>s'. updateStatus silent_engine 1 ChargePointStatus.Preparing ChargePointErrorCode.NoError [] False demo_connectors = Some (True, s') \<and>
     map c_status (m_connectors s') = [ChargePointStatus.Available, ChargePointStatus.Preparing, ChargePointStatus.Available] \<and>
     length (tw_tasks (m_threadPool s')) = 1"
proof -
  have h: "m_connectors demo_connectors \<noteq> []" "\<not> tw_stop (m_threadPool demo_connectors)"
    by (simp_all add: demo_connectors_def Connectors_def ThreadPool_def)
  have c: "m_connectors demo_connectors = [Connector 0 0, Connector 0 1, Connector 0 2]" "tw_tasks (m_threadPool demo_connectors) = []"
    by (simp_all add: demo_connectors_def Connectors_def ThreadPool_def upt_rec)
  have t: "checkStatusTransition (c_status (m_connectors demo_connectors ! unat (1 :: uint32))) ChargePointStatus.Preparing"
    "unat (1 :: uint32) < length (m_connectors demo_connectors)"
    by (simp_all add: c Connector_def checkStatusTransition_def statusToTableId_def allowedTransitions_def)
  obtain s' where "updateStatus silent_engine 1 ChargePointStatus.Preparing ChargePointErrorCode.NoError [] False demo_connectors = Some (True, s')"
    "m_connectors s' = (m_connectors demo_connectors)[1 := (m_connectors demo_connectors ! 1)\<lparr>c_status := ChargePointStatus.Preparing\<rparr>]"
    "tw_tasks (m_threadPool s') = tw_tasks (m_threadPool demo_connectors) @ [(1, ChargePointErrorCode.NoError, ChargePointStatus.Preparing, [])]"
    using update_status_spec [OF h, of silent_engine 1 ChargePointStatus.Preparing ChargePointErrorCode.NoError "[]" False] t
    by (auto simp only: if_True simp_thms unat_1)
  then show ?thesis
    by (intro exI [of _ s']) (simp add: c Connector_def)
qed

end
