(* ===== verification/Connector_Table.thy ===== *)
theory Connector_Table
  imports Connectors
begin

text \<open>
  The connectors and their rows in the database (\<^verbatim>\<open>src/src/ocpp/Connector/Connectors.cpp\<close>): what is saved is what a
  restarted charge point loads. \<open>conn_engine\<close> states the documented effect of the six statements on the rows of the table,
  each a key with the values of the other columns; a statement that fails changes nothing.
\<close>

section \<open>The engine\<close>

type_synonym conn_rows = "(int \<times> sqlv list) list"

definition replace_row :: "int \<Rightarrow> sqlv list \<Rightarrow> conn_rows \<Rightarrow> conn_rows" where
  "replace_row k vs rs = map (\<lambda>r. if fst r = k then (k, vs) else r) rs"

definition conn_engine :: "'d query_engine \<Rightarrow> ('d \<Rightarrow> conn_rows) \<Rightarrow> bool" where
  "conn_engine e rows \<longleftrightarrow>
     (\<forall>d. runs_to e rows conn_create [] d Sql_Done (rows d)) \<and>
     (\<forall>d k c. k \<notin> fst ` set (rows d) \<longrightarrow>
        runs_to e rows conn_insert (VInt k # column_values c) d Sql_Done (rows d @ [(k, column_values c)])) \<and>
     (\<forall>d k c. runs_to e rows conn_update (column_values c @ [VInt k]) d Sql_Done (replace_row k (column_values c) (rows d))) \<and>
     (\<forall>d k. runs_to e rows conn_find [VInt k] d
        (case map_of (rows d) k of None \<Rightarrow> Sql_Done | Some vs \<Rightarrow> Sql_Row (VInt k # vs)) (rows d)) \<and>
     (\<forall>d. runs_to e rows conn_count [] d (Sql_Row [VInt (int (length (rows d)))]) (rows d)) \<and>
     (\<forall>d. runs_to e rows conn_delete [] d Sql_Done [])"

text \<open>No failure of the statements that a start runs when the table is complete.\<close>

definition reads_ok :: "'d query_engine \<Rightarrow> bool" where
  "reads_ok e \<longleftrightarrow> (\<forall>d. fst (sql_run e conn_create (binds []) d) \<noteq> Sql_Fail \<and> fst (sql_run e conn_count (binds []) d) \<noteq> Sql_Fail) \<and>
     (\<forall>d k. fst (sql_run e conn_find (binds [VInt k]) d) \<noteq> Sql_Fail)"

lemma runs_to_ok:
  assumes "runs_to e rows sql vs d rc rs" "fst (sql_run e sql (binds vs) d) \<noteq> Sql_Fail"
  obtains d' where "sql_run e sql (binds vs) d = (rc, d')" "rows d' = rs"
  using assms by (auto simp: runs_to_def split: prod.splits)

section \<open>Rows that agree with the connectors\<close>

definition numbered :: "connector list \<Rightarrow> bool" where
  "numbered cs \<longleftrightarrow> cs \<noteq> [] \<and> length cs < 2 ^ 32 \<and> (\<forall>j < length cs. c_id (cs ! j) = of_nat j)"

definition synced :: "conn_rows \<Rightarrow> connector list \<Rightarrow> bool" where
  "synced rs cs \<longleftrightarrow> numbered cs \<and> length rs = length cs \<and> (\<forall>j < length cs. map_of rs (int j) = Some (column_values (cs ! j)))"

lemma map_of_replace: "map_of (replace_row k vs rs) k' = (if k' = k then map_option (\<lambda>_. vs) (map_of rs k') else map_of rs k')"
  by (induction rs) (auto simp: replace_row_def)

lemma small_of_nat: "j < 2 ^ 32 \<Longrightarrow> unat (of_nat j :: uint32) = j"
  by (simp add: unat_of_nat take_bit_nat_eq_self)

lemma uint_of_index: "j < 2 ^ 32 \<Longrightarrow> uint (of_nat j :: uint32) = int j"
  by (metis small_of_nat uint_nat)

lemma synced_save:
  assumes e: "conn_engine e rows" and sy: "synced (rows (m_database s)) cs" and len: "unat i < length cs"
    and cs: "m_connectors s = cs[unat i := c]" "c_id c = i" and sv: "save_connector e i s = (True, s')"
  shows "synced (rows (m_database s')) (m_connectors s')"
proof -
  have ne: "m_connectors s \<noteq> []" "unat i < length (m_connectors s)"
    using sy cs len by (auto simp: synced_def numbered_def)
  have g: "get_connector i s = Some c"
    using ne cs len by (simp add: get_connector_cases)
  obtain r d where q: "query_exec e conn_update (column_values c @ [VInt (uint i)]) (m_database s) = (True, r, d)" and s': "s' = s\<lparr>m_database := d\<rparr>"
    using sv g by (auto simp: save_connector_def split: if_splits prod.splits)
  have u: "uint i = int (unat i)"
    by (rule uint_nat)
  have "runs_to e rows conn_update (column_values c @ [VInt (uint i)]) (m_database s) Sql_Done (replace_row (uint i) (column_values c) (rows (m_database s)))"
    using e by (simp add: conn_engine_def)
  from runs_to_exec [OF this q] have d: "rows d = replace_row (int (unat i)) (column_values c) (rows (m_database s))"
    unfolding u by simp
  have "numbered (cs[unat i := c])"
    using sy cs(2) len by (auto simp: synced_def numbered_def nth_list_update)
  moreover have "map_of (rows d) (int j) = Some (column_values (cs[unat i := c] ! j))" if "j < length cs" for j
  proof -
    have "map_of (rows (m_database s)) (int j) = Some (column_values (cs ! j))"
      using sy that by (simp add: synced_def)
    moreover have "int j = uint i \<longleftrightarrow> j = unat i"
      unfolding u by (rule of_nat_eq_iff)
    ultimately show ?thesis
      using that by (auto simp: d map_of_replace nth_list_update)
  qed
  ultimately show ?thesis
    using sy by (simp add: synced_def s' cs d replace_row_def)
qed

lemma change_synced:
  assumes "conn_engine e rows" "synced (rows (m_database s)) (m_connectors s)" "\<And>c. c_id (f c) = c_id c"
    "change_connector e i f s = (True, s')"
  shows "synced (rows (m_database s')) (m_connectors s') \<and> unat i < length (m_connectors s) \<and>
    m_connectors s' = (m_connectors s)[unat i := f (m_connectors s ! unat i)]"
proof -
  have ne: "m_connectors s \<noteq> []" and num: "unat i < length (m_connectors s) \<Longrightarrow> c_id (m_connectors s ! unat i) = i"
    using assms(2) by (auto simp: synced_def numbered_def)
  then have i: "unat i < length (m_connectors s)" and sv: "save_connector e i (put_connector i (f (m_connectors s ! unat i)) s) = (True, s')"
    using assms(4) by (auto simp: change_connector_def get_connector_cases split: if_splits)
  have "m_connectors s' = (m_connectors s)[unat i := f (m_connectors s ! unat i)]"
    using save_connector_fields(1) [of e i "put_connector i (f (m_connectors s ! unat i)) s"] sv by (simp add: put_connector_def)
  then show ?thesis
    using synced_save [OF assms(1) _ i _ _ sv, of "f (m_connectors s ! unat i)"] assms(2,3) i num
    by (simp add: put_connector_def)
qed

section \<open>Loading\<close>

lemma column_values_cstr: "column_values c = map (\<lambda>v. case v of VText t \<Rightarrow> VText (to_cstr t) | _ \<Rightarrow> v) (column_values c)"
  by (simp add: column_values_def to_cstr_idem)

lemma load_row_values:
  "column_values (load_row e i (VInt k # column_values c0) c) = column_values c0"
  "rs_status (load_row e i (VInt k # column_values c0) c) = rs_status c" "c_id (load_row e i r c) = i"
  using status_name_round_trip [of "c_status c0"]
  by (auto simp: load_row_def column_values_def getString_def getInt64_def text_of_def to_cstr_idem status_name_cstr toEnum_default_def
      toEnum_def split: option.splits)

text \<open>A connector without its timers.\<close>

definition core :: "connector \<Rightarrow> connector" where
  "core c = c\<lparr>c_timers := []\<rparr>"

lemma core_fields:
  assumes "core c = core c'"
  shows "c_id c = c_id c'" "column_values c = column_values c'" "rs_status c = rs_status c'"
proof -
  have "c_id (core c) = c_id (core c')" "column_values (core c) = column_values (core c')" "rs_status (core c) = rs_status (core c')"
    by (simp_all only: assms)
  then show "c_id c = c_id c'" "column_values c = column_values c'" "rs_status c = rs_status c'"
    by (simp_all add: core_def column_values_def)
qed

lemma core_update: "map core (cs[k := (cs ! k)\<lparr>c_timers := ts\<rparr>]) = map core cs"
proof (cases "k < length cs")
  case True
  then show ?thesis by (intro nth_equalityI) (auto simp: nth_list_update core_def)
qed (simp add: list_update_beyond)

lemma timers_core:
  "map core (m_connectors (initConnectorTimers alloc i s)) = map core (m_connectors s)"
  "m_database (initConnectorTimers alloc i s) = m_database s" "m_qFind (initConnectorTimers alloc i s) = m_qFind s"
  "length (m_connectors (initConnectorTimers alloc i s)) = length (m_connectors s)"
  by (simp_all add: initConnectorTimers_def put_connector_def get_connector_def core_update split: option.split prod.split)

text \<open>One step of the loop over the connectors: the row of connector \<open>j\<close> is loaded.\<close>

lemma load_step:
  assumes e: "conn_engine e rows" "reads_ok e" and q: "m_qFind s" and num: "numbered (m_connectors s)" and j: "j < length (m_connectors s)"
    and row: "map_of (rows (m_database s)) (int j) = Some (column_values c0)"
  obtains d c where "load_connector e (of_nat j) s = (True, s\<lparr>m_connectors := (m_connectors s)[j := c], m_database := d\<rparr>)"
    "rows d = rows (m_database s)" "column_values c = column_values c0" "c_id c = of_nat j" "rs_status c = rs_status (m_connectors s ! j)"
proof -
  have small: "j < 2 ^ 32" and ne: "m_connectors s \<noteq> []"
    using num j by (auto simp: numbered_def)
  have "runs_to e rows conn_find [VInt (int j)] (m_database s) (Sql_Row (VInt (int j) # column_values c0)) (rows (m_database s))"
    using e(1) row unfolding conn_engine_def by (metis (no_types, lifting) option.simps(5))
  then obtain d where d: "sql_run e conn_find (binds [VInt (int j)]) (m_database s) = (Sql_Row (VInt (int j) # column_values c0), d)"
    "rows d = rows (m_database s)"
    using e(2) by (auto simp: reads_ok_def elim!: runs_to_ok)
  have "getUInt32 e (VInt (int j) # column_values c0) 0 = (of_nat j :: uint32)"
    by (simp add: getUInt32_def getInt64_def)
  then have "load_connector e (of_nat j) s = (True, s\<lparr>m_connectors := (m_connectors s)[j :=
      load_row e (of_nat j) (VInt (int j) # column_values c0) (m_connectors s ! j)], m_database := d\<rparr>)"
    using q j d(1) small ne
    by (simp add: load_connector_def get_connector_cases small_of_nat uint_of_index query_exec_def put_connector_def)
  then show thesis
    by (rule that) (simp_all add: load_row_values d(2))
qed

lemma numbered_update: "numbered cs \<Longrightarrow> c_id c = of_nat j \<Longrightarrow> numbered (cs[j := c])"
  by (cases "j < length cs") (auto simp: numbered_def nth_list_update)

lemma core_nth:
  assumes "map core cs = map core cs'" "j < length cs'"
  shows "core (cs ! j) = core (cs' ! j)"
  using assms by (metis length_map nth_map)

lemma numbered_core:
  assumes "map core cs = map core cs'" "numbered cs'"
  shows "numbered cs"
proof -
  have "length cs = length cs'"
    using assms(1) by (rule map_eq_imp_length_eq)
  then show ?thesis
    using assms(2) core_fields(1) [OF core_nth [OF assms(1)]] by (auto simp: numbered_def)
qed

lemma load_each_values:
  assumes "conn_engine e rows" "reads_ok e" "m_qFind s" "numbered (m_connectors s)" "distinct js" "\<forall>j \<in> set js. j < length (m_connectors s)"
    "\<forall>j \<in> set js. map_of (rows (m_database s)) (int j) = Some (column_values (cs ! j))"
  shows "numbered (m_connectors (load_each e now alloc js s)) \<and> length (m_connectors (load_each e now alloc js s)) = length (m_connectors s) \<and>
    rows (m_database (load_each e now alloc js s)) = rows (m_database s) \<and>
    (\<forall>j < length (m_connectors s).
       column_values (m_connectors (load_each e now alloc js s) ! j) =
         (if j \<in> set js then column_values (cs ! j) else column_values (m_connectors s ! j)) \<and>
       rs_status (m_connectors (load_each e now alloc js s) ! j) = rs_status (m_connectors s ! j))"
  using assms
proof (induction js arbitrary: s)
  case (Cons k js)
  obtain d c where l: "load_connector e (of_nat k) s = (True, s\<lparr>m_connectors := (m_connectors s)[k := c], m_database := d\<rparr>)"
    and d: "rows d = rows (m_database s)" and c: "column_values c = column_values (cs ! k)" "c_id c = of_nat k" "rs_status c = rs_status (m_connectors s ! k)"
    using load_step [OF Cons.prems(1-4), of k "cs ! k"] Cons.prems(6,7) by auto
  let ?s = "s\<lparr>m_connectors := (m_connectors s)[k := c], m_database := d\<rparr>"
  let ?t = "initConnectorTimers alloc (of_nat k) ?s"
  have k: "c_id (m_connectors s ! k) = of_nat k" "k < length (m_connectors s)"
    using Cons.prems(4,6) by (auto simp: numbered_def)
  have t: "map core (m_connectors ?t) = map core ((m_connectors s)[k := c])" "m_database ?t = d" "m_qFind ?t = m_qFind s"
    "length (m_connectors ?t) = length (m_connectors s)"
    by (simp_all add: timers_core)
  have num: "numbered (m_connectors ?t)"
    by (rule numbered_core [OF t(1) numbered_update [OF Cons.prems(4) c(2)]])
  have v: "column_values (m_connectors ?t ! j) = column_values ((m_connectors s)[k := c] ! j)"
    "rs_status (m_connectors ?t ! j) = rs_status ((m_connectors s)[k := c] ! j)" if "j < length (m_connectors s)" for j
    using core_fields [OF core_nth [OF t(1), of j]] that by simp_all
  have IH: "numbered (m_connectors (load_each e now alloc js ?t)) \<and> length (m_connectors (load_each e now alloc js ?t)) = length (m_connectors ?t) \<and>
    rows (m_database (load_each e now alloc js ?t)) = rows (m_database ?t) \<and>
    (\<forall>j < length (m_connectors ?t).
       column_values (m_connectors (load_each e now alloc js ?t) ! j) =
         (if j \<in> set js then column_values (cs ! j) else column_values (m_connectors ?t ! j)) \<and>
       rs_status (m_connectors (load_each e now alloc js ?t) ! j) = rs_status (m_connectors ?t ! j))"
    by (rule Cons.IH) (use Cons.prems t d num in auto)
  have "load_each e now alloc (k # js) s = load_each e now alloc js ?t"
    using k(1) l by (simp add: Let_def)
  then show ?case
    using IH t d v c k(2) Cons.prems(5) by (auto simp: nth_list_update)
qed simp

section \<open>A restart\<close>

lemma new_connectors:
  assumes "n < 2 ^ 32 - 1"
  shows "numbered (m_connectors (Connectors now n tp tm d))" "length (m_connectors (Connectors now n tp tm d)) = n + 1"
    "j < n + 1 \<Longrightarrow> rs_status (m_connectors (Connectors now n tp tm d) ! j) = ReservationStatus.Rejected"
  using assms by (auto simp: Connectors_def numbered_def Connector_def simp del: upt_Suc)

lemma init_loads:
  assumes e: "conn_engine e rows" "reads_ok e" and sy: "synced (rows d) cs"
  shows "\<exists>s. initDatabaseTable e (\<lambda>_. True) now clock alloc (Connectors now (length cs - 1) tp tm d) = Some (True, s) \<and>
    synced (rows (m_database s)) (m_connectors s) \<and> map column_values (m_connectors s) = map column_values cs \<and>
    list_all (\<lambda>c. rs_status c = ReservationStatus.Rejected) (m_connectors s)"
proof -
  define n where "n = length cs - 1"
  have len: "length cs = n + 1" "n < 2 ^ 32 - 1"
    using sy by (auto simp: synced_def numbered_def n_def)
  note new = new_connectors [OF len(2), where now = now and tp = tp and tm = tm and d = d]
  have "runs_to e rows conn_create [] d Sql_Done (rows d)"
    using e(1) by (simp add: conn_engine_def)
  then obtain d1 where d1: "sql_run e conn_create (binds []) d = (Sql_Done, d1)" "rows d1 = rows d"
    using e(2) by (auto simp: reads_ok_def elim!: runs_to_ok)
  have "runs_to e rows conn_count [] d1 (Sql_Row [VInt (int (length (rows d1)))]) (rows d1)"
    using e(1) by (simp add: conn_engine_def)
  then obtain d2 where d2: "sql_run e conn_count (binds []) d1 = (Sql_Row [VInt (int (length (rows d1)))], d2)" "rows d2 = rows d1"
    using e(2) by (auto simp: reads_ok_def elim!: runs_to_ok)
  let ?s = "(Connectors now n tp tm d)\<lparr>m_database := d2, m_qInsert := True, m_qUpdate := True, m_qFind := True\<rparr>"
  let ?r = "load_each e now alloc [0..<n + 1] ?s"
  have cnt: "getUInt32 e [VInt (int (length (rows d1)))] 0 = (of_nat (n + 1) :: uint32)"
    using sy len d1(2) by (simp add: getUInt32_def getInt64_def synced_def)
  have r: "initDatabaseTable e (\<lambda>_. True) now clock alloc (Connectors now n tp tm d) = Some (True, ?r)"
    using d1(1) d2(1) cnt new(2)
    by (simp add: initDatabaseTable_def query_exec_def initConnectorData_def Connectors_def Let_def del: upt_Suc)
  have rows: "\<forall>j \<in> set [0..<n + 1]. map_of (rows (m_database ?s)) (int j) = Some (column_values (cs ! j))"
    using sy len(1) d1(2) d2(2) by (simp add: synced_def)
  have "numbered (m_connectors ?r) \<and> length (m_connectors ?r) = n + 1 \<and> rows (m_database ?r) = rows d \<and>
    (\<forall>j < n + 1. column_values (m_connectors ?r ! j) = column_values (cs ! j) \<and> rs_status (m_connectors ?r ! j) = ReservationStatus.Rejected)"
    using load_each_values [OF e _ _ _ _ rows, of now alloc] new d1(2) d2(2) by (simp del: upt_Suc)
  then have "synced (rows (m_database ?r)) (m_connectors ?r) \<and> map column_values (m_connectors ?r) = map column_values cs \<and>
    list_all (\<lambda>c. rs_status c = ReservationStatus.Rejected) (m_connectors ?r)"
    using sy len(1) by (auto simp: synced_def list_all_length intro!: nth_equalityI simp del: upt_Suc)
  with r show ?thesis
    unfolding n_def by blast
qed

text \<open>
  C31. Connectors survive a restart. If the rows of the table agree with the connectors, they still do after a transaction was stored successfully, and
  a charge point that starts on the same database with the same number of connectors, while its reads succeed, has exactly the stored values: status, transaction,
  reservation and availability of every connector, that transaction among them. The status of a reservation is not stored: every one is back
  at rejected.
\<close>

theorem connectors_survive_restart:
  assumes "conn_engine e rows" "reads_ok e" "synced (rows (m_database s)) (m_connectors s)"
    "updateTransaction e i transactionId idTag parentIdTag s = (True, s')"
  shows "\<exists>s2. initDatabaseTable e (\<lambda>_. True) now clock alloc (Connectors now (connector_count s') tp tm (m_database s')) = Some (True, s2) \<and>
    synced (rows (m_database s2)) (m_connectors s2) \<and> map column_values (m_connectors s2) = map column_values (m_connectors s') \<and>
    tx_id (m_connectors s2 ! unat i) = transactionId \<and> list_all (\<lambda>c. rs_status c = ReservationStatus.Rejected) (m_connectors s2)"
proof -
  note c = change_synced [OF assms(1,3) _ assms(4) [unfolded updateTransaction_def], simplified]
  obtain s2 where s2: "initDatabaseTable e (\<lambda>_. True) now clock alloc (Connectors now (connector_count s') tp tm (m_database s')) = Some (True, s2)"
    "synced (rows (m_database s2)) (m_connectors s2)" "map column_values (m_connectors s2) = map column_values (m_connectors s')"
    "list_all (\<lambda>c. rs_status c = ReservationStatus.Rejected) (m_connectors s2)"
    using init_loads [OF assms(1,2), of "m_database s'" "m_connectors s'" now clock alloc tp tm] c by (auto simp: connector_count_def)
  have "unat i < length (m_connectors s2)"
    using c s2(3) by (metis length_list_update length_map)
  then have "column_values (m_connectors s2 ! unat i) = column_values (m_connectors s' ! unat i)"
    using s2(3) by (metis length_map nth_map)
  then have "tx_id (m_connectors s2 ! unat i) = transactionId"
    using c by (simp add: column_values_def word_uint_eq_iff)
  with s2 show ?thesis by blast
qed

text \<open>An engine that keeps the rows in a list, for the example.\<close>

definition key_of :: "sqlv \<Rightarrow> int" where
  "key_of v = (case v of VInt k \<Rightarrow> k | _ \<Rightarrow> 0)"

definition rows_run :: "string \<Rightarrow> bindings \<Rightarrow> conn_rows \<Rightarrow> sql_rc \<times> conn_rows" where
  "rows_run sql b rs =
     (if sql = conn_create then (Sql_Done, rs)
      else if sql = conn_insert
      then (if key_of (b 1) \<in> fst ` set rs then (Sql_Fail, rs) else (Sql_Done, rs @ [(key_of (b 1), map b [2..<11])]))
      else if sql = conn_update then (Sql_Done, replace_row (key_of (b 10)) (map b [1..<10]) rs)
      else if sql = conn_find then (case map_of rs (key_of (b 1)) of None \<Rightarrow> (Sql_Done, rs) | Some vs \<Rightarrow> (Sql_Row (VInt (key_of (b 1)) # vs), rs))
      else if sql = conn_count then (Sql_Row [VInt (int (length rs))], rs)
      else (Sql_Done, []))"

definition rows_engine :: "conn_rows query_engine" where
  "rows_engine = \<lparr>sql_run = rows_run, sql_int = (\<lambda>_. 0), int_affinity = (\<lambda>v. v)\<rparr>"

lemma conn_sql_distinct:
  "conn_insert \<noteq> conn_create" "conn_update \<noteq> conn_create" "conn_update \<noteq> conn_insert" "conn_find \<noteq> conn_create" "conn_find \<noteq> conn_insert"
  "conn_find \<noteq> conn_update" "conn_count \<noteq> conn_create" "conn_count \<noteq> conn_insert" "conn_count \<noteq> conn_update" "conn_count \<noteq> conn_find"
  "conn_delete \<noteq> conn_create" "conn_delete \<noteq> conn_insert" "conn_delete \<noteq> conn_update" "conn_delete \<noteq> conn_find" "conn_delete \<noteq> conn_count"
  by (simp_all add: conn_create_def conn_insert_def conn_update_def conn_find_def conn_count_def conn_delete_def)

lemma rows_engine_ok: "conn_engine rows_engine (\<lambda>rs. rs)" "reads_ok rows_engine"
  unfolding conn_engine_def reads_ok_def
  by (auto simp: runs_to_def rows_engine_def rows_run_def conn_sql_distinct column_values_def key_of_def binds_def upt_rec split: option.split)

definition demo_rows :: "(conn_rows, nat) connectors" where
  "demo_rows = (Connectors 0 1 (ThreadPool 1) (TimerPool 0) [])\<lparr>m_qUpdate := True,
     m_database := [(0, column_values (Connector 0 0)), (1, column_values (Connector 0 1))]\<rparr>"

theorem connectors_survive_restart_witness:
  "\<exists>s' s2. updateTransaction rows_engine 1 77 ''A'' [] demo_rows = (True, s') \<and>
     initDatabaseTable rows_engine (\<lambda>_. True) 9 0 (\<lambda>i. (1, 2, 3, 4)) (Connectors 9 (connector_count s') (ThreadPool 1) (TimerPool 0 :: nat timer_pool) (m_database s')) =
       Some (True, s2) \<and> tx_id (m_connectors s2 ! 1) = 77"
proof -
  have cs: "m_connectors demo_rows = [Connector 0 0, Connector 0 1]"
    by (simp add: demo_rows_def Connectors_def upt_rec)
  have db: "m_database demo_rows = [(0, column_values (Connector 0 0)), (1, column_values (Connector 0 1))]" "m_qUpdate demo_rows"
    by (simp_all add: demo_rows_def)
  have sy: "synced (m_database demo_rows) (m_connectors demo_rows)"
    by (auto simp: synced_def numbered_def cs db Connector_def less_Suc_eq)
  have "fst (updateTransaction rows_engine 1 77 ''A'' [] demo_rows)"
    by (simp add: updateTransaction_def change_connector_def save_connector_def get_connector_def connector_count_def put_connector_def cs
        query_exec_def rows_engine_def rows_run_def conn_sql_distinct db)
  then obtain s' where u: "updateTransaction rows_engine 1 77 ''A'' [] demo_rows = (True, s')"
    by (cases "updateTransaction rows_engine 1 77 ''A'' [] demo_rows") auto
  from connectors_survive_restart [OF rows_engine_ok sy u, of 9 0 "\<lambda>i. (1, 2, 3, 4)" "ThreadPool 1" "TimerPool 0"] u show ?thesis
    by auto
qed

end
