(* ===== verification/Config_Manager.thy ===== *)
theory Config_Manager
  imports Ocpp_Message "HOL-Library.AList" "HOL-Library.Sublist"
begin

text \<open>
  The configuration manager of the charge point (\<^verbatim>\<open>src/src/ocpp/config/ConfigManager.cpp\<close>, \<^verbatim>\<open>ConfigDefaults.cpp\<close>):
  one JSON document with the values of all settings, completed from built-in defaults, read and changed by paths such as
  \<^verbatim>\<open>ChargePoint.ConnectionUrl\<close>, saved to a cache file and watched by subscribers.
  \<^item> The parser and the writer of JSON are parameters. The text of the built-in defaults is the value it denotes.
  \<^item> A member of an object is found by its name, the first one if a name occurs twice. The text of a number that is not an
    integer stands for its value.
  \<^item> What is done with \<^verbatim>\<open>m_cfgMutex\<close> held is one step. The mutex is not recursive: locking it twice in one call does not return.
\<close>

section \<open>Types of values\<close>

datatype rtype = kNullType | kFalseType | kTrueType | kObjectType | kArrayType | kStringType | kNumberType

definition GetType :: "rjson \<Rightarrow> rtype" where
  "GetType v = (case v of RNull \<Rightarrow> kNullType | RBool b \<Rightarrow> if b then kTrueType else kFalseType | RInt _ \<Rightarrow> kNumberType
     | RReal _ \<Rightarrow> kNumberType | RString _ \<Rightarrow> kStringType | RArray _ \<Rightarrow> kArrayType | RObject _ \<Rightarrow> kObjectType)"

definition same_type :: "rjson \<Rightarrow> rjson \<Rightarrow> bool" where
  "same_type v d \<longleftrightarrow> IsBool v \<and> IsBool d \<or> GetType v = GetType d"

section \<open>Built-in defaults\<close>

definition charge_point_defaults :: "(string \<times> rjson) list" where
  "charge_point_defaults =
     [(''CallRequestTimeout'', RInt 30),
      (''ChargePointIdentifier'', RString ''DeYeL430''),
      (''ChargePointSerialNumber'', RString ''SN123456''),
      (''ClientCertificateRequestEcCurve'', RString ''P-256''),
      (''ClientCertificateRequestHashType'', RString ''SHA256''),
      (''ClientCertificateRequestKeyType'', RString ''RSA''),
      (''ClientCertificateRequestRsaKeyLength'', RInt 2048),
      (''ClientCertificateRequestSubjectCountry'', RString ''CN''),
      (''ClientCertificateRequestSubjectEmail'', RString ''it@deye.com.cn''),
      (''ClientCertificateRequestSubjectLocation'', RString ''Ningbo''),
      (''ClientCertificateRequestSubjectOrganizationUnit'', RString ''OrganizationUnit''),
      (''ClientCertificateRequestSubjectState'', RString ''State''),
      (''ConnectionTimeout'', RInt 3000),
      (''ConnectionUrl'', RString ''ws://172.30.1.88:8080/steve/websocket/CentralSystemService''),
      (''DatabasePath'', RString ''/usr/local/app/ocpp/chargepoint.db''),
      (''FirmwareVersion'', RString ''v1.0''),
      (''FirmwareSavePath'', RString ''/tmp''),
      (''SecurityLogSavePath'', RString ''/usr/local/app/ocpp''),
      (''Iccid'', RString ''111''),
      (''Imsi'', RString ''111''),
      (''JsonSchemasPath'', RString ''/usr/local/app/ocpp/schema/json''),
      (''MeterSerialNumber'', RString ''MeterSN123''),
      (''MeterType'', RString ''MainMeterType''),
      (''Model'', RString ''YourModel''),
      (''Vendor'', RString ''DeYe''),
      (''Protocol'', RString ''ocpp1.6''),
      (''OcppSoftwareVersion'', RString ''OCPP1.6_g00000''),
      (''RetryInterval'', RInt 2000),
      (''TransactionMessageAttempts'', RInt 3),
      (''LocalListVersion'', RInt 0),
      (''SecurityProfile'', RInt 1),
      (''Tlsv12CipherList'', RString ''ECDHE-ECDSA-AES256-GCM-SHA384:ECDHE-RSA-AES256-GCM-SHA384''),
      (''Tlsv13CipherList'', RString ''TLS_AES_128_GCM_SHA256:TLS_AES_256_GCM_SHA384''),
      (''TlsServerCertificateCa'', RString ''/usr/local/app/ocpp/open-ocpp_ca.crt''),
      (''TlsClientCertificate'', RString ''/usr/local/app/ocpp/open-ocpp_charge-point.crt''),
      (''TlsClientCertificatePrivateKey'', RString ''/usr/local/app/ocpp/open-ocpp_charge-point.key''),
      (''TlsClientCertificatePrivateKeyPassphrase'', RString []),
      (''InternalCertificateManagementEnabled'', RBool False),
      (''TlsAllowSelfSignedCertificates'', RBool True),
      (''TlsAllowExpiredCertificates'', RBool False),
      (''TlsAcceptNonTrustedCertificates'', RBool False),
      (''TlsSkipServerNameCheck'', RBool False),
      (''SecurityEventNotificationEnabled'', RBool True),
      (''SecurityLogMaxEntriesCount'', RInt 2000),
      (''AuthentCacheMaxEntriesCount'', RInt 1000)]"

definition ocpp_defaults :: "(string \<times> rjson) list" where
  "ocpp_defaults =
     [(''AllowOfflineTxForUnknownId'', RBool False),
      (''AuthorizationCacheEnabled'', RBool False),
      (''AuthorizeRemoteTxRequests'', RBool True),
      (''ClockAlignedDataInterval'', RInt 3600),
      (''ConnectorPhaseRotation'', RString ''NotApplicable''),
      (''GetConfigurationMaxKeys'', RInt 150),
      (''HeartbeatInterval'', RInt 15),
      (''LocalAuthListEnabled'', RBool False),
      (''LocalAuthListMaxLength'', RInt 500),
      (''LocalAuthorizeOffline'', RBool False),
      (''LocalPreAuthorize'', RBool False),
      (''MeterValueSampleInterval'', RInt 60),
      (''MeterValuesAlignedData'', RString ''Energy.Active.Import.Register''),
      (''MeterValuesAlignedDataMaxLength'', RInt 64),
      (''MeterValuesSampledData'', RString ''Energy.Active.Import.Register''),
      (''MeterValuesSampledDataMaxLength'', RInt 64),
      (''NumberOfConnectors'', RInt 8),
      (''ReserveConnectorZeroSupported'', RBool False),
      (''ResetRetries'', RInt 2),
      (''SendLocalListMaxLength'', RInt 0),
      (''StopTransactionOnEVSideDisconnect'', RBool True),
      (''StopTransactionOnInvalidId'', RBool False),
      (''StopTxnAlignedData'', RString ''Energy.Active.Import.Register''),
      (''StopTxnAlignedDataMaxLength'', RInt 64),
      (''StopTxnSampledData'', RString ''Energy.Active.Import.Register''),
      (''StopTxnSampledDataMaxLength'', RInt 64),
      (''SupportedFeatureProfiles'', RString ''Core,FirmwareManagement,LocalAuthListManagement,Reservation,RemoteTrigger''),
      (''SupportedFeatureProfilesMaxLength'', RInt 128),
      (''TransactionMessageAttempts'', RInt 0),
      (''TransactionMessageRetryInterval'', RInt 60),
      (''WebSocketPingInterval'', RInt 30),
      (''ConnectionTimeOut'', RInt 180),
      (''AdditionalRootCertificateCheck'', RBool False),
      (''AuthorizationKey'', RString ''123123''),
      (''CertificateSignedMaxChainSize'', RInt 10000),
      (''CertificateStoreMaxLength'', RInt 50),
      (''CpoName'', RString ''DeYe OCPP1_6''),
      (''SupportedFileTransferProtocols'', RString ''FTP,FTPS,HTTP,HTTPS''),
      (''UnlockConnectorOnEVSideDisconnect'', RBool True)]"


definition DEFAULT_CONFIG :: "(string \<times> rjson) list" where
  "DEFAULT_CONFIG = [(''ChargePoint'', RObject charge_point_defaults), (''OCPP1_6'', RObject ocpp_defaults)]"

section \<open>Checking and completing a document\<close>

text \<open>Members by name: the value of the first one, and its replacement.\<close>

fun set_member :: "string \<Rightarrow> rjson \<Rightarrow> (string \<times> rjson) list \<Rightarrow> (string \<times> rjson) list" where
  "set_member k v [] = []"
| "set_member k v ((k', w) # ms) = (if k' = k then (k', v) # ms else (k', w) # set_member k v ms)"

text \<open>The size of a list of members, which bounds the recursion into the objects among them.\<close>

definition members_size :: "(string \<times> rjson) list \<Rightarrow> nat" where
  "members_size ms = (\<Sum>p\<leftarrow>ms. Suc (size (snd p)))"

lemma members_size_object: "members_size ds \<le> size_list (size_prod (\<lambda>_. 0) size) ds + n"
  by (induction ds) (auto simp: members_size_def)

lemma members_size_simps [simp]: "members_size [] = 0" "members_size (p # ms) = Suc (size (snd p)) + members_size ms"
  by (simp_all add: members_size_def)

text \<open>
  \<^verbatim>\<open>checkNode\<close> on the members of the default object. The document is asked for each member even when it is not an object, as
  after a type mismatch below an object: this fails the assertion of \<^verbatim>\<open>HasMember\<close>.
\<close>

function (sequential) checkNode :: "bool \<Rightarrow> (string \<times> rjson) list \<Rightarrow> rjson \<Rightarrow> bool outcome" where
  "checkNode asserts [] cfgNode = Value True"
| "checkNode asserts ((k, RObject ds) # ms) cfgNode =
     (if \<not> IsObject cfgNode then assert_failed asserts
      else (case FindMember cfgNode (to_cstr k) of
              None \<Rightarrow> bind_outcome (checkNode asserts ms cfgNode) (\<lambda>_. Value False)
            | Some v \<Rightarrow>
                bind_outcome (checkNode asserts ds v) (\<lambda>b.
                bind_outcome (checkNode asserts ms cfgNode) (\<lambda>b'. Value (same_type v (RObject ds) \<and> b \<and> b')))))"
| "checkNode asserts ((k, d) # ms) cfgNode =
     (if \<not> IsObject cfgNode then assert_failed asserts
      else (case FindMember cfgNode (to_cstr k) of
              None \<Rightarrow> bind_outcome (checkNode asserts ms cfgNode) (\<lambda>_. Value False)
            | Some v \<Rightarrow> bind_outcome (checkNode asserts ms cfgNode) (\<lambda>b'. Value (same_type v d \<and> b'))))"
  by pat_completeness auto
termination
  by (relation "measure (\<lambda>(_, ms, _). members_size ms)") (auto simp: less_Suc_eq_le members_size_object le_Suc_eq)

text \<open>\<^verbatim>\<open>mergeNode\<close>, on the members of both objects.\<close>

function (sequential) mergeNode :: "(string \<times> rjson) list \<Rightarrow> (string \<times> rjson) list \<Rightarrow> (string \<times> rjson) list" where
  "mergeNode [] cs = cs"
| "mergeNode ((k, d) # ms) cs =
     mergeNode ms
       (case map_of cs (to_cstr k) of
          None \<Rightarrow> cs @ [(to_cstr k, d)]
        | Some v \<Rightarrow>
            if \<not> same_type v d then set_member (to_cstr k) d cs
            else (case (d, v) of
                    (RObject ds, RObject vs) \<Rightarrow> set_member (to_cstr k) (RObject (mergeNode ds vs)) cs
                  | _ \<Rightarrow> cs))"
  by pat_completeness auto
termination
  by (relation "measure (\<lambda>(ms, _). members_size ms)") (auto simp: less_Suc_eq_le members_size_object le_Suc_eq)

text \<open>The outcome of \<^verbatim>\<open>validateAndMergeConfig\<close>: the completed document, or \<^const>\<open>None\<close> if it reports a failure.\<close>

definition validateAndMergeConfig :: "bool \<Rightarrow> rjson \<Rightarrow> rjson option outcome" where
  "validateAndMergeConfig asserts config =
     (case config of
        RObject cs \<Rightarrow> bind_outcome (checkNode asserts DEFAULT_CONFIG config) (\<lambda>_. Value (Some (RObject (mergeNode DEFAULT_CONFIG cs))))
      | _ \<Rightarrow> Value None)"

section \<open>Paths\<close>

fun split_key :: "string \<Rightarrow> string list" where
  "split_key [] = [[]]"
| "split_key (c # cs) =
     (if c = CHR ''.'' then [] # split_key cs
      else (case split_key cs of [] \<Rightarrow> [[c]] | s # ss \<Rightarrow> (c # s) # ss))"

text \<open>\<^verbatim>\<open>findNode\<close>: an empty segment is an error.\<close>

fun find_node :: "string list \<Rightarrow> rjson \<Rightarrow> rjson option" where
  "find_node [] v = Some v"
| "find_node (s # ss) v =
     (if s = [] then None
      else if \<not> IsObject v then None
      else (case FindMember v (to_cstr s) of None \<Rightarrow> None | Some w \<Rightarrow> find_node ss w))"

definition findNode :: "string \<Rightarrow> rjson \<Rightarrow> rjson option" where
  "findNode key doc = find_node (split_key key) doc"

text \<open>The search of \<^verbatim>\<open>CompareJsonTypeByPath\<close> takes empty segments for names.\<close>

fun lookup_path :: "string list \<Rightarrow> rjson \<Rightarrow> rjson option" where
  "lookup_path [] v = Some v"
| "lookup_path (s # ss) v =
     (if \<not> IsObject v then None else (case FindMember v (to_cstr s) of None \<Rightarrow> None | Some w \<Rightarrow> lookup_path ss w))"

definition CompareJsonTypeByPath :: "string \<Rightarrow> rjson \<Rightarrow> rjson \<Rightarrow> bool" where
  "CompareJsonTypeByPath keyPath doc target =
     (if keyPath = [] then GetType target = kObjectType
      else (case lookup_path (split_key keyPath) doc of None \<Rightarrow> False | Some current \<Rightarrow> same_type target current))"

text \<open>
  \<^verbatim>\<open>findOrCreateParentNode\<close> along the segments before the last one. A member that it creates has a name that refers to a
  local variable of the loop, so that every later use of the document is undefined.
\<close>

fun walk_parents :: "string list \<Rightarrow> rjson \<Rightarrow> bool outcome" where
  "walk_parents [] v = Value (IsObject v)"
| "walk_parents (s # ss) v =
     (if s = [] then Value False
      else if \<not> IsObject v then Value False
      else (case FindMember v (to_cstr s) of None \<Rightarrow> Undefined | Some w \<Rightarrow> walk_parents ss w))"

text \<open>The assignment through the pointer that the search returned.\<close>

fun set_node :: "string list \<Rightarrow> rjson \<Rightarrow> rjson \<Rightarrow> rjson" where
  "set_node [] new v = new"
| "set_node (s # ss) new v =
     (case v of
        RObject ms \<Rightarrow> (case map_of ms (to_cstr s) of None \<Rightarrow> v | Some w \<Rightarrow> RObject (set_member (to_cstr s) (set_node ss new w) ms))
      | _ \<Rightarrow> v)"

definition store_node :: "bool \<Rightarrow> string \<Rightarrow> rjson \<Rightarrow> rjson \<Rightarrow> rjson option outcome" where
  "store_node asserts key value doc =
     bind_outcome (walk_parents (butlast (split_key key)) doc) (\<lambda>ok.
       if \<not> ok then Value None
       else (case lookup_path (split_key key) doc of
               None \<Rightarrow> assert_failed asserts
             | Some _ \<Rightarrow> Value (Some (set_node (split_key key) value doc))))"

section \<open>Differences\<close>

definition path_join :: "string \<Rightarrow> string \<Rightarrow> string" where
  "path_join p k = (if p = [] then k else p @ ''.'' @ k)"

definition number_changed :: "rjson \<Rightarrow> rjson \<Rightarrow> bool" where
  "number_changed old new =
     (if IsInt old \<and> IsInt new then old \<noteq> new
      else if IsUint old \<and> IsUint new then old \<noteq> new
      else (case (old, new) of (RReal x, RReal y) \<Rightarrow> x \<noteq> y | _ \<Rightarrow> False))"

definition leaf_changed :: "rjson \<Rightarrow> rjson \<Rightarrow> bool" where
  "leaf_changed old new =
     (case (old, new) of
        (RString x, RString y) \<Rightarrow> to_cstr x \<noteq> to_cstr y
      | (RBool x, RBool y) \<Rightarrow> x \<noteq> y
      | _ \<Rightarrow> if GetType new = kNumberType then number_changed old new else True)"

definition removed_members :: "string \<Rightarrow> (string \<times> rjson) list \<Rightarrow> (string \<times> rjson) list \<Rightarrow> string list" where
  "removed_members p os ns = map (\<lambda>m. path_join p (to_cstr (fst m))) (filter (\<lambda>m. map_of ns (to_cstr (fst m)) = None) os)"

function diff_members :: "string \<Rightarrow> (string \<times> rjson) list \<Rightarrow> (string \<times> rjson) list \<Rightarrow> string list" where
  "diff_members p os [] = []"
| "diff_members p os ((k, n) # ns) =
     (let full = path_join p (to_cstr k)
      in (case map_of os (to_cstr k) of
            None \<Rightarrow> [full]
          | Some old \<Rightarrow>
              if GetType old \<noteq> GetType n then [full]
              else (case (old, n) of
                      (RObject os', RObject ns') \<Rightarrow> diff_members full os' ns' @ removed_members full os' ns'
                    | _ \<Rightarrow> if leaf_changed old n then [full] else []))) @ diff_members p os ns"
  by pat_completeness auto
termination
  by (relation "measure (\<lambda>(_, _, ns). members_size ns)") (auto simp: less_Suc_eq_le members_size_object le_Suc_eq)

definition diffJsonObjects :: "string \<Rightarrow> rjson \<Rightarrow> rjson \<Rightarrow> string list" where
  "diffJsonObjects p oldObj newObj =
     (case (oldObj, newObj) of
        (RObject os, RObject ns) \<Rightarrow> diff_members p os ns @ removed_members p os ns
      | _ \<Rightarrow> [])"

section \<open>The manager\<close>

text \<open>
  The tasks are those handed to the pool of two threads, in order; the pool is stopped only with the manager itself. A
  callback is a value. The callbacks of one path are kept in the order of their registration, which the hash table of
  the code leaves open.
\<close>

datatype 'cb config_task = Save_Cache | Notify string 'cb

record 'cb config_manager =
  cm_doc :: rjson
  cm_defaultPath :: string
  cm_cachedPath :: string
  cm_subs :: "(string \<times> (uint32 \<times> 'cb) list) list"
  cm_nextSubId :: uint32
  cm_savePending :: bool
  cm_tasks :: "'cb config_task list"
  cm_files :: "string \<Rightarrow> string option"

definition ConfigManager :: "(string \<Rightarrow> string option) \<Rightarrow> 'cb config_manager" where
  "ConfigManager fs = \<lparr>cm_doc = RNull, cm_defaultPath = [], cm_cachedPath = [], cm_subs = [], cm_nextSubId = 1, cm_savePending = False,
     cm_tasks = [], cm_files = fs\<rparr>"

definition loadJsonFromFile :: "(string \<Rightarrow> rjson option) \<Rightarrow> string \<Rightarrow> (string \<Rightarrow> string option) \<Rightarrow> rjson option" where
  "loadJsonFromFile parse path fs =
     (case fs path of
        None \<Rightarrow> None
      | Some content \<Rightarrow>
          if content = [] then None
          else (case parse (to_cstr content) of None \<Rightarrow> None | Some doc \<Rightarrow> if IsObject doc then Some doc else None))"

text \<open>
  Writing a file: nothing if it cannot be opened; otherwise opening empties it, and the pair says how many bytes \<^verbatim>\<open>fwrite\<close> takes at
  most and how many of them are in the file after \<^verbatim>\<open>fclose\<close>, whose result is not looked at.
\<close>

type_synonym store_io = "string \<Rightarrow> (nat \<times> nat) option"

definition saveJsonToFile ::
  "(rjson \<Rightarrow> string) \<Rightarrow> store_io \<Rightarrow> rjson \<Rightarrow> string \<Rightarrow> (string \<Rightarrow> string option) \<Rightarrow> bool \<times> (string \<Rightarrow> string option)" where
  "saveJsonToFile wr store doc path fs =
     (case store path of
        None \<Rightarrow> (False, fs)
      | Some (written, kept) \<Rightarrow> (length (wr doc) \<le> written, fs(path := Some (take (min written kept) (wr doc)))))"

definition cache_file :: string where
  "cache_file = ''/ocpp_cache_config.json''"

text \<open>The document that \<^verbatim>\<open>initConfig\<close> starts from: the cache file, the default file or the built-in defaults.\<close>

definition working_config :: "(string \<Rightarrow> rjson option) \<Rightarrow> string \<Rightarrow> string \<Rightarrow> (string \<Rightarrow> string option) \<Rightarrow> rjson" where
  "working_config parse defaultCfgPath cached fs =
     (case loadJsonFromFile parse cached fs of
        Some doc \<Rightarrow> doc
      | None \<Rightarrow> (case loadJsonFromFile parse defaultCfgPath fs of Some doc \<Rightarrow> doc | None \<Rightarrow> RObject DEFAULT_CONFIG))"

text \<open>\<^verbatim>\<open>initConfig\<close>; \<open>held\<close> says that the caller already holds the mutex, in which case the call does not return.\<close>

definition initConfig ::
  "bool \<Rightarrow> (string \<Rightarrow> rjson option) \<Rightarrow> (rjson \<Rightarrow> string) \<Rightarrow> store_io \<Rightarrow> bool \<Rightarrow> string \<Rightarrow> string \<Rightarrow> 'cb config_manager \<Rightarrow>
   'cb config_manager outcome option" where
  "initConfig asserts parse wr store held defaultCfgPath cachedCfgPath s =
     (if held then None
      else let cached = cachedCfgPath @ cache_file; working = working_config parse defaultCfgPath cached (cm_files s)
           in Some (bind_outcome (validateAndMergeConfig asserts working) (\<lambda>r.
                let doc = (case r of Some d \<Rightarrow> d | None \<Rightarrow> RObject DEFAULT_CONFIG)
                in Value (s\<lparr>cm_defaultPath := defaultCfgPath, cm_cachedPath := cached, cm_doc := doc,
                           cm_files := snd (saveJsonToFile wr store doc cached (cm_files s))\<rparr>))))"

definition getConfig :: "string \<Rightarrow> 'cb config_manager \<Rightarrow> rjson option" where
  "getConfig key s =
     (if \<not> IsObject (cm_doc s) then None
      else if key = [] then Some (cm_doc s) else findNode key (cm_doc s))"

definition triggerCallbacks :: "string \<Rightarrow> 'cb config_manager \<Rightarrow> 'cb config_manager" where
  "triggerCallbacks path s =
     (case map_of (cm_subs s) path of
        None \<Rightarrow> s
      | Some cbs \<Rightarrow> s\<lparr>cm_tasks := cm_tasks s @ map (\<lambda>c. Notify path (snd c)) cbs\<rparr>)"

definition schedule_save :: "'cb config_manager \<Rightarrow> 'cb config_manager" where
  "schedule_save s =
     (if cm_cachedPath s \<noteq> [] \<and> \<not> cm_savePending s then s\<lparr>cm_savePending := True, cm_tasks := cm_tasks s @ [Save_Cache]\<rparr> else s)"

definition setConfig :: "bool \<Rightarrow> string \<Rightarrow> rjson \<Rightarrow> 'cb config_manager \<Rightarrow> (bool \<times> 'cb config_manager) outcome" where
  "setConfig asserts key value s =
     (if key = []
      then (if \<not> IsObject value then Value (False, s)
            else Value (True, schedule_save (fold triggerCallbacks (diffJsonObjects [] (cm_doc s) value) (s\<lparr>cm_doc := value\<rparr>))))
      else if \<not> CompareJsonTypeByPath key (cm_doc s) value then Value (False, s)
      else (case findNode key (cm_doc s) of
              Some old \<Rightarrow>
                if \<not> IsObject old
                then bind_outcome (store_node asserts key value (cm_doc s)) (\<lambda>r. Value (case r of
                       None \<Rightarrow> (False, s)
                     | Some doc \<Rightarrow> (True, schedule_save (triggerCallbacks key (s\<lparr>cm_doc := doc\<rparr>)))))
                else if IsObject value
                then bind_outcome (store_node asserts key value (cm_doc s)) (\<lambda>r. Value (case r of
                       None \<Rightarrow> (False, s)
                     | Some doc \<Rightarrow> (True, schedule_save (fold triggerCallbacks (diffJsonObjects key old value) (s\<lparr>cm_doc := doc\<rparr>)))))
                else Value (False, s)
            | None \<Rightarrow>
                if IsObject value
                then bind_outcome (store_node asserts key value (cm_doc s)) (\<lambda>r. Value (case r of
                       None \<Rightarrow> (False, s)
                     | Some doc \<Rightarrow> (True, schedule_save (fold triggerCallbacks (diffJsonObjects key RNull value) (s\<lparr>cm_doc := doc\<rparr>)))))
                else Value (False, s)))"

definition saveCachedConfig :: "(rjson \<Rightarrow> string) \<Rightarrow> store_io \<Rightarrow> 'cb config_manager \<Rightarrow> 'cb config_manager" where
  "saveCachedConfig wr store s =
     (if cm_cachedPath s = [] then s
      else s\<lparr>cm_files := snd (saveJsonToFile wr store (cm_doc s) (cm_cachedPath s) (cm_files s))\<rparr>)"

text \<open>What a thread of the pool does with a task: the new state, and the call it makes.\<close>

fun run_config_task :: "(rjson \<Rightarrow> string) \<Rightarrow> store_io \<Rightarrow> 'cb config_task \<Rightarrow> 'cb config_manager \<Rightarrow> 'cb config_manager \<times> ('cb \<times> rjson) option" where
  "run_config_task wr store Save_Cache s = ((saveCachedConfig wr store s)\<lparr>cm_savePending := False\<rparr>, None)"
| "run_config_task wr store (Notify path cb) s = (s, map_option (Pair cb) (findNode path (cm_doc s)))"

definition subscribe :: "string \<Rightarrow> 'cb option \<Rightarrow> 'cb config_manager \<Rightarrow> uint32 \<times> 'cb config_manager" where
  "subscribe key cb s =
     (if key = [] then (0, s)
      else (case cb of
              None \<Rightarrow> (0, s)
            | Some f \<Rightarrow>
                (cm_nextSubId s,
                 s\<lparr>cm_nextSubId := cm_nextSubId s + 1,
                   cm_subs := (case map_of (cm_subs s) key of
                                 None \<Rightarrow> cm_subs s @ [(key, [(cm_nextSubId s, f)])]
                               | Some cbs \<Rightarrow> AList.update key (AList.update (cm_nextSubId s) f cbs) (cm_subs s))\<rparr>)))"

fun erase_sub :: "uint32 \<Rightarrow> (string \<times> (uint32 \<times> 'cb) list) list \<Rightarrow> (string \<times> (uint32 \<times> 'cb) list) list" where
  "erase_sub i [] = []"
| "erase_sub i ((k, cbs) # ss) =
     (if i \<in> fst ` set cbs
      then (let cbs' = AList.delete i cbs in if cbs' = [] then ss else (k, cbs') # ss)
      else (k, cbs) # erase_sub i ss)"

definition unsubscribe :: "uint32 \<Rightarrow> 'cb config_manager \<Rightarrow> 'cb config_manager" where
  "unsubscribe i s = (if i = 0 then s else s\<lparr>cm_subs := erase_sub i (cm_subs s)\<rparr>)"

text \<open>\<^verbatim>\<open>restoreConfig\<close>: it holds the mutex when it calls \<^verbatim>\<open>initConfig\<close>. \<open>rm\<close> is the result of removing the cache file.\<close>

datatype removal = Removed | Missing | Refused

definition restoreConfig ::
  "bool \<Rightarrow> (string \<Rightarrow> rjson option) \<Rightarrow> (rjson \<Rightarrow> string) \<Rightarrow> store_io \<Rightarrow> removal \<Rightarrow> 'cb config_manager \<Rightarrow>
   (bool \<times> 'cb config_manager) outcome option" where
  "restoreConfig asserts parse wr store rm s =
     (if cm_cachedPath s \<noteq> [] \<and> rm = Refused then Some (Value (False, s))
      else let s1 = (if cm_cachedPath s \<noteq> [] then s\<lparr>cm_files := (cm_files s)(cm_cachedPath s := None)\<rparr> else s)
           in map_option (\<lambda>r. bind_outcome r (\<lambda>s2. Value (True, s2)))
                (initConfig asserts parse wr store True (cm_defaultPath s1) (cm_cachedPath s1) s1))"

section \<open>Completion from the defaults\<close>

text \<open>Defaults whose names are distinct at every level and hold no NUL character.\<close>

function (sequential) wf_defaults :: "(string \<times> rjson) list \<Rightarrow> bool" where
  "wf_defaults [] = True"
| "wf_defaults ((k, RObject ds) # ms) \<longleftrightarrow> to_cstr k = k \<and> k \<notin> fst ` set ms \<and> wf_defaults ds \<and> wf_defaults ms"
| "wf_defaults ((k, d) # ms) \<longleftrightarrow> to_cstr k = k \<and> k \<notin> fst ` set ms \<and> wf_defaults ms"
  by pat_completeness auto
termination
  by (relation "measure members_size") (auto simp: less_Suc_eq_le members_size_object le_Suc_eq)

lemma wf_defaults_Cons: "wf_defaults ((k, d) # ms) \<longleftrightarrow>
    to_cstr k = k \<and> k \<notin> fst ` set ms \<and> (case d of RObject ds \<Rightarrow> wf_defaults ds | _ \<Rightarrow> True) \<and> wf_defaults ms"
  by (cases d) auto

lemma wf_defaults_member: "wf_defaults ms \<Longrightarrow> map_of ms k = Some (RObject ds) \<Longrightarrow> wf_defaults ds"
  by (induction ms) (auto simp: wf_defaults_Cons split: if_splits)

lemma map_of_set_member: "map_of ms k \<noteq> None \<Longrightarrow> map_of (set_member k v ms) k' = (if k' = k then Some v else map_of ms k')"
  by (induction ms) auto

text \<open>What the merge makes of one member.\<close>

definition merged_value :: "rjson \<Rightarrow> rjson option \<Rightarrow> rjson" where
  "merged_value d c = (case c of None \<Rightarrow> d | Some v \<Rightarrow>
     if \<not> same_type v d then d else (case (d, v) of (RObject ds, RObject vs) \<Rightarrow> RObject (mergeNode ds vs) | _ \<Rightarrow> v))"

lemma merge_step:
  "map_of (case map_of cs k of None \<Rightarrow> cs @ [(k, d)]
     | Some v \<Rightarrow> if \<not> same_type v d then set_member k d cs
         else (case (d, v) of (RObject ds, RObject vs) \<Rightarrow> set_member k (RObject (mergeNode ds vs)) cs | _ \<Rightarrow> cs)) k' =
   (if k' = k then Some (merged_value d (map_of cs k)) else map_of cs k')"
proof (cases "map_of cs k")
  case None
  then show ?thesis by (auto simp: merged_value_def map_add_def split: option.split)
next
  case (Some v)
  then have "map_of cs k \<noteq> None" by simp
  with Some show ?thesis
    by (auto simp: merged_value_def map_of_set_member split: rjson.split)
qed

lemma map_of_merge:
  assumes "wf_defaults ms"
  shows "map_of (mergeNode ms cs) k = (case map_of ms k of None \<Rightarrow> map_of cs k | Some d \<Rightarrow> Some (merged_value d (map_of cs k)))"
  using assms
proof (induction ms arbitrary: cs)
  case (Cons m ms)
  obtain k0 d where m: "m = (k0, d)" by (cases m)
  have k0: "to_cstr k0 = k0" "map_of ms k0 = None" "wf_defaults ms"
    using Cons.prems by (auto simp: m wf_defaults_Cons map_of_eq_None_iff)
  define c1 where "c1 = (case map_of cs k0 of None \<Rightarrow> cs @ [(k0, d)]
     | Some v \<Rightarrow> if \<not> same_type v d then set_member k0 d cs
         else (case (d, v) of (RObject ds, RObject vs) \<Rightarrow> set_member k0 (RObject (mergeNode ds vs)) cs | _ \<Rightarrow> cs))"
  have "mergeNode (m # ms) cs = mergeNode ms c1"
    by (simp only: m mergeNode.simps k0(1) c1_def)
  moreover have "map_of c1 k' = (if k' = k0 then Some (merged_value d (map_of cs k0)) else map_of cs k')" for k'
    unfolding c1_def by (rule merge_step)
  ultimately show ?case
    using Cons.IH [OF k0(3), of c1] k0(2) by (simp add: m split: option.split)
qed simp

lemma same_type_object: "same_type v (RObject ds) \<longleftrightarrow> IsObject v"
  by (cases v) (auto simp: same_type_def GetType_def json_simps)

lemma same_type_refl: "same_type d d"
  by (simp add: same_type_def)

text \<open>A value of the defaults that is not an object, and the value that the completed document has in its place.\<close>

lemma merge_lookup:
  assumes "wf_defaults ds" "lookup_path ss (RObject ds) = Some d" "\<not> IsObject d"
  shows "lookup_path ss (RObject (mergeNode ds cs)) =
    Some (case lookup_path ss (RObject cs) of None \<Rightarrow> d | Some v \<Rightarrow> if same_type v d then v else d)"
  using assms
proof (induction ss arbitrary: ds cs)
  case Nil
  then show ?case by (auto simp: IsObject_def)
next
  case (Cons s ss)
  let ?k = "to_cstr s"
  obtain w where w: "map_of ds ?k = Some w" "lookup_path ss w = Some d"
    using Cons.prems(2) by (auto simp: json_simps split: option.splits)
  have m: "map_of (mergeNode ds cs) ?k = Some (merged_value w (map_of cs ?k))"
    using w(1) by (simp add: map_of_merge [OF Cons.prems(1)])
  show ?case
  proof (cases "\<exists>ds'. w = RObject ds'")
    case True
    then obtain ds' where w': "w = RObject ds'" by blast
    have wf: "wf_defaults ds'"
      using wf_defaults_member [OF Cons.prems(1)] w(1) w' by simp
    note IH = Cons.IH [OF wf _ Cons.prems(3)]
    have ne: "ss \<noteq> []"
      using w(2) w' Cons.prems(3) by (auto simp: json_simps)
    show ?thesis
    proof (cases "\<exists>vs. map_of cs ?k = Some (RObject vs)")
      case True
      then obtain vs where "map_of cs ?k = Some (RObject vs)" by blast
      then show ?thesis
        using m w(2) w' IH [of vs] by (simp add: json_simps merged_value_def same_type_object)
    next
      case False
      have "merged_value w (map_of cs ?k) = w" "lookup_path (s # ss) (RObject cs) = None"
        using False ne w' by (auto simp: merged_value_def same_type_object json_simps neq_Nil_conv split: option.splits rjson.splits)
      then show ?thesis
        using m w(2) by (simp add: json_simps)
    qed
  next
    case False
    then have ss: "ss = []" "w = d"
      using w(2) by (cases ss; cases w; auto simp: json_simps)+
    show ?thesis
      using m ss Cons.prems(3) False by (auto simp: json_simps merged_value_def split: option.split rjson.split)
  qed
qed

lemma flat_wf: "list_all (\<lambda>m. to_cstr (fst m) = fst m \<and> \<not> IsObject (snd m)) ms \<Longrightarrow> distinct (map fst ms) \<Longrightarrow> wf_defaults ms"
  by (induction ms) (auto simp: wf_defaults_Cons IsObject_def split: rjson.splits)

lemma default_names: "distinct (map fst charge_point_defaults)" "distinct (map fst ocpp_defaults)"
  by code_simp+

lemma default_values:
  "list_all (\<lambda>m. to_cstr (fst m) = fst m \<and> \<not> IsObject (snd m)) charge_point_defaults"
  "list_all (\<lambda>m. to_cstr (fst m) = fst m \<and> \<not> IsObject (snd m)) ocpp_defaults"
  by code_simp+

lemma default_config_wf: "wf_defaults DEFAULT_CONFIG"
  using flat_wf [OF default_values(1) default_names(1)] flat_wf [OF default_values(2) default_names(2)]
  by (simp add: DEFAULT_CONFIG_def to_cstr_def)

section \<open>Starting\<close>

definition section_ok :: "(string \<times> rjson) list \<Rightarrow> string \<Rightarrow> bool" where
  "section_ok cs k = (case map_of cs k of None \<Rightarrow> True | Some v \<Rightarrow> IsObject v)"

lemma checkNode_Cons: "checkNode asserts ((k, d) # ms) cfgNode =
     (if \<not> IsObject cfgNode then assert_failed asserts
      else (case FindMember cfgNode (to_cstr k) of
              None \<Rightarrow> bind_outcome (checkNode asserts ms cfgNode) (\<lambda>_. Value False)
            | Some v \<Rightarrow>
                bind_outcome (case d of RObject ds \<Rightarrow> checkNode asserts ds v | _ \<Rightarrow> Value True) (\<lambda>b.
                bind_outcome (checkNode asserts ms cfgNode) (\<lambda>b'. Value (same_type v d \<and> b \<and> b')))))"
  by (cases d) (auto split: option.split)

lemma checkNode_flat:
  assumes "list_all (\<lambda>m. to_cstr (fst m) = fst m \<and> \<not> IsObject (snd m)) ms" "ms \<noteq> []"
  shows "if IsObject v then \<exists>b. checkNode asserts ms v = Value b else checkNode asserts ms v = assert_failed asserts"
proof (cases "IsObject v")
  case True
  then have "\<exists>b. checkNode asserts ms v = Value b"
    using assms(1)
  proof (induction ms)
    case (Cons m ms)
    then obtain b where "checkNode asserts ms v = Value b" by auto
    then show ?case
      using Cons.prems by (cases m; cases "snd m") (auto simp: checkNode_Cons IsObject_def split: option.splits)
  qed auto
  with True show ?thesis by simp
next
  case False
  then show ?thesis using assms(2) by (cases ms) (auto simp: checkNode_Cons)
qed

lemma bind_assert_failed: "bind_outcome (assert_failed asserts) f = assert_failed asserts"
  by (simp add: assert_failed_def)

lemma validate_sections:
  "validateAndMergeConfig asserts (RObject cs) =
    (if section_ok cs ''ChargePoint'' \<and> section_ok cs ''OCPP1_6'' then Value (Some (RObject (mergeNode DEFAULT_CONFIG cs)))
     else assert_failed asserts)"
proof -
  have ne: "charge_point_defaults \<noteq> []" "ocpp_defaults \<noteq> []"
    by (simp_all add: charge_point_defaults_def ocpp_defaults_def)
  note c = checkNode_flat [OF default_values(1) ne(1)] and o = checkNode_flat [OF default_values(2) ne(2)]
  have k: "to_cstr ''ChargePoint'' = ''ChargePoint''" "to_cstr ''OCPP1_6'' = ''OCPP1_6''"
    by (simp_all add: to_cstr_def)
  define ck oc where "ck = map_of cs ''ChargePoint''" and "oc = map_of cs ''OCPP1_6''"
  have "\<exists>b. checkNode asserts DEFAULT_CONFIG (RObject cs) =
      (if section_ok cs ''ChargePoint'' \<and> section_ok cs ''OCPP1_6'' then Value b else assert_failed asserts)"
    using c [of "the ck" asserts] o [of "the oc" asserts]
    unfolding DEFAULT_CONFIG_def checkNode_Cons section_ok_def ck_def [symmetric] oc_def [symmetric] FindMember_def k
    by (cases ck; cases oc) (auto simp: IsObject_def ck_def [symmetric] oc_def [symmetric] bind_assert_failed split: if_splits)
  then show ?thesis
    by (auto simp: validateAndMergeConfig_def bind_assert_failed)
qed

lemma load_object: "loadJsonFromFile parse p fs = Some doc \<Longrightarrow> IsObject doc"
  by (auto simp: loadJsonFromFile_def split: option.splits if_splits)

lemma find_lookup: "[] \<notin> set ss \<Longrightarrow> find_node ss v = lookup_path ss v"
  by (induction ss v rule: find_node.induct) (auto split: option.split)

lemma find_node_segments: "find_node ss v = Some w \<Longrightarrow> [] \<notin> set ss"
  by (induction ss v rule: find_node.induct) (auto split: option.splits if_splits)

text \<open>
  C32. Starting the configuration manager. It starts from the cache file, the default file or the built-in defaults, in this
  order of preference. If each of the two sections of that document is missing or an object, every setting of the built-in
  defaults can then be read: with the value of the document if that has the type of the default, else with the default; and
  the completed document is in the cache file if that can be written, as far as the bytes get there; if it cannot be opened the file is unchanged. If a section has another type, the assertion of the check fails before it is replaced.
\<close>

theorem init_config_spec:
  assumes "working_config parse defaultCfgPath (cachedCfgPath @ cache_file) (cm_files s) = RObject cs"
    "findNode key (RObject DEFAULT_CONFIG) = Some d" "\<not> IsObject d"
  shows "if section_ok cs ''ChargePoint'' \<and> section_ok cs ''OCPP1_6''
    then \<exists>s'. initConfig asserts parse wr store False defaultCfgPath cachedCfgPath s = Some (Value s') \<and>
        getConfig key s' = Some (case findNode key (RObject cs) of None \<Rightarrow> d | Some v \<Rightarrow> if same_type v d then v else d) \<and>
        cm_files s' (cachedCfgPath @ cache_file) =
          (case store (cachedCfgPath @ cache_file) of
             None \<Rightarrow> cm_files s (cachedCfgPath @ cache_file)
           | Some (written, kept) \<Rightarrow> Some (take (min written kept) (wr (cm_doc s'))))
    else initConfig asserts parse wr store False defaultCfgPath cachedCfgPath s = Some (assert_failed asserts)"
proof -
  have seg: "[] \<notin> set (split_key key)"
    using assms(2) find_node_segments by (auto simp: findNode_def)
  have ne: "key \<noteq> []"
    using seg by auto
  have d: "lookup_path (split_key key) (RObject DEFAULT_CONFIG) = Some d"
    using assms(2) by (simp add: findNode_def find_lookup [OF seg])
  show ?thesis
    using merge_lookup [OF default_config_wf d assms(3), of cs] ne
    by (auto simp: initConfig_def assms(1) validate_sections bind_assert_failed getConfig_def findNode_def find_lookup [OF seg]
        saveJsonToFile_def IsObject_def Let_def split: option.split prod.split)
qed

text \<open>A parser that knows one text, and the files with that text in the cache, for the example.\<close>

definition demo_parse :: "string \<Rightarrow> rjson option" where
  "demo_parse t = (if t = ''x'' then Some (RObject [(''OCPP1_6'', RObject [(''HeartbeatInterval'', RInt 60)])]) else None)"

definition demo_files :: "string \<Rightarrow> string option" where
  "demo_files = [''/c'' @ cache_file \<mapsto> ''x'']"

theorem init_config_spec_witness:
  "\<exists>s'. initConfig True demo_parse (\<lambda>_. ''saved'') (\<lambda>_. Some (9, 9)) False ''/d'' ''/c'' (ConfigManager demo_files :: nat config_manager) = Some (Value s') \<and>
     getConfig ''OCPP1_6.HeartbeatInterval'' s' = Some (RInt 60) \<and> cm_files s' (''/c'' @ cache_file) = Some ''saved''"
proof -
  let ?cs = "[(''OCPP1_6'', RObject [(''HeartbeatInterval'', RInt 60)])]"
  have w: "working_config demo_parse ''/d'' (''/c'' @ cache_file) (cm_files (ConfigManager demo_files :: nat config_manager)) = RObject ?cs"
    by (simp add: working_config_def loadJsonFromFile_def ConfigManager_def demo_files_def demo_parse_def to_cstr_def IsObject_def)
  have d: "findNode ''OCPP1_6.HeartbeatInterval'' (RObject DEFAULT_CONFIG) = Some (RInt 15)"
    by code_simp
  have c: "findNode ''OCPP1_6.HeartbeatInterval'' (RObject ?cs) = Some (RInt 60)"
    by code_simp
  show ?thesis
    using init_config_spec [OF w d, of True "\<lambda>_. ''saved''" "\<lambda>_. Some (9, 9)"]
    by (simp add: section_ok_def c IsObject_def same_type_def GetType_def)
qed

section \<open>Reading and changing\<close>

lemma lookup_set_same: "lookup_path ss v \<noteq> None \<Longrightarrow> lookup_path ss (set_node ss new v) = Some new"
proof (induction ss arbitrary: v)
  case (Cons s ss)
  then obtain ms w where v: "v = RObject ms" "map_of ms (to_cstr s) = Some w" "lookup_path ss w \<noteq> None"
    by (cases v) (auto simp: json_simps split: option.splits)
  then show ?case
    using Cons.IH [OF v(3)] by (simp add: json_simps map_of_set_member)
qed simp

lemma lookup_set_other:
  assumes "map to_cstr ss \<parallel> map to_cstr ss'"
  shows "lookup_path ss' (set_node ss new v) = lookup_path ss' v"
  using assms
proof (induction ss arbitrary: ss' v)
  case (Cons s ss)
  obtain s' ts where ss': "ss' = s' # ts"
    using Cons.prems by (cases ss') auto
  show ?case
  proof (cases v)
    case (RObject ms)
    have par: "map to_cstr ss \<parallel> map to_cstr ts" if "to_cstr s = to_cstr s'"
      using Cons.prems that by (auto simp: ss' parallel_def)
    then show ?thesis
      using Cons.IH by (cases "map_of ms (to_cstr s)") (auto simp: ss' RObject json_simps map_of_set_member split: option.split)
  qed (auto simp: json_simps ss')
qed simp

lemma walk_parents_total:
  assumes "lookup_path ss v = Some w" "ss \<noteq> []"
  shows "walk_parents (butlast ss) v = Value ([] \<notin> set (butlast ss))"
  using assms
proof (induction ss arbitrary: v)
  case (Cons s ss)
  show ?case
  proof (cases ss)
    case Nil
    then show ?thesis using Cons.prems by (auto split: if_splits)
  next
    case (Cons t ts)
    obtain x where "IsObject v" "FindMember v (to_cstr s) = Some x" "lookup_path ss x = Some w"
      using Cons.prems by (auto split: if_splits option.splits)
    then show ?thesis
      using Cons.IH [of x] Cons by simp
  qed
qed simp

lemma split_key_ne: "split_key key \<noteq> []"
  by (cases key) (auto split: list.split)

lemma lookup_object: "lookup_path ss v = Some w \<Longrightarrow> ss \<noteq> [] \<Longrightarrow> IsObject v"
  by (cases ss) (auto split: if_splits)

lemma store_node_total:
  assumes "lookup_path (split_key key) doc = Some w"
  shows "store_node asserts key value doc =
    Value (if [] \<in> set (butlast (split_key key)) then None else Some (set_node (split_key key) value doc))"
  using walk_parents_total [OF assms split_key_ne] assms by (simp add: store_node_def)

lemma schedule_save_doc [simp]: "cm_doc (schedule_save s) = cm_doc s"
  by (simp add: schedule_save_def)

lemma trigger_doc [simp]: "cm_doc (triggerCallbacks p s) = cm_doc s"
  by (simp add: triggerCallbacks_def split: option.split)

lemma triggers_doc [simp]: "cm_doc (fold triggerCallbacks ps s) = cm_doc s"
  by (induction ps arbitrary: s) simp_all

lemma compare_lookup:
  assumes "CompareJsonTypeByPath key doc value" "key \<noteq> []"
  obtains w where "lookup_path (split_key key) doc = Some w" "same_type value w"
  using assms by (auto simp: CompareJsonTypeByPath_def split: option.splits)

text \<open>A change never reaches the code that creates missing parents, nor an assertion.\<close>

theorem set_config_total: "\<exists>r. setConfig asserts key value s = Value r"
proof (cases "key = [] \<or> \<not> CompareJsonTypeByPath key (cm_doc s) value")
  case True
  then show ?thesis by (auto simp: setConfig_def)
next
  case False
  then obtain w where "lookup_path (split_key key) (cm_doc s) = Some w"
    using compare_lookup by blast
  from store_node_total [OF this, of asserts "value"] show ?thesis
    using False by (auto simp: setConfig_def split: option.split)
qed

lemma same_type_objects: "same_type v w \<Longrightarrow> IsObject v \<longleftrightarrow> IsObject w"
  by (cases v; cases w) (auto simp: same_type_def GetType_def json_simps split: if_splits)

lemma set_config_doc:
  assumes "[] \<notin> set (split_key key)" "CompareJsonTypeByPath key (cm_doc s) value"
  shows "\<exists>s'. setConfig asserts key value s = Value (True, s') \<and> cm_doc s' = set_node (split_key key) value (cm_doc s)"
proof -
  have ne: "key \<noteq> []"
    using assms(1) by auto
  obtain w where w: "lookup_path (split_key key) (cm_doc s) = Some w" "same_type value w"
    using compare_lookup [OF assms(2) ne] .
  have b: "[] \<notin> set (butlast (split_key key))"
    using assms(1) by (meson in_set_butlastD)
  have f: "findNode key (cm_doc s) = Some w"
    using w(1) assms(1) by (simp add: findNode_def find_lookup)
  show ?thesis
    using store_node_total [OF w(1), of asserts "value"] ne assms(2) f b same_type_objects [OF w(2)]
    by (cases "IsObject w") (simp_all add: setConfig_def)
qed

text \<open>
  C33. What was set is what is read. A change under a path without empty segments is accepted exactly if the path exists and the new value has the type of the
  old one; then the path has the new value, and no path that is neither above nor below it changes its
  value. A change that is not accepted leaves everything as it is.
\<close>

theorem get_after_set:
  assumes "[] \<notin> set (split_key key)" "map to_cstr (split_key key) \<parallel> map to_cstr (split_key key')" "[] \<notin> set (split_key key')"
  shows "\<exists>s'. setConfig asserts key value s = Value (CompareJsonTypeByPath key (cm_doc s) value, s') \<and>
    (if CompareJsonTypeByPath key (cm_doc s) value
     then getConfig key s' = Some value \<and> getConfig key' s' = getConfig key' s
     else s' = s)"
proof (cases "CompareJsonTypeByPath key (cm_doc s) value")
  case True
  have ne: "key \<noteq> []" "key' \<noteq> []"
    using assms(1,3) by auto
  obtain s' where s': "setConfig asserts key value s = Value (True, s')" "cm_doc s' = set_node (split_key key) value (cm_doc s)"
    using set_config_doc [OF assms(1) True] by blast
  obtain w where w: "lookup_path (split_key key) (cm_doc s) = Some w"
    using compare_lookup [OF True ne(1)] .
  have set: "lookup_path (split_key key) (cm_doc s') = Some value"
    using lookup_set_same [of "split_key key" "cm_doc s" "value"] w s'(2) by simp
  have obj: "IsObject (cm_doc s)" "IsObject (cm_doc s')"
    using lookup_object [OF w split_key_ne] lookup_object [OF set split_key_ne] by simp_all
  show ?thesis
    using s' obj ne True set lookup_set_other [OF assms(2)]
    by (auto simp: getConfig_def findNode_def find_lookup [OF assms(1)] find_lookup [OF assms(3)])
next
  case False
  moreover have "key \<noteq> []"
    using assms(1) by auto
  ultimately show ?thesis
    by (simp add: setConfig_def)
qed

definition demo_manager :: "nat config_manager" where
  "demo_manager = (ConfigManager (\<lambda>_. None))\<lparr>cm_doc := RObject [(''A'', RObject [(''x'', RInt 1), (''y'', RString ''s'')])], cm_subs := [(''A.x'', [(1, 7)])]\<rparr>"

theorem get_after_set_witness:
  "\<exists>s'. setConfig True ''A.x'' (RInt 5) demo_manager = Value (True, s') \<and> getConfig ''A.x'' s' = Some (RInt 5) \<and> getConfig ''A.y'' s' = Some (RString ''s'')"
proof -
  have k: "split_key ''A.x'' = [''A'', ''x'']" "split_key ''A.y'' = [''A'', ''y'']"
    by simp_all
  have p: "map to_cstr (split_key ''A.x'') \<parallel> map to_cstr (split_key ''A.y'')"
    by (simp add: k to_cstr_def parallel_def)
  have c: "CompareJsonTypeByPath ''A.x'' (cm_doc demo_manager) (RInt 5)"
    by (simp add: CompareJsonTypeByPath_def demo_manager_def json_simps to_cstr_def same_type_def GetType_def)
  have y: "getConfig ''A.y'' demo_manager = Some (RString ''s'')"
    by (simp add: getConfig_def findNode_def demo_manager_def json_simps to_cstr_def)
  from get_after_set [of "''A.x''" "''A.y''" True "RInt 5" demo_manager, OF _ p] c y show ?thesis
    by auto
qed

text \<open>
  The notifications of a change of one setting: those who subscribed to exactly this path. A subscription to the section is
  not served, although its documentation says so.
\<close>

theorem leaf_change_tasks:
  assumes "[] \<notin> set (split_key key)" "CompareJsonTypeByPath key (cm_doc s) value" "\<not> IsObject value"
    "setConfig asserts key value s = Value (b, s')" "cm_savePending s"
  shows "cm_tasks s' = cm_tasks s @ (case map_of (cm_subs s) key of None \<Rightarrow> [] | Some cbs \<Rightarrow> map (\<lambda>c. Notify key (snd c)) cbs)"
proof -
  have ne: "key \<noteq> []"
    using assms(1) by auto
  obtain w where w: "lookup_path (split_key key) (cm_doc s) = Some w" "same_type value w"
    using compare_lookup [OF assms(2) ne] .
  have b: "[] \<notin> set (butlast (split_key key))"
    using assms(1) by (meson in_set_butlastD)
  have f: "findNode key (cm_doc s) = Some w" "\<not> IsObject w"
    using w assms(1,3) same_type_objects [OF w(2)] by (simp_all add: findNode_def find_lookup)
  show ?thesis
    using store_node_total [OF w(1), of asserts "value"] ne assms(2,4,5) f b
    by (auto simp: setConfig_def schedule_save_def triggerCallbacks_def split: option.splits)
qed

text \<open>Resetting to the defaults never returns, unless removing the cache file is refused.\<close>

theorem restore_hangs:
  "restoreConfig asserts parse wr store rm s =
    (if cm_cachedPath s \<noteq> [] \<and> rm = Refused then Some (Value (False, s)) else None)"
  by (simp add: restoreConfig_def initConfig_def Let_def)

text \<open>A change between an integer and another number is not noticed.\<close>

lemma diff_misses_number: "diffJsonObjects [] (RObject [(''x'', RInt 1)]) (RObject [(''x'', RReal y)]) = []"
  by (simp add: diffJsonObjects_def removed_members_def to_cstr_def GetType_def leaf_changed_def number_changed_def json_simps Let_def)

end
