(* ===== verification/Client_Config.thy ===== *)
theory Client_Config
  imports Config_Manager Connect_Info
begin

text \<open>
  The configuration manager and the client together: what \<^verbatim>\<open>ConfigManager::initConfig\<close> leaves is what
  \<^verbatim>\<open>OCPPClient::initConnectInfo\<close> reads.
\<close>

text \<open>A section of the completed document: every member of the defaults is there with its type.\<close>

definition completed :: "(string \<times> rjson) list \<Rightarrow> rjson \<Rightarrow> bool" where
  "completed ds v \<longleftrightarrow> IsObject v \<and> (\<forall>k d. map_of ds k = Some d \<longrightarrow> (\<exists>w. FindMember v k = Some w \<and> same_type w d))"

lemma merged_member:
  assumes "wf_defaults ds" "map_of ds k = Some d"
  shows "\<exists>w. map_of (mergeNode ds cs) k = Some w \<and> same_type w d"
proof -
  have "same_type (merged_value d c) d" for c
    by (cases d) (auto simp: merged_value_def same_type_refl same_type_object IsObject_def split: option.split rjson.splits)
  then show ?thesis
    using assms(2) by (simp add: map_of_merge [OF assms(1)])
qed

lemma merged_section:
  assumes "wf_defaults ds" "map_of ds k = Some (RObject es)"
  shows "\<exists>v. map_of (mergeNode ds cs) k = Some v \<and> completed es v"
proof -
  have wf: "wf_defaults es"
    using wf_defaults_member [OF assms] .
  have "completed es (RObject es)"
    by (auto simp: completed_def json_simps same_type_refl)
  moreover have "completed es (RObject (mergeNode es vs))" for vs
    using merged_member [OF wf] by (auto simp: completed_def json_simps)
  ultimately have "completed es (merged_value (RObject es) c)" for c
    by (auto simp: merged_value_def same_type_object IsObject_def split: option.split rjson.splits)
  then show ?thesis
    using assms(2) by (simp add: map_of_merge [OF assms(1)])
qed

lemma working_object: "IsObject (working_config rd dp cached fs)"
  using load_object [of rd cached fs] load_object [of rd dp fs]
  by (cases "loadJsonFromFile rd cached fs"; cases "loadJsonFromFile rd dp fs") (simp_all add: working_config_def, simp add: IsObject_def)

lemma init_sections:
  assumes "initConfig asserts rd wr store False dp cp s = Some (Value s')"
  obtains c oc where "IsObject (cm_doc s')" "FindMember (cm_doc s') ''ChargePoint'' = Some c" "completed charge_point_defaults c"
    "FindMember (cm_doc s') ''OCPP1_6'' = Some oc" "completed ocpp_defaults oc"
proof -
  obtain cs where cs: "working_config rd dp (cp @ cache_file) (cm_files s) = RObject cs"
    using working_object [of rd dp "cp @ cache_file" "cm_files s"] by (auto simp: IsObject_def split: rjson.splits)
  have doc: "cm_doc s' = RObject (mergeNode DEFAULT_CONFIG cs)"
    using assms by (auto simp: initConfig_def cs validate_sections bind_assert_failed assert_failed_def Let_def split: if_splits)
  have d: "map_of DEFAULT_CONFIG ''ChargePoint'' = Some (RObject charge_point_defaults)" "map_of DEFAULT_CONFIG ''OCPP1_6'' = Some (RObject ocpp_defaults)"
    by (simp_all add: DEFAULT_CONFIG_def)
  show thesis
    using merged_section [OF default_config_wf d(1), of cs] merged_section [OF default_config_wf d(2), of cs] doc that
    by (auto simp: json_simps)
qed

text \<open>The members that the client reads, by the accessor it uses.\<close>

definition read_strings :: "string list" where
  "read_strings = [''ConnectionUrl'', ''ChargePointIdentifier'', ''Protocol'', ''Tlsv12CipherList'', ''Tlsv13CipherList'', ''TlsServerCertificateCa'',
     ''TlsClientCertificate'', ''TlsClientCertificatePrivateKey'', ''TlsClientCertificatePrivateKeyPassphrase'']"

definition read_bools :: "string list" where
  "read_bools = [''InternalCertificateManagementEnabled'', ''TlsAllowSelfSignedCertificates'', ''TlsAllowExpiredCertificates'',
     ''TlsAcceptNonTrustedCertificates'', ''TlsSkipServerNameCheck'']"

lemma default_strings:
  "list_all (\<lambda>k. case map_of charge_point_defaults k of Some v \<Rightarrow> IsString v | None \<Rightarrow> False) read_strings"
  "list_all (\<lambda>k. case map_of charge_point_defaults k of Some v \<Rightarrow> IsBool v | None \<Rightarrow> False) read_bools"
  "case map_of ocpp_defaults ''AuthorizationKey'' of Some v \<Rightarrow> IsString v | None \<Rightarrow> False"
  by code_simp+

lemma same_type_string: "same_type w d \<Longrightarrow> IsString d \<Longrightarrow> \<exists>t. w = RString t"
  by (cases w; cases d) (auto simp: same_type_def GetType_def json_simps split: if_splits)

lemma same_type_bool: "same_type w d \<Longrightarrow> IsBool d \<Longrightarrow> \<exists>b. w = RBool b"
  by (cases w; cases d) (auto simp: same_type_def GetType_def json_simps split: if_splits)

lemma completed_string:
  assumes "completed ds v" "case map_of ds k of Some d \<Rightarrow> IsString d | None \<Rightarrow> False"
  shows "\<exists>t. FindMember v k = Some (RString t)"
  using assms same_type_string by (fastforce simp: completed_def split: option.splits)

lemma completed_bool:
  assumes "completed ds v" "case map_of ds k of Some d \<Rightarrow> IsBool d | None \<Rightarrow> False"
  shows "\<exists>b. FindMember v k = Some (RBool b)"
  using assms same_type_bool by (fastforce simp: completed_def split: option.splits)

lemma completed_strings:
  assumes "completed charge_point_defaults v"
  shows "list_all (\<lambda>k. \<exists>t. FindMember v k = Some (RString t)) read_strings" "list_all (\<lambda>k. \<exists>b. FindMember v k = Some (RBool b)) read_bools"
  using completed_string [OF assms] completed_bool [OF assms] default_strings(1,2) by (simp_all add: list_all_iff)

text \<open>The numbers that the client reads as unsigned and as signed 32-bit integers.\<close>

definition uint_settings :: "string list" where
  "uint_settings = [''ChargePoint.SecurityProfile'', ''ChargePoint.ConnectionTimeout'', ''ChargePoint.CallRequestTimeout'',
     ''OCPP1_6.TransactionMessageAttempts'']"

definition int_settings :: "string list" where
  "int_settings = [''ChargePoint.RetryInterval'', ''OCPP1_6.WebSocketPingInterval'']"

definition setting_fits :: "(rjson \<Rightarrow> bool) \<Rightarrow> 'cb config_manager \<Rightarrow> string \<Rightarrow> bool" where
  "setting_fits P s k = (case getConfig k s of None \<Rightarrow> False | Some v \<Rightarrow> P v)"

lemma getConfig_two:
  assumes "IsObject (cm_doc s)" "FindMember (cm_doc s) a = Some v" "IsObject v" "split_key key = [a, b]" "a \<noteq> []" "b \<noteq> []" "key \<noteq> []"
    "to_cstr a = a" "to_cstr b = b"
  shows "getConfig key s = FindMember v b"
  using assms by (auto simp: getConfig_def findNode_def split: option.split)

lemma fits_uint: "setting_fits IsUint s k \<Longrightarrow> getConfig k s = FindMember v b \<Longrightarrow> \<exists>i. FindMember v b = Some (RInt i) \<and> 0 \<le> i \<and> i < 2 ^ 32"
  by (auto simp: setting_fits_def IsUint_def split: option.splits rjson.splits)

lemma fits_int: "setting_fits IsInt s k \<Longrightarrow> getConfig k s = FindMember v b \<Longrightarrow> \<exists>i. FindMember v b = Some (RInt i) \<and> - (2 ^ 31) \<le> i \<and> i < 2 ^ 31"
  by (auto simp: setting_fits_def IsInt_def split: option.splits rjson.splits)

lemma GetInt_Value: "GetInt a v = Value i \<longleftrightarrow> v = RInt i \<and> - (2 ^ 31) \<le> i \<and> i < 2 ^ 31"
  by (cases v) (auto simp: GetInt_def IsInt_def assert_failed_def)

lemma read_tls:
  assumes "completed charge_point_defaults cp"
  shows "hasRequired cp tls_keys" "\<exists>c'. tls_credentials a profile cp c = Value c'"
proof -
  note str = completed_strings(1) [OF assms] and bool = completed_strings(2) [OF assms]
  obtain t1 t2 t3 t4 t5 t6 where t: "FindMember cp ''Tlsv12CipherList'' = Some (RString t1)" "FindMember cp ''Tlsv13CipherList'' = Some (RString t2)"
    "FindMember cp ''TlsServerCertificateCa'' = Some (RString t3)" "FindMember cp ''TlsClientCertificate'' = Some (RString t4)"
    "FindMember cp ''TlsClientCertificatePrivateKey'' = Some (RString t5)" "FindMember cp ''TlsClientCertificatePrivateKeyPassphrase'' = Some (RString t6)"
    using str by (auto simp: read_strings_def)
  obtain b1 b2 b3 b4 b5 where b: "FindMember cp ''InternalCertificateManagementEnabled'' = Some (RBool b1)"
    "FindMember cp ''TlsAllowSelfSignedCertificates'' = Some (RBool b2)" "FindMember cp ''TlsAllowExpiredCertificates'' = Some (RBool b3)"
    "FindMember cp ''TlsAcceptNonTrustedCertificates'' = Some (RBool b4)" "FindMember cp ''TlsSkipServerNameCheck'' = Some (RBool b5)"
    using bool by (auto simp: read_bools_def)
  show "hasRequired cp tls_keys"
    by (simp add: hasRequired_def tls_keys_def t b)
  show "\<exists>c'. tls_credentials a profile cp c = Value c'"
    by (simp add: tls_credentials_def external_certificates_def internal_certificates_def get_member_def t b GetString_def GetBool_def Let_def)
qed

text \<open>
  C34. A started charge point can connect. When the configuration manager has started, the client finds all its connection parameters in the configuration, whatever
  the files held, provided that the six numbers it reads are integers in the range it reads them with: it accepts the
  configuration, without a failed assertion.
\<close>

theorem started_client_is_configured:
  assumes "initConfig asserts rd wr store False dp cp s = Some (Value s')"
    "list_all (setting_fits IsUint s') uint_settings" "list_all (setting_fits IsInt s') int_settings"
  shows "\<exists>info. initConnectInfo a (getConfig [] s') old = Value (True, info)"
proof -
  obtain c oc where d: "IsObject (cm_doc s')" "FindMember (cm_doc s') ''ChargePoint'' = Some c" "completed charge_point_defaults c"
    "FindMember (cm_doc s') ''OCPP1_6'' = Some oc" "completed ocpp_defaults oc"
    using init_sections [OF assms(1)] .
  have obj: "IsObject c" "IsObject oc"
    using d by (auto simp: completed_def)
  have g: "split_key (''ChargePoint.'' @ k) = [''ChargePoint'', k] \<Longrightarrow> k \<noteq> [] \<Longrightarrow> to_cstr k = k \<Longrightarrow> getConfig (''ChargePoint.'' @ k) s' = FindMember c k"
    "split_key (''OCPP1_6.'' @ k) = [''OCPP1_6'', k] \<Longrightarrow> k \<noteq> [] \<Longrightarrow> to_cstr k = k \<Longrightarrow> getConfig (''OCPP1_6.'' @ k) s' = FindMember oc k" for k
    using getConfig_two [OF d(1,2) obj(1)] getConfig_two [OF d(1,4) obj(2)] by (simp_all add: to_cstr_def)
  have u: "setting_fits IsUint s' ''ChargePoint.SecurityProfile''" "setting_fits IsUint s' ''ChargePoint.ConnectionTimeout''"
    "setting_fits IsUint s' ''ChargePoint.CallRequestTimeout''" "setting_fits IsUint s' ''OCPP1_6.TransactionMessageAttempts''"
    "setting_fits IsInt s' ''ChargePoint.RetryInterval''" "setting_fits IsInt s' ''OCPP1_6.WebSocketPingInterval''"
    using assms(2,3) by (simp_all add: uint_settings_def int_settings_def)
  obtain n1 n2 n3 n4 n5 n6 where n: "FindMember c ''SecurityProfile'' = Some (RInt n1)" "0 \<le> n1" "n1 < 2 ^ 32"
    "FindMember c ''ConnectionTimeout'' = Some (RInt n2)" "0 \<le> n2" "n2 < 2 ^ 32"
    "FindMember c ''CallRequestTimeout'' = Some (RInt n3)" "0 \<le> n3" "n3 < 2 ^ 32"
    "FindMember oc ''TransactionMessageAttempts'' = Some (RInt n4)" "0 \<le> n4" "n4 < 2 ^ 32"
    "FindMember c ''RetryInterval'' = Some (RInt n5)" "- (2 ^ 31) \<le> n5" "n5 < 2 ^ 31"
    "FindMember oc ''WebSocketPingInterval'' = Some (RInt n6)" "- (2 ^ 31) \<le> n6" "n6 < 2 ^ 31"
    using fits_uint [OF u(1) g(1) [of "''SecurityProfile''", simplified]] fits_uint [OF u(2) g(1) [of "''ConnectionTimeout''", simplified]]
      fits_uint [OF u(3) g(1) [of "''CallRequestTimeout''", simplified]] fits_uint [OF u(4) g(2) [of "''TransactionMessageAttempts''", simplified]]
      fits_int [OF u(5) g(1) [of "''RetryInterval''", simplified]] fits_int [OF u(6) g(2) [of "''WebSocketPingInterval''", simplified]]
    by (auto simp: to_cstr_def)
  obtain t1 t2 t3 t4 where t: "FindMember c ''ConnectionUrl'' = Some (RString t1)" "FindMember c ''ChargePointIdentifier'' = Some (RString t2)"
    "FindMember c ''Protocol'' = Some (RString t3)" "FindMember oc ''AuthorizationKey'' = Some (RString t4)"
    using completed_strings(1) [OF d(3)] completed_string [OF d(5) default_strings(3)] by (auto simp: read_strings_def)
  have st: "\<exists>info. store_info a c oc url cr = Value (True, info)" for url cr
    using n t by (simp add: store_info_def get_member_def GetString_def GetUint_def GetInt_def IsUint_def IsInt_def)
  have "\<exists>info. read_info a c oc old = Value (True, info)"
    using n t st read_tls [OF d(3)]
    by (auto simp: read_info_def get_member_def GetString_def GetUint_def IsUint_def Let_def) (metis bind_outcome.simps(1))
  then show ?thesis
    using d obj n t by (simp add: initConnectInfo_def getConfig_def hasRequired_def charge_point_keys_def ocpp_keys_def)
qed

theorem started_client_is_configured_witness:
  "\<exists>s' info. initConfig True demo_parse (\<lambda>_. ''saved'') (\<lambda>_. Some (9, 9)) False ''/d'' ''/c'' (ConfigManager demo_files :: nat config_manager) = Some (Value s') \<and>
     initConnectInfo True (getConfig [] s') demo_info = Value (True, info)"
proof -
  let ?s = "ConfigManager demo_files :: nat config_manager"
  define cs where "cs = [(''OCPP1_6'', RObject [(''HeartbeatInterval'', RInt 60)])]"
  have w: "working_config demo_parse ''/d'' (''/c'' @ cache_file) (cm_files ?s) = RObject cs"
    by (simp add: working_config_def loadJsonFromFile_def ConfigManager_def demo_files_def demo_parse_def to_cstr_def IsObject_def cs_def)
  have "section_ok cs ''ChargePoint''" "section_ok cs ''OCPP1_6''"
    by (simp_all add: section_ok_def cs_def IsObject_def)
  then obtain s' where s': "initConfig True demo_parse (\<lambda>_. ''saved'') (\<lambda>_. Some (9, 9)) False ''/d'' ''/c'' ?s = Some (Value s')"
    "cm_doc s' = RObject (mergeNode DEFAULT_CONFIG cs)"
    by (simp add: initConfig_def w [simplified] validate_sections Let_def)
  have "setting_fits P s' k = (case findNode k (RObject (mergeNode DEFAULT_CONFIG cs)) of None \<Rightarrow> False | Some v \<Rightarrow> P v)" if "k \<noteq> []" for P k
    using that by (simp add: setting_fits_def getConfig_def s'(2) IsObject_def)
  moreover have "list_all (\<lambda>k. case findNode k (RObject (mergeNode DEFAULT_CONFIG [(''OCPP1_6'', RObject [(''HeartbeatInterval'', RInt 60)])])) of
      None \<Rightarrow> False | Some v \<Rightarrow> IsUint v) uint_settings"
    by code_simp
  moreover have "list_all (\<lambda>k. case findNode k (RObject (mergeNode DEFAULT_CONFIG [(''OCPP1_6'', RObject [(''HeartbeatInterval'', RInt 60)])])) of
      None \<Rightarrow> False | Some v \<Rightarrow> IsInt v) int_settings"
    by code_simp
  ultimately have "list_all (setting_fits IsUint s') uint_settings" "list_all (setting_fits IsInt s') int_settings"
    by (simp_all add: uint_settings_def int_settings_def cs_def)
  from started_client_is_configured [OF s'(1) this, of True demo_info] s'(1) show ?thesis by blast
qed

end
