(* ===== verification/Charge_Point.thy ===== *)
theory Charge_Point
  imports Client_Config Connector_Table Ocpp_Client
begin

text \<open>
  The charge point object (\<^verbatim>\<open>src/src/ocpp/ChargePoint.cpp\<close>) as far as the code has it: the three parts of its
  initialisation, which put the other components together; and the schema validator (\<^verbatim>\<open>src/src/ocpp/tool/jsonValidator\<close>).
  \<^item> The outcome of \<^verbatim>\<open>Database::open\<close> is an argument: \<^const>\<open>None\<close> is a call that does not return.
  \<^item> Allocation with \<^verbatim>\<open>make_unique\<close> does not return null; the tests for that are left out.
\<close>

section \<open>The schema validator\<close>

text \<open>A file is opened and its length determined; \<open>read_all\<close> says whether as many bytes could be read. The result is \<^const>\<open>None\<close> for a null document.\<close>

definition loadSchemaFromFile :: "(string \<Rightarrow> rjson option) \<Rightarrow> (string \<Rightarrow> string option) \<Rightarrow> (string \<Rightarrow> bool) \<Rightarrow> string \<Rightarrow> rjson option" where
  "loadSchemaFromFile rd fs read_all path =
     (case fs (to_cstr path) of
        None \<Rightarrow> None
      | Some json \<Rightarrow>
          if json = [] then None
          else if \<not> read_all path then None
          else (case rd (to_cstr json) of None \<Rightarrow> None | Some doc \<Rightarrow> if doc = RNull then None else Some doc))"

definition validateJson ::
  "(string \<Rightarrow> rjson option) \<Rightarrow> (string \<Rightarrow> string option) \<Rightarrow> (string \<Rightarrow> bool) \<Rightarrow> (rjson \<Rightarrow> rjson \<Rightarrow> bool) \<Rightarrow> string \<Rightarrow> string \<Rightarrow> rjson \<Rightarrow> string \<Rightarrow> bool" where
  "validateJson rd fs read_all accepts dir action doc typeSuffix =
     (case loadSchemaFromFile rd fs read_all (dir @ ''/'' @ action @ typeSuffix) of
        None \<Rightarrow> False
      | Some schema \<Rightarrow> accepts schema doc)"

definition validateRequest ::
  "(string \<Rightarrow> rjson option) \<Rightarrow> (string \<Rightarrow> string option) \<Rightarrow> (string \<Rightarrow> bool) \<Rightarrow> (rjson \<Rightarrow> rjson \<Rightarrow> bool) \<Rightarrow> string \<Rightarrow> string \<Rightarrow> rjson \<Rightarrow> bool" where
  "validateRequest rd fs read_all accepts dir action reqMsg = validateJson rd fs read_all accepts dir action reqMsg ''.json''"

definition validateResponse ::
  "(string \<Rightarrow> rjson option) \<Rightarrow> (string \<Rightarrow> string option) \<Rightarrow> (string \<Rightarrow> bool) \<Rightarrow> (rjson \<Rightarrow> rjson \<Rightarrow> bool) \<Rightarrow> string \<Rightarrow> string \<Rightarrow> rjson \<Rightarrow> bool" where
  "validateResponse rd fs read_all accepts dir action rspMsg = validateJson rd fs read_all accepts dir action rspMsg ''Response.json''"

section \<open>The charge point\<close>

definition upper_char :: "char \<Rightarrow> char" where
  "upper_char c = (let n = of_char c :: nat in if 97 \<le> n \<and> n \<le> 122 then char_of (n - 32) else c)"

text \<open>\<open>protocol\<close> and \<open>hash\<close> are the macros that the build defines.\<close>

definition getOcppSoftwareVersion :: "string \<Rightarrow> string \<Rightarrow> string" where
  "getOcppSoftwareVersion protocol hash = map upper_char (''OCPP'' @ protocol @ ''G'' @ hash)"

record ('d, 'c, 'cb) charge_point =
  cp_cfgPath :: string
  cp_timerPool :: "'c timer_pool option"
  cp_threadPool :: "notification thread_pool option"
  cp_wsClient :: bool
  cp_ocppClient :: "ocpp_client option"
  cp_jsonValidator :: "string option"
  cp_connectors :: "('d, 'c) connectors option"
  cp_statusNotification :: "status_notifier option"
  cp_database :: 'd
  cp_config :: "'cb config_manager"

text \<open>The settings that \<^verbatim>\<open>initConfigModel\<close> asks for: the paths of the database and of the schemas.\<close>

definition device_paths :: "rjson \<Rightarrow> (string \<times> string) option" where
  "device_paths cfg =
     (case (FindMember cfg ''ChargePoint'', FindMember cfg ''OCPP1_6'') of
        (Some (RObject cp), Some (RObject oc)) \<Rightarrow>
          (case (map_of cp ''DatabasePath'', map_of cp ''JsonSchemasPath'', map_of cp ''OcppSoftwareVersion'', map_of oc ''NumberOfConnectors'') of
             (Some (RString db), Some (RString schema), Some (RString _), Some n) \<Rightarrow> if IsUint n then Some (to_cstr db, to_cstr schema) else None
           | _ \<Rightarrow> None)
      | _ \<Rightarrow> None)"

definition device_update :: "uint32 \<Rightarrow> string \<Rightarrow> rjson \<Rightarrow> rjson" where
  "device_update connectorNum ver cfg =
     set_node [''ChargePoint'', ''OcppSoftwareVersion''] (RString (to_cstr ver))
       (set_node [''OCPP1_6'', ''NumberOfConnectors''] (RInt (uint connectorNum)) cfg)"

definition DEFAULT_CONFIG_PATH :: string where
  "DEFAULT_CONFIG_PATH = ''/home/zlgmcu/project/learnC++/config_profile/app/ocpp/config/ocpp_default_config.json''"

text \<open>\<^verbatim>\<open>initConfigModel\<close>; a failure of \<^verbatim>\<open>setConfig\<close> is only logged.\<close>

definition open_models ::
  "(string \<Rightarrow> bool option) \<Rightarrow> string \<Rightarrow> string \<Rightarrow> ('d, 'c, 'cb) charge_point \<Rightarrow> (bool \<times> ('d, 'c, 'cb) charge_point) outcome option" where
  "open_models db_open db schema p =
     (case db_open db of
        None \<Rightarrow> None
      | Some False \<Rightarrow> Some (Value (False, p))
      | Some True \<Rightarrow> Some (Value (True, p\<lparr>cp_jsonValidator := Some schema\<rparr>)))"

definition initConfigModel ::
  "bool \<Rightarrow> (string \<Rightarrow> rjson option) \<Rightarrow> (rjson \<Rightarrow> string) \<Rightarrow> store_io \<Rightarrow> (string \<Rightarrow> bool option) \<Rightarrow> uint32 \<Rightarrow> string \<Rightarrow>
   ('d, 'c, 'cb) charge_point \<Rightarrow> (bool \<times> ('d, 'c, 'cb) charge_point) outcome option" where
  "initConfigModel asserts rd wr store db_open connectorNum ver p =
     (case initConfig asserts rd wr store False DEFAULT_CONFIG_PATH (cp_cfgPath p) (cp_config p) of
        None \<Rightarrow> None
      | Some Abort \<Rightarrow> Some Abort
      | Some Undefined \<Rightarrow> Some Undefined
      | Some (Value m) \<Rightarrow>
          (case Option.bind (getConfig [] m) (\<lambda>cfg. map_option (Pair cfg) (device_paths cfg)) of
             None \<Rightarrow> Some (Value (False, p\<lparr>cp_config := m\<rparr>))
           | Some (cfg, db, schema) \<Rightarrow>
               (case setConfig asserts [] (device_update connectorNum ver cfg) m of
                  Value (_, m1) \<Rightarrow> open_models db_open db schema (p\<lparr>cp_config := m1\<rparr>)
                | Abort \<Rightarrow> Some Abort
                | Undefined \<Rightarrow> Some Undefined)))"

definition initNetWorkModel :: "connect_info \<Rightarrow> nat \<Rightarrow> uint32 \<Rightarrow> ('d, 'c, 'cb) charge_point \<Rightarrow> bool \<times> ('d, 'c, 'cb) charge_point" where
  "initNetWorkModel info this connectorNum p =
     (let p1 = p\<lparr>cp_wsClient := True\<rparr>
      in if cp_threadPool p1 = None then (False, p1)
         else if cp_jsonValidator p1 = None then (False, p1)
         else (True, p1\<lparr>cp_ocppClient := Some (setOCPPClientListener (Some this) (OCPPClient info connectorNum))\<rparr>))"

text \<open>
  \<^verbatim>\<open>initComponents\<close>. It ends without a return statement when everything has succeeded, which is undefined behaviour for a
  function with a result.
\<close>

definition initComponents ::
  "'d query_engine \<Rightarrow> (string \<Rightarrow> bool) \<Rightarrow> int64 \<Rightarrow> time_point \<Rightarrow> (uint32 \<Rightarrow> addr \<times> addr \<times> addr \<times> addr) \<Rightarrow> nat \<Rightarrow> ('d, 'c, 'cb) charge_point \<Rightarrow>
   (bool \<times> ('d, 'c, 'cb) charge_point) outcome option" where
  "initComponents e prepared now clock alloc connectorNum p =
     (case (cp_ocppClient p, cp_timerPool p, cp_threadPool p) of
        (Some _, Some tm, Some tp) \<Rightarrow>
          let p1 = p\<lparr>cp_statusNotification := Some \<lparr>m_strCode = [], m_strErrMsg = []\<rparr>\<rparr>
          in (case initDatabaseTable e prepared now clock alloc (Connectors now connectorNum tp tm (cp_database p)) of
                None \<Rightarrow> None
              | Some (False, cs) \<Rightarrow> Some (Value (False, p1\<lparr>cp_connectors := Some cs, cp_database := m_database cs, cp_timerPool := Some (m_timerPool cs)\<rparr>))
              | Some (True, cs) \<Rightarrow> Some Undefined)
      | _ \<Rightarrow> Some (Value (False, p)))"

section \<open>What the initialisation does\<close>

lemma device_strings:
  "list_all (\<lambda>k. case map_of charge_point_defaults k of Some v \<Rightarrow> IsString v | None \<Rightarrow> False) [''DatabasePath'', ''JsonSchemasPath'', ''OcppSoftwareVersion'']"
  by code_simp

lemma segments: "split_key ''OCPP1_6.NumberOfConnectors'' = [''OCPP1_6'', ''NumberOfConnectors'']"
  "split_key ''ChargePoint.OcppSoftwareVersion'' = [''ChargePoint'', ''OcppSoftwareVersion'']"
  "to_cstr ''OCPP1_6'' = ''OCPP1_6''" "to_cstr ''NumberOfConnectors'' = ''NumberOfConnectors''" "to_cstr ''ChargePoint'' = ''ChargePoint''"
  "to_cstr ''OcppSoftwareVersion'' = ''OcppSoftwareVersion''"
  by (simp_all add: to_cstr_def)

lemma device_update_lookup:
  assumes "lookup_path [''OCPP1_6'', ''NumberOfConnectors''] cfg \<noteq> None" "lookup_path [''ChargePoint'', ''OcppSoftwareVersion''] cfg \<noteq> None"
  shows "lookup_path [''OCPP1_6'', ''NumberOfConnectors''] (device_update n ver cfg) = Some (RInt (uint n))"
    "lookup_path [''ChargePoint'', ''OcppSoftwareVersion''] (device_update n ver cfg) = Some (RString (to_cstr ver))"
    "IsObject (device_update n ver cfg)"
proof -
  let ?n = "[''OCPP1_6'', ''NumberOfConnectors'']" and ?v = "[''ChargePoint'', ''OcppSoftwareVersion'']"
  have par: "map to_cstr ?v \<parallel> map to_cstr ?n" "map to_cstr ?n \<parallel> map to_cstr ?v"
    by (simp_all add: segments parallel_def)
  let ?c = "set_node ?n (RInt (uint n)) cfg"
  have 1: "lookup_path ?n ?c = Some (RInt (uint n))" "lookup_path ?v ?c = lookup_path ?v cfg"
    using lookup_set_same [OF assms(1)] lookup_set_other [OF par(2)] by auto
  show 2: "lookup_path ?n (device_update n ver cfg) = Some (RInt (uint n))" "lookup_path ?v (device_update n ver cfg) = Some (RString (to_cstr ver))"
    unfolding device_update_def using lookup_set_other [OF par(1)] lookup_set_same [of ?v ?c] 1 assms(2) by auto
  show "IsObject (device_update n ver cfg)"
    by (rule lookup_object [OF 2(1)]) simp
qed

text \<open>
  The initialisation of the configuration records the number of connectors and the version, opens the
  database whose path is configured, and makes a validator for the configured schemas exactly if the database could be opened; it does
  not return if opening the database does not.
\<close>

theorem config_model_spec:
  assumes "initConfig asserts rd wr store False DEFAULT_CONFIG_PATH (cp_cfgPath p) (cp_config p) = Some (Value m)"
    "setting_fits IsUint m ''OCPP1_6.NumberOfConnectors''"
  shows "\<exists>db schema m1. initConfigModel asserts rd wr store db_open n ver p =
      (case db_open (to_cstr db) of
         None \<Rightarrow> None
       | Some ok \<Rightarrow> Some (Value (ok, if ok then p\<lparr>cp_config := m1, cp_jsonValidator := Some schema\<rparr> else p\<lparr>cp_config := m1\<rparr>))) \<and>
    getConfig ''ChargePoint.DatabasePath'' m = Some (RString db) \<and>
    getConfig ''OCPP1_6.NumberOfConnectors'' m1 = Some (RInt (uint n)) \<and> getConfig ''ChargePoint.OcppSoftwareVersion'' m1 = Some (RString (to_cstr ver))"
proof -
  obtain c oc where d: "IsObject (cm_doc m)" "FindMember (cm_doc m) ''ChargePoint'' = Some c" "completed charge_point_defaults c"
    "FindMember (cm_doc m) ''OCPP1_6'' = Some oc" "completed ocpp_defaults oc"
    using init_sections [OF assms(1)] .
  obtain cs os where o: "c = RObject cs" "oc = RObject os"
    using d(3,5) by (auto simp: completed_def IsObject_def split: rjson.splits)
  have g: "getConfig [] m = Some (cm_doc m)"
    using d(1) by (simp add: getConfig_def)
  have n: "getConfig ''OCPP1_6.NumberOfConnectors'' m = FindMember oc ''NumberOfConnectors''"
    "getConfig ''ChargePoint.DatabasePath'' m = FindMember c ''DatabasePath''"
    using getConfig_two [OF d(1,4), of "''OCPP1_6.NumberOfConnectors''" "''NumberOfConnectors''"]
      getConfig_two [OF d(1,2), of "''ChargePoint.DatabasePath''" "''DatabasePath''"] o
    by (simp_all add: to_cstr_def IsObject_def)
  obtain i where i: "FindMember oc ''NumberOfConnectors'' = Some (RInt i)" "IsUint (RInt i)"
    using fits_uint [OF assms(2) n(1)] by (auto simp: IsUint_def)
  obtain db schema v where t: "FindMember c ''DatabasePath'' = Some (RString db)" "FindMember c ''JsonSchemasPath'' = Some (RString schema)"
    "FindMember c ''OcppSoftwareVersion'' = Some (RString v)"
    using completed_string [OF d(3), of "''DatabasePath''"] completed_string [OF d(3), of "''JsonSchemasPath''"]
      completed_string [OF d(3), of "''OcppSoftwareVersion''"] device_strings by auto
  have paths: "device_paths (cm_doc m) = Some (to_cstr db, to_cstr schema)"
    using d(2,4) i t o by (simp add: device_paths_def FindMember_def)
  have l: "lookup_path [''OCPP1_6'', ''NumberOfConnectors''] (cm_doc m) \<noteq> None" "lookup_path [''ChargePoint'', ''OcppSoftwareVersion''] (cm_doc m) \<noteq> None"
    using d i t o by (simp_all add: segments IsObject_def)
  note u = device_update_lookup [OF l, of n ver]
  define m1 where "m1 = schedule_save (fold triggerCallbacks (diffJsonObjects [] (cm_doc m) (device_update n ver (cm_doc m))) (m\<lparr>cm_doc := device_update n ver (cm_doc m)\<rparr>))"
  have s: "setConfig asserts [] (device_update n ver (cm_doc m)) m = Value (True, m1)"
    using u(3) by (simp add: setConfig_def m1_def)
  have "cm_doc m1 = device_update n ver (cm_doc m)"
    by (simp add: m1_def)
  then have "getConfig ''OCPP1_6.NumberOfConnectors'' m1 = Some (RInt (uint n))" "getConfig ''ChargePoint.OcppSoftwareVersion'' m1 = Some (RString (to_cstr ver))"
    using u by (simp_all add: getConfig_def findNode_def segments find_lookup del: lookup_path.simps find_node.simps)
  moreover have "initConfigModel asserts rd wr store db_open n ver p = open_models db_open (to_cstr db) (to_cstr schema) (p\<lparr>cp_config := m1\<rparr>)"
    using assms(1) g paths s by (simp add: initConfigModel_def)
  ultimately show ?thesis
    using n(2) t(1) by (intro exI [of _ db] exI [of _ "to_cstr schema"] exI [of _ m1]) (simp add: open_models_def split: option.split bool.split)
qed

text \<open>The last part of the initialisation never returns true: on its only path to success it is undefined.\<close>

theorem components_never_succeed: "initComponents e prepared now clock alloc connectorNum p \<noteq> Some (Value (True, p'))"
  by (simp add: initComponents_def Let_def split: option.split prod.split bool.split)

text \<open>The network part needs a validator, so that it fails when the configuration part has not run.\<close>

lemma network_needs_validator: "cp_jsonValidator p = None \<Longrightarrow> fst (initNetWorkModel info this n p) = False"
  by (simp add: initNetWorkModel_def Let_def)

end
