(* ===== verification/Web_Socket.thy ===== *)
theory Web_Socket
  imports Ocpp_Client
begin

text \<open>
  The web socket of the charge point (\<^verbatim>\<open>src/src/ocpp/client/websocketclient/websock_client.cpp\<close>): connecting and
  reconnecting, the queue of messages to send, putting received fragments together, the authorization header.
  \<^item> libwebsockets is a parameter: what its functions return are arguments, and \<open>ws_wanted\<close> and \<open>ws_sul\<close> are its notes
    that a callback for writing and one for connecting have been asked for. A request to write from the service thread is kept
    until the callback; one from another thread may get lost, because the library accepts those only from a program
    that answers \<^verbatim>\<open>LWS_CALLBACK_GET_THREAD_ID\<close>, which this one does not.
  \<^item> \<open>ws_notes\<close> records the calls of the listener, \<open>ws_gone\<close> what has left the queue: with true if \<^verbatim>\<open>lws_write\<close> took it, and
    with false if it was deleted. No operation reads them.
  \<^item> A byte of the buffer for fragments is \<^const>\<open>None\<close> until it is written. Messages in the queue are never null, since
    \<^verbatim>\<open>new\<close> does not return null; \<^verbatim>\<open>m_self\<close> is set by the constructor and never changes.
\<close>

datatype ws_note = Note ws_event | Data "char option list"

record ws_client =
  ws_context :: ptr
  ws_wsi :: ptr
  ws_sul :: bool
  ws_wanted :: bool
  ws_listener :: ptr
  ws_thread :: bool
  ws_processEnd :: bool
  ws_retry_interval_ms :: uint32
  ws_ping_interval_s :: uint16
  ws_error_notified :: bool
  ws_url :: url
  ws_protocol :: string
  ws_credentials :: credentials
  ws_retry_count :: uint16
  ws_connected :: bool
  ws_queue :: "string mt_queue"
  ws_frame :: "char option list option"
  ws_frame_size :: uint64
  ws_frame_index :: uint64
  ws_notes :: "(addr \<times> ws_note) list"
  ws_gone :: "(bool \<times> string) list"

definition empty_url :: url where
  "empty_url = \<lparr>m_valid = False, m_protocol = [], m_username = [], m_password = [], m_host = [], m_port = 0, m_path = [],
     m_query = [], m_fragment = [], m_queryParams = (\<lambda>_. None)\<rparr>"

text \<open>The constructor does not initialise \<^verbatim>\<open>m_retry_count\<close>: \<open>garbage\<close> is what it finds there.\<close>

definition WebSocketClient :: "uint16 \<Rightarrow> ws_client" where
  "WebSocketClient garbage = \<lparr>ws_context = None, ws_wsi = None, ws_sul = False, ws_wanted = False, ws_listener = None,
     ws_thread = False, ws_processEnd = False, ws_retry_interval_ms = 0, ws_ping_interval_s = 0, ws_error_notified = False,
     ws_url = empty_url, ws_protocol = [], ws_credentials = no_credentials, ws_retry_count = garbage, ws_connected = False,
     ws_queue = new_queue, ws_frame = None, ws_frame_size = 0, ws_frame_index = 0, ws_notes = [], ws_gone = []\<rparr>"

definition registerListener :: "ptr \<Rightarrow> ws_client \<Rightarrow> ptr \<times> ws_client" where
  "registerListener l w = (ws_listener w, w\<lparr>ws_listener := l\<rparr>)"

definition isConnect :: "ws_client \<Rightarrow> bool" where
  "isConnect w = ws_connected w"

text \<open>A call of the listener. The code tests for a null listener at some of these calls only; without one the others are undefined.\<close>

definition tell :: "ws_note \<Rightarrow> ws_client \<Rightarrow> ws_client outcome" where
  "tell n w = (case ws_listener w of Some l \<Rightarrow> Value (w\<lparr>ws_notes := ws_notes w @ [(l, n)]\<rparr>) | None \<Rightarrow> Undefined)"

definition tell_if :: "ws_note \<Rightarrow> ws_client \<Rightarrow> ws_client" where
  "tell_if n w = (case ws_listener w of Some l \<Rightarrow> w\<lparr>ws_notes := ws_notes w @ [(l, n)]\<rparr> | None \<Rightarrow> w)"

section \<open>Connecting\<close>

record ssl_info =
  client_ssl_cipher_list :: "string option"
  client_tls_1_3_plus_cipher_list :: "string option"
  client_ssl_ca_mem :: "(string \<times> uint32) option"
  client_ssl_cert_mem :: "(string \<times> uint32) option"
  client_ssl_key_mem :: "(string \<times> uint32) option"
  client_ssl_ca_filepath :: "string option"
  client_ssl_cert_filepath :: "string option"
  client_ssl_private_key_filepath :: "string option"
  client_ssl_private_key_password :: "string option"

definition no_ssl :: ssl_info where
  "no_ssl = \<lparr>client_ssl_cipher_list = None, client_tls_1_3_plus_cipher_list = None, client_ssl_ca_mem = None,
     client_ssl_cert_mem = None, client_ssl_key_mem = None, client_ssl_ca_filepath = None, client_ssl_cert_filepath = None,
     client_ssl_private_key_filepath = None, client_ssl_private_key_password = None\<rparr>"

text \<open>A text that is set only if it is not empty; and one given with its length.\<close>

definition given :: "string \<Rightarrow> string option" where
  "given s = (if s \<noteq> [] then Some (to_cstr s) else None)"

definition given_mem :: "string \<Rightarrow> (string \<times> uint32) option" where
  "given_mem s = (if s \<noteq> [] then Some (s, of_nat (length s)) else None)"

definition setupSSLInfo :: "credentials \<Rightarrow> ssl_info" where
  "setupSSLInfo c =
     (let i = no_ssl\<lparr>client_ssl_cipher_list := given (tls12_cipher_list c),
                     client_tls_1_3_plus_cipher_list := given (tls13_cipher_list c)\<rparr>;
          j = (if encoded_pem_certificates c
               then i\<lparr>client_ssl_ca_mem := given_mem (server_certificate_ca c), client_ssl_cert_mem := given_mem (client_certificate c),
                      client_ssl_key_mem := given_mem (client_certificate_private_key c)\<rparr>
               else i\<lparr>client_ssl_ca_filepath := given (server_certificate_ca c), client_ssl_cert_filepath := given (client_certificate c),
                      client_ssl_private_key_filepath := given (client_certificate_private_key c)\<rparr>)
      in j\<lparr>client_ssl_private_key_password := given (client_certificate_private_key_passphrase c)\<rparr>)"

definition CONTEXT_PORT_NO_LISTEN :: int where
  "CONTEXT_PORT_NO_LISTEN = - 1"

record context_info =
  ctx_options :: uint64
  ctx_port :: int
  ctx_ssl :: ssl_info

text \<open>\<^verbatim>\<open>std::chrono::duration_cast\<close> to whole seconds, which rounds towards zero.\<close>

definition whole_seconds :: "int \<Rightarrow> int" where
  "whole_seconds ms = sgn ms * (\<bar>ms\<bar> div 1000)"

text \<open>
  \<open>create\<close> is \<^verbatim>\<open>lws_create_context\<close>. The time-out for connecting is an argument that the code does not use.
\<close>

definition Connect ::
  "(string \<Rightarrow> bool) \<Rightarrow> (context_info \<Rightarrow> ptr) \<Rightarrow> string \<Rightarrow> string \<Rightarrow> credentials \<Rightarrow> int \<Rightarrow> int \<Rightarrow> int \<Rightarrow> ws_client \<Rightarrow>
   url_error + bool \<times> ws_client" where
  "Connect inet6 create addr_text protocol cr connect_timeout retry_interval ping_interval w =
     (if ws_listener w = None then Inr (False, w)
      else if ws_thread w then Inr (False, w)
      else (case parse inet6 addr_text (ws_url w) of
         Inl e \<Rightarrow> Inl e
       | Inr (_, u) \<Rightarrow>
           if m_valid u \<and> (m_protocol u = ''ws'' \<or> m_protocol u = ''wss'')
           then let info = \<lparr>ctx_options = word_of_int CONTEXT_PORT_NO_LISTEN, ctx_port = CONTEXT_PORT_NO_LISTEN,
                            ctx_ssl = (if m_protocol u = ''wss'' then setupSSLInfo cr else no_ssl)\<rparr>;
                    w1 = w\<lparr>ws_url := u, ws_credentials := cr, ws_context := create info\<rparr>
                in if create info \<noteq> None
                   then Inr (True, w1\<lparr>ws_processEnd := False, ws_error_notified := False, ws_connected := False, ws_retry_count := 0,
                          ws_retry_interval_ms := word_of_int retry_interval,
                          ws_ping_interval_s := word_of_int (whole_seconds ping_interval),
                          ws_protocol := protocol, ws_thread := True, ws_sul := True\<rparr>)
                   else Inr (False, w1)
           else Inr (False, w\<lparr>ws_url := u\<rparr>)))"

definition LCCSCF_USE_SSL :: int32 where "LCCSCF_USE_SSL = push_bit 0 1"
definition LCCSCF_ALLOW_SELFSIGNED :: int32 where "LCCSCF_ALLOW_SELFSIGNED = push_bit 1 1"
definition LCCSCF_SKIP_SERVER_CERT_HOSTNAME_CHECK :: int32 where "LCCSCF_SKIP_SERVER_CERT_HOSTNAME_CHECK = push_bit 2 1"
definition LCCSCF_ALLOW_EXPIRED :: int32 where "LCCSCF_ALLOW_EXPIRED = push_bit 3 1"
definition LCCSCF_ALLOW_INSECURE :: int32 where "LCCSCF_ALLOW_INSECURE = push_bit 4 1"

lemmas lccscf_defs = LCCSCF_USE_SSL_def LCCSCF_ALLOW_SELFSIGNED_def LCCSCF_SKIP_SERVER_CERT_HOSTNAME_CHECK_def
  LCCSCF_ALLOW_EXPIRED_def LCCSCF_ALLOW_INSECURE_def

definition ssl_flags :: "credentials \<Rightarrow> int32" where
  "ssl_flags c =
     (let a = LCCSCF_USE_SSL;
          b = (if allow_selfsigned_certificates c then or a LCCSCF_ALLOW_SELFSIGNED else a);
          d = (if allow_expired_certificates c then or b LCCSCF_ALLOW_EXPIRED else b);
          e = (if accept_untrusted_certificates c then or d LCCSCF_ALLOW_INSECURE else d)
      in if skip_server_name_check c then or e LCCSCF_SKIP_SERVER_CERT_HOSTNAME_CHECK else e)"

record client_connect_info =
  cc_context :: ptr
  cc_address :: string
  cc_path :: string
  cc_host :: string
  cc_origin :: string
  cc_ssl_connection :: int32
  cc_port :: int
  cc_protocol :: string
  cc_local_protocol_name :: string

definition connect_args :: "ws_client \<Rightarrow> client_connect_info" where
  "connect_args w =
     (let u = ws_url w; host = to_cstr (m_host u); tls = (m_protocol u = ''wss'')
      in \<lparr>cc_context = ws_context w, cc_address = host, cc_path = to_cstr (m_path u), cc_host = host, cc_origin = host,
          cc_ssl_connection = (if tls then ssl_flags (ws_credentials w) else 0),
          cc_port = (if m_port u \<noteq> 0 then uint (m_port u) else if tls then 443 else 8080),
          cc_protocol = to_cstr (ws_protocol w), cc_local_protocol_name = ''WebSocketClient''\<rparr>)"

definition m_retry_table :: "uint32 list" where
  "m_retry_table = [500, 1000, 2000, 5000, 10000]"


text \<open>
  \<open>retry\<close> is \<^verbatim>\<open>lws_retry_sul_schedule\<close> with the policy of the code: the new count of attempts, and whether the callback
  was scheduled.
\<close>

definition schedule_retry :: "(uint16 \<Rightarrow> uint16 \<times> bool) \<Rightarrow> ws_client \<Rightarrow> ws_client" where
  "schedule_retry retry w =
     (case retry (ws_retry_count w) of (n, b) \<Rightarrow> w\<lparr>ws_retry_count := n, ws_sul := ws_sul w \<or> b\<rparr>)"

section \<open>Sending\<close>

text \<open>\<^verbatim>\<open>lws_callback_on_writable\<close>, as the library keeps it.\<close>

definition request_write :: "ws_client \<Rightarrow> ws_client" where
  "request_write w = w\<lparr>ws_wanted := True\<rparr>"

text \<open>
  \<^verbatim>\<open>send\<close>: the message is queued, and then the callback for writing is asked for if there is a connection. \<open>kept\<close> says whether the
  library keeps this request, which comes from a thread of its own.
\<close>

definition send_push :: "string \<Rightarrow> ws_client \<Rightarrow> bool \<times> ws_client" where
  "send_push m w =
     (if m = [] then (False, w)
      else (case queue_push SIZE_MAX m (ws_queue w) of (ok, q) \<Rightarrow> (ok, w\<lparr>ws_queue := q\<rparr>)))"

definition send_wake :: "bool \<Rightarrow> ws_client \<Rightarrow> ws_client" where
  "send_wake kept w = (if ws_connected w \<and> ws_wsi w \<noteq> None then (if kept then request_write w else w) else w)"

definition ws_send :: "bool \<Rightarrow> string \<Rightarrow> ws_client \<Rightarrow> bool \<times> ws_client" where
  "ws_send kept m w = (case send_push m w of (ok, w1) \<Rightarrow> if ok then (True, send_wake kept w1) else (False, w1))"

text \<open>The loop of the callback for writing; \<open>sent\<close> is what \<^verbatim>\<open>lws_write\<close> returns.\<close>

datatype write_result = Queue_Empty | Write_Failed | Written

definition pop_write :: "(string \<Rightarrow> int) \<Rightarrow> ws_client \<Rightarrow> write_result \<times> ws_client" where
  "pop_write sent w =
     (case queue_pop True (ws_queue w) of
        Some (True, Some m, q) \<Rightarrow>
          (if sent m < 0 then Write_Failed else Written, w\<lparr>ws_queue := q, ws_gone := ws_gone w @ [(sent m \<ge> 0, m)]\<rparr>)
      | _ \<Rightarrow> (Queue_Empty, w))"

definition test_more :: "ws_client \<Rightarrow> bool \<times> ws_client" where
  "test_more w = (if \<not> queue_empty (ws_queue w) then (True, request_write w) else (False, w))"

lemma pop_write_smaller:
  "pop_write sent w = (Written, w1) \<Longrightarrow> length (mq_items (ws_queue w1)) < length (mq_items (ws_queue w))"
  by (auto simp: pop_write_def queue_pop_def split: if_splits)

function write_loop :: "(string \<Rightarrow> int) \<Rightarrow> ws_client \<Rightarrow> int \<times> ws_client" where
  "write_loop sent w =
     (case pop_write sent w of
        (Queue_Empty, w1) \<Rightarrow> (0, w1)
      | (Write_Failed, w1) \<Rightarrow> (- 1, w1)
      | (Written, w1) \<Rightarrow> (case test_more w1 of (True, w2) \<Rightarrow> (0, w2) | (False, w2) \<Rightarrow> write_loop sent w2))"
  by pat_completeness auto

termination
  by (relation "measure (\<lambda>(_, w). length (mq_items (ws_queue w)))")
     (auto dest!: pop_write_smaller sym [of _ "pop_write _ _"] simp: test_more_def split: if_splits)

declare write_loop.simps [simp del]

text \<open>The loop that deletes everything in the queue.\<close>

function drain :: "ws_client \<Rightarrow> ws_client" where
  "drain w =
     (case queue_pop True (ws_queue w) of
        Some (True, Some m, q) \<Rightarrow> drain (w\<lparr>ws_queue := q, ws_gone := ws_gone w @ [(False, m)]\<rparr>)
      | _ \<Rightarrow> w)"
  by pat_completeness auto

termination
  by (relation "measure (\<lambda>w. length (mq_items (ws_queue w)))") (auto simp: queue_pop_def split: if_splits)

declare drain.simps [simp del]

section \<open>Receiving\<close>

definition releaseFragmentedFrame :: "ws_client \<Rightarrow> ws_client" where
  "releaseFragmentedFrame w = w\<lparr>ws_frame := None, ws_frame_size := 0, ws_frame_index := 0\<rparr>"

definition beginFragmentedFrame :: "uint64 \<Rightarrow> ws_client \<Rightarrow> ws_client" where
  "beginFragmentedFrame frame_size w =
     (releaseFragmentedFrame w)\<lparr>ws_frame := Some (replicate (unat frame_size) None), ws_frame_size := frame_size\<rparr>"

text \<open>\<^verbatim>\<open>memcpy\<close> of the first \<open>n\<close> bytes of \<open>src\<close> to position \<open>i\<close>; outside the two buffers it is undefined.\<close>

definition copy_into :: "char option list \<Rightarrow> nat \<Rightarrow> string \<Rightarrow> nat \<Rightarrow> char option list outcome" where
  "copy_into buf i src n =
     (if n \<le> length src \<and> i + n \<le> length buf
      then Value (take i buf @ map Some (take n src) @ drop (i + n) buf) else Undefined)"

text \<open>Without a buffer, copying no byte has no effect.\<close>

definition appendFragmentedDate :: "string \<Rightarrow> ws_client \<Rightarrow> ws_client outcome" where
  "appendFragmentedDate fragment w =
     (let sz = of_nat (length fragment) :: uint64;
          copy_len = (if ws_frame_index w + sz \<ge> ws_frame_size w then ws_frame_size w - ws_frame_index w else sz)
      in case ws_frame w of
           None \<Rightarrow> if copy_len = 0 then Value w else Undefined
         | Some buf \<Rightarrow>
             bind_outcome (copy_into buf (unat (ws_frame_index w)) fragment (unat copy_len)) (\<lambda>b.
               Value (w\<lparr>ws_frame := Some b, ws_frame_index := ws_frame_index w + copy_len\<rparr>)))"

text \<open>
  The callback for received data: \<open>is_first\<close>, \<open>is_last\<close> and \<open>remaining\<close> are the answers of \<^verbatim>\<open>lws_is_first_fragment\<close>,
  \<^verbatim>\<open>lws_is_final_fragment\<close> and \<^verbatim>\<open>lws_remaining_packet_payload\<close>.
\<close>

definition receive :: "bool \<Rightarrow> bool \<Rightarrow> uint64 \<Rightarrow> string \<Rightarrow> ws_client \<Rightarrow> ws_client outcome" where
  "receive is_first is_last remaining fragment w =
     (if ws_listener w = None then Value w
      else if is_first \<and> is_last then Value (tell_if (Data (map Some fragment)) w)
      else if is_first then appendFragmentedDate fragment (beginFragmentedFrame (of_nat (length fragment) + remaining) w)
      else bind_outcome (appendFragmentedDate fragment w) (\<lambda>w1.
             Value (if is_last
                    then releaseFragmentedFrame (tell_if (Data (take (unat (ws_frame_size w1)) (case ws_frame w1 of Some b \<Rightarrow> b | None \<Rightarrow> []))) w1)
                    else w1)))"

text \<open>\<^verbatim>\<open>OCPPClient::wsClientDataReceived\<close> makes a string of the bytes; reading a byte that was never written is undefined.\<close>

definition wsClientDataReceived :: "char option list \<Rightarrow> string outcome" where
  "wsClientDataReceived bs = (if None \<in> set bs then Undefined else Value (map the bs))"

section \<open>The authorization header\<close>

text \<open>
  \<open>b64\<close> is \<^verbatim>\<open>lws_b64_encode_string\<close>: the terminated text it writes into a buffer of the given size, or nothing if
  the buffer is too small; its result is not looked at, and \<open>Auth_Garbage\<close> is a buffer whose contents are then not known.
\<close>

datatype auth_header = Auth_Error int | Auth_Text string | Auth_Garbage

definition lws_http_basic_auth_gen2_ocpp :: "(string \<Rightarrow> int \<Rightarrow> string option) \<Rightarrow> string \<Rightarrow> string \<Rightarrow> nat \<Rightarrow> auth_header" where
  "lws_http_basic_auth_gen2_ocpp b64 user pw len =
     (let n = length user; m = length pw
      in if len < 6 + (4 * (n + m + 1)) div 3 + 1 then Auth_Error 1
         else let b = take 127 (user @ '':'')
              in if length b + m \<ge> 128 - 2 then Auth_Error 2
                 else (case b64 (b @ pw) (int len - 6) of
                         Some t \<Rightarrow> Auth_Text (''Basic '' @ t)
                       | None \<Rightarrow> Auth_Garbage))"

text \<open>The header that the callback adds to the handshake, if any.\<close>

definition handshake_header :: "(string \<Rightarrow> int \<Rightarrow> string option) \<Rightarrow> ws_client \<Rightarrow> auth_header option" where
  "handshake_header b64 w =
     (if cr_user (ws_credentials w) = [] then None
      else (case lws_http_basic_auth_gen2_ocpp b64 (to_cstr (cr_user (ws_credentials w))) (cr_password (ws_credentials w)) 128 of
              Auth_Error e \<Rightarrow> None
            | h \<Rightarrow> Some h))"

section \<open>The callback\<close>

datatype lws_callback =
    LWS_EVENT_WAIT_CANCELLED
  | LWS_CLIENT_CONNECTION_ERROR
  | LWS_CLIENT_APPEND_HANDSHAKE_HEADER
  | LWS_CLIENT_ESTABLISHED
  | LWS_CLIENT_RECEIVE bool bool uint64 string
  | LWS_CLIENT_WRITEABLE
  | LWS_CLOSED_CLIENT_HTTP
  | LWS_CLIENT_CLOSED
  | LWS_OTHER

definition established_begin :: "ws_client \<Rightarrow> ws_client" where
  "established_begin w = tell_if (Note Ws_Connected) (w\<lparr>ws_retry_count := 0, ws_connected := True, ws_error_notified := False\<rparr>)"

definition established_end :: "ws_client \<Rightarrow> ws_client" where
  "established_end w = (if \<not> queue_empty (ws_queue w) \<and> ws_wsi w \<noteq> None then request_write w else w)"

definition connection_error :: "ws_client \<Rightarrow> (bool \<times> ws_client) outcome" where
  "connection_error w =
     bind_outcome (if \<not> ws_error_notified w then tell (Note Ws_Failed) (w\<lparr>ws_error_notified := True\<rparr>) else Value w)
       (\<lambda>w1. Value (ws_context w1 \<noteq> None, w1))"

definition client_closed :: "ws_client \<Rightarrow> (bool \<times> ws_client) outcome" where
  "client_closed w =
     bind_outcome (tell (Note Ws_Disconnected) (w\<lparr>ws_connected := False, ws_wanted := False\<rparr>)) (\<lambda>w1. Value (ws_retry_interval_ms w1 \<noteq> 0, drain w1))"

text \<open>
  \<^verbatim>\<open>eventcb\<close> for a client that is not null (for null it does nothing), with the result for the library. \<open>dummy\<close> is what
  \<^verbatim>\<open>lws_callback_http_dummy\<close> returns. With the connection the library forgets the request to write.
\<close>

definition finish_event :: "(uint16 \<Rightarrow> uint16 \<times> bool) \<Rightarrow> int \<Rightarrow> (bool \<times> ws_client) outcome \<Rightarrow> (int \<times> ws_client) outcome" where
  "finish_event retry dummy r =
     bind_outcome r (\<lambda>(again, w). Value (dummy, if again then schedule_retry retry w else w))"

definition eventcb ::
  "(uint16 \<Rightarrow> uint16 \<times> bool) \<Rightarrow> (string \<Rightarrow> int) \<Rightarrow> int \<Rightarrow> lws_callback \<Rightarrow> ws_client \<Rightarrow> (int \<times> ws_client) outcome" where
  "eventcb retry sent dummy reason w =
     (case reason of
        LWS_EVENT_WAIT_CANCELLED \<Rightarrow>
          (if \<not> ws_processEnd w \<and> \<not> queue_empty (ws_queue w)
           then (if ws_wsi w = None then Undefined else Value (dummy, request_write w)) else Value (dummy, w))
      | LWS_CLIENT_CONNECTION_ERROR \<Rightarrow> finish_event retry dummy (connection_error w)
      | LWS_CLIENT_APPEND_HANDSHAKE_HEADER \<Rightarrow> Value (dummy, w)
      | LWS_CLIENT_ESTABLISHED \<Rightarrow> Value (dummy, established_end (established_begin w))
      | LWS_CLIENT_RECEIVE is_first is_last remaining fragment \<Rightarrow>
          bind_outcome (receive is_first is_last remaining fragment w) (\<lambda>w1. Value (dummy, w1))
      | LWS_CLIENT_WRITEABLE \<Rightarrow>
          (case write_loop sent (w\<lparr>ws_wanted := False\<rparr>) of (r, w1) \<Rightarrow> Value (if r < 0 then r else dummy, w1))
      | LWS_CLOSED_CLIENT_HTTP \<Rightarrow> finish_event retry dummy (Value (ws_retry_interval_ms w \<noteq> 0, w))
      | LWS_CLIENT_CLOSED \<Rightarrow> finish_event retry dummy (client_closed w)
      | LWS_OTHER \<Rightarrow> Value (dummy, w))"

text \<open>Several callbacks one after the other, and the callback that connects. \<open>connect\<close> is \<^verbatim>\<open>lws_client_connect_via_info\<close>: the instance
  that it stores early, the callbacks it makes meanwhile, with which it may report an error already, and whether it returns
  an instance.\<close>

fun eventcbs ::
  "(uint16 \<Rightarrow> uint16 \<times> bool) \<Rightarrow> (string \<Rightarrow> int) \<Rightarrow> int \<Rightarrow> lws_callback list \<Rightarrow> ws_client \<Rightarrow> ws_client outcome" where
  "eventcbs retry sent dummy [] w = Value w"
| "eventcbs retry sent dummy (reason # rs) w =
     bind_outcome (eventcb retry sent dummy reason w) (\<lambda>(_, w1). eventcbs retry sent dummy rs w1)"

definition connectcb ::
  "(uint16 \<Rightarrow> uint16 \<times> bool) \<Rightarrow> (string \<Rightarrow> int) \<Rightarrow> int \<Rightarrow> (client_connect_info \<Rightarrow> ptr \<times> lws_callback list \<times> bool) \<Rightarrow> ws_client \<Rightarrow>
   ws_client outcome" where
  "connectcb retry sent dummy connect w =
     (let w0 = w\<lparr>ws_sul := False\<rparr>
      in if ws_processEnd w then Value w0
         else (case connect (connect_args w) of
                 (wsi, reasons, ok) \<Rightarrow>
                   bind_outcome (eventcbs retry sent dummy reasons (w0\<lparr>ws_wsi := wsi\<rparr>)) (\<lambda>w1.
                     Value (if ok then w1 else schedule_retry retry w1))))"

section \<open>Disconnecting\<close>

definition disconnect_begin :: "bool \<Rightarrow> ws_client \<Rightarrow> ws_client" where
  "disconnect_begin clearMsgFlag w =
     (let w1 = w\<lparr>ws_processEnd := True, ws_retry_count := 0\<rparr> in if clearMsgFlag then drain w1 else w1)"

definition drop_thread :: "ws_client \<Rightarrow> ws_client" where
  "drop_thread w = w\<lparr>ws_thread := False, ws_connected := False\<rparr>"

definition destroy_context :: "ws_client \<Rightarrow> ws_client" where
  "destroy_context w = w\<lparr>ws_context := None, ws_sul := False, ws_wanted := False\<rparr>"

text \<open>The whole of \<^verbatim>\<open>disConnect\<close>, when no other thread is in it.\<close>

definition disConnect :: "bool \<Rightarrow> ws_client \<Rightarrow> bool \<times> ws_client" where
  "disConnect clearMsgFlag w =
     (if ws_thread w then (True, destroy_context (drop_thread (disconnect_begin clearMsgFlag w))) else (False, w))"

text \<open>The destructor.\<close>

definition destroy_WebSocketClient :: "ws_client \<Rightarrow> ws_client" where
  "destroy_WebSocketClient w = releaseFragmentedFrame (snd (disConnect True w))"

text \<open>
  The same code with its interleaving. A \<^verbatim>\<open>std::thread\<close> is null, running, joined by a thread that waits, or empty: after
  a join or a detach. \<open>own\<close> says that the calling thread is the service thread, \<open>ended\<close> that the service thread has ended.
  Joining or detaching a thread that is being joined, and using a null pointer, are undefined; joining an empty thread
  throws, and deleting one that runs ends the process (\<^const>\<open>Abort\<close>).
\<close>

datatype thread_obj = Th_Null | Th_Running | Th_Joining | Th_Empty

datatype dc_pc = Dc_Test | Dc_Begin | Dc_Cancel | Dc_Id | Dc_Join | Dc_Joining | Dc_Detach | Dc_Release | Dc_Destroy | Dc_Done bool

fun dc_move :: "bool \<Rightarrow> bool \<Rightarrow> bool \<Rightarrow> dc_pc \<Rightarrow> thread_obj \<times> ws_client \<Rightarrow> (dc_pc \<times> thread_obj \<times> ws_client) option outcome" where
  "dc_move own clr ended Dc_Test (t, w) = Value (Some (if t \<noteq> Th_Null then Dc_Begin else Dc_Done False, t, w))"
| "dc_move own clr ended Dc_Begin (t, w) = Value (Some (Dc_Cancel, t, disconnect_begin clr w))"
| "dc_move own clr ended Dc_Cancel (t, w) = (if ws_context w = None then Undefined else Value (Some (Dc_Id, t, w)))"
| "dc_move own clr ended Dc_Id (t, w) =
     (if t = Th_Null then Undefined else Value (Some (if own \<and> t \<noteq> Th_Empty then Dc_Detach else Dc_Join, t, w)))"
| "dc_move own clr ended Dc_Join (t, w) =
     (case t of Th_Running \<Rightarrow> Value (Some (Dc_Joining, Th_Joining, w)) | Th_Empty \<Rightarrow> Abort | _ \<Rightarrow> Undefined)"
| "dc_move own clr ended Dc_Joining (t, w) = (if ended then Value (Some (Dc_Release, Th_Empty, w)) else Value None)"
| "dc_move own clr ended Dc_Detach (t, w) =
     (case t of Th_Running \<Rightarrow> Value (Some (Dc_Release, Th_Empty, w)) | Th_Empty \<Rightarrow> Abort | _ \<Rightarrow> Undefined)"
| "dc_move own clr ended Dc_Release (t, w) =
     (if t = Th_Running \<or> t = Th_Joining then Abort else Value (Some (Dc_Destroy, Th_Null, drop_thread w)))"
| "dc_move own clr ended Dc_Destroy (t, w) = Value (Some (Dc_Done True, t, destroy_context w))"
| "dc_move own clr ended (Dc_Done b) (t, w) = Value None"

text \<open>
  The service thread (\<^verbatim>\<open>process\<close>): the loop, the test after it, its own call of \<^verbatim>\<open>disConnect\<close>, the call of the listener.
\<close>

datatype service_pc = Sv_Loop | Sv_Exit | Sv_Dis dc_pc | Sv_Tell | Sv_End

datatype dc_state = Dc_Run dc_pc service_pc thread_obj ws_client | Dc_Crashed

fun service_move :: "service_pc \<Rightarrow> thread_obj \<times> ws_client \<Rightarrow> (service_pc \<times> thread_obj \<times> ws_client) option outcome" where
  "service_move Sv_Loop (t, w) = Value (if ws_processEnd w then Some (Sv_Exit, t, w) else None)"
| "service_move Sv_Exit (t, w) = Value (Some (if ws_processEnd w then Sv_Dis Dc_Test else Sv_End, t, w))"
| "service_move (Sv_Dis (Dc_Done b)) (t, w) = Value (Some (Sv_Tell, t, w))"
| "service_move (Sv_Dis pc) (t, w) =
     bind_outcome (dc_move True True False pc (t, w)) (\<lambda>r. Value (map_option (\<lambda>(pc', t', w'). (Sv_Dis pc', t', w')) r))"
| "service_move Sv_Tell (t, w) = bind_outcome (tell (Note Ws_Error) w) (\<lambda>w'. Value (Some (Sv_End, t, w')))"
| "service_move Sv_End (t, w) = Value None"

text \<open>
  One call of \<^verbatim>\<open>disConnect\<close> by another thread. \<open>errs\<close> allows \<^verbatim>\<open>lws_service\<close> to fail, which also ends the loop.
\<close>

inductive dc_step :: "bool \<Rightarrow> bool \<Rightarrow> dc_state \<Rightarrow> dc_state \<Rightarrow> bool" for errs clr where
  caller: "dc_move False clr (sv = Sv_End) pc (t, w) = Value (Some (pc', t', w')) \<Longrightarrow>
    dc_step errs clr (Dc_Run pc sv t w) (Dc_Run pc' sv t' w')"
| caller_crash: "dc_move False clr (sv = Sv_End) pc (t, w) \<in> {Abort, Undefined} \<Longrightarrow> dc_step errs clr (Dc_Run pc sv t w) Dc_Crashed"
| service: "service_move sv (t, w) = Value (Some (sv', t', w')) \<Longrightarrow> dc_step errs clr (Dc_Run pc sv t w) (Dc_Run pc sv' t' w')"
| service_crash: "service_move sv (t, w) \<in> {Abort, Undefined} \<Longrightarrow> dc_step errs clr (Dc_Run pc sv t w) Dc_Crashed"
| service_error: "errs \<Longrightarrow> dc_step errs clr (Dc_Run pc Sv_Loop t w) (Dc_Run pc Sv_Exit t w)"

section \<open>What is connected to, and what a callback writes\<close>

text \<open>The address that the socket connects to, when the URL has no port: the defaults of the URL class apply, not those of the callback.\<close>

theorem default_ports:
  assumes "Connect inet6 create s protocol cr t r p w = Inr (True, w')" and "urlRegex s = Some (prot, m)" and "mt_port m = []"
  shows "cc_port (connect_args w') = (if prot = ''wss'' then 443 else 80)"
proof -
  have "m_protocol (ws_url w') = prot \<and> m_port (ws_url w') = default_port prot \<and> prot \<in> {''ws'', ''wss''}"
    using assms by (auto simp: Connect_def parse_def assign_port_def Let_def split: if_splits)
  then show ?thesis by (auto simp: connect_args_def Let_def default_port_def s_defaultPorts_def)
qed

lemma lccscf_bits:
  "bit LCCSCF_USE_SSL i \<longleftrightarrow> i = 0" "bit LCCSCF_ALLOW_SELFSIGNED i \<longleftrightarrow> i = 1"
  "bit LCCSCF_SKIP_SERVER_CERT_HOSTNAME_CHECK i \<longleftrightarrow> i = 2" "bit LCCSCF_ALLOW_EXPIRED i \<longleftrightarrow> i = 3"
  "bit LCCSCF_ALLOW_INSECURE i \<longleftrightarrow> i = 4"
  unfolding lccscf_defs bit_push_bit_iff bit_1_iff by auto

text \<open>The flags for a connection with TLS.\<close>

theorem ssl_flags_bits:
  "bit (ssl_flags c) i \<longleftrightarrow> i = 0 \<or> i = 1 \<and> allow_selfsigned_certificates c \<or> i = 2 \<and> skip_server_name_check c \<or>
     i = 3 \<and> allow_expired_certificates c \<or> i = 4 \<and> accept_untrusted_certificates c"
  by (auto simp: ssl_flags_def lccscf_bits Let_def bit_or_iff)

text \<open>
  One message for each callback: the first of the queue is handed to the library and removed, also when that fails; if there
  are more, the next callback is asked for.
\<close>

theorem one_message_per_callback:
  assumes "mq_enabled (ws_queue w)" and "mq_items (ws_queue w) = m # ms"
  shows "write_loop sent w =
    (if sent m < 0 then - 1 else 0,
     w\<lparr>ws_queue := (ws_queue w)\<lparr>mq_items := ms\<rparr>, ws_gone := ws_gone w @ [(sent m \<ge> 0, m)],
       ws_wanted := ws_wanted w \<or> sent m \<ge> 0 \<and> ms \<noteq> []\<rparr>)"
proof -
  let ?w = "w\<lparr>ws_queue := (ws_queue w)\<lparr>mq_items := ms\<rparr>, ws_gone := ws_gone w @ [(sent m \<ge> 0, m)]\<rparr>"
  have p: "pop_write sent w = (if sent m < 0 then Write_Failed else Written, ?w)"
    using assms by (simp add: pop_write_def queue_pop_def)
  have "write_loop sent ?w = (0, ?w)" if "ms = []"
    using that assms by (subst write_loop.simps) (simp add: pop_write_def queue_pop_def)
  then show ?thesis
    unfolding write_loop.simps [of sent w] p by (auto simp: test_more_def queue_empty_def request_write_def)
qed

section \<open>Putting fragments together\<close>

text \<open>
  The buffer after the bytes \<open>p\<close> have been put into one of \<open>n\<close> bytes.
\<close>

definition holds :: "nat \<Rightarrow> string \<Rightarrow> ws_client \<Rightarrow> bool" where
  "holds n p w \<longleftrightarrow> length p \<le> n \<and> n < 2 ^ 64 \<and> ws_frame w = Some (map Some p @ replicate (n - length p) None) \<and>
     ws_frame_size w = of_nat n \<and> ws_frame_index w = of_nat (length p)"

lemma unat_of_nat_64: "n < 2 ^ 64 \<Longrightarrow> unat (of_nat n :: uint64) = n"
  by (simp add: unat_of_nat take_bit_nat_eq_self)

lemma begin_holds: "holds (unat n) [] (beginFragmentedFrame n w)"
  using unsigned_less [of n] by (simp add: holds_def beginFragmentedFrame_def releaseFragmentedFrame_def)

lemma append_holds:
  assumes h: "holds n p w" and c: "length p + length c < 2 ^ 64"
  shows "\<exists>w'. appendFragmentedDate c w = Value w' \<and> holds n (take n (p @ c)) w' \<and> ws_notes w' = ws_notes w \<and>
    ws_listener w' = ws_listener w \<and> ws_queue w' = ws_queue w"
proof -
  let ?i = "of_nat (length p) :: uint64" and ?z = "of_nat (length c) :: uint64" and ?n = "of_nat n :: uint64"
  define k where "k = min (length c) (n - length p)"
  have u: "unat ?i = length p" "unat ?z = length c" "unat ?n = n" "unat (?i + ?z) = length p + length c"
    using h c unat_of_nat_64 [of "length p + length c"] by (simp_all add: holds_def unat_of_nat_64)
  have le: "?i + ?z \<ge> ?n \<longleftrightarrow> n \<le> length p + length c" using u by (simp add: word_le_nat_alt)
  have len: "unat (if ?i + ?z \<ge> ?n then ?n - ?i else ?z) = k"
    using h u le by (auto simp: k_def holds_def unat_sub word_le_nat_alt)
  have "(if ?i + ?z \<ge> ?n then ?n - ?i else ?z) = of_nat (unat (if ?i + ?z \<ge> ?n then ?n - ?i else ?z))"
    by (simp add: of_nat_unat)
  then have cl: "(if ?i + ?z \<ge> ?n then ?n - ?i else ?z) = of_nat k" unfolding len .
  have copied: "copy_into (map Some p @ replicate (n - length p) None) (length p) c k =
      Value (map Some (take n (p @ c)) @ replicate (n - length (take n (p @ c))) None)"
    using h by (auto simp: copy_into_def k_def holds_def min_def)
  let ?w = "w\<lparr>ws_frame := Some (map Some (take n (p @ c)) @ replicate (n - length (take n (p @ c))) None), ws_frame_index := ?i + of_nat k\<rparr>"
  have w: "ws_frame w = Some (map Some p @ replicate (n - length p) None)" "ws_frame_size w = ?n" "ws_frame_index w = ?i"
    using h by (simp_all add: holds_def)
  have "k < 2 ^ 64" using c by (simp add: k_def)
  then have "appendFragmentedDate c w = Value ?w"
    unfolding appendFragmentedDate_def Let_def w cl by (simp add: u(1) unat_of_nat_64 copied)
  moreover have "length (take n (p @ c)) = length p + k" "length p + k \<le> n" using h by (auto simp: k_def holds_def)
  then have "holds n (take n (p @ c)) ?w" using h by (simp add: holds_def)
  ultimately show ?thesis by (intro exI [of _ ?w]) simp
qed

text \<open>A message that arrives as several fragments.\<close>

fun receive_more :: "string list \<Rightarrow> ws_client \<Rightarrow> ws_client outcome" where
  "receive_more [] w = Value w"
| "receive_more [c] w = receive False True 0 c w"
| "receive_more (c # cs) w = bind_outcome (receive False False 0 c w) (receive_more cs)"

definition receive_message :: "uint64 \<Rightarrow> string list \<Rightarrow> ws_client \<Rightarrow> ws_client outcome" where
  "receive_message remaining cs w =
     (case cs of
        [] \<Rightarrow> Value w
      | [c] \<Rightarrow> receive True True remaining c w
      | c # ds \<Rightarrow> bind_outcome (receive True False remaining c w) (receive_more ds))"

lemma receive_more_holds:
  assumes "holds n p w" and "ws_listener w = Some l" and "cs \<noteq> []" and "length p + length (concat cs) < 2 ^ 64"
  shows "\<exists>w'. receive_more cs w = Value w' \<and> ws_frame w' = None \<and> ws_queue w' = ws_queue w \<and> ws_notes w' = ws_notes w @
    [(l, Data (map Some (take n (p @ concat cs)) @ replicate (n - length (p @ concat cs)) None))]"
  using assms
proof (induction cs w arbitrary: p rule: receive_more.induct)
  case (2 c w)
  obtain w1 where w1: "appendFragmentedDate c w = Value w1" "holds n (take n (p @ c)) w1" "ws_notes w1 = ws_notes w"
    "ws_listener w1 = Some l" "ws_queue w1 = ws_queue w"
    using append_holds [OF "2.prems"(1), of c] "2.prems"(2,4) by auto
  then have "unat (ws_frame_size w1) = n" by (simp add: holds_def unat_of_nat_64)
  with w1 show ?case
    using "2.prems"(2) by (auto simp: receive_def holds_def tell_if_def releaseFragmentedFrame_def min_def)
next
  case (3 c d ds w)
  obtain w1 where w1: "appendFragmentedDate c w = Value w1" "holds n (take n (p @ c)) w1" "ws_notes w1 = ws_notes w"
    "ws_listener w1 = Some l" "ws_queue w1 = ws_queue w"
    using append_holds [OF "3.prems"(1), of c] "3.prems"(2,4) by auto
  have "length (take n (p @ c)) + length (concat (d # ds)) < 2 ^ 64" using "3.prems"(4) by auto
  from "3.IH" [OF w1(2,4) _ this] w1 "3.prems"(2) show ?case
    by (auto simp: receive_def min_def)
qed simp

lemma received_bytes: "wsClientDataReceived (map Some xs @ replicate k None) = (if k = 0 then Value xs else Undefined)"
  by (auto simp: wsClientDataReceived_def)

text \<open>
  C35. A message in several fragments. The buffer has as many bytes as the library announced with the first fragment, \<open>n\<close>.
  Every byte of the fragments that fits is put there in order, the last fragment makes the listener get the buffer, once, and
  the buffer is released; nothing is written beside it. If the message has exactly \<open>n\<close> bytes the client gets it unchanged; of a
  longer message, which the sender divided into several frames, it gets only the first \<open>n\<close> bytes.
\<close>

theorem fragments_are_joined:
  assumes l: "ws_listener w = Some l" and cs: "1 < length cs" and small: "length (concat cs) < 2 ^ 64"
    and n: "length (hd cs) + unat remaining < 2 ^ 64"
  shows "let n = length (hd cs) + unat remaining; bs = map Some (take n (concat cs)) @ replicate (n - length (concat cs)) None
    in \<exists>w'. receive_message remaining cs w = Value w' \<and> ws_notes w' = ws_notes w @ [(l, Data bs)] \<and> ws_frame w' = None \<and>
         ws_queue w' = ws_queue w \<and> wsClientDataReceived bs = (if n \<le> length (concat cs) then Value (take n (concat cs)) else Undefined)"
proof -
  obtain c d ds where c: "cs = c # d # ds" using cs by (cases cs; cases "tl cs") auto
  let ?n = "length c + unat remaining" and ?z = "of_nat (length c) + remaining :: uint64"
  have "unat (of_nat (length c) :: uint64) = length c" using n c by (simp add: unat_of_nat_64)
  then have z: "unat ?z = ?n" using n c by (simp add: unat_word_ariths)
  have h: "holds ?n [] (beginFragmentedFrame ?z w)" using begin_holds [of ?z w] z by simp
  have b: "ws_notes (beginFragmentedFrame ?z w) = ws_notes w" "ws_listener (beginFragmentedFrame ?z w) = Some l"
    "ws_queue (beginFragmentedFrame ?z w) = ws_queue w"
    using l by (simp_all add: beginFragmentedFrame_def releaseFragmentedFrame_def)
  obtain w1 where w1: "appendFragmentedDate c (beginFragmentedFrame ?z w) = Value w1" "holds ?n c w1" "ws_notes w1 = ws_notes w"
    "ws_listener w1 = Some l" "ws_queue w1 = ws_queue w"
    using append_holds [OF h, of c] small c b by auto
  have "length c + length (concat (d # ds)) < 2 ^ 64" using small c by simp
  from receive_more_holds [OF w1(2,4) _ this] obtain w' where w':
    "receive_more (d # ds) w1 = Value w'" "ws_frame w' = None" "ws_queue w' = ws_queue w1" "ws_notes w' = ws_notes w1 @
      [(l, Data (map Some (take ?n (c @ concat (d # ds))) @ replicate (?n - length (c @ concat (d # ds))) None))]"
    by blast
  have "receive_message remaining cs w = Value w'"
    using w1(1) w'(1) l c by (simp add: receive_message_def receive_def)
  then show ?thesis
    unfolding Let_def received_bytes using w'(2-4) w1(3,5) c by auto
qed

theorem fragments_are_joined_witness:
  "\<exists>w'. receive_message 3 [''ab'', ''cd'', ''e''] ((WebSocketClient 0)\<lparr>ws_listener := Some 7\<rparr>) = Value w' \<and>
     ws_notes w' = [(7, Data (map Some ''abcde''))]"
  using fragments_are_joined [of "(WebSocketClient 0)\<lparr>ws_listener := Some 7\<rparr>" 7 "[''ab'', ''cd'', ''e'']" 3]
  by (auto simp: WebSocketClient_def Let_def)

section \<open>The authorization header fits\<close>

text \<open>Base 64 turns every three bytes, and what is left of them, into four characters.\<close>

definition b64_len :: "nat \<Rightarrow> nat" where
  "b64_len n = 4 * ((n + 2) div 3)"

lemma auth_within:
  assumes "length user + length pw \<le> 90"
  shows "lws_http_basic_auth_gen2_ocpp b64 user pw 128 =
    (case b64 (user @ '':'' @ pw) 122 of Some t \<Rightarrow> Auth_Text (''Basic '' @ t) | None \<Rightarrow> Auth_Garbage)"
proof -
  have "\<not> 128 < 6 + (4 * (length user + length pw + 1)) div 3 + 1" "\<not> length (user @ '':'') + length pw \<ge> 128 - 2"
    using assms by simp_all
  moreover have "take 127 (user @ '':'') = user @ '':''" using assms by simp
  ultimately show ?thesis by (simp only: lws_http_basic_auth_gen2_ocpp_def Let_def if_False append_assoc) simp
qed

lemma auth_beyond:
  assumes "90 < length user + length pw"
  shows "lws_http_basic_auth_gen2_ocpp b64 user pw 128 = Auth_Error 1"
proof -
  have "128 < 6 + (4 * (length user + length pw + 1)) div 3 + 1" using assms by presburger
  then show ?thesis by (simp add: lws_http_basic_auth_gen2_ocpp_def)
qed

text \<open>
  C37. The authorization header in its buffer of 128 bytes, whatever the encoder does. With more than 90 characters of user and password
  together there is no header. Otherwise user, colon and password, uncut, are given to the encoder with the 122 bytes behind
  \<^verbatim>\<open>Basic\<close>, and the second test for space never fails. That is enough for the base 64 text and its terminator except with exactly 90 characters: the
  test for space rounds down, lets them pass, and the text needs 125 bytes.
\<close>

theorem basic_auth_header:
  "lws_http_basic_auth_gen2_ocpp b64 user pw 128 =
     (if length user + length pw \<le> 90
      then (case b64 (user @ '':'' @ pw) 122 of Some t \<Rightarrow> Auth_Text (''Basic '' @ t) | None \<Rightarrow> Auth_Garbage)
      else Auth_Error 1) \<and>
   (length user + length pw \<le> 90 \<and> 122 < b64_len (length (user @ '':'' @ pw)) + 1 \<longleftrightarrow> length user + length pw = 90)"
proof -
  have "n \<le> 90 \<and> 122 < 4 * ((3 + n) div 3) + 1 \<longleftrightarrow> n = 90" for n :: nat by presburger
  from this [of "length user + length pw"] show ?thesis
    using auth_within [of user pw b64] auth_beyond [of user pw b64] by (simp add: b64_len_def)
qed

section \<open>The queue of messages\<close>

text \<open>
  The threads that call \<^verbatim>\<open>send\<close> between queueing and asking for the callback, and where the service thread is in its callback:
  before taking a message, before the test for more, after the listener was told of the connection, or returned with an
  error, which makes the library close the connection. Each other callback is one step, and so is the callback that connects, with
  the callbacks made meanwhile; it may run although there is a connection. Another thread may be in \<^verbatim>\<open>disConnect\<close>, which first announces the end and
  then takes the messages away one by one; what follows when the service thread has seen this is the subject of \<open>dc_step\<close>.
  A message that was accepted is recorded. \<open>wl_missed\<close> tells that since the service thread has last looked at the queue a call of \<^verbatim>\<open>send\<close>
  left no request to write, because there was no connection or because the library did not keep it.
\<close>

datatype cb_pc = Cb_Idle | Cb_Pop | Cb_Test | Cb_Greet | Cb_Closing

record ws_world =
  wl :: ws_client
  wl_senders :: nat
  wl_cb :: cb_pc
  wl_accepted :: "string list"
  wl_missed :: bool

definition no_writing :: "lws_callback list \<Rightarrow> bool" where
  "no_writing rs \<longleftrightarrow> LWS_CLIENT_WRITEABLE \<notin> set rs \<and> LWS_CLIENT_ESTABLISHED \<notin> set rs"

definition drain_one :: "ws_client \<Rightarrow> ws_client" where
  "drain_one w =
     (case queue_pop True (ws_queue w) of
        Some (True, Some m, q) \<Rightarrow> w\<lparr>ws_queue := q, ws_gone := ws_gone w @ [(False, m)]\<rparr>
      | _ \<Rightarrow> w)"

inductive ws_step :: "(uint16 \<Rightarrow> uint16 \<times> bool) \<Rightarrow> ws_world \<Rightarrow> ws_world \<Rightarrow> bool" for retry where
  push: "send_push m (wl s) = (True, w) \<Longrightarrow>
    ws_step retry s (s\<lparr>wl := w, wl_senders := Suc (wl_senders s), wl_accepted := wl_accepted s @ [m]\<rparr>)"
| wake: "\<lbrakk>wl_senders s = Suc n; send_wake kept (wl s) = w\<rbrakk> \<Longrightarrow>
    ws_step retry s (s\<lparr>wl := w, wl_senders := n, wl_missed := wl_missed s \<or> \<not> ws_wanted w\<rparr>)"
| writeable: "wl_cb s = Cb_Idle \<Longrightarrow> ws_step retry s (s\<lparr>wl := (wl s)\<lparr>ws_wanted := False\<rparr>, wl_cb := Cb_Pop\<rparr>)"
| pop: "\<lbrakk>wl_cb s = Cb_Pop; pop_write sent (wl s) = (r, w)\<rbrakk> \<Longrightarrow>
    ws_step retry s (s\<lparr>wl := w, wl_cb := (case r of Queue_Empty \<Rightarrow> Cb_Idle | Write_Failed \<Rightarrow> Cb_Closing | Written \<Rightarrow> Cb_Test),
      wl_missed := False\<rparr>)"
| test: "\<lbrakk>wl_cb s = Cb_Test; test_more (wl s) = (b, w)\<rbrakk> \<Longrightarrow>
    ws_step retry s (s\<lparr>wl := w, wl_cb := (if b then Cb_Idle else Cb_Pop), wl_missed := False\<rparr>)"
| connect: "\<lbrakk>wl_cb s = Cb_Idle; ws_sul (wl s); no_writing (fst (snd (conn (connect_args (wl s)))));
    connectcb retry sent dummy conn (wl s) = Value w\<rbrakk> \<Longrightarrow> ws_step retry s (s\<lparr>wl := w\<rparr>)"
| greet: "\<lbrakk>wl_cb s = Cb_Idle; ws_wsi (wl s) \<noteq> None\<rbrakk> \<Longrightarrow> ws_step retry s (s\<lparr>wl := established_begin (wl s), wl_cb := Cb_Greet\<rparr>)"
| greeted: "wl_cb s = Cb_Greet \<Longrightarrow> ws_step retry s (s\<lparr>wl := established_end (wl s), wl_cb := Cb_Idle, wl_missed := False\<rparr>)"
| event: "\<lbrakk>wl_cb s = Cb_Idle; no_writing [reason]; eventcb retry sent dummy reason (wl s) = Value (r, w)\<rbrakk> \<Longrightarrow>
    ws_step retry s (s\<lparr>wl := w\<rparr>)"
| close: "\<lbrakk>wl_cb s = Cb_Closing; eventcb retry sent dummy LWS_CLIENT_CLOSED (wl s) = Value (r, w)\<rbrakk> \<Longrightarrow>
    ws_step retry s (s\<lparr>wl := w, wl_cb := Cb_Idle\<rparr>)"
| stop: "ws_step retry s (s\<lparr>wl := disconnect_begin False (wl s)\<rparr>)"
| take_away: "ws_processEnd (wl s) \<Longrightarrow> ws_step retry s (s\<lparr>wl := drain_one (wl s)\<rparr>)"

definition ws_inv :: "ws_world \<Rightarrow> bool" where
  "ws_inv s \<longleftrightarrow> mq_enabled (ws_queue (wl s)) \<and> wl_accepted s = map snd (ws_gone (wl s)) @ mq_items (ws_queue (wl s)) \<and>
     (wl_cb s = Cb_Greet \<longrightarrow> ws_wsi (wl s) \<noteq> None) \<and>
     (mq_items (ws_queue (wl s)) \<noteq> [] \<longrightarrow> ws_wanted (wl s) \<or> wl_senders s > 0 \<or> wl_cb s \<noteq> Cb_Idle \<or> wl_missed s)"

text \<open>What of the state the queue depends on.\<close>

definition same_queue :: "ws_client \<Rightarrow> ws_client \<Rightarrow> bool" where
  "same_queue w v \<longleftrightarrow> ws_queue w = ws_queue v \<and> ws_gone w = ws_gone v \<and> ws_connected w = ws_connected v \<and> ws_wsi w = ws_wsi v \<and>
     ws_wanted w = ws_wanted v"

lemma same_queue_refl [simp]: "same_queue w w" by (simp add: same_queue_def)

lemma same_queue_trans: "\<lbrakk>same_queue u v; same_queue v w\<rbrakk> \<Longrightarrow> same_queue u w" by (simp add: same_queue_def)

lemma ws_inv_same: "\<lbrakk>ws_inv s; same_queue w (wl s)\<rbrakk> \<Longrightarrow> ws_inv (s\<lparr>wl := w\<rparr>)"
  by (simp add: ws_inv_def same_queue_def)

lemma schedule_retry_queue [simp]: "same_queue (schedule_retry retry w) w"
  by (simp add: schedule_retry_def same_queue_def split: prod.split)

lemma tell_if_queue: "same_queue (tell_if n w) w"
  by (simp add: tell_if_def same_queue_def split: option.split)

lemma tell_queue: "tell n w = Value v \<Longrightarrow> same_queue v w"
  by (auto simp: tell_def same_queue_def split: option.splits)

lemma append_queue: "appendFragmentedDate c w = Value v \<Longrightarrow> same_queue v w"
  by (auto simp: appendFragmentedDate_def Let_def same_queue_def bind_Value split: option.splits if_splits)

lemma receive_queue: "receive f l r c w = Value v \<Longrightarrow> same_queue v w"
  using tell_if_queue
  by (auto simp: receive_def bind_Value split: if_splits dest!: append_queue)
     (auto simp: same_queue_def beginFragmentedFrame_def releaseFragmentedFrame_def)

lemma drain_queue:
  "mq_enabled (ws_queue w) \<Longrightarrow>
   ws_queue (drain w) = (ws_queue w)\<lparr>mq_items := []\<rparr> \<and> ws_gone (drain w) = ws_gone w @ map (Pair False) (mq_items (ws_queue w)) \<and>
   ws_connected (drain w) = ws_connected w \<and> ws_wsi (drain w) = ws_wsi w"
proof (induction w rule: drain.induct)
  case (1 w)
  show ?case
  proof (cases "mq_items (ws_queue w)")
    case Nil
    then show ?thesis by (simp add: drain.simps [of w] queue_pop_def)
  next
    case (Cons m ms)
    then have p: "queue_pop True (ws_queue w) = Some (True, Some m, (ws_queue w)\<lparr>mq_items := ms\<rparr>)"
      using "1.prems" by (simp add: queue_pop_def)
    show ?thesis using "1.IH" [OF p] "1.prems" Cons p by (simp add: drain.simps [of w])
  qed
qed

lemma closed_inv:
  assumes "ws_inv s" "wl_cb s \<noteq> Cb_Greet" "finish_event retry dummy (client_closed (wl s)) = Value (r, w)"
  shows "ws_inv (s\<lparr>wl := w, wl_cb := Cb_Idle\<rparr>)"
proof -
  obtain w1 where w1: "tell (Note Ws_Disconnected) ((wl s)\<lparr>ws_connected := False, ws_wanted := False\<rparr>) = Value w1"
    and w: "same_queue w (drain w1)"
    using assms(3) by (auto simp: finish_event_def client_closed_def bind_Value split: if_splits)
  have "same_queue w1 ((wl s)\<lparr>ws_connected := False, ws_wanted := False\<rparr>)" using tell_queue [OF w1] .
  with w assms(1) drain_queue [of w1] show ?thesis by (simp add: ws_inv_def same_queue_def comp_def)
qed

lemma event_inv:
  assumes inv: "ws_inv s" and idle: "wl_cb s = Cb_Idle"
    and r: "no_writing [reason]" "eventcb retry sent dummy reason (wl s) = Value (r, w)"
  shows "ws_inv (s\<lparr>wl := w\<rparr>)"
proof (cases reason)
  case LWS_EVENT_WAIT_CANCELLED
  then show ?thesis using inv r(2) by (auto simp: eventcb_def ws_inv_def request_write_def split: if_splits)
next
  case LWS_CLIENT_CONNECTION_ERROR
  then obtain v where v: "same_queue w v"
      "(if \<not> ws_error_notified (wl s) then tell (Note Ws_Failed) ((wl s)\<lparr>ws_error_notified := True\<rparr>) else Value (wl s)) = Value v"
    using r(2) by (auto simp: eventcb_def finish_event_def connection_error_def bind_Value split: if_splits)
  have "same_queue v (wl s)" using v(2) tell_queue by (fastforce simp: same_queue_def split: if_splits)
  with v(1) show ?thesis using ws_inv_same [OF inv] same_queue_trans by blast
next
  case LWS_CLIENT_RECEIVE
  then show ?thesis using r(2) receive_queue ws_inv_same [OF inv] by (auto simp: eventcb_def bind_Value)
next
  case LWS_CLOSED_CLIENT_HTTP
  then show ?thesis using r(2) ws_inv_same [OF inv] by (auto simp: eventcb_def finish_event_def split: if_splits)
next
  case LWS_CLIENT_CLOSED
  then have "finish_event retry dummy (client_closed (wl s)) = Value (r, w)" using r(2) by (simp add: eventcb_def)
  from closed_inv [OF inv _ this] show ?thesis using idle by (simp add: ws_inv_def)
qed (use r inv in \<open>auto simp: eventcb_def no_writing_def\<close>)

lemma events_inv:
  "\<lbrakk>eventcbs retry sent dummy rs (wl s) = Value w; ws_inv s; wl_cb s = Cb_Idle; no_writing rs\<rbrakk> \<Longrightarrow> ws_inv (s\<lparr>wl := w\<rparr>)"
proof (induction rs arbitrary: s)
  case (Cons reason rs)
  then obtain r w1 where w1: "eventcb retry sent dummy reason (wl s) = Value (r, w1)" "eventcbs retry sent dummy rs w1 = Value w"
    by (auto simp: bind_Value)
  have "ws_inv (s\<lparr>wl := w1\<rparr>)" using event_inv [OF Cons.prems(2,3) _ w1(1)] Cons.prems(4) by (simp add: no_writing_def)
  from Cons.IH [OF _ this] show ?case using w1(2) Cons.prems(3,4) by (simp add: no_writing_def)
qed auto

lemma connect_inv:
  assumes inv: "ws_inv s" and idle: "wl_cb s = Cb_Idle" and rs: "no_writing (fst (snd (conn (connect_args (wl s)))))"
    and r: "connectcb retry sent dummy conn (wl s) = Value w"
  shows "ws_inv (s\<lparr>wl := w\<rparr>)"
proof (cases "ws_processEnd (wl s)")
  case True
  then have "same_queue w (wl s)" using r by (auto simp: connectcb_def same_queue_def)
  then show ?thesis using ws_inv_same [OF inv] by blast
next
  case False
  obtain wsi reasons ok where c: "conn (connect_args (wl s)) = (wsi, reasons, ok)" by (cases "conn (connect_args (wl s))")
  let ?w = "(wl s)\<lparr>ws_sul := False, ws_wsi := wsi\<rparr>"
  obtain w1 where w1: "eventcbs retry sent dummy reasons ?w = Value w1" "w = (if ok then w1 else schedule_retry retry w1)"
    using r False c by (auto simp: connectcb_def bind_Value)
  have "ws_inv (s\<lparr>wl := ?w\<rparr>)" using inv idle by (simp add: ws_inv_def)
  then have "ws_inv (s\<lparr>wl := w1\<rparr>)" using events_inv [of _ _ _ _ "s\<lparr>wl := ?w\<rparr>", OF _ _ _] w1(1) idle rs c by fastforce
  moreover have "same_queue w w1" using w1(2) by simp
  ultimately show ?thesis using ws_inv_same [of "s\<lparr>wl := w1\<rparr>" w] by simp
qed

lemma ws_stop_inv: "ws_inv s \<Longrightarrow> ws_inv (s\<lparr>wl := disconnect_begin False (wl s)\<rparr>)"
  by (simp add: ws_inv_def disconnect_begin_def Let_def)

lemma drain_one_inv: "ws_inv s \<Longrightarrow> ws_inv (s\<lparr>wl := drain_one (wl s)\<rparr>)"
  by (cases "mq_items (ws_queue (wl s))") (auto simp: ws_inv_def drain_one_def queue_pop_def)

lemma ws_step_inv:
  assumes "ws_step retry s s'" "ws_inv s"
  shows "ws_inv s'"
  using assms
proof cases
  case push
  then show ?thesis using assms(2) by (auto simp: ws_inv_def send_push_def queue_push_def split: if_splits)
next
  case (wake n kept w)
  then show ?thesis using assms(2) by (auto simp: ws_inv_def send_wake_def request_write_def split: if_splits)
next
  case (pop sent r w)
  then show ?thesis using assms(2)
    by (cases "mq_items (ws_queue (wl s))") (auto simp: ws_inv_def pop_write_def queue_pop_def split: if_splits)
next
  case test
  then show ?thesis using assms(2) by (auto simp: ws_inv_def test_more_def request_write_def split: if_splits)
next
  case greet
  then show ?thesis using assms(2) by (auto simp: ws_inv_def established_begin_def tell_if_def split: option.split)
next
  case greeted
  then show ?thesis using assms(2) by (auto simp: ws_inv_def established_end_def request_write_def queue_empty_def)
next
  case event
  then show ?thesis using event_inv [OF assms(2)] by blast
next
  case close
  then show ?thesis using closed_inv [OF assms(2)] by (auto simp: eventcb_def)
next
  case connect
  then show ?thesis using connect_inv [OF assms(2)] by simp
next
  case stop
  then show ?thesis using ws_stop_inv [OF assms(2)] by simp
next
  case take_away
  then show ?thesis using drain_one_inv [OF assms(2)] by simp
next
  case writeable
  then show ?thesis using assms(2) by (simp add: ws_inv_def)
qed

definition ws_begin :: "ws_client \<Rightarrow> ws_world" where
  "ws_begin w = \<lparr>wl = w, wl_senders = 0, wl_cb = Cb_Idle, wl_accepted = [], wl_missed = False\<rparr>"

text \<open>
  C36. Messages in the queue. From a client without messages, however the threads that send or disconnect, the callbacks
  and the connections follow on each other: the messages that were accepted are, in their order, those that left the queue and then those that are
  in it, so none is written twice or overtakes another. And the service thread itself forgets no message: if no thread is in the
  middle of \<^verbatim>\<open>send\<close> and no callback runs or is due, then the queue is empty, unless since the service thread has last looked at it
  a call of \<^verbatim>\<open>send\<close> has left no request to write, because there was no connection or because the library did not keep the request.
\<close>

theorem accepted_messages_leave_in_order:
  assumes "(ws_step retry)\<^sup>*\<^sup>* (ws_begin w) s" and "ws_queue w = new_queue" and "ws_gone w = []"
  shows "wl_accepted s = map snd (ws_gone (wl s)) @ mq_items (ws_queue (wl s)) \<and>
    (wl_senders s = 0 \<and> wl_cb s = Cb_Idle \<and> \<not> ws_wanted (wl s) \<and> \<not> wl_missed s \<longrightarrow> wl_accepted s = map snd (ws_gone (wl s)))"
proof -
  have "ws_inv (ws_begin w)" using assms(2,3) by (simp add: ws_inv_def ws_begin_def new_queue_def)
  with assms(1) have "ws_inv s" by (induction rule: rtranclp_induct) (auto intro: ws_step_inv)
  then show ?thesis by (auto simp: ws_inv_def)
qed

text \<open>Without a lost request, what is missed is only what is sent while there is no connection, and connecting makes up for it.\<close>

theorem established_asks_for_all:
  "let w' = established_end (established_begin w)
   in ws_connected w' \<and> (mq_items (ws_queue w) \<noteq> [] \<and> ws_wsi w \<noteq> None \<longrightarrow> ws_wanted w')"
  by (auto simp: established_end_def established_begin_def tell_if_def request_write_def queue_empty_def split: option.split)

definition sample_ws :: ws_client where
  "sample_ws = (WebSocketClient 0)\<lparr>ws_wsi := Some 1, ws_listener := Some 7\<rparr>"

theorem accepted_messages_leave_in_order_witness:
  "\<exists>s. (ws_step (\<lambda>n. (n + 1, True)))\<^sup>*\<^sup>* (ws_begin sample_ws) s \<and> ws_connected (wl s) \<and> \<not> ws_wanted (wl s) \<and>
     wl_accepted s = [''m''] \<and> map snd (ws_gone (wl s)) = [''m'']"
proof -
  let ?R = "ws_step (\<lambda>n. (n + 1, True))" and ?a = "ws_begin sample_ws" and ?sent = "\<lambda>m. int (length m)"
  note d = sample_ws_def WebSocketClient_def ws_begin_def new_queue_def
  define b where "b = ?a\<lparr>wl := established_begin (wl ?a), wl_cb := Cb_Greet\<rparr>"
  define c where "c = b\<lparr>wl := established_end (wl b), wl_cb := Cb_Idle, wl_missed := False\<rparr>"
  define e where "e = c\<lparr>wl := snd (send_push ''m'' (wl c)), wl_senders := Suc (wl_senders c), wl_accepted := wl_accepted c @ [''m'']\<rparr>"
  define f where "f = e\<lparr>wl := send_wake True (wl e), wl_senders := 0, wl_missed := False\<rparr>"
  define g where "g = f\<lparr>wl := (wl f)\<lparr>ws_wanted := False\<rparr>, wl_cb := Cb_Pop\<rparr>"
  define h where "h = g\<lparr>wl := snd (pop_write ?sent (wl g)), wl_cb := Cb_Test, wl_missed := False\<rparr>"
  define i where "i = h\<lparr>wl := snd (test_more (wl h)), wl_cb := Cb_Pop, wl_missed := False\<rparr>"
  define j where "j = i\<lparr>wl := snd (pop_write ?sent (wl i)), wl_cb := Cb_Idle, wl_missed := False\<rparr>"
  have c': "wl c = sample_ws\<lparr>ws_retry_count := 0, ws_connected := True, ws_error_notified := False, ws_notes := [(7, Note Ws_Connected)]\<rparr>"
    "wl_senders c = 0" "wl_cb c = Cb_Idle" "wl_accepted c = []"
    by (simp_all add: c_def b_def d established_begin_def established_end_def tell_if_def queue_empty_def)
  have e': "send_push ''m'' (wl c) = (True, wl e)"
    by (simp add: e_def c' send_push_def queue_push_def d SIZE_MAX_def)
  have g': "pop_write ?sent (wl g) = (Written, wl h)" "test_more (wl h) = (False, wl i)" "pop_write ?sent (wl i) = (Queue_Empty, wl j)"
    by (simp_all add: j_def i_def h_def g_def f_def e_def c' d send_push_def queue_push_def SIZE_MAX_def send_wake_def request_write_def
        pop_write_def queue_pop_def test_more_def queue_empty_def)
  have "?R ?a b" unfolding b_def by (rule ws_step.greet) (simp_all add: d)
  moreover have "?R b c" unfolding c_def by (rule ws_step.greeted) (simp add: b_def)
  moreover have "?R c e" using ws_step.push [OF e', of "\<lambda>n. (n + 1, True)"] by (simp add: e_def)
  moreover have "ws_wanted (send_wake True (wl e))" "\<not> wl_missed e"
    by (simp add: e_def c' d send_push_def queue_push_def SIZE_MAX_def send_wake_def request_write_def) (simp add: e_def c_def)
  then have "?R e f" using ws_step.wake [of e 0 True "wl f" "\<lambda>n. (n + 1, True)"] by (simp add: f_def e_def c')
  moreover have "?R f g" unfolding g_def by (rule ws_step.writeable) (simp add: f_def e_def c')
  moreover have "?R g h" using ws_step.pop [OF _ g'(1), of "\<lambda>n. (n + 1, True)"] by (simp add: h_def g_def)
  moreover have "?R h i" using ws_step.test [OF _ g'(2), of "\<lambda>n. (n + 1, True)"] by (simp add: i_def h_def)
  moreover have "?R i j" using ws_step.pop [OF _ g'(3), of "\<lambda>n. (n + 1, True)"] by (simp add: j_def i_def)
  ultimately have r: "?R\<^sup>*\<^sup>* ?a j" by (meson converse_rtranclp_into_rtranclp rtranclp.rtrancl_refl)
  have j': "ws_connected (wl j)" "ws_wsi (wl j) \<noteq> None" "wl_senders j = 0" "wl_cb j = Cb_Idle" "\<not> ws_wanted (wl j)" "\<not> wl_missed j" "wl_accepted j = [''m'']"
    by (simp_all add: j_def i_def h_def g_def f_def e_def c' d send_push_def queue_push_def SIZE_MAX_def send_wake_def request_write_def
        pop_write_def queue_pop_def test_more_def queue_empty_def)
  have start: "ws_queue sample_ws = new_queue" "ws_gone sample_ws = []" by (simp_all add: d)
  have "wl_accepted j = map snd (ws_gone (wl j))"
    using accepted_messages_leave_in_order [OF r start] j'(3-6) by blast
  then show ?thesis using r j' by (intro exI [of _ j]) simp
qed

section \<open>Reconnecting\<close>






























section \<open>A call of disConnect\<close>

lemma drain_rest: "ws_context (drain w) = ws_context w \<and> ws_processEnd (drain w) = ws_processEnd w"
proof (induction w rule: drain.induct)
  case (1 w)
  then show ?case by (subst (1 2) drain.simps) (simp split: option.split prod.split bool.split)
qed

lemma disconnect_begin_rest [simp]:
  "ws_processEnd (disconnect_begin clr w)" "ws_context (disconnect_begin clr w) = ws_context w"
  by (simp_all add: disconnect_begin_def Let_def drain_rest)

definition service_before :: "service_pc \<Rightarrow> bool" where
  "service_before sv \<longleftrightarrow> sv \<in> {Sv_Loop, Sv_Exit, Sv_Dis Dc_Test, Sv_Dis Dc_Begin, Sv_Dis Dc_Cancel, Sv_Dis Dc_Id, Sv_Dis Dc_Detach}"

fun service_side :: "service_pc \<Rightarrow> thread_obj \<Rightarrow> bool" where
  "service_side (Sv_Dis Dc_Release) t \<longleftrightarrow> t = Th_Empty"
| "service_side (Sv_Dis Dc_Destroy) t \<longleftrightarrow> t = Th_Null"
| "service_side (Sv_Dis (Dc_Done b)) t \<longleftrightarrow> t = Th_Null"
| "service_side Sv_Tell t \<longleftrightarrow> t = Th_Null"
| "service_side Sv_End t \<longleftrightarrow> t = Th_Null"
| "service_side sv t \<longleftrightarrow> service_before sv \<and> t = Th_Running"

text \<open>Where the two threads can be, when the service thread runs its loop at the beginning.\<close>

fun dc_inv :: "dc_state \<Rightarrow> bool" where
  "dc_inv Dc_Crashed \<longleftrightarrow> True"
| "dc_inv (Dc_Run pc sv t w) \<longleftrightarrow>
     (if pc \<in> {Dc_Test, Dc_Begin} then sv = Sv_Loop \<and> t = Th_Running \<and> \<not> ws_processEnd w
      else if pc \<in> {Dc_Cancel, Dc_Id, Dc_Join} then ws_processEnd w \<and> service_side sv t
      else pc = Dc_Joining \<and> ws_processEnd w \<and> service_before sv \<and> t = Th_Joining)"

lemma service_side_running: "service_side sv Th_Running \<longleftrightarrow> service_before sv"
  by (induction sv Th_Running rule: service_side.induct) (simp_all add: service_before_def)

lemma dc_inv_caller:
  assumes "dc_inv (Dc_Run pc sv t w)" "dc_move False clr (sv = Sv_End) pc (t, w) = Value (Some (pc', t', w'))"
  shows "dc_inv (Dc_Run pc' sv t' w')"
  using assms by (cases pc; cases t) (auto simp: service_side_running service_before_def split: if_splits thread_obj.splits)

lemma service_before_move:
  assumes "service_before sv" "t \<in> {Th_Running, Th_Joining}" "ws_processEnd w" "service_move sv (t, w) = Value (Some (sv', t', w'))"
  shows "ws_processEnd w' \<and> (service_before sv' \<and> t' = t \<or> sv = Sv_Dis Dc_Detach \<and> t = Th_Running \<and> sv' = Sv_Dis Dc_Release \<and> t' = Th_Empty)"
  using assms by (auto simp: service_before_def split: if_splits thread_obj.splits)

lemma service_after_move:
  assumes "service_side sv t" "\<not> service_before sv" "service_move sv (t, w) = Value (Some (sv', t', w'))"
  shows "service_side sv' t' \<and> ws_processEnd w' = ws_processEnd w"
  using assms
  by (induction sv t rule: service_side.induct)
     (auto simp: service_before_def drop_thread_def destroy_context_def tell_def bind_Value split: option.splits)

lemma dc_inv_service:
  assumes "dc_inv (Dc_Run pc sv t w)" "service_move sv (t, w) = Value (Some (sv', t', w'))"
  shows "dc_inv (Dc_Run pc sv' t' w')"
proof (cases "service_before sv")
  case True
  show ?thesis
  proof (cases "pc \<in> {Dc_Test, Dc_Begin}")
    case False
    then have "ws_processEnd w" "t = Th_Running \<and> pc \<in> {Dc_Cancel, Dc_Id, Dc_Join} \<or> t = Th_Joining \<and> pc = Dc_Joining"
      using assms(1) True by (auto simp: service_before_def split: if_splits)
    then show ?thesis using service_before_move [OF True _ _ assms(2)] by (auto simp: service_side_running)
  qed (use assms in \<open>auto split: if_splits\<close>)
next
  case False
  then show ?thesis using assms(1) service_after_move [OF _ False assms(2)] by (auto simp: service_before_def split: if_splits)
qed

lemma dc_step_inv: "\<lbrakk>dc_step False clr s s'; dc_inv s\<rbrakk> \<Longrightarrow> dc_inv s'"
  by (induction rule: dc_step.induct) (auto intro: dc_inv_caller dc_inv_service simp del: dc_inv.simps(2))

text \<open>The service thread is never blocked once it has been told to end, before it gives the thread object up.\<close>

lemma service_before_moves:
  assumes "service_before sv" "ws_processEnd w"
  shows "\<exists>s'. dc_step errs clr (Dc_Run pc sv t w) s'"
proof -
  have "service_move sv (t, w) \<noteq> Value None"
    using assms by (cases t) (auto simp: service_before_def split: if_splits)
  then show ?thesis by (cases "service_move sv (t, w)") (auto intro: dc_step.service dc_step.service_crash)
qed

lemma dc_progress:
  assumes "dc_inv (Dc_Run pc sv t w)"
  shows "\<exists>s'. dc_step errs clr (Dc_Run pc sv t w) s'"
proof (cases "pc = Dc_Joining")
  case True
  then show ?thesis using assms service_before_moves by simp
next
  case False
  then have "dc_move False clr (sv = Sv_End) pc (t, w) \<noteq> Value None"
    using assms by (cases pc; cases t) (auto split: if_splits)
  then show ?thesis
    by (cases "dc_move False clr (sv = Sv_End) pc (t, w)") (auto intro: dc_step.caller dc_step.caller_crash)
qed

text \<open>Every step brings one of the two threads nearer to its end.\<close>

fun dc_rank :: "dc_pc \<Rightarrow> nat" where
  "dc_rank Dc_Test = 9"
| "dc_rank Dc_Begin = 8"
| "dc_rank Dc_Cancel = 7"
| "dc_rank Dc_Id = 6"
| "dc_rank Dc_Join = 5"
| "dc_rank Dc_Joining = 4"
| "dc_rank Dc_Detach = 4"
| "dc_rank Dc_Release = 3"
| "dc_rank Dc_Destroy = 2"
| "dc_rank (Dc_Done b) = 1"

fun service_rank :: "service_pc \<Rightarrow> nat" where
  "service_rank Sv_Loop = 13"
| "service_rank Sv_Exit = 12"
| "service_rank (Sv_Dis pc) = 2 + dc_rank pc"
| "service_rank Sv_Tell = 2"
| "service_rank Sv_End = 1"

fun state_rank :: "dc_state \<Rightarrow> nat" where
  "state_rank Dc_Crashed = 0"
| "state_rank (Dc_Run pc sv t w) = dc_rank pc + service_rank sv"

lemma dc_move_rank: "dc_move own clr ended pc (t, w) = Value (Some (pc', t', w')) \<Longrightarrow> dc_rank pc' < dc_rank pc"
  by (cases pc; cases t) (auto split: if_splits)

lemma service_move_rank: "service_move sv (t, w) = Value (Some (sv', t', w')) \<Longrightarrow> service_rank sv' < service_rank sv"
  by (induction sv "(t, w)" rule: service_move.induct)
     (auto simp: bind_Value split: if_splits dest!: dc_move_rank simp del: dc_move.simps)

lemma dc_rank_pos: "0 < dc_rank pc" by (cases pc) simp_all

lemma dc_step_rank: "dc_step errs clr s s' \<Longrightarrow> state_rank s' < state_rank s"
  by (induction rule: dc_step.induct) (auto dest: dc_move_rank service_move_rank simp: dc_rank_pos)

lemma dc_run_rank: "(dc_step errs clr ^^ n) s s' \<Longrightarrow> n + state_rank s' \<le> state_rank s"
  by (induction n arbitrary: s') (fastforce dest: dc_step_rank)+

text \<open>
  C39. A call of \<^verbatim>\<open>disConnect\<close> while the service thread runs its loop never returns properly: the service thread leaves its loop, enters
  \<^verbatim>\<open>disConnect\<close> itself and detaches the thread object that the caller joins, or has deleted it when the caller uses it. A run has at most 22
  steps; until it ends in undefined behaviour or an exception there is always a next step, and the caller has not returned.
\<close>

theorem disconnect_never_returns:
  assumes "(dc_step False clr ^^ n) (Dc_Run Dc_Test Sv_Loop Th_Running w) s" and "\<not> ws_processEnd w"
  shows "n \<le> 22 \<and> (case s of Dc_Crashed \<Rightarrow> True | Dc_Run pc sv t v \<Rightarrow> (\<forall>b. pc \<noteq> Dc_Done b) \<and> (\<exists>s'. dc_step False clr s s'))"
proof -
  have "dc_inv s"
    using assms(1)
  proof (induction n arbitrary: s)
    case (Suc n)
    then show ?case using dc_step_inv by (metis relpowp_Suc_E)
  qed (use assms(2) in auto)
  moreover have "n \<le> 22" using dc_run_rank [OF assms(1)] by simp
  ultimately show ?thesis using dc_progress by (cases s) (auto split: if_splits)
qed

theorem disconnect_never_returns_witness:
  "\<exists>v s'. (dc_step False True ^^ Suc (Suc (Suc (Suc (Suc 0))))) (Dc_Run Dc_Test Sv_Loop Th_Running (sample_ws\<lparr>ws_context := Some 2, ws_thread := True\<rparr>))
     (Dc_Run Dc_Joining Sv_Loop Th_Joining v) \<and> dc_step False True (Dc_Run Dc_Joining Sv_Loop Th_Joining v) s'"
proof -
  let ?w = "sample_ws\<lparr>ws_context := Some 2, ws_thread := True\<rparr>" and ?R = "dc_step False True"
  let ?v = "disconnect_begin True ?w"
  have "?R (Dc_Run Dc_Test Sv_Loop Th_Running ?w) (Dc_Run Dc_Begin Sv_Loop Th_Running ?w)" by (rule dc_step.caller) simp
  moreover have "?R (Dc_Run Dc_Begin Sv_Loop Th_Running ?w) (Dc_Run Dc_Cancel Sv_Loop Th_Running ?v)" by (rule dc_step.caller) simp
  moreover have "?R (Dc_Run Dc_Cancel Sv_Loop Th_Running ?v) (Dc_Run Dc_Id Sv_Loop Th_Running ?v)" by (rule dc_step.caller) simp
  moreover have "?R (Dc_Run Dc_Id Sv_Loop Th_Running ?v) (Dc_Run Dc_Join Sv_Loop Th_Running ?v)" by (rule dc_step.caller) simp
  moreover have "?R (Dc_Run Dc_Join Sv_Loop Th_Running ?v) (Dc_Run Dc_Joining Sv_Loop Th_Joining ?v)" by (rule dc_step.caller) simp
  ultimately have r: "(?R ^^ Suc (Suc (Suc (Suc (Suc 0))))) (Dc_Run Dc_Test Sv_Loop Th_Running ?w) (Dc_Run Dc_Joining Sv_Loop Th_Joining ?v)"
    by (meson relpowp_0_I relpowp_Suc_I)
  have "\<not> ws_processEnd ?w" by (simp add: sample_ws_def WebSocketClient_def)
  from disconnect_never_returns [OF r this] r show ?thesis by (simp only: dc_state.case) blast
qed

text \<open>When the service thread has ended because the library reported an error, the call does what \<^const>\<open>disConnect\<close> says.\<close>

theorem disconnect_after_error:
  assumes "ws_thread w" "ws_context w \<noteq> None"
  shows "(dc_step errs clr)\<^sup>*\<^sup>* (Dc_Run Dc_Test Sv_End Th_Running w) (Dc_Run (Dc_Done True) Sv_End Th_Null (snd (disConnect clr w)))"
proof -
  let ?R = "dc_step errs clr" and ?v = "disconnect_begin clr w"
  have "?R (Dc_Run Dc_Test Sv_End Th_Running w) (Dc_Run Dc_Begin Sv_End Th_Running w)" by (rule dc_step.caller) simp
  moreover have "?R (Dc_Run Dc_Begin Sv_End Th_Running w) (Dc_Run Dc_Cancel Sv_End Th_Running ?v)" by (rule dc_step.caller) simp
  moreover have "?R (Dc_Run Dc_Cancel Sv_End Th_Running ?v) (Dc_Run Dc_Id Sv_End Th_Running ?v)" using assms by (intro dc_step.caller) simp
  moreover have "?R (Dc_Run Dc_Id Sv_End Th_Running ?v) (Dc_Run Dc_Join Sv_End Th_Running ?v)" by (rule dc_step.caller) simp
  moreover have "?R (Dc_Run Dc_Join Sv_End Th_Running ?v) (Dc_Run Dc_Joining Sv_End Th_Joining ?v)" by (rule dc_step.caller) simp
  moreover have "?R (Dc_Run Dc_Joining Sv_End Th_Joining ?v) (Dc_Run Dc_Release Sv_End Th_Empty ?v)" by (rule dc_step.caller) simp
  moreover have "?R (Dc_Run Dc_Release Sv_End Th_Empty ?v) (Dc_Run Dc_Destroy Sv_End Th_Null (drop_thread ?v))" by (rule dc_step.caller) simp
  moreover have "?R (Dc_Run Dc_Destroy Sv_End Th_Null (drop_thread ?v)) (Dc_Run (Dc_Done True) Sv_End Th_Null (snd (disConnect clr w)))"
    using assms by (intro dc_step.caller) (simp add: disConnect_def)
  ultimately show ?thesis by (meson converse_rtranclp_into_rtranclp rtranclp.rtrancl_refl)
qed

end
