(* ===== verification/File_Utils.thy ===== *)
theory File_Utils
  imports Candump
begin

text \<open>
  The file helpers of \<^verbatim>\<open>src/src/utils/file_utils.c\<close> (the directory part of a path is in \<open>Utils\<close>), and how the CAN logger
  of \<^verbatim>\<open>src/src/utils/my_candump.c\<close> opens its file and its socket and starts its threads. What the operating
  system answers is an argument; a byte is a character. \<open>PCU_ERR\<close> and \<open>PCU_ERR_SUCCESS\<close> are -1 and 0.
\<close>

section \<open>Files\<close>

text \<open>What \<^verbatim>\<open>stat\<close> knows of a path: whether it is a directory, and its size.\<close>

type_synonym stat_result = "string \<Rightarrow> (bool \<times> int) option"

definition file_size :: "stat_result \<Rightarrow> string option \<Rightarrow> uint32" where
  "file_size st path =
     (case path of
        None \<Rightarrow> 0
      | Some p \<Rightarrow> (case st p of Some (_, sz) \<Rightarrow> word_of_int sz | None \<Rightarrow> 0))"

definition file_exist :: "(string \<Rightarrow> bool) \<Rightarrow> string \<Rightarrow> bool" where
  "file_exist accessible path = (if accessible path then True else False)"

definition is_directory :: "stat_result \<Rightarrow> string \<Rightarrow> bool" where
  "is_directory st path = (case st path of None \<Rightarrow> False | Some (d, _) \<Rightarrow> d)"

text \<open>
  An open file: whether seeking works, what \<^verbatim>\<open>ftell\<close> returns, and what \<^verbatim>\<open>fread\<close> of a number of bytes yields. The
  result is the code, with the buffer and the length that are handed out.
\<close>

record open_file_t =
  of_seek :: bool
  of_tell :: int
  of_read :: "nat \<Rightarrow> string"

definition get_file_data ::
  "(string \<Rightarrow> open_file_t option) \<Rightarrow> bool \<Rightarrow> string option \<Rightarrow> bool \<Rightarrow> bool \<Rightarrow> int \<times> (string \<times> uint32) option" where
  "get_file_data fopen malloc_ok path data_ok len_ok =
     (case path of
        None \<Rightarrow> (- 1, None)
      | Some p \<Rightarrow>
          if \<not> data_ok \<or> \<not> len_ok then (- 1, None)
          else (case fopen p of
             None \<Rightarrow> (- 1, None)
           | Some f \<Rightarrow>
               if \<not> of_seek f then (- 1, None)
               else let fSize = word_of_int (of_tell f) :: uint32
                    in if fSize \<le> 0 then (- 1, None)
                       else if \<not> malloc_ok then (- 1, None)
                       else let bytes = of_read f (unat fSize); readSize = of_nat (length bytes) :: uint32
                            in if readSize \<le> 0 then (- 1, None)
                               else (0, Some (bytes @ replicate (unat fSize - length bytes) (CHR 0x00), readSize))))"

text \<open>The commands that are handed to a shell; \<open>popen\<close> says whether it could be started.\<close>

definition copy_command :: "string \<Rightarrow> string \<Rightarrow> string" where
  "copy_command dst src = ''cp '' @ src @ '' '' @ dst"

definition move_command :: "string \<Rightarrow> string \<Rightarrow> string" where
  "move_command dst src = ''mv '' @ src @ '' '' @ dst"

definition remove_command :: "string \<Rightarrow> string" where
  "remove_command dst = ''rm '' @ dst"

definition file_copy :: "(string \<Rightarrow> bool) \<Rightarrow> string \<Rightarrow> string \<Rightarrow> bool" where
  "file_copy popen dst src = (if \<not> popen (copy_command dst src) then False else True)"

definition file_move :: "(string \<Rightarrow> bool) \<Rightarrow> string \<Rightarrow> string \<Rightarrow> bool" where
  "file_move popen dst src = (if \<not> popen (move_command dst src) then False else True)"

definition file_remove :: "(string \<Rightarrow> bool) \<Rightarrow> string \<Rightarrow> bool" where
  "file_remove popen dst = (if \<not> popen (remove_command dst) then False else True)"

text \<open>\<^verbatim>\<open>sscanf\<close> with \<^verbatim>\<open>%ld\<close>: white space, a sign, digits.\<close>

definition is_space :: "char \<Rightarrow> bool" where
  "is_space c \<longleftrightarrow> c \<in> {CHR '' '', CHR 0x09, CHR 0x0A, CHR 0x0B, CHR 0x0C, CHR 0x0D}"

definition decimal :: "string \<Rightarrow> nat option" where
  "decimal s =
     (let ds = takeWhile (\<lambda>c. of_char c \<ge> (48 :: nat) \<and> of_char c \<le> (57 :: nat)) s
      in if ds = [] then None else Some (foldl (\<lambda>n c. 10 * n + (of_char c - 48)) 0 ds))"

definition scan_long :: "string \<Rightarrow> int option" where
  "scan_long s =
     (case dropWhile is_space s of
        [] \<Rightarrow> None
      | c # cs \<Rightarrow> if c = CHR ''-'' then map_option (\<lambda>n. - int n) (decimal cs)
                  else if c = CHR ''+'' then map_option int (decimal cs) else map_option int (decimal (c # cs)))"

definition du_command :: "string \<Rightarrow> string" where
  "du_command path = snprintf_buf 512 (''du -s '' @ path @ '' | awk '' @ [CHR 0x27] @ ''{print $1}'' @ [CHR 0x27])"

text \<open>
  \<open>output\<close> is what the command prints. A number that does not fit is undefined (\<^const>\<open>None\<close>), and so is an output that
  fills the buffer, which is then not terminated.
\<close>

definition dir_size :: "(string \<Rightarrow> string option) \<Rightarrow> string \<Rightarrow> int option" where
  "dir_size output path =
     (case output (du_command path) of
        None \<Rightarrow> Some (- 1)
      | Some out \<Rightarrow>
          let buf = take 128 out
          in if buf = [] then Some (- 1)
             else if length buf = 128 then None
             else (case scan_long buf of
                     None \<Rightarrow> Some (- 1)
                   | Some n \<Rightarrow> if - (2 ^ 63) \<le> n \<and> n < 2 ^ 63 then Some n else None))"

text \<open>
  A file that is not empty and has less than four gigabytes is read completely; the length of a larger one is taken modulo four
  gigabytes, and so much of it is read. An error of \<^verbatim>\<open>ftell\<close> is not noticed.
\<close>

definition regular :: "string \<Rightarrow> open_file_t" where
  "regular c = \<lparr>of_seek = True, of_tell = int (length c), of_read = (\<lambda>n. take n c)\<rparr>"

theorem get_file_data_reads:
  assumes "fopen p = Some (regular c)"
  shows "get_file_data fopen True (Some p) True True =
    (let n = length c mod 2 ^ 32 in if n = 0 then (- 1, None) else (0, Some (take n c, of_nat n)))"
proof -
  let ?z = "word_of_int (int (length c)) :: uint32"
  have u: "unat ?z = length c mod 2 ^ 32" by (simp add: unat_of_nat take_bit_eq_mod)
  then have "?z \<le> 0 \<longleftrightarrow> length c mod 2 ^ 32 = 0" by (simp add: word_le_nat_alt)
  moreover have "length (take (length c mod 2 ^ 32) c) = length c mod 2 ^ 32" by (simp add: min_def)
  moreover have "(of_nat (length c mod 2 ^ 32) :: uint32) \<le> 0 \<longleftrightarrow> length c mod 2 ^ 32 = 0"
    by (simp add: word_le_nat_alt unat_of_nat take_bit_eq_mod)
  ultimately show ?thesis
    unfolding get_file_data_def Let_def option.case assms by (simp only: u regular_def open_file_t.simps) simp
qed

theorem small_file_is_read:
  assumes "fopen p = Some (regular c)" and "c \<noteq> []" and "length c < 2 ^ 32"
  shows "get_file_data fopen True (Some p) True True = (0, Some (c, of_nat (length c)))"
  using get_file_data_reads [of fopen p c] assms by simp

lemma failed_ftell_unnoticed:
  assumes "fopen p = Some \<lparr>of_seek = True, of_tell = - 1, of_read = (\<lambda>n. ''x'')\<rparr>"
  shows "fst (get_file_data fopen True (Some p) True True) = 0"
  using assms by (simp add: get_file_data_def word_le_nat_alt Let_def unat_gt_0)

text \<open>A name that holds a shell command is run.\<close>

lemma copy_runs_command: "copy_command ''b'' ''a; reboot; echo'' = ''cp a; reboot; echo b''"
  by (simp add: copy_command_def)

lemma dir_size_example: "dir_size (\<lambda>_. Some (''42'' @ [CHR 0x0A])) ''/var'' = Some 42"
  by (simp add: dir_size_def scan_long_def is_space_def decimal_def)

section \<open>Starting the CAN logger\<close>

definition open_file :: "bool \<Rightarrow> bool \<Rightarrow> (string \<Rightarrow> bool) \<Rightarrow> string option \<Rightarrow> string option \<Rightarrow> string option" where
  "open_file is_dir mkdir_ok fopen log_path log_name =
     (case (log_path, log_name) of
        (Some p, Some n) \<Rightarrow>
          if \<not> is_dir \<and> \<not> mkdir_ok then None
          else let target_path = snprintf_buf 256 (p @ ''/'' @ n)
               in if fopen target_path then Some target_path else None
      | _ \<Rightarrow> None)"

record dump_start =
  du_file :: "string option"
  du_socket :: bool
  du_writer :: bool
  du_reader :: bool

text \<open>
  The results of the system calls, in the order in which they are made. The name of the interface goes into a field of 16
  bytes; a longer one is undefined (\<^const>\<open>None\<close>). The result says what is left: the log file, an open socket, the two threads.
\<close>

record dump_calls =
  dcl_socket :: bool
  dcl_fcntl :: bool
  dcl_ioctl :: bool
  dcl_bind :: bool
  dcl_malloc :: bool

definition dy_candump :: "string option \<Rightarrow> dump_calls \<Rightarrow> string \<Rightarrow> dump_start option" where
  "dy_candump g_fd c can_name =
     (let s = \<lparr>du_file = g_fd, du_socket = False, du_writer = False, du_reader = False\<rparr>; t = s\<lparr>du_socket := True\<rparr>
      in if \<not> dcl_socket c then Some s
         else if \<not> dcl_fcntl c then Some s
         else if length can_name \<ge> 16 then None
         else if \<not> dcl_ioctl c then Some s
         else if \<not> dcl_bind c then Some t
         else if \<not> dcl_malloc c then Some (t\<lparr>du_writer := True\<rparr>)
         else Some (t\<lparr>du_writer := True, du_reader := True\<rparr>))"

text \<open>
  The reader starts exactly if every call succeeds, whether or not there is a file to write to. A socket is left open without a reader
  exactly if the last step but one, binding, or the last, the allocation, fails.
\<close>

theorem dy_candump_resources:
  assumes "dy_candump g_fd c can_name = Some s"
  shows "(du_reader s \<longleftrightarrow> dcl_socket c \<and> dcl_fcntl c \<and> dcl_ioctl c \<and> dcl_bind c \<and> dcl_malloc c) \<and> du_file s = g_fd \<and>
    (du_socket s \<and> \<not> du_reader s \<longleftrightarrow> dcl_socket c \<and> dcl_fcntl c \<and> dcl_ioctl c \<and> \<not> (dcl_bind c \<and> dcl_malloc c))"
  using assms by (auto simp: dy_candump_def Let_def split: if_splits)

end
