(* ===== verification/Spec2Isabelle.thy ===== *)
theory Spec2Isabelle
  imports Priority_Queue_Correct Utils Module_Queue Can Timer Lru Candump Config_Merge Fcgi Event_Loop
    Timer_Pool Ocpp_Enums Ocpp_Message Url Connect_Info Ocpp_Client Ocpp_Auth Thread_Pool Db_Executor
    Status_Notification Connector_Table Charge_Point Web_Socket File_Utils
begin

text \<open>
  Verification of the programs under \<^verbatim>\<open>src/src\<close>: a controller for DC power modules on a CAN bus with its
  timers, caches, configuration, database and web interface, and an OCPP 1.6 charge point.

  \<^bold>\<open>The program's parts.\<close> The C part sends commands to power modules. A setter of \<^verbatim>\<open>can/can.c\<close> builds a CAN frame
  and puts it, as a task, into the queue of its module (\<^verbatim>\<open>can/module_queue_manager.c\<close>); a dispatcher thread moves
  one task per module and round into the queue of a pool, whose worker sends the frames by priority. All these queues are
  the priority queue of \<^verbatim>\<open>utils/priority_queue\<close>. Beside it stand timers driven by \<^verbatim>\<open>select\<close> (\<^verbatim>\<open>utils/timer.c\<close>), an
  LRU cache (\<^verbatim>\<open>utils/cache\<close>), a CAN logger with a double buffer (\<^verbatim>\<open>utils/my_candump.c\<close>), a store of JSON
  configurations (\<^verbatim>\<open>config\<close>), an SQLite access layer (\<^verbatim>\<open>database\<close>: prepared statements kept in the LRU cache,
  templates that run them, the relay counter table, retention policies), a FastCGI server that reads and writes the relay
  counters (\<^verbatim>\<open>fcgi\<close>) and the beginnings of an event loop (\<^verbatim>\<open>peventloop\<close>). The C++ part (\<^verbatim>\<open>ocpp\<close>) is the charge
  point: a client that exchanges calls and answers with a central system, the authorization cache and list, the
  connectors with their state machine, a timer pool, a thread pool and an executor thread for its database.

  \<^bold>\<open>Theories, and the sources they model.\<close>
  \<^item> \<open>Prelude\<close>: machine types, error codes, lists as arrays, lemma collections.
  \<^item> \<open>Priority_Queue\<close>, \<open>Priority_Queue_Correct\<close>: \<^verbatim>\<open>priority_queue.c\<close>. The heap is a list with a fill count; a
    comparison function is an argument. \<open>key_compare\<close> states when a comparison orders by a key, \<open>bounded_pqueue\<close> is the
    abstract bag; the three comparisons of the source are interpretations. Push and pop keep the heap; popping
    everything sorts; the condition variable is a step relation without lost wake-ups.
  \<^item> \<open>Utils\<close>: \<^verbatim>\<open>utils.c\<close> and \<^verbatim>\<open>file_utils.c\<close> (clock, byte order, log lines, recursive directory creation).
  \<^item> \<open>Module_Queue\<close>, \<open>Can\<close>: \<^verbatim>\<open>module_queue_manager.c\<close>, \<^verbatim>\<open>can.c\<close>. Identifiers and frames are words and bytes, with the
    layout of bit-fields of either byte order;
    duplicate tasks are dropped; the dispatcher conserves tasks; the worker sends by priority.
  \<^item> \<open>Linked_List\<close>, \<open>Timer\<close>: \<^verbatim>\<open>timer.c\<close> on a heap of linked nodes; which timers fire, how often, and the time
    to sleep; the unlocked writes and the locked sections of calls from several threads (\<open>tc_step\<close>) keep the list well-formed.
  \<^item> \<open>Utlist\<close>, \<open>Lru\<close>: the list macros of \<^verbatim>\<open>uthash/utlist.h\<close> behind the locale \<open>recency_list\<close>, and \<^verbatim>\<open>lru.c\<close> as a
    refinement of a list of key-value pairs with a budget.
  \<^item> \<open>Candump\<close>, \<open>File_Utils\<close>: \<^verbatim>\<open>my_candump.c\<close>: log lines, double buffer, reader and writer rounds, starting; the
    other functions of \<^verbatim>\<open>file_utils.c\<close>.
  \<^item> \<open>Config\<close>, \<open>Json_Tree\<close>, \<open>Config_Merge\<close>: \<^verbatim>\<open>config_manage.c\<close> and \<^verbatim>\<open>config_cmp_key.c\<close>: defaults, current values,
    files, notification, and the merge of a stored value into a template.
  \<^item> \<open>Sql_View\<close>, \<open>Prepared_Stmt\<close>, \<open>Template\<close>, \<open>Retention\<close>, \<open>Relay_Dao\<close>, \<open>Dal\<close>: \<^verbatim>\<open>database/\<close>. The statement cache
    refines a cache of texts; the templates return their statement on every path; batches, options and policies.
  \<^item> \<open>Api_Code\<close>, \<open>Fcgi\<close>: \<^verbatim>\<open>fcgi/\<close>: codes, routing, both handlers, the server loop.
  \<^item> \<open>Event_Loop\<close>: \<^verbatim>\<open>peventloop/\<close>: creation, resizing, close-on-exec, clock.
  \<^item> \<open>Timer_Pool\<close>: \<^verbatim>\<open>ocpp/tool/timer\<close>, every critical section a step of \<open>pool_step\<close>, and the parts of
    \<^verbatim>\<open>stopAllTimers\<close> and the destructor steps of \<open>pool_run\<close>.
  \<^item> \<open>Bidirectional_Map\<close>, \<open>Ocpp_Enums\<close>: the name tables; the locale \<open>enum_table\<close> is interpreted by all 39 of them.
  \<^item> \<open>Ocpp_Message\<close>: JSON values, validation of frames, order numbers, the blocking queue (locale \<open>fifo\<close>).
  \<^item> \<open>Url\<close>, \<open>Connect_Info\<close>: \<^verbatim>\<open>ocpp/tool/url\<close> and the connection parameters.
  \<^item> \<open>Ocpp_Client\<close>: \<^verbatim>\<open>OCPPClient.cpp\<close>: \<open>client_step\<close> interleaves callers, sending threads, retry thread and receiver.
  \<^item> \<open>Ocpp_Auth\<close>: authorization cache and local list on the query class.
  \<^item> \<open>Web_Socket\<close>: \<^verbatim>\<open>websock_client.cpp\<close>: connecting and reconnecting (\<open>outage_step\<close>), the queue of messages and its
    callbacks (\<open>ws_step\<close>), fragments, the authorization header, and \<^verbatim>\<open>disConnect\<close> with the service thread (\<open>dc_step\<close>).
  \<^item> \<open>Thread_Pool\<close>: \<^verbatim>\<open>ocpp/tool/threadpool\<close>: enqueueing, workers and destructor as steps of one relation; every task
    that was put there is taken exactly once, in order, also when the pool is destroyed.
  \<^item> \<open>Db_Executor\<close>: \<^verbatim>\<open>ocpp/tool/database/DBExecutor.h\<close> and \<^verbatim>\<open>DataBase.cpp\<close>: the jobs run one after another; a job that
    waits for another job does not return.
  \<^item> \<open>Status_Notification\<close>: \<^verbatim>\<open>ocpp/action/status\<close>: the request and the answer.
  \<^item> \<open>Connectors\<close>, \<open>Connector_Table\<close>: \<^verbatim>\<open>ocpp/Connector\<close>: the table of status changes, the operations on the connectors,
    the notifications they hand to the thread pool, and what a restart loads from the database.
  \<^item> \<open>Config_Manager\<close>, \<open>Client_Config\<close>: \<^verbatim>\<open>ocpp/config\<close>: defaults, check and merge of the files, reading and changing by
    paths, differences and subscriptions; and that the client accepts the configuration that results.
  \<^item> \<open>Charge_Point\<close>: \<^verbatim>\<open>ocpp/ChargePoint.cpp\<close> and \<^verbatim>\<open>ocpp/tool/jsonValidator\<close>: the three initialisation functions, schemas.
  \<^item> This theory: properties that span components.

  \<^bold>\<open>Conventions.\<close> A mutex section is one atomic step, and so are the writes of an operation outside of it; where the interleaving matters, the steps form an inductive
  relation, and a wait on a condition variable is a state of its own. NULL is \<^const>\<open>None\<close>. Allocation and system
  call outcomes are arguments, so that both outcomes are covered. Undefined behaviour, a failed assertion and a call that
  never returns are values (\<^const>\<open>None\<close>, \<^const>\<open>Abort\<close>, \<^const>\<open>Undefined\<close>), so a claim that an operation returns is a claim
  about the value. Sizes are those of an LP64 host. Integers that wrap in the code are words of their width; points in
  time and row counts are unbounded.

  \<^bold>\<open>Fuel.\<close> \<open>task_work\<close> counts the rounds of the worker thread, and its properties state how many rounds are enough (one
  more than the messages that wait). Loops over SQLite results that may not end are \<^verbatim>\<open>partial_function\<close>s whose result
  \<^const>\<open>None\<close> is not returning; that they return is proved from the laws of the engine.

  \<^bold>\<open>What the code relies on and is not part of it\<close> is a parameter with its documented behaviour as named hypotheses:
  SQLite (\<^verbatim>\<open>'d sqlite3\<close> with \<open>sql_engine\<close>, \<open>rows_end\<close>, \<open>close_engine\<close>, \<open>ddl_engine\<close>; \<^verbatim>\<open>'d query_engine\<close> with
  \<open>cache_engine\<close>, \<open>list_engine\<close>, \<open>conn_engine\<close>), the JSON libraries (\<open>cjson_ok\<close>, \<open>tree_ok\<close>, \<open>read_ok\<close>; for RapidJSON
  the parser, the writer and the schema check), the contents of configuration and schema files, FastCGI,
  \<^verbatim>\<open>inet_pton\<close>, libwebsockets (\<open>retry_doc\<close>). Every such hypothesis is shown to be
  satisfiable by the witness of the property that has it.

  \<^bold>\<open>Not modelled, and why.\<close> Vendored headers under \<^verbatim>\<open>src/include\<close> apart from the macros and types used; files, sockets and
  threads as operating system objects (\<^verbatim>\<open>tcp/ccu.c\<close>); the loop thread of the data access
  layer and \<^verbatim>\<open>sql_trace.c\<close>, which only log; \<^verbatim>\<open>init.c\<close>, \<^verbatim>\<open>main.cpp\<close>, which only call; the demonstrations of design patterns
  in \<^verbatim>\<open>mode/\<close>; of the charge point conversions of dates by the C
  library, the binding and reading of floating point columns, the headers that only declare structures and interfaces
  (\<^verbatim>\<open>action/transaction\<close>, \<^verbatim>\<open>interface\<close>, \<^verbatim>\<open>Action.h\<close>).
\<close>

subsection \<open>A command from the setter to the bus\<close>

lemma idle_queue:
  assumes "mgr_wf m" and "mgr_tasks m = {#}"
  obtains q where "queues m ! 4 = Some q" "item_keys q = []" "pq_size q = 0"
proof -
  obtain q where q: "queues m ! 4 = Some q" "module_queue_ok q" using mgr_wfD [OF assms(1), of 4] by (auto simp: MODULE_COUNT_def)
  moreover have "queue_tasks (Some q) = {#}" using queue_tasks_le [OF assms(1), of 4] assms(2) q(1) by simp
  then have "pq_items q = []" by (simp add: queue_tasks_def)
  ultimately show thesis using that by (auto simp: item_keys_def pq_items_def pq_wf_def module_queue_ok_def)
qed

lemma worker_single:
  assumes "pq_inv mx_key mx_ok max_heap_compare q" and "pq_items q = [x]" and "has_callback x"
  shows "\<exists>q'. task_work (Suc (Suc n)) now (Some q) [] = (Waiting, Some q', [msg_event x]) \<and> pq_items q' = []"
proof -
  have "pq_size q = 1" using assms(1,2) by (auto simp: pq_inv_def pq_wf_def pq_items_def dest!: arg_cong [of _ _ length])
  then show ?thesis using task_work_drains [OF assms(1), of "Suc (Suc n)" now "[]"] assms(2,3) by auto
qed

text \<open>
  C40. From the setter to the bus. On an idle system (no task in any module queue, an empty pool queue
  with twelve slots at least), when every allocation succeeds, one round of the dispatcher thread
  followed by the worker sends exactly one frame, through the sending callback: the set command for
  register 0x1B with 100 A in units of 1/1024 A, addressed point to point to module 5. Both the module
  queues and the pool queue are empty again, and the worker waits.
\<close>

theorem command_reaches_bus:
  assumes "mgr_wf m" and "mgr_tasks m = {#}" and "pq_inv mx_key mx_ok max_heap_compare q" and "pq_items q = []"
    and "12 \<le> pq_capacity q"
  shows "\<exists>m' q' q'' f. module_queue_task_thread host True garbage True True (\<lambda>_. True) stamp now (Some m) (Some q) =
       Inr (Some m', Some q') \<and> mgr_wf m' \<and> mgr_tasks m' = {#} \<and>
     task_work (Suc (Suc n)) clock (Some q') [] = (Waiting, Some q'', [(Dcdc_send_encapsulation, f)]) \<and> pq_items q'' = [] \<and>
     decode_set_frame f = (3, 0x1B, 102400) \<and>
     take_bit 29 (can_id f) = can_id_fill_dst host \<lparr>ptp = 1, dst = 5, group = 0\<rparr>"
proof -
  let ?p = "\<lparr>ptp = 1, dst = 5, group = 0\<rparr>"
  let ?t = "set_cur_task host garbage ?p (word_of_int \<lfloor>(100 :: rat) * 1024\<rfloor>)"
  obtain q4 where q4: "queues m ! 4 = Some q4" "item_keys q4 = []" "pq_size q4 = 0" using idle_queue [OF assms(1,2)] .
  obtain m1 where m1: "set_mode_out_cur host True garbage True True (stamp 12) (now 12) (Some m) ?p 100 = Inr (Some m1)"
    "mgr_wf m1" "mgr_tasks m1 = {#Some ?t#}"
    using set_mode_out_cur_pushes [OF assms(1) q4(1), of 100 host garbage "stamp 12" "now 12" ?p] q4(2,3) assms(2) by auto
  obtain d where d: "data ?t = Some d" "decode_set_frame (frame d) = (3, 0x1B, 102400)"
    "take_bit 29 (can_id (frame d)) = can_id_fill_dst host ?p"
    using set_cur_task_frame [of 100 host garbage ?p] low_bits_id [of host ?p] by (auto simp: group_broadcast_def)
  have "data ?t \<noteq> None" using d(1) by simp
  from sweep_single [OF m1(2,3) this assms(3-5), of stamp now] obtain m' q' x where
    r: "sweep (\<lambda>_. True) stamp now [0..<12] (Some m1) (Some q) = Inr (Some m', Some q')"
      "mgr_wf m'" "mgr_tasks m' = {#}" "pq_inv mx_key mx_ok max_heap_compare q'" "pq_items q' = [x]" "pv_value x = pool_msg ?t"
    by blast
  have x: "has_callback x" "msg_event x = (Dcdc_send_encapsulation, frame d)"
    using r(6) d(1) by (simp_all add: pool_msg_def has_callback_def msg_event_def)
  show ?thesis
    using worker_single [OF r(4,5) x(1), of n clock] m1(1) r(1-3) d(2,3) x(2)
    by (auto simp: module_queue_task_thread_def)
qed

theorem command_reaches_bus_witness:
  "\<exists>m' q' q'' f. module_queue_task_thread LittleEndian True None True True (\<lambda>_. True) (\<lambda>_. 0) (\<lambda>_ _. 0)
       (Some sample_mgr) (Some (sample_pool [])) = Inr (Some m', Some q') \<and>
     task_work 2 (\<lambda>_ _. 0) (Some q') [] = (Waiting, Some q'', [(Dcdc_send_encapsulation, f)]) \<and>
     decode_set_frame f = (3, 0x1B, 102400)"
proof -
  have "pq_inv mx_key mx_ok max_heap_compare (sample_pool [])" "pq_items (sample_pool []) = []" "12 \<le> pq_capacity (sample_pool [])"
    by (simp_all add: pq_inv_def sample_pool_wf) (simp_all add: sample_pool_def pq_items_def elems_def heap_upto_def)
  then show ?thesis
    using command_reaches_bus [OF sample_mgr_wf sample_mgr_tasks(1), of "sample_pool []" LittleEndian None "\<lambda>_. 0" "\<lambda>_ _. 0" 0 "\<lambda>_ _. 0"]
    by (simp add: numeral_2_eq_2) blast
qed

end
